(* ===== verification/Snake_Prelude.thy ===== *)
theory Snake_Prelude
  imports Main "HOL-Library.Word" "HOL-Library.Monad_Syntax"
begin

text \<open>
  Shared vocabulary of the SnakeSocks development: the machine integers of the C and C++
  sources (\<open>byte\<close>, \<open>u16\<close>, \<open>u32\<close>, \<open>u64\<close>), byte strings, the byte order of the host and the
  object representation of a word in memory, the C library's byte-order functions, and
  the generic lemmas on lists and on exclusive or that the component theories use.

  \<^item> \<open>word_of_le\<close> / \<open>le_of_word\<close>: a word from and to its little-endian bytes, inverse to
    each other when the widths agree.
  \<^item> \<open>mem_of_word\<close> / \<open>word_of_mem\<close>: the bytes a word occupies in the memory of a host of
    the given \<open>endian\<close>; what \<open>memcpy\<close>, a pointer cast or a socket write sees.
  \<^item> \<open>hton\<close>: \<open>htonl\<close>, \<open>ntohl\<close>, \<open>htons\<close>, \<open>ntohs\<close> of the C library.
\<close>

unbundle bit_operations_syntax

section \<open>Types\<close>

type_synonym byte = "8 word"
type_synonym u16 = "16 word"
type_synonym u32 = "32 word"
type_synonym u64 = "64 word"
type_synonym bytes = "byte list"

text \<open>A C string literal or a \<open>std::string\<close> as the bytes of its characters.\<close>

definition bytes_of_string :: "string \<Rightarrow> bytes" where
  "bytes_of_string s = map of_char s"

text \<open>The byte order of the host the program runs on.\<close>

datatype endian = Little_Endian | Big_Endian

text \<open>\<open>std::to_string\<close>.\<close>

fun to_string :: "nat \<Rightarrow> string" where
  "to_string n =
     (if n < 10 then [char_of (48 + n)]
      else to_string (n div 10) @ [char_of (48 + n mod 10)])"

declare to_string.simps [simp del]

definition int_to_string :: "int \<Rightarrow> string" where
  "int_to_string i = (if i < 0 then ''-'' @ to_string (nat (- i)) else to_string (nat i))"

section \<open>Words and their bytes\<close>

fun word_of_le :: "bytes \<Rightarrow> 'a::len word" where
  "word_of_le [] = 0"
| "word_of_le (b # bs) = ucast b OR push_bit 8 (word_of_le bs)"

definition le_of_word :: "nat \<Rightarrow> 'a::len word \<Rightarrow> bytes" where
  "le_of_word n w = map (\<lambda>i. ucast (drop_bit (8 * i) w)) [0..<n]"

definition mem_of_word :: "endian \<Rightarrow> nat \<Rightarrow> 'a::len word \<Rightarrow> bytes" where
  "mem_of_word e n w = (case e of Little_Endian \<Rightarrow> le_of_word n w | Big_Endian \<Rightarrow> rev (le_of_word n w))"

definition word_of_mem :: "endian \<Rightarrow> bytes \<Rightarrow> 'a::len word" where
  "word_of_mem e bs = (case e of Little_Endian \<Rightarrow> word_of_le bs | Big_Endian \<Rightarrow> word_of_le (rev bs))"

text \<open>
  \<open>hton e n w\<close> is the \<open>n\<close>-byte word whose representation in the memory of the host \<open>e\<close>
  is the big-endian representation of \<open>w\<close>: \<open>htons\<close>, \<open>ntohs\<close> for \<open>n = 2\<close>, \<open>htonl\<close>,
  \<open>ntohl\<close> for \<open>n = 4\<close>.
\<close>

definition hton :: "endian \<Rightarrow> nat \<Rightarrow> 'a::len word \<Rightarrow> 'a word" where
  "hton e n w = word_of_mem e (mem_of_word Big_Endian n w)"

section \<open>Collections of simplification rules\<close>

named_theorems mem_simps \<open>lengths and round trips of object representations\<close>
named_theorems xor_simps \<open>normalisation of exclusive or on bytes\<close>

section \<open>Lists\<close>

lemma nth_upd_map_upt [simp]: "map (\<lambda>i. xs ! i) [0..<length xs] = xs"
  by (rule map_nth)

lemma take_append_exact [simp]: "length xs = n \<Longrightarrow> take n (xs @ ys) = xs"
  by simp

lemma drop_append_exact [simp]: "length xs = n \<Longrightarrow> drop n (xs @ ys) = ys"
  by simp

lemma list_split_at: "n \<le> length xs \<Longrightarrow> \<exists>ys zs. xs = ys @ zs \<and> length ys = n"
  by (metis append_take_drop_id length_take min.absorb2)

section \<open>Object representation of words\<close>

lemma length_le_of_word [simp, mem_simps]: "length (le_of_word n w) = n"
  by (simp add: le_of_word_def)

lemma bit_word_of_le:
  "bit (word_of_le bs :: 'a::len word) k \<longleftrightarrow>
     k < LENGTH('a) \<and> k div 8 < length bs \<and> bit (bs ! (k div 8)) (k mod 8)"
proof (induction bs arbitrary: k)
  case Nil
  then show ?case by simp
next
  case (Cons b bs)
  show ?case
  proof (cases "k < 8")
    case True
    then show ?thesis
      by (auto simp: bit_or_iff bit_push_bit_iff bit_ucast_iff)
  next
    case False
    then obtain j where k: "k = j + 8" by (metis le_add_diff_inverse2 not_less)
    have b: "\<not> bit b k" using False by (auto dest: bit_imp_le_length)
    have "(j + 8) div 8 = Suc (j div 8)" by simp
    with b show ?thesis
      using Cons.IH[of j]
      by (auto simp: bit_or_iff bit_push_bit_iff bit_ucast_iff k)
  qed
qed

lemma word_of_le_of_word:
  assumes "8 * n = LENGTH('a::len)"
  shows "word_of_le (le_of_word n (w :: 'a word)) = w"
proof (rule bit_eqI)
  fix k
  assume "possible_bit TYPE('a word) k"
  then have k: "k < LENGTH('a)" by simp
  then have "k div 8 < n" using assms by linarith
  with k show "bit (word_of_le (le_of_word n w) :: 'a word) k \<longleftrightarrow> bit w k"
    by (simp add: bit_word_of_le le_of_word_def bit_ucast_iff bit_drop_bit_eq)
qed

lemma le_of_word_of_le:
  assumes "8 * length bs = LENGTH('a::len)"
  shows "le_of_word (length bs) (word_of_le bs :: 'a word) = bs"
proof (rule nth_equalityI)
  fix i assume "i < length (le_of_word (length bs) (word_of_le bs :: 'a word))"
  then have i: "i < length bs" by simp
  show "le_of_word (length bs) (word_of_le bs :: 'a word) ! i = bs ! i"
  proof (rule bit_eqI)
    fix k
    assume "possible_bit TYPE(byte) k"
    then have k: "k < 8" by simp
    then have "(8 * i + k) div 8 = i" "(8 * i + k) mod 8 = k" by auto
    moreover have "8 * i + k < LENGTH('a)" using i k assms by linarith
    ultimately show "bit (le_of_word (length bs) (word_of_le bs :: 'a word) ! i) k \<longleftrightarrow> bit (bs ! i) k"
      using i k by (auto simp: bit_word_of_le le_of_word_def bit_ucast_iff bit_drop_bit_eq add.commute)
  qed
qed simp

lemma length_mem_of_word [simp, mem_simps]: "length (mem_of_word e n w) = n"
  by (simp add: mem_of_word_def split: endian.split)

lemma word_of_mem_of_word:
  assumes "8 * n = LENGTH('a::len)"
  shows "word_of_mem e (mem_of_word e n (w :: 'a word)) = w"
  using assms by (simp add: word_of_mem_def mem_of_word_def word_of_le_of_word split: endian.split)

lemma mem_of_word_of_mem:
  assumes "8 * length bs = LENGTH('a::len)"
  shows "mem_of_word e (length bs) (word_of_mem e bs :: 'a word) = bs"
  using assms le_of_word_of_le[of bs, where 'a = 'a] le_of_word_of_le[of "rev bs", where 'a = 'a]
  by (simp add: word_of_mem_def mem_of_word_def split: endian.split)

lemma mem16 [simp, mem_simps]: "word_of_mem e (mem_of_word e 2 (w :: u16)) = w"
  by (rule word_of_mem_of_word) simp

lemma mem32 [simp, mem_simps]: "word_of_mem e (mem_of_word e 4 (w :: u32)) = w"
  by (rule word_of_mem_of_word) simp

lemma mem64 [simp, mem_simps]: "word_of_mem e (mem_of_word e 8 (w :: u64)) = w"
  by (rule word_of_mem_of_word) simp

lemma mem_of_word_eq_iff:
  assumes "8 * n = LENGTH('a::len)"
  shows "mem_of_word e n (v :: 'a word) = mem_of_word e n w \<longleftrightarrow> v = w"
  using word_of_mem_of_word[OF assms] by metis

subsection \<open>Network byte order\<close>

lemma mem_of_hton:
  assumes "8 * n = LENGTH('a::len)"
  shows "mem_of_word e n (hton e n (w :: 'a word)) = mem_of_word Big_Endian n w"
  using mem_of_word_of_mem[of "mem_of_word Big_Endian n w", where 'a = 'a] assms
  by (simp add: hton_def)

lemma hton_hton:
  assumes "8 * n = LENGTH('a::len)"
  shows "hton e n (hton e n (w :: 'a word)) = w"
proof (cases e)
  case Big_Endian
  then show ?thesis using assms by (simp add: hton_def word_of_mem_of_word)
next
  case Little_Endian
  have "rev (le_of_word n (hton Little_Endian n w)) = le_of_word n w"
    using mem_of_hton[OF assms, of Little_Endian w] by (simp add: mem_of_word_def)
  then show ?thesis
    using assms Little_Endian
    by (simp add: hton_def[of _ _ "hton _ _ _"] mem_of_word_def word_of_mem_def word_of_le_of_word)
qed

section \<open>Exclusive or on bytes\<close>

lemma xor_left_cancel [xor_simps]: "(a :: byte) XOR (a XOR b) = b"
  by (simp flip: xor.assoc)

lemmas xor_ac [xor_simps] = xor.assoc xor.commute xor.left_commute

lemma map_xor_twice [simp]: "map (\<lambda>b. (b :: byte) XOR k) (map (\<lambda>b. b XOR k) bs) = bs"
  by (simp add: xor.assoc comp_def)

lemma map_xor_inj: "map (\<lambda>b. (b :: byte) XOR k) xs = map (\<lambda>b. b XOR k) ys \<longleftrightarrow> xs = ys"
  by (metis map_xor_twice)

section \<open>Signed characters\<close>

text \<open>A \<open>char\<close> is signed: converting one to \<open>size_t\<close> extends its sign.\<close>

lemma sint_byte: "sint (c::byte) = (if uint c < 128 then uint c else uint c - 256)"
proof -
  have r: "0 \<le> uint c" "uint c < 256" using uint_lt2p[of c] by simp_all
  then have d: "uint c div 128 = (if uint c < 128 then 0 else 1)" by auto
  have "bit (uint c) 7 \<longleftrightarrow> \<not> uint c < 128" by (simp only: bit_iff_odd) (simp add: d)
  moreover have "take_bit 8 (uint c) = uint c" using r by (simp add: take_bit_int_eq_self)
  ultimately show ?thesis by (simp add: sint_uint signed_take_bit_eq_take_bit_minus)
qed
lemma unat_scast_byte: "unat (scast (c :: byte) :: u64) = (if unat c < 128 then unat c else 2 ^ 64 - 256 + unat c)"
proof -
  have r: "0 \<le> uint c" "uint c < 256" using uint_lt2p[of c] by simp_all
  have s: "(scast c :: u64) = word_of_int (sint c)" by (rule scast_eq)
  have u: "uint (scast c :: u64) = sint c mod 2 ^ 64" by (simp only: s uint_word_of_int) simp
  have "sint c mod 2 ^ 64 = (if uint c < 128 then uint c else 2 ^ 64 - 256 + uint c)"
  proof (cases "uint c < 128")
    case True then show ?thesis using r by (simp add: sint_byte)
  next
    case False
    have "(uint c - 256) mod 2 ^ 64 = (uint c - 256 + 2 ^ 64) mod 2 ^ 64" by (rule mod_add_self2[symmetric])
    also have "\<dots> = uint c - 256 + 2 ^ 64" using r False by (intro mod_pos_pos_trivial) auto
    finally show ?thesis using False by (simp add: sint_byte)
  qed
  with u have v: "uint (scast c :: u64) = (if uint c < 128 then uint c else 2 ^ 64 - 256 + uint c)" by simp
  have lt: "uint c < 128 \<longleftrightarrow> unat c < 128" by (simp add: uint_nat del: of_nat_unat)
  have "int (unat (scast c :: u64)) = int (if unat c < 128 then unat c else 2 ^ 64 - 256 + unat c)"
    using v lt by (cases "unat c < 128") simp_all
  then show ?thesis by (simp only: of_nat_eq_iff)
qed

end
