(* ===== verification/Octet_Order.thy ===== *)
theory Octet_Order
  imports Snake_Prelude
begin

text \<open>
  The byte-order helpers offered to modules, \<open>src/src/modules/module_util/octet_order.c\<close>.
  The functions reverse an object representation in place when the host is little-endian;
  the host is the parameter \<open>e\<close>.
\<close>

section \<open>Definitions\<close>

text \<open>The first byte in memory of \<open>0x00ffff01\<close>: 1 on a little-endian host, 0 on a big-endian one.\<close>

definition check_host_octet_order :: "endian \<Rightarrow> nat" where
  "check_host_octet_order e = unat (mem_of_word e 4 (0x00ffff01 :: u32) ! 0)"

text \<open>One turn of the loop: \<open>tmp = dst[i]; dst[i] = dst[len-1-i]; dst[len-1-i] = tmp\<close>.\<close>

definition swap_octets :: "nat \<Rightarrow> nat \<Rightarrow> bytes \<Rightarrow> bytes" where
  "swap_octets len i dst = (let tmp = dst ! i in (dst[i := dst ! (len - 1 - i)])[len - 1 - i := tmp])"

definition host_to_network_octet :: "endian \<Rightarrow> bytes \<Rightarrow> nat \<Rightarrow> bytes" where
  "host_to_network_octet e dst len =
     (if check_host_octet_order e = 0 then dst
      else fold (swap_octets len) [0..<len div 2] dst)"

definition network_to_host_octet :: "endian \<Rightarrow> bytes \<Rightarrow> nat \<Rightarrow> bytes" where
  "network_to_host_octet e dst len = host_to_network_octet e dst len"

definition host_to_network_short :: "endian \<Rightarrow> u16 \<Rightarrow> u16" where
  "host_to_network_short e a = word_of_mem e (host_to_network_octet e (mem_of_word e 2 a) 2)"

definition network_to_host_short :: "endian \<Rightarrow> u16 \<Rightarrow> u16" where
  "network_to_host_short e a = host_to_network_short e a"

definition host_to_network_int :: "endian \<Rightarrow> u32 \<Rightarrow> u32" where
  "host_to_network_int e a = word_of_mem e (host_to_network_octet e (mem_of_word e 4 a) 4)"

definition network_to_host_int :: "endian \<Rightarrow> u32 \<Rightarrow> u32" where
  "network_to_host_int e a = host_to_network_int e a"

definition host_to_network_long :: "endian \<Rightarrow> u64 \<Rightarrow> u64" where
  "host_to_network_long e a = word_of_mem e (host_to_network_octet e (mem_of_word e 8 a) 8)"

definition network_to_host_long :: "endian \<Rightarrow> u64 \<Rightarrow> u64" where
  "network_to_host_long e a = host_to_network_long e a"

section \<open>The loop reverses the octets\<close>

lemma check_host_octet_order_simps [simp]:
  "check_host_octet_order Little_Endian = 1"
  "check_host_octet_order Big_Endian = 0"
  by (simp_all add: check_host_octet_order_def mem_of_word_def le_of_word_def upt_rec)

lemma length_swap_octets [simp]: "length (swap_octets len i dst) = length dst"
  by (simp add: swap_octets_def Let_def)

lemma length_fold_swap [simp]: "length (fold (swap_octets len) is dst) = length dst"
  by (induction "is" arbitrary: dst) auto

lemma nth_swap_octets:
  assumes "i < length dst div 2" "j < length dst"
  shows "swap_octets (length dst) i dst ! j =
    (if j = length dst - 1 - i then dst ! i
     else if j = i then dst ! (length dst - 1 - i) else dst ! j)"
  using assms by (auto simp: swap_octets_def Let_def nth_list_update)

text \<open>After \<open>k\<close> turns the outer \<open>k\<close> octets on both sides are exchanged, the rest is untouched.\<close>

lemma nth_fold_swap:
  assumes "k \<le> length dst div 2" "j < length dst"
  shows "fold (swap_octets (length dst)) [0..<k] dst ! j =
           (if j < k \<or> length dst - k \<le> j then dst ! (length dst - 1 - j) else dst ! j)"
  using assms
proof (induction k arbitrary: j)
  case 0
  then show ?case by simp
next
  case (Suc k)
  let ?n = "length dst" and ?d = "fold (swap_octets (length dst)) [0..<k] dst"
  have IH: "?d ! i = (if i < k \<or> ?n - k \<le> i then dst ! (?n - 1 - i) else dst ! i)" if "i < ?n" for i
    using Suc that by simp
  have k: "k < ?n div 2" "k < ?n" "?n - 1 - k < ?n" using Suc.prems by linarith+
  have "?d ! k = dst ! k" "?d ! (?n - 1 - k) = dst ! (?n - 1 - k)"
    using IH[OF k(2)] IH[OF k(3)] k by auto
  moreover have "fold (swap_octets ?n) [0..<Suc k] dst ! j = swap_octets ?n k ?d ! j"
    by simp
  ultimately have step: "fold (swap_octets ?n) [0..<Suc k] dst ! j =
    (if j = ?n - 1 - k then dst ! k else if j = k then dst ! (?n - 1 - k) else ?d ! j)"
    using nth_swap_octets[of k ?d j] k Suc.prems(2) by simp
  consider "j = ?n - 1 - k" | "j = k" "j \<noteq> ?n - 1 - k" | "j \<noteq> ?n - 1 - k" "j \<noteq> k"
    by blast
  then show ?case
  proof cases
    case 1
    then have "?n - 1 - j = k" "?n - Suc k \<le> j" using k by linarith+
    with 1 show ?thesis unfolding step by simp
  next
    case 2
    then show ?thesis unfolding step by simp
  next
    case 3
    then have "(j < Suc k \<or> ?n - Suc k \<le> j) = (j < k \<or> ?n - k \<le> j)" using k by linarith
    with 3 show ?thesis unfolding step IH[OF Suc.prems(2)] by simp
  qed
qed

lemma fold_swap_rev: "fold (swap_octets (length dst)) [0..<length dst div 2] dst = rev dst"
proof (rule nth_equalityI)
  fix j assume "j < length (fold (swap_octets (length dst)) [0..<length dst div 2] dst)"
  then have j: "j < length dst" by simp
  have "length dst - 1 - j = j" if "\<not> j < length dst div 2" "\<not> length dst - length dst div 2 \<le> j"
    using that j by linarith
  then show "fold (swap_octets (length dst)) [0..<length dst div 2] dst ! j = rev dst ! j"
    using nth_fold_swap[OF order_refl j] j by (auto simp: rev_nth)
qed simp

lemma host_to_network_octet_eq:
  "host_to_network_octet e dst (length dst) = (case e of Little_Endian \<Rightarrow> rev dst | Big_Endian \<Rightarrow> dst)"
  by (cases e) (simp_all add: host_to_network_octet_def fold_swap_rev)

lemma host_to_network_mem:
  assumes "8 * n = LENGTH('a::len)"
  shows "host_to_network_octet e (mem_of_word e n (w :: 'a word)) n = mem_of_word Big_Endian n w"
  using host_to_network_octet_eq[of e "mem_of_word e n w"]
  by (cases e) (simp_all add: mem_of_word_def)

text \<open>
  The integer helpers agree with the C library's \<open>htons\<close>, \<open>htonl\<close> on every host.
\<close>

lemma host_to_network_eq_hton:
  "host_to_network_short e a = hton e 2 a"
  "host_to_network_int e b = hton e 4 b"
  "host_to_network_long e c = hton e 8 c"
  by (simp_all add: host_to_network_short_def host_to_network_int_def host_to_network_long_def
      host_to_network_mem hton_def)

text \<open>
  the network-to-host functions undo the host-to-network functions at every width on
  hosts of both byte orders, and the bytes of \<open>host_to_network_int(b)\<close> in memory are those of
  \<open>b\<close> in network order.
\<close>

lemma octet_order_round_trip:
  "network_to_host_short e (host_to_network_short e a) = a \<and>
   network_to_host_int e (host_to_network_int e b) = b \<and>
   network_to_host_long e (host_to_network_long e c) = c \<and>
   mem_of_word e 4 (host_to_network_int e b) = mem_of_word Big_Endian 4 b"
  by (simp add: network_to_host_short_def network_to_host_int_def network_to_host_long_def
      host_to_network_eq_hton hton_hton mem_of_hton)

end
