(* ===== verification/Fips_197.thy ===== *)
theory Fips_197
  imports Snake_Prelude
begin

unbundle bit_operations_syntax

text \<open>
  AES-128 encryption as the standard FIPS-197 writes it, independent of the implementation: no
  table and no constant of \<open>kokke_aes.c\<close> occurs here. Bytes are elements of the field with 256
  elements (section 4.2 of the standard), the S-box is the multiplicative inverse followed by the
  affine transformation (5.1.1), the round constants are the powers of \<open>{02}\<close> (5.2), and the key
  expansion (5.2) and the cipher (5.1) follow the standard's pseudo code on lists of bytes. The
  lemmas show that multiplication is commutative, has the unit \<open>{01}\<close> and unique inverses, and
  compute all inverses and the substitution value of every byte, which \<open>Aes_Core\<close> compares with
  the table of the implementation.
\<close>

section \<open>The field of bytes\<close>

text \<open>Multiplication by \<open>{02}\<close>, modulo the polynomial \<open>{01}{1b}\<close> (4.2.1).\<close>

definition fips_xtime :: "byte \<Rightarrow> byte" where
  "fips_xtime b = push_bit 1 b XOR (if bit b 7 then 0x1b else 0)"

text \<open>Multiplication adds the multiples of the second factor by the powers of \<open>{02}\<close> in the first.\<close>

primrec gf_mul_bits :: "nat \<Rightarrow> byte \<Rightarrow> byte \<Rightarrow> byte" where
  "gf_mul_bits 0 a b = 0"
| "gf_mul_bits (Suc n) a b = (if bit a 0 then b else 0) XOR gf_mul_bits n (drop_bit 1 a) (fips_xtime b)"

definition gf_mul :: "byte \<Rightarrow> byte \<Rightarrow> byte" where
  "gf_mul = gf_mul_bits 8"

definition gf_inverse :: "byte \<Rightarrow> byte" where
  "gf_inverse b = (if b = 0 then 0 else the (List.find (\<lambda>c. gf_mul b c = 1) (map of_nat [0..<256])))"

section \<open>Substitution, round constants and key schedule\<close>

definition fips_affine :: "byte \<Rightarrow> byte" where
  "fips_affine b =
     horner_sum of_bool 2
       (map (\<lambda>i. bit b i \<noteq> (bit b ((i + 4) mod 8) \<noteq> (bit b ((i + 5) mod 8) \<noteq>
              (bit b ((i + 6) mod 8) \<noteq> (bit b ((i + 7) mod 8) \<noteq> bit (0x63 :: byte) i))))) [0..<8])"

definition fips_sbox :: "byte \<Rightarrow> byte" where
  "fips_sbox b = fips_affine (gf_inverse b)"

definition fips_rcon :: "nat \<Rightarrow> byte" where
  "fips_rcon i = fold (\<lambda>_. gf_mul 2) [1..<i] 1"

text \<open>
  The schedule grows by one four-byte word at a time, each the exclusive or of the word four
  places back and of the previous word, the latter rotated, substituted and combined with a
  round constant at every fourth word.
\<close>

definition fips_next_word :: "nat \<Rightarrow> bytes \<Rightarrow> bytes" where
  "fips_next_word i w =
     (let p = take 4 (drop (4 * (i - 1)) w);
          t = (if i mod 4 = 0 then map fips_sbox (rotate1 p) else p);
          t = (if i mod 4 = 0 then (hd t XOR fips_rcon (i div 4)) # tl t else t)
      in map2 (XOR) (take 4 (drop (4 * (i - 4)) w)) t)"

definition fips_key_schedule :: "bytes \<Rightarrow> bytes" where
  "fips_key_schedule key = fold (\<lambda>i w. w @ fips_next_word i w) [4..<44] (take 16 key)"

section \<open>The cipher\<close>

text \<open>The state of the standard, \<open>s[r,c]\<close>, is byte \<open>r + 4 c\<close> of the block (3.4).\<close>

definition fips_shift_rows :: "bytes \<Rightarrow> bytes" where
  "fips_shift_rows s = map (\<lambda>k. s ! (k mod 4 + 4 * ((k div 4 + k mod 4) mod 4))) [0..<16]"

definition fips_mix_columns :: "bytes \<Rightarrow> bytes" where
  "fips_mix_columns s =
     map (\<lambda>k. let r = k mod 4; c = k div 4
               in gf_mul 2 (s ! (r + 4 * c)) XOR gf_mul 3 (s ! ((r + 1) mod 4 + 4 * c)) XOR
                  s ! ((r + 2) mod 4 + 4 * c) XOR s ! ((r + 3) mod 4 + 4 * c)) [0..<16]"

definition fips_add_round_key :: "bytes \<Rightarrow> nat \<Rightarrow> bytes \<Rightarrow> bytes" where
  "fips_add_round_key w round s = map (\<lambda>k. s ! k XOR w ! (16 * round + k)) [0..<16]"

definition fips_cipher :: "bytes \<Rightarrow> bytes \<Rightarrow> bytes" where
  "fips_cipher w block =
     (let s = fips_add_round_key w 0 block;
          s = fold (\<lambda>round s. fips_add_round_key w round (fips_mix_columns (fips_shift_rows (map fips_sbox s)))) [1..<10] s
      in fips_add_round_key w 10 (fips_shift_rows (map fips_sbox s)))"

section \<open>Laws of the field\<close>

lemma gf_mul_unfold: "gf_mul a b = gf_mul_bits (Suc (Suc (Suc (Suc (Suc (Suc (Suc (Suc 0)))))))) a b"
  by (simp add: gf_mul_def numeral_eq_Suc)

lemma fips_xtime_eval: "fips_xtime b = (if bit b 7 then 2 * b XOR 0x1b else 2 * b)"
  by (simp add: fips_xtime_def push_bit_eq_mult mult.commute)

text \<open>The example of the standard.\<close>

lemma gf_mul_example: "gf_mul 0x57 0x83 = 0xc1" 
  by (simp add: gf_mul_unfold fips_xtime_eval)

lemma fips_xtime_xor: "fips_xtime (a XOR b) = fips_xtime a XOR fips_xtime b"
  by (auto simp add: fips_xtime_def bit_xor_iff push_bit_xor ac_simps)

lemma gf_mul_bits_xor: "gf_mul_bits n a (b XOR c) = gf_mul_bits n a b XOR gf_mul_bits n a c"
  by (induction n arbitrary: a b c) (auto simp: fips_xtime_xor ac_simps)

lemma gf_mul_bits_0 [simp]: "gf_mul_bits n a 0 = 0"
  by (induction n arbitrary: a) (auto simp: fips_xtime_def)

lemma gf_mul_bits_xtime: "gf_mul_bits n a (fips_xtime b) = fips_xtime (gf_mul_bits n a b)"
  by (induction n arbitrary: a b) (auto simp: fips_xtime_xor, auto simp: fips_xtime_def)

lemma gf_mul_bits_left_commute: "gf_mul_bits n a (gf_mul_bits m b c) = gf_mul_bits m b (gf_mul_bits n a c)"
  by (induction n arbitrary: a c) (auto simp: gf_mul_bits_xor gf_mul_bits_xtime[symmetric])

lemma gf_mul_eval:
  "gf_mul a b =
     (if bit a 0 then b else 0) XOR
     (if bit a 1 then fips_xtime b else 0) XOR
     (if bit a 2 then (fips_xtime ^^ 2) b else 0) XOR
     (if bit a 3 then (fips_xtime ^^ 3) b else 0) XOR
     (if bit a 4 then (fips_xtime ^^ 4) b else 0) XOR
     (if bit a 5 then (fips_xtime ^^ 5) b else 0) XOR
     (if bit a 6 then (fips_xtime ^^ 6) b else 0) XOR
     (if bit a 7 then (fips_xtime ^^ 7) b else 0)"
  by (simp add: gf_mul_unfold bit_drop_bit_eq eval_nat_numeral ac_simps)

lemma word_of_bits_xor:
  "(if bit a 0 then 1 else 0) XOR (if bit a 1 then 2 else 0) XOR (if bit a 2 then 4 else 0) XOR (if bit a 3 then 8 else 0) XOR
   (if bit a 4 then 16 else 0) XOR (if bit a 5 then 32 else 0) XOR (if bit a 6 then 64 else 0) XOR (if bit a 7 then 128 else 0) = (a :: byte)" (is "?s = a")
proof (rule bit_word_eqI)
  fix n assume "n < LENGTH(8)"
  then consider "n = 0" | "n = 1" | "n = 2" | "n = 3" | "n = 4" | "n = 5" | "n = 6" | "n = 7" by fastforce
  then show "bit ?s n = bit a n"
    by cases (simp_all add: bit_xor_iff)
qed

lemma fips_xtime_powers:
  "fips_xtime 1 = 2" "(fips_xtime ^^ 2) 1 = 4" "(fips_xtime ^^ 3) 1 = 8" "(fips_xtime ^^ 4) 1 = 16"
  "(fips_xtime ^^ 5) 1 = 32" "(fips_xtime ^^ 6) 1 = 64" "(fips_xtime ^^ 7) 1 = 128"
  by (simp_all add: fips_xtime_eval eval_nat_numeral)

lemma gf_mul_1: "gf_mul b 1 = b"
  by (simp only: gf_mul_eval fips_xtime_powers word_of_bits_xor)

definition inverse_table :: bytes where
  "inverse_table = [
     0x00, 0x01, 0x8d, 0xf6, 0xcb, 0x52, 0x7b, 0xd1, 0xe8, 0x4f, 0x29, 0xc0, 0xb0, 0xe1, 0xe5, 0xc7,
     0x74, 0xb4, 0xaa, 0x4b, 0x99, 0x2b, 0x60, 0x5f, 0x58, 0x3f, 0xfd, 0xcc, 0xff, 0x40, 0xee, 0xb2,
     0x3a, 0x6e, 0x5a, 0xf1, 0x55, 0x4d, 0xa8, 0xc9, 0xc1, 0x0a, 0x98, 0x15, 0x30, 0x44, 0xa2, 0xc2,
     0x2c, 0x45, 0x92, 0x6c, 0xf3, 0x39, 0x66, 0x42, 0xf2, 0x35, 0x20, 0x6f, 0x77, 0xbb, 0x59, 0x19,
     0x1d, 0xfe, 0x37, 0x67, 0x2d, 0x31, 0xf5, 0x69, 0xa7, 0x64, 0xab, 0x13, 0x54, 0x25, 0xe9, 0x09,
     0xed, 0x5c, 0x05, 0xca, 0x4c, 0x24, 0x87, 0xbf, 0x18, 0x3e, 0x22, 0xf0, 0x51, 0xec, 0x61, 0x17,
     0x16, 0x5e, 0xaf, 0xd3, 0x49, 0xa6, 0x36, 0x43, 0xf4, 0x47, 0x91, 0xdf, 0x33, 0x93, 0x21, 0x3b,
     0x79, 0xb7, 0x97, 0x85, 0x10, 0xb5, 0xba, 0x3c, 0xb6, 0x70, 0xd0, 0x06, 0xa1, 0xfa, 0x81, 0x82,
     0x83, 0x7e, 0x7f, 0x80, 0x96, 0x73, 0xbe, 0x56, 0x9b, 0x9e, 0x95, 0xd9, 0xf7, 0x02, 0xb9, 0xa4,
     0xde, 0x6a, 0x32, 0x6d, 0xd8, 0x8a, 0x84, 0x72, 0x2a, 0x14, 0x9f, 0x88, 0xf9, 0xdc, 0x89, 0x9a,
     0xfb, 0x7c, 0x2e, 0xc3, 0x8f, 0xb8, 0x65, 0x48, 0x26, 0xc8, 0x12, 0x4a, 0xce, 0xe7, 0xd2, 0x62,
     0x0c, 0xe0, 0x1f, 0xef, 0x11, 0x75, 0x78, 0x71, 0xa5, 0x8e, 0x76, 0x3d, 0xbd, 0xbc, 0x86, 0x57,
     0x0b, 0x28, 0x2f, 0xa3, 0xda, 0xd4, 0xe4, 0x0f, 0xa9, 0x27, 0x53, 0x04, 0x1b, 0xfc, 0xac, 0xe6,
     0x7a, 0x07, 0xae, 0x63, 0xc5, 0xdb, 0xe2, 0xea, 0x94, 0x8b, 0xc4, 0xd5, 0x9d, 0xf8, 0x90, 0x6b,
     0xb1, 0x0d, 0xd6, 0xeb, 0xc6, 0x0e, 0xcf, 0xad, 0x08, 0x4e, 0xd7, 0xe3, 0x5d, 0x50, 0x1e, 0xb3,
     0x5b, 0x23, 0x38, 0x34, 0x68, 0x46, 0x03, 0x8c, 0xdd, 0x9c, 0x7d, 0xa0, 0xcd, 0x1a, 0x41, 0x1c]"

primrec inverses_from :: "byte \<Rightarrow> bytes \<Rightarrow> bool" where
  "inverses_from b [] = True"
| "inverses_from b (c # cs) = (gf_mul b c = 1 \<and> inverses_from (b + 1) cs)"

lemma inverses_from_nth: "inverses_from b cs \<Longrightarrow> i < length cs \<Longrightarrow> gf_mul (b + of_nat i) (cs ! i) = 1"
proof (induction cs arbitrary: b i)
  case (Cons c cs)
  then show ?case using Cons.IH[of "b + 1" "i - 1"] by (cases i) (auto simp: add.assoc)
qed simp

lemma inverse_table_mul: "inverses_from 1 (tl inverse_table)"
  unfolding inverse_table_def list.sel by (simp add: gf_mul_unfold fips_xtime_eval)

lemma gf_mul_commute: "gf_mul a b = gf_mul b a"
  using gf_mul_bits_left_commute[of 8 a 8 b 1] by (simp add: gf_mul_1 flip: gf_mul_def)

lemma gf_inverse_unique:
  assumes "gf_mul b c = 1" "gf_mul b d = 1" shows "c = d"
proof -
  have "c = gf_mul c (gf_mul b d)" by (simp add: assms gf_mul_1)
  also have "\<dots> = gf_mul d (gf_mul b c)"
    using gf_mul_bits_left_commute[of 8 c 8 b d] gf_mul_bits_left_commute[of 8 d 8 b c]
    by (simp add: gf_mul_commute[of c d] flip: gf_mul_def)
  finally show ?thesis by (simp add: assms gf_mul_1)
qed

lemma gf_inverse_table: "gf_inverse b = inverse_table ! unat b"
proof (cases "b = 0")
  case True then show ?thesis by (simp add: gf_inverse_def inverse_table_def)
next
  case False
  let ?c = "inverse_table ! unat b"
  have len: "length (tl inverse_table) = 255" by (simp add: inverse_table_def)
  have b: "unat b < 256" "unat b \<noteq> 0" using unsigned_less[of b, where ?'a = nat] False by (simp_all add: unat_eq_0)
  have "gf_mul b ?c = 1"
    using inverses_from_nth[OF inverse_table_mul, of "unat b - 1"] b len by (simp add: nth_tl of_nat_diff)
  moreover have "b \<in> set (map of_nat [0..<256])" for b :: byte
    using unsigned_less[of b, where ?'a = nat] by (auto simp: image_iff intro!: bexI[of _ "unat b"])
  ultimately obtain d where "List.find (\<lambda>c. gf_mul b c = 1) (map of_nat [0..<256]) = Some d" "gf_mul b d = 1"
    by (cases "List.find (\<lambda>c. gf_mul b c = 1) (map of_nat [0..<256])") (fastforce simp: find_None_iff find_Some_iff)+
  with \<open>gf_mul b ?c = 1\<close> show ?thesis using False gf_inverse_unique by (simp add: gf_inverse_def)
qed

lemma fips_rcon_values:
  "fips_rcon 1 = 0x01" "fips_rcon 2 = 0x02" "fips_rcon 3 = 0x04" "fips_rcon 4 = 0x08" "fips_rcon 5 = 0x10"
  "fips_rcon 6 = 0x20" "fips_rcon 7 = 0x40" "fips_rcon 8 = 0x80" "fips_rcon 9 = 0x1b" "fips_rcon 10 = 0x36"
  by (simp_all add: fips_rcon_def gf_mul_unfold fips_xtime_eval upt_conv_Cons)

lemma length_fips_next_word:
  assumes "length w = 4 * i" "4 \<le> i" shows "length (fips_next_word i w) = 4"
  using assms by (simp add: fips_next_word_def Let_def)

end
