(* ===== verification/Aes_Core.thy ===== *)
theory Aes_Core
  imports Snake_Prelude Fips_197
begin

text \<open>
  The AES-128 implementation modules link against,
  \<open>src/src/modules/module_util/kokke_aes.c\<close>: tables, key expansion, the round
  functions on the 4 by 4 state, \<open>Cipher\<close>, \<open>InvCipher\<close> and the ECB entry points.

  The state \<open>uint8_t[4][4]\<close> overlays the first 16 bytes of the output buffer, so it is a
  byte list in which \<open>state[i][j]\<close> is element \<open>4 * i + j\<close>. The loops are folds over their
  index ranges. \<open>AES_ECB_encrypt\<close> and \<open>AES_ECB_decrypt\<close> take the contents of the output
  buffer and return its new contents, \<open>None\<close> where the C code reads or writes outside a
  buffer.

  The main results are that \<open>InvCipher\<close> inverts \<open>Cipher\<close> for every key and block, and that
  key expansion and cipher compute what the standard prescribes: \<open>Fips_197\<close> defines the S-box
  through inverses in the field of bytes and the round constants as powers of \<open>{02}\<close>, and the
  tables of the implementation are shown to hold those values.
\<close>

section \<open>Definitions\<close>

definition Nb :: nat where "Nb = 4"
definition Nk :: nat where "Nk = 4"
definition Nr :: nat where "Nr = 10"
definition keyExpSize :: nat where "keyExpSize = 176"
definition BLOCKLEN :: nat where "BLOCKLEN = 16"

definition sbox :: bytes where
  "sbox = [
    0x63, 0x7c, 0x77, 0x7b, 0xf2, 0x6b, 0x6f, 0xc5, 0x30, 0x01, 0x67, 0x2b, 0xfe, 0xd7, 0xab, 0x76,
    0xca, 0x82, 0xc9, 0x7d, 0xfa, 0x59, 0x47, 0xf0, 0xad, 0xd4, 0xa2, 0xaf, 0x9c, 0xa4, 0x72, 0xc0,
    0xb7, 0xfd, 0x93, 0x26, 0x36, 0x3f, 0xf7, 0xcc, 0x34, 0xa5, 0xe5, 0xf1, 0x71, 0xd8, 0x31, 0x15,
    0x04, 0xc7, 0x23, 0xc3, 0x18, 0x96, 0x05, 0x9a, 0x07, 0x12, 0x80, 0xe2, 0xeb, 0x27, 0xb2, 0x75,
    0x09, 0x83, 0x2c, 0x1a, 0x1b, 0x6e, 0x5a, 0xa0, 0x52, 0x3b, 0xd6, 0xb3, 0x29, 0xe3, 0x2f, 0x84,
    0x53, 0xd1, 0x00, 0xed, 0x20, 0xfc, 0xb1, 0x5b, 0x6a, 0xcb, 0xbe, 0x39, 0x4a, 0x4c, 0x58, 0xcf,
    0xd0, 0xef, 0xaa, 0xfb, 0x43, 0x4d, 0x33, 0x85, 0x45, 0xf9, 0x02, 0x7f, 0x50, 0x3c, 0x9f, 0xa8,
    0x51, 0xa3, 0x40, 0x8f, 0x92, 0x9d, 0x38, 0xf5, 0xbc, 0xb6, 0xda, 0x21, 0x10, 0xff, 0xf3, 0xd2,
    0xcd, 0x0c, 0x13, 0xec, 0x5f, 0x97, 0x44, 0x17, 0xc4, 0xa7, 0x7e, 0x3d, 0x64, 0x5d, 0x19, 0x73,
    0x60, 0x81, 0x4f, 0xdc, 0x22, 0x2a, 0x90, 0x88, 0x46, 0xee, 0xb8, 0x14, 0xde, 0x5e, 0x0b, 0xdb,
    0xe0, 0x32, 0x3a, 0x0a, 0x49, 0x06, 0x24, 0x5c, 0xc2, 0xd3, 0xac, 0x62, 0x91, 0x95, 0xe4, 0x79,
    0xe7, 0xc8, 0x37, 0x6d, 0x8d, 0xd5, 0x4e, 0xa9, 0x6c, 0x56, 0xf4, 0xea, 0x65, 0x7a, 0xae, 0x08,
    0xba, 0x78, 0x25, 0x2e, 0x1c, 0xa6, 0xb4, 0xc6, 0xe8, 0xdd, 0x74, 0x1f, 0x4b, 0xbd, 0x8b, 0x8a,
    0x70, 0x3e, 0xb5, 0x66, 0x48, 0x03, 0xf6, 0x0e, 0x61, 0x35, 0x57, 0xb9, 0x86, 0xc1, 0x1d, 0x9e,
    0xe1, 0xf8, 0x98, 0x11, 0x69, 0xd9, 0x8e, 0x94, 0x9b, 0x1e, 0x87, 0xe9, 0xce, 0x55, 0x28, 0xdf,
    0x8c, 0xa1, 0x89, 0x0d, 0xbf, 0xe6, 0x42, 0x68, 0x41, 0x99, 0x2d, 0x0f, 0xb0, 0x54, 0xbb, 0x16]"

definition rsbox :: bytes where
  "rsbox = [
    0x52, 0x09, 0x6a, 0xd5, 0x30, 0x36, 0xa5, 0x38, 0xbf, 0x40, 0xa3, 0x9e, 0x81, 0xf3, 0xd7, 0xfb,
    0x7c, 0xe3, 0x39, 0x82, 0x9b, 0x2f, 0xff, 0x87, 0x34, 0x8e, 0x43, 0x44, 0xc4, 0xde, 0xe9, 0xcb,
    0x54, 0x7b, 0x94, 0x32, 0xa6, 0xc2, 0x23, 0x3d, 0xee, 0x4c, 0x95, 0x0b, 0x42, 0xfa, 0xc3, 0x4e,
    0x08, 0x2e, 0xa1, 0x66, 0x28, 0xd9, 0x24, 0xb2, 0x76, 0x5b, 0xa2, 0x49, 0x6d, 0x8b, 0xd1, 0x25,
    0x72, 0xf8, 0xf6, 0x64, 0x86, 0x68, 0x98, 0x16, 0xd4, 0xa4, 0x5c, 0xcc, 0x5d, 0x65, 0xb6, 0x92,
    0x6c, 0x70, 0x48, 0x50, 0xfd, 0xed, 0xb9, 0xda, 0x5e, 0x15, 0x46, 0x57, 0xa7, 0x8d, 0x9d, 0x84,
    0x90, 0xd8, 0xab, 0x00, 0x8c, 0xbc, 0xd3, 0x0a, 0xf7, 0xe4, 0x58, 0x05, 0xb8, 0xb3, 0x45, 0x06,
    0xd0, 0x2c, 0x1e, 0x8f, 0xca, 0x3f, 0x0f, 0x02, 0xc1, 0xaf, 0xbd, 0x03, 0x01, 0x13, 0x8a, 0x6b,
    0x3a, 0x91, 0x11, 0x41, 0x4f, 0x67, 0xdc, 0xea, 0x97, 0xf2, 0xcf, 0xce, 0xf0, 0xb4, 0xe6, 0x73,
    0x96, 0xac, 0x74, 0x22, 0xe7, 0xad, 0x35, 0x85, 0xe2, 0xf9, 0x37, 0xe8, 0x1c, 0x75, 0xdf, 0x6e,
    0x47, 0xf1, 0x1a, 0x71, 0x1d, 0x29, 0xc5, 0x89, 0x6f, 0xb7, 0x62, 0x0e, 0xaa, 0x18, 0xbe, 0x1b,
    0xfc, 0x56, 0x3e, 0x4b, 0xc6, 0xd2, 0x79, 0x20, 0x9a, 0xdb, 0xc0, 0xfe, 0x78, 0xcd, 0x5a, 0xf4,
    0x1f, 0xdd, 0xa8, 0x33, 0x88, 0x07, 0xc7, 0x31, 0xb1, 0x12, 0x10, 0x59, 0x27, 0x80, 0xec, 0x5f,
    0x60, 0x51, 0x7f, 0xa9, 0x19, 0xb5, 0x4a, 0x0d, 0x2d, 0xe5, 0x7a, 0x9f, 0x93, 0xc9, 0x9c, 0xef,
    0xa0, 0xe0, 0x3b, 0x4d, 0xae, 0x2a, 0xf5, 0xb0, 0xc8, 0xeb, 0xbb, 0x3c, 0x83, 0x53, 0x99, 0x61,
    0x17, 0x2b, 0x04, 0x7e, 0xba, 0x77, 0xd6, 0x26, 0xe1, 0x69, 0x14, 0x63, 0x55, 0x21, 0x0c, 0x7d]"

definition Rcon :: bytes where
  "Rcon = [0x8d, 0x01, 0x02, 0x04, 0x08, 0x10, 0x20, 0x40, 0x80, 0x1b, 0x36]"

record AESPrivData =
  state :: bytes
  RoundKey :: bytes
  Key :: bytes
  Iv :: bytes

definition getSBoxValue :: "byte \<Rightarrow> byte" where
  "getSBoxValue num = sbox ! unat num"

definition getSBoxInvert :: "byte \<Rightarrow> byte" where
  "getSBoxInvert num = rsbox ! unat num"

subsection \<open>Key expansion\<close>

definition key_copy :: "bytes \<Rightarrow> nat \<Rightarrow> bytes \<Rightarrow> bytes" where
  "key_copy key i rk =
     (((rk[i * 4 + 0 := key ! (i * 4 + 0)])
          [i * 4 + 1 := key ! (i * 4 + 1)])
          [i * 4 + 2 := key ! (i * 4 + 2)])
          [i * 4 + 3 := key ! (i * 4 + 3)]"

definition key_core :: "nat \<Rightarrow> byte \<times> byte \<times> byte \<times> byte \<Rightarrow> byte \<times> byte \<times> byte \<times> byte" where
  "key_core i tempa =
     (case tempa of (a0, a1, a2, a3) \<Rightarrow>
        let (b0, b1, b2, b3) = (a1, a2, a3, a0);
            (c0, c1, c2, c3) = (getSBoxValue b0, getSBoxValue b1, getSBoxValue b2, getSBoxValue b3)
        in (c0 XOR Rcon ! (i div Nk), c1, c2, c3))"

definition key_step :: "nat \<Rightarrow> bytes \<Rightarrow> bytes" where
  "key_step i rk =
     (let tempa = (rk ! ((i - 1) * 4 + 0), rk ! ((i - 1) * 4 + 1), rk ! ((i - 1) * 4 + 2), rk ! ((i - 1) * 4 + 3));
          (t0, t1, t2, t3) = (if i mod Nk = 0 then key_core i tempa else tempa);
          rk = rk[i * 4 + 0 := rk ! ((i - Nk) * 4 + 0) XOR t0];
          rk = rk[i * 4 + 1 := rk ! ((i - Nk) * 4 + 1) XOR t1];
          rk = rk[i * 4 + 2 := rk ! ((i - Nk) * 4 + 2) XOR t2]
      in rk[i * 4 + 3 := rk ! ((i - Nk) * 4 + 3) XOR t3])"

definition KeyExpansion :: "AESPrivData \<Rightarrow> AESPrivData" where
  "KeyExpansion ap =
     ap\<lparr>RoundKey := fold key_step [Nk..<Nb * (Nr + 1)]
                     (fold (key_copy (Key ap)) [0..<Nk] (RoundKey ap))\<rparr>"

subsection \<open>Round functions\<close>

definition add_round_key_at :: "nat \<Rightarrow> bytes \<Rightarrow> nat \<Rightarrow> nat \<Rightarrow> bytes \<Rightarrow> bytes" where
  "add_round_key_at round rk i j st =
     st[4 * i + j := st ! (4 * i + j) XOR rk ! (round * Nb * 4 + i * Nb + j)]"

definition AddRoundKey :: "nat \<Rightarrow> AESPrivData \<Rightarrow> AESPrivData" where
  "AddRoundKey round ap =
     ap\<lparr>state := fold (\<lambda>i. fold (add_round_key_at round (RoundKey ap) i) [0..<4]) [0..<4] (state ap)\<rparr>"

definition SubBytes :: "AESPrivData \<Rightarrow> AESPrivData" where
  "SubBytes ap =
     ap\<lparr>state := fold (\<lambda>i. fold (\<lambda>j st. st[4 * j + i := getSBoxValue (st ! (4 * j + i))]) [0..<4])
                  [0..<4] (state ap)\<rparr>"

definition ShiftRows :: "AESPrivData \<Rightarrow> AESPrivData" where
  "ShiftRows ap =
     (let st = state ap;
          temp = st ! (4 * 0 + 1);
          st = st[4 * 0 + 1 := st ! (4 * 1 + 1)];
          st = st[4 * 1 + 1 := st ! (4 * 2 + 1)];
          st = st[4 * 2 + 1 := st ! (4 * 3 + 1)];
          st = st[4 * 3 + 1 := temp];
          temp = st ! (4 * 0 + 2);
          st = st[4 * 0 + 2 := st ! (4 * 2 + 2)];
          st = st[4 * 2 + 2 := temp];
          temp = st ! (4 * 1 + 2);
          st = st[4 * 1 + 2 := st ! (4 * 3 + 2)];
          st = st[4 * 3 + 2 := temp];
          temp = st ! (4 * 0 + 3);
          st = st[4 * 0 + 3 := st ! (4 * 3 + 3)];
          st = st[4 * 3 + 3 := st ! (4 * 2 + 3)];
          st = st[4 * 2 + 3 := st ! (4 * 1 + 3)];
          st = st[4 * 1 + 3 := temp]
      in ap\<lparr>state := st\<rparr>)"

definition xtime :: "byte \<Rightarrow> byte" where
  "xtime x = push_bit 1 x XOR ((drop_bit 7 x AND 1) * 0x1b)"

definition mix_column :: "nat \<Rightarrow> bytes \<Rightarrow> bytes" where
  "mix_column i st =
     (let t = st ! (4 * i + 0);
          Tmp = st ! (4 * i + 0) XOR st ! (4 * i + 1) XOR st ! (4 * i + 2) XOR st ! (4 * i + 3);
          Tm = xtime (st ! (4 * i + 0) XOR st ! (4 * i + 1));
          st = st[4 * i + 0 := st ! (4 * i + 0) XOR (Tm XOR Tmp)];
          Tm = xtime (st ! (4 * i + 1) XOR st ! (4 * i + 2));
          st = st[4 * i + 1 := st ! (4 * i + 1) XOR (Tm XOR Tmp)];
          Tm = xtime (st ! (4 * i + 2) XOR st ! (4 * i + 3));
          st = st[4 * i + 2 := st ! (4 * i + 2) XOR (Tm XOR Tmp)];
          Tm = xtime (st ! (4 * i + 3) XOR t)
      in st[4 * i + 3 := st ! (4 * i + 3) XOR (Tm XOR Tmp)])"

definition MixColumns :: "AESPrivData \<Rightarrow> AESPrivData" where
  "MixColumns ap = ap\<lparr>state := fold mix_column [0..<4] (state ap)\<rparr>"

definition Multiply :: "byte \<Rightarrow> byte \<Rightarrow> byte" where
  "Multiply x y =
     ((y AND 1) * x) XOR
     ((drop_bit 1 y AND 1) * xtime x) XOR
     ((drop_bit 2 y AND 1) * xtime (xtime x)) XOR
     ((drop_bit 3 y AND 1) * xtime (xtime (xtime x))) XOR
     ((drop_bit 4 y AND 1) * xtime (xtime (xtime (xtime x))))"

definition inv_mix_column :: "nat \<Rightarrow> bytes \<Rightarrow> bytes" where
  "inv_mix_column i st =
     (let a = st ! (4 * i + 0);
          b = st ! (4 * i + 1);
          c = st ! (4 * i + 2);
          d = st ! (4 * i + 3);
          st = st[4 * i + 0 := Multiply a 0x0e XOR Multiply b 0x0b XOR Multiply c 0x0d XOR Multiply d 0x09];
          st = st[4 * i + 1 := Multiply a 0x09 XOR Multiply b 0x0e XOR Multiply c 0x0b XOR Multiply d 0x0d];
          st = st[4 * i + 2 := Multiply a 0x0d XOR Multiply b 0x09 XOR Multiply c 0x0e XOR Multiply d 0x0b]
      in st[4 * i + 3 := Multiply a 0x0b XOR Multiply b 0x0d XOR Multiply c 0x09 XOR Multiply d 0x0e])"

definition InvMixColumns :: "AESPrivData \<Rightarrow> AESPrivData" where
  "InvMixColumns ap = ap\<lparr>state := fold inv_mix_column [0..<4] (state ap)\<rparr>"

definition InvSubBytes :: "AESPrivData \<Rightarrow> AESPrivData" where
  "InvSubBytes ap =
     ap\<lparr>state := fold (\<lambda>i. fold (\<lambda>j st. st[4 * j + i := getSBoxInvert (st ! (4 * j + i))]) [0..<4])
                  [0..<4] (state ap)\<rparr>"

definition InvShiftRows :: "AESPrivData \<Rightarrow> AESPrivData" where
  "InvShiftRows ap =
     (let st = state ap;
          temp = st ! (4 * 3 + 1);
          st = st[4 * 3 + 1 := st ! (4 * 2 + 1)];
          st = st[4 * 2 + 1 := st ! (4 * 1 + 1)];
          st = st[4 * 1 + 1 := st ! (4 * 0 + 1)];
          st = st[4 * 0 + 1 := temp];
          temp = st ! (4 * 0 + 2);
          st = st[4 * 0 + 2 := st ! (4 * 2 + 2)];
          st = st[4 * 2 + 2 := temp];
          temp = st ! (4 * 1 + 2);
          st = st[4 * 1 + 2 := st ! (4 * 3 + 2)];
          st = st[4 * 3 + 2 := temp];
          temp = st ! (4 * 0 + 3);
          st = st[4 * 0 + 3 := st ! (4 * 1 + 3)];
          st = st[4 * 1 + 3 := st ! (4 * 2 + 3)];
          st = st[4 * 2 + 3 := st ! (4 * 3 + 3)];
          st = st[4 * 3 + 3 := temp]
      in ap\<lparr>state := st\<rparr>)"

subsection \<open>Cipher and ECB entry points\<close>

definition cipher_round :: "nat \<Rightarrow> AESPrivData \<Rightarrow> AESPrivData" where
  "cipher_round round ap = AddRoundKey round (MixColumns (ShiftRows (SubBytes ap)))"

definition Cipher :: "AESPrivData \<Rightarrow> AESPrivData" where
  "Cipher ap =
     AddRoundKey Nr (ShiftRows (SubBytes (fold cipher_round [1..<Nr] (AddRoundKey 0 ap))))"

definition inv_cipher_round :: "nat \<Rightarrow> AESPrivData \<Rightarrow> AESPrivData" where
  "inv_cipher_round round ap = InvMixColumns (AddRoundKey round (InvSubBytes (InvShiftRows ap)))"

definition InvCipher :: "AESPrivData \<Rightarrow> AESPrivData" where
  "InvCipher ap =
     AddRoundKey 0 (InvSubBytes (InvShiftRows
       (fold inv_cipher_round (rev [1..<Nr]) (AddRoundKey Nr ap))))"

text \<open>
  \<open>ap\<close> is zeroed by \<open>memset\<close>; the state pointer is the output buffer, so the cipher works on
  its first 16 bytes whatever \<open>length\<close> is.
\<close>

definition ecb_buffers_ok :: "bytes \<Rightarrow> bytes \<Rightarrow> bytes \<Rightarrow> u32 \<Rightarrow> bool" where
  "ecb_buffers_ok input key output len \<longleftrightarrow>
     unat len \<le> length input \<and> unat len \<le> length output \<and>
     BLOCKLEN \<le> length output \<and> Nk * 4 \<le> length key"

definition ecb_setup :: "bytes \<Rightarrow> bytes \<Rightarrow> AESPrivData" where
  "ecb_setup output key =
     KeyExpansion \<lparr>state = take BLOCKLEN output, RoundKey = replicate keyExpSize 0, Key = key, Iv = []\<rparr>"

definition AES_ECB_encrypt :: "bytes \<Rightarrow> bytes \<Rightarrow> bytes \<Rightarrow> u32 \<Rightarrow> bytes option" where
  "AES_ECB_encrypt input key output len =
     (if ecb_buffers_ok input key output len then
        let output = take (unat len) input @ drop (unat len) output
        in Some (state (Cipher (ecb_setup output key)) @ drop BLOCKLEN output)
      else None)"

definition AES_ECB_decrypt :: "bytes \<Rightarrow> bytes \<Rightarrow> bytes \<Rightarrow> u32 \<Rightarrow> bytes option" where
  "AES_ECB_decrypt input key output len =
     (if ecb_buffers_ok input key output len then
        let output = take (unat len) input @ drop (unat len) output
        in Some (state (InvCipher (ecb_setup output key)) @ drop BLOCKLEN output)
      else None)"

section \<open>Ranges and blocks\<close>

lemma upt_0_4: "[0..<4] = [0, 1, 2, 3 :: nat]"
  by (simp add: upt_rec)

lemma block_cases:
  assumes "length xs = 16"
  obtains a0 a1 a2 a3 a4 a5 a6 a7 a8 a9 a10 a11 a12 a13 a14 a15
  where "xs = [a0, a1, a2, a3, a4, a5, a6, a7, a8, a9, a10, a11, a12, a13, a14, a15]"
  using assms by (auto simp: numeral_eq_Suc length_Suc_conv)

lemmas block_eval = upt_0_4 Let_def nth_Cons_numeral

definition aes_ok :: "AESPrivData \<Rightarrow> bool" where
  "aes_ok ap \<longleftrightarrow> length (state ap) = BLOCKLEN"

lemma aes_okE:
  assumes "aes_ok ap"
  obtains a0 a1 a2 a3 a4 a5 a6 a7 a8 a9 a10 a11 a12 a13 a14 a15
  where "state ap = [a0, a1, a2, a3, a4, a5, a6, a7, a8, a9, a10, a11, a12, a13, a14, a15]"
  using assms unfolding aes_ok_def BLOCKLEN_def by (rule block_cases) 

lemma length_fold_update:
  assumes "\<And>i st. length (f i st) = length st"
  shows "length (fold f is st) = length st"
  using assms by (induction "is" arbitrary: st) auto

lemma round_functions_ok [simp]:
  "aes_ok (AddRoundKey r ap) = aes_ok ap" "aes_ok (SubBytes ap) = aes_ok ap"
  "aes_ok (ShiftRows ap) = aes_ok ap" "aes_ok (MixColumns ap) = aes_ok ap"
  "aes_ok (InvSubBytes ap) = aes_ok ap" "aes_ok (InvShiftRows ap) = aes_ok ap"
  "aes_ok (InvMixColumns ap) = aes_ok ap"
  by (simp_all add: aes_ok_def AddRoundKey_def SubBytes_def ShiftRows_def MixColumns_def
      InvSubBytes_def InvShiftRows_def InvMixColumns_def Let_def length_fold_update
      add_round_key_at_def mix_column_def inv_mix_column_def)

section \<open>Each round function has an inverse\<close>

lemma AddRoundKey_AddRoundKey:
  assumes "aes_ok ap" shows "AddRoundKey r (AddRoundKey r ap) = ap"
  using assms by (rule aes_okE) (simp add: AddRoundKey_def add_round_key_at_def block_eval xor.assoc)

lemma InvShiftRows_ShiftRows:
  assumes "aes_ok ap" shows "InvShiftRows (ShiftRows ap) = ap"
  using assms by (rule aes_okE) (simp add: InvShiftRows_def ShiftRows_def block_eval)

lemma sbox_table: "map (\<lambda>y. rsbox ! unat y) sbox = map word_of_nat [0..<256]"
  by code_simp

lemma getSBoxInvert_getSBoxValue: "getSBoxInvert (getSBoxValue x) = x"
proof -
  have x: "unat x < 256" using unsigned_less[of x, where ?'a = nat] by simp
  have "map (\<lambda>y. rsbox ! unat y) sbox ! unat x = map word_of_nat [0..<256] ! unat x"
    by (simp only: sbox_table)
  moreover have "length sbox = 256" by (simp add: sbox_def)
  ultimately show ?thesis using x by (simp add: getSBoxInvert_def getSBoxValue_def)
qed

lemma InvSubBytes_SubBytes:
  assumes "aes_ok ap" shows "InvSubBytes (SubBytes ap) = ap"
  using assms by (rule aes_okE) (simp add: InvSubBytes_def SubBytes_def block_eval getSBoxInvert_getSBoxValue)

lemma xtime_alt: "xtime x = push_bit 1 x XOR (if bit x 7 then 0x1b else 0)"
  by (auto simp: xtime_def bit_iff_odd_drop_bit and_one_eq mod_2_eq_odd)

lemma xtime_xor: "xtime (x XOR y) = xtime x XOR xtime y"
  by (auto simp: xtime_alt push_bit_xor bit_xor_iff ac_simps)

lemma Multiply_simps:
  "Multiply x 0x0e = xtime x XOR xtime (xtime x) XOR xtime (xtime (xtime x))"
  "Multiply x 0x0b = x XOR xtime x XOR xtime (xtime (xtime x))"
  "Multiply x 0x0d = x XOR xtime (xtime x) XOR xtime (xtime (xtime x))"
  "Multiply x 0x09 = x XOR xtime (xtime (xtime x))"
  by (simp_all add: Multiply_def)

definition mixed :: "byte \<Rightarrow> byte \<Rightarrow> byte \<Rightarrow> byte \<Rightarrow> byte" where
  "mixed a b c d = xtime a XOR xtime b XOR b XOR c XOR d"

lemma mix_column_mixed:
  "fold mix_column [0..<4] [a0, a1, a2, a3, a4, a5, a6, a7, a8, a9, a10, a11, a12, a13, a14, a15] =
    [mixed a0 a1 a2 a3, mixed a1 a2 a3 a0, mixed a2 a3 a0 a1, mixed a3 a0 a1 a2,
     mixed a4 a5 a6 a7, mixed a5 a6 a7 a4, mixed a6 a7 a4 a5, mixed a7 a4 a5 a6,
     mixed a8 a9 a10 a11, mixed a9 a10 a11 a8, mixed a10 a11 a8 a9, mixed a11 a8 a9 a10,
     mixed a12 a13 a14 a15, mixed a13 a14 a15 a12, mixed a14 a15 a12 a13, mixed a15 a12 a13 a14]"
  by (simp add: mix_column_def block_eval mixed_def xtime_xor xor_simps)

lemma inv_mix_mixed:
  "Multiply (mixed a b c d) 0x0e XOR Multiply (mixed b c d a) 0x0b XOR
     Multiply (mixed c d a b) 0x0d XOR Multiply (mixed d a b c) 0x09 = a"
  by (simp add: Multiply_simps mixed_def xtime_xor xor_simps)


text \<open>The four rows of the inverse column matrix are rotations of one another.\<close>

lemma inv_mix_mixed':
  "Multiply (mixed d a b c) 0x09 XOR Multiply (mixed a b c d) 0x0e XOR
     Multiply (mixed b c d a) 0x0b XOR Multiply (mixed c d a b) 0x0d = a"
  "Multiply (mixed c d a b) 0x0d XOR Multiply (mixed d a b c) 0x09 XOR
     Multiply (mixed a b c d) 0x0e XOR Multiply (mixed b c d a) 0x0b = a"
  "Multiply (mixed b c d a) 0x0b XOR Multiply (mixed c d a b) 0x0d XOR
     Multiply (mixed d a b c) 0x09 XOR Multiply (mixed a b c d) 0x0e = a"
  using inv_mix_mixed[of a b c d] by (simp_all add: ac_simps)

lemma inv_mix_column_mixed:
  "fold inv_mix_column [0..<4]
    [mixed a0 a1 a2 a3, mixed a1 a2 a3 a0, mixed a2 a3 a0 a1, mixed a3 a0 a1 a2,
     mixed a4 a5 a6 a7, mixed a5 a6 a7 a4, mixed a6 a7 a4 a5, mixed a7 a4 a5 a6,
     mixed a8 a9 a10 a11, mixed a9 a10 a11 a8, mixed a10 a11 a8 a9, mixed a11 a8 a9 a10,
     mixed a12 a13 a14 a15, mixed a13 a14 a15 a12, mixed a14 a15 a12 a13, mixed a15 a12 a13 a14]
   = [a0, a1, a2, a3, a4, a5, a6, a7, a8, a9, a10, a11, a12, a13, a14, a15]"
  by (simp add: inv_mix_column_def block_eval inv_mix_mixed inv_mix_mixed')

lemma InvMixColumns_MixColumns:
  assumes "aes_ok ap" shows "InvMixColumns (MixColumns ap) = ap"
  using assms
proof (rule aes_okE)
  fix a0 a1 a2 a3 a4 a5 a6 a7 a8 a9 a10 a11 a12 a13 a14 a15
  assume st: "state ap = [a0, a1, a2, a3, a4, a5, a6, a7, a8, a9, a10, a11, a12, a13, a14, a15]"
  have "fold inv_mix_column [0..<4] (fold mix_column [0..<4] (state ap)) = state ap"
    unfolding st mix_column_mixed by (rule inv_mix_column_mixed)
  then show ?thesis by (simp add: InvMixColumns_def MixColumns_def)
qed

section \<open>The inverse cipher inverts the cipher\<close>

lemma cipher_round_ok [simp]:
  "aes_ok (cipher_round r ap) = aes_ok ap" "aes_ok (inv_cipher_round r ap) = aes_ok ap"
  by (simp_all add: cipher_round_def inv_cipher_round_def)

lemma fold_cipher_round_ok [simp]: "aes_ok (fold cipher_round rs ap) = aes_ok ap"
  by (induction rs arbitrary: ap) auto

lemmas round_inverses =
  AddRoundKey_AddRoundKey InvShiftRows_ShiftRows InvSubBytes_SubBytes InvMixColumns_MixColumns

lemma inv_round_step:
  assumes "aes_ok ap"
  shows "inv_cipher_round r (ShiftRows (SubBytes (cipher_round r ap))) = ShiftRows (SubBytes ap)"
  using assms by (simp add: inv_cipher_round_def cipher_round_def round_inverses)

lemma inv_rounds:
  assumes "aes_ok ap"
  shows "fold inv_cipher_round (rev rs) (ShiftRows (SubBytes (fold cipher_round rs ap)))
           = ShiftRows (SubBytes ap)"
  using assms by (induction rs arbitrary: ap) (simp_all add: inv_round_step)

lemma InvCipher_Cipher:
  assumes "aes_ok ap" shows "InvCipher (Cipher ap) = ap"
  using assms by (simp add: InvCipher_def Cipher_def round_inverses inv_rounds del: upt_Suc)

lemma Cipher_ok [simp]: "aes_ok (Cipher ap) = aes_ok ap"
  by (simp add: Cipher_def)

lemma InvCipher_ok [simp]: "aes_ok (InvCipher ap) = aes_ok ap"
proof -
  have "aes_ok (fold inv_cipher_round rs ap) = aes_ok ap" for rs ap
    by (induction rs arbitrary: ap) auto
  then show ?thesis by (simp add: InvCipher_def)
qed

text \<open>The round keys play no part in the round functions other than \<open>AddRoundKey\<close>.\<close>

lemma round_functions_frame [simp]:
  "RoundKey (AddRoundKey r ap) = RoundKey ap" "RoundKey (SubBytes ap) = RoundKey ap"
  "RoundKey (ShiftRows ap) = RoundKey ap" "RoundKey (MixColumns ap) = RoundKey ap"
  "Key (AddRoundKey r ap) = Key ap" "Key (SubBytes ap) = Key ap"
  "Key (ShiftRows ap) = Key ap" "Key (MixColumns ap) = Key ap"
  "Iv (AddRoundKey r ap) = Iv ap" "Iv (SubBytes ap) = Iv ap"
  "Iv (ShiftRows ap) = Iv ap" "Iv (MixColumns ap) = Iv ap"
  by (simp_all add: AddRoundKey_def SubBytes_def ShiftRows_def MixColumns_def Let_def)

lemma Cipher_frame [simp]:
  "RoundKey (Cipher ap) = RoundKey ap" "Key (Cipher ap) = Key ap" "Iv (Cipher ap) = Iv ap"
proof -
  have "RoundKey (fold cipher_round rs ap) = RoundKey ap \<and> Key (fold cipher_round rs ap) = Key ap
    \<and> Iv (fold cipher_round rs ap) = Iv ap" for rs ap
    by (induction rs arbitrary: ap) (auto simp: cipher_round_def)
  then show "RoundKey (Cipher ap) = RoundKey ap" "Key (Cipher ap) = Key ap" "Iv (Cipher ap) = Iv ap"
    by (simp_all add: Cipher_def)
qed

section \<open>The tables hold the values of FIPS-197\<close>

lemma inverse_table_affine: "map fips_affine inverse_table = sbox"
  by (simp add: inverse_table_def sbox_def fips_affine_def upt_conv_Cons)

lemma getSBoxValue_fips: "getSBoxValue = fips_sbox"
proof
  fix b
  have "length inverse_table = 256" by (simp add: inverse_table_def)
  then show "getSBoxValue b = fips_sbox b"
    using unsigned_less[of b, where ?'a = nat]
    by (simp add: getSBoxValue_def fips_sbox_def gf_inverse_table flip: inverse_table_affine)
qed

lemma Rcon_fips:
  assumes "1 \<le> i" "i \<le> 10" shows "Rcon ! i = fips_rcon i"
proof -
  have "i \<in> {1, 2, 3, 4, 5, 6, 7, 8, 9, 10}" using assms by (auto simp: le_Suc_eq numeral_eq_Suc)
  then show ?thesis
    by (elim insertE emptyE) (simp_all only: fips_rcon_values, simp_all add: Rcon_def)
qed

section \<open>The key schedule of FIPS-197\<close>

lemma take_4_drop: "k + 4 \<le> length w \<Longrightarrow> take 4 (drop k w) = [w ! k, w ! (k + 1), w ! (k + 2), w ! (k + 3)]"
  by (rule nth_equalityI) (auto simp: less_Suc_eq numeral_eq_Suc)

lemma upd_append:
  "(w @ a # r)[length w + 0 := x] = w @ x # r"
  "(w @ a # b # r)[length w + 1 := x] = w @ a # x # r"
  "(w @ a # b # c # r)[length w + 2 := x] = w @ a # b # x # r"
  "(w @ a # b # c # d # r)[length w + 3 := x] = w @ a # b # c # x # r"
  by (simp_all add: list_update_append)

lemma nth_pre: "k < length w \<Longrightarrow> (w @ r) ! k = w ! k"
  by (simp add: nth_append)

lemma key_step_fips:
  assumes "length w = 4 * i" "4 \<le> i" "i < 44"
  shows "key_step i (w @ replicate (4 * Suc m) 0) = (w @ fips_next_word i w) @ replicate (4 * m) 0"
proof -
  from assms(2) obtain j where i: "i = j + 4" by (metis le_add_diff_inverse2)
  have len: "length w = 16 + 4 * j" using assms(1) i by simp
  have i1: "4 * (i - 1) = 12 + 4 * j" "4 * (i - 4) = 4 * j" by (simp_all add: i)
  have p: "take 4 (drop (4 * (i - 1)) w) = [w ! (12 + 4 * j + 0), w ! (12 + 4 * j + 1), w ! (12 + 4 * j + 2), w ! (12 + 4 * j + 3)]"
    unfolding i1 by (subst take_4_drop) (simp_all add: len)
  have q: "take 4 (drop (4 * (i - 4)) w) = [w ! (4 * j + 0), w ! (4 * j + 1), w ! (4 * j + 2), w ! (4 * j + 3)]"
    unfolding i1 by (subst take_4_drop) (simp_all add: len)
  have z: "replicate (4 * Suc m) (0 :: byte) = 0 # 0 # 0 # 0 # replicate (4 * m) 0"
    by (simp add: numeral_eq_Suc)
  have ix: "(i - 1) * 4 + k = 12 + 4 * j + k" "(i - Nk) * 4 + k = 4 * j + k" "i * 4 + k = length w + k" for k
    by (simp_all add: i Nk_def len)
  have rd: "(w @ r) ! (12 + 4 * j + k) = w ! (12 + 4 * j + k)" "(w @ r) ! (4 * j + k) = w ! (4 * j + k)"
    if "k < 4" for k r using that by (simp_all add: nth_pre len)
  have rc: "fips_rcon (i div 4) = Rcon ! (i div 4)"
    using assms(2,3) by (intro Rcon_fips[symmetric]) (simp_all add: less_eq_div_iff_mult_less_eq div_le_dividend)
  show ?thesis
    unfolding z key_step_def fips_next_word_def p q Let_def ix key_core_def rc getSBoxValue_fips
    by (simp only: upd_append rd Nk_def prod.case split_beta fst_conv snd_conv zero_less_numeral
        numeral_less_iff one_less_numeral_iff) (simp add: nth_append len)
qed

lemma key_copy_step:
  assumes "length w = 4 * i" "4 * i + 4 \<le> length key"
  shows "key_copy key i (w @ replicate (4 * Suc m) 0) = (w @ take 4 (drop (4 * i) key)) @ replicate (4 * m) 0"
proof -
  have z: "replicate (4 * Suc m) (0 :: byte) = 0 # 0 # 0 # 0 # replicate (4 * m) 0"
    by (simp add: numeral_eq_Suc)
  have ix: "i * 4 + k = length w + k" for k by (simp add: assms(1))
  show ?thesis
    using take_4_drop[OF assms(2)]
    unfolding z key_copy_def ix by (simp only: upd_append) (simp add: assms(1))
qed

text \<open>A loop that fills a zeroed array four bytes at a time, as a growing list.\<close>

lemma fold_grow:
  assumes step: "\<And>i w m. lo \<le> i \<Longrightarrow> i < hi \<Longrightarrow> length w = 4 * i \<Longrightarrow>
      f i (w @ replicate (4 * Suc m) 0) = (w @ g i w) @ replicate (4 * m) 0 \<and> length (g i w) = 4"
    and w: "length w = 4 * lo" and "lo \<le> k" "k \<le> hi" "hi \<le> N"
  shows "fold f [lo..<k] (w @ replicate (4 * (N - lo)) (0 :: byte)) =
      fold (\<lambda>i w. w @ g i w) [lo..<k] w @ replicate (4 * (N - k)) 0 \<and>
    length (fold (\<lambda>i w. w @ g i w) [lo..<k] w) = 4 * k"
  using \<open>lo \<le> k\<close> \<open>k \<le> hi\<close>
proof (induction k rule: dec_induct)
  case base
  then show ?case by (simp add: w)
next
  case (step k)
  let ?w = "fold (\<lambda>i w. w @ g i w) [lo..<k] w"
  have "N - k = Suc (N - Suc k)" using step.prems \<open>hi \<le> N\<close> by simp
  with step show ?case
    using assms(1)[of k ?w "N - Suc k"] by simp
qed

lemma fold_key_copy:
  assumes "16 \<le> length key"
  shows "fold (key_copy key) [0..<Nk] (replicate keyExpSize 0) = take 16 key @ replicate 160 0"
proof -
  let ?g = "\<lambda>i w. take 4 (drop (4 * i) key)"
  have "fold (key_copy key) [0..<4] ([] @ replicate (4 * (44 - 0)) 0) =
      fold (\<lambda>i w. w @ ?g i w) [0..<4] [] @ replicate (4 * (44 - 4)) 0"
    by (rule fold_grow[where hi = 4, THEN conjunct1]) (use assms in \<open>auto simp: key_copy_step simp del: mult_Suc_right\<close>)
  moreover have "fold (\<lambda>i w. w @ ?g i w) [0..<4] [] = take 16 key"
    using take_add[of 12 4 key] take_add[of 8 4 key] take_add[of 4 4 key] by (simp add: upt_rec)
  ultimately show ?thesis by (simp add: Nk_def keyExpSize_def)
qed

lemma ecb_setup_RoundKey:
  assumes "16 \<le> length key"
  shows "RoundKey (ecb_setup out key) = fips_key_schedule key"
proof -
  have "fold key_step [4..<44] (take 16 key @ replicate (4 * (44 - 4)) 0) =
      fold (\<lambda>i w. w @ fips_next_word i w) [4..<44] (take 16 key) @ replicate (4 * (44 - 44)) 0"
    by (rule fold_grow[where hi = 44, THEN conjunct1])
      (use assms in \<open>auto simp: key_step_fips length_fips_next_word simp del: mult_Suc_right\<close>)
  moreover have "4 * (44 - 4) = (160 :: nat)" "4 * (44 - 44) = (0 :: nat)" "Nb * (Nr + 1) = 44" "Nk = 4"
    by (simp_all add: Nb_def Nr_def Nk_def)
  ultimately show ?thesis
    using fold_key_copy[OF assms]
    by (simp only: ecb_setup_def KeyExpansion_def fips_key_schedule_def AESPrivData.simps replicate_0 append_Nil2)
qed


section \<open>Properties of the ECB entry points\<close>

lemma ecb_setup_simps [simp]:
  "state (ecb_setup out key) = take BLOCKLEN out"
  "Key (ecb_setup out key) = key" "Iv (ecb_setup out key) = []"
  by (simp_all add: ecb_setup_def KeyExpansion_def)

lemma ecb_setup_ok [simp]: "BLOCKLEN \<le> length out \<Longrightarrow> aes_ok (ecb_setup out key)"
  by (simp add: aes_ok_def)

lemma RoundKey_ecb_setup: "RoundKey (ecb_setup out key) = RoundKey (ecb_setup out' key)"
  by (simp add: ecb_setup_def KeyExpansion_def)

text \<open>Setting up for the ciphertext block gives the private data the cipher ended with.\<close>

lemma ecb_setup_Cipher:
  assumes "BLOCKLEN \<le> length out" "take BLOCKLEN c = state (Cipher (ecb_setup out key))"
  shows "ecb_setup c key = Cipher (ecb_setup out key)"
  using assms RoundKey_ecb_setup[of c key out]
  by (intro AESPrivData.equality) simp_all

lemma length_state_Cipher [simp]:
  "aes_ok ap \<Longrightarrow> length (state (Cipher ap)) = BLOCKLEN"
  "aes_ok ap \<Longrightarrow> length (state (InvCipher ap)) = BLOCKLEN"
  using Cipher_ok[of ap] InvCipher_ok[of ap] unfolding aes_ok_def by auto

lemma length_AES_ECB_encrypt:
  "AES_ECB_encrypt input key output len = Some c \<Longrightarrow> length c = length output"
  by (auto simp: AES_ECB_encrypt_def ecb_buffers_ok_def Let_def split: if_splits)

lemma length_AES_ECB_decrypt:
  "AES_ECB_decrypt input key output len = Some c \<Longrightarrow> length c = length output"
  by (auto simp: AES_ECB_decrypt_def ecb_buffers_ok_def Let_def split: if_splits)

lemma splice_front:
  assumes "drop n c = drop n a" "n \<le> k" "k \<le> length c"
  shows "take n a @ drop n (take k c @ r) = take k a @ r"
proof -
  have "drop n (take k c @ r) = take (k - n) (drop n a) @ r"
    using assms by (simp add: drop_take)
  moreover have "take n a @ take (k - n) (drop n a) = take k a"
    using take_add[of n "k - n" a] assms(2) by simp
  ultimately show ?thesis by (metis append_assoc)
qed

lemma ecb_decrypt_encrypt:
  assumes enc: "AES_ECB_encrypt input key output len = Some c"
    and dec: "ecb_buffers_ok c key output' len'" "BLOCKLEN \<le> unat len'"
  shows "AES_ECB_decrypt c key output' len' =
    Some (take (unat len') (take (unat len) input @ drop (unat len) output) @ drop (unat len') output')"
proof -
  let ?out = "take (unat len) input @ drop (unat len) output"
  let ?dst = "take (unat len') c @ drop (unat len') output'"
  have ok: "ecb_buffers_ok input key output len" and c: "c = state (Cipher (ecb_setup ?out key)) @ drop BLOCKLEN ?out"
    using enc by (auto simp: AES_ECB_encrypt_def Let_def split: if_splits)
  have lo: "BLOCKLEN \<le> length ?out" using ok by (simp add: ecb_buffers_ok_def)
  have lc: "length c = length ?out" using lo by (simp add: c)
  have "take BLOCKLEN ?dst = state (Cipher (ecb_setup ?out key))"
    using dec lo by (simp add: c ecb_buffers_ok_def)
  then have "ecb_setup ?dst key = Cipher (ecb_setup ?out key)"
    using lo by (intro ecb_setup_Cipher)
  then have "state (InvCipher (ecb_setup ?dst key)) = take BLOCKLEN ?out"
    using lo by (simp add: InvCipher_Cipher)
  moreover have "take BLOCKLEN ?out @ drop BLOCKLEN ?dst = take (unat len') ?out @ drop (unat len') output'"
    by (rule splice_front) (use dec lo lc in \<open>simp_all add: c ecb_buffers_ok_def\<close>)
  ultimately show ?thesis using dec(1) by (simp add: AES_ECB_decrypt_def Let_def)
qed


text \<open>
  C27: The block transformation is invertible: on buffers large enough for at least one block,
  \<open>AES_ECB_encrypt\<close> succeeds and \<open>AES_ECB_decrypt\<close> with the same key turns its output back
  into the input, whatever the two output buffers held before.
\<close>

theorem aes_ecb_round_trip:
  assumes "ecb_buffers_ok input key output len" "16 \<le> unat len" "unat len \<le> length output'"
  shows "\<exists>c p. AES_ECB_encrypt input key output len = Some c \<and>
               AES_ECB_decrypt c key output' len = Some p \<and>
               take (unat len) p = take (unat len) input"
proof -
  from assms(1) obtain c where c: "AES_ECB_encrypt input key output len = Some c"
    by (auto simp: AES_ECB_encrypt_def Let_def)
  moreover have "ecb_buffers_ok c key output' len" "BLOCKLEN \<le> unat len"
    using assms length_AES_ECB_encrypt[OF c] by (simp_all add: ecb_buffers_ok_def BLOCKLEN_def)
  ultimately show ?thesis
    using ecb_decrypt_encrypt[OF c] assms(1) by (simp add: ecb_buffers_ok_def)
qed

theorem aes_ecb_round_trip_witness:
  "\<exists>c p. AES_ECB_encrypt (replicate 32 7) (replicate 16 1) (replicate 32 0) 32 = Some c \<and>
         AES_ECB_decrypt c (replicate 16 1) (replicate 40 9) 32 = Some p \<and>
         take (unat (32 :: u32)) p = take (unat (32 :: u32)) (replicate 32 7)"
  by (rule aes_ecb_round_trip) (simp_all add: ecb_buffers_ok_def BLOCKLEN_def Nk_def)

text \<open>
  Despite its name and its length argument, the ECB entry point transforms one block only:
  every byte of the message after the sixteenth is copied to the output as it is.
\<close>

theorem aes_ecb_tail_is_plaintext:
  assumes "AES_ECB_encrypt input key output len = Some c"
  shows "drop 16 (take (unat len) c) = drop 16 (take (unat len) input)"
proof -
  let ?out = "take (unat len) input @ drop (unat len) output"
  have ok: "ecb_buffers_ok input key output len"
    and c: "c = state (Cipher (ecb_setup ?out key)) @ drop BLOCKLEN ?out"
    using assms by (auto simp: AES_ECB_encrypt_def Let_def split: if_splits)
  then have "drop BLOCKLEN c = drop BLOCKLEN ?out" by (simp add: ecb_buffers_ok_def)
  then have "drop 16 (take (unat len) c) = drop 16 (take (unat len) ?out)"
    by (simp only: drop_take BLOCKLEN_def)
  with ok show ?thesis by (simp add: ecb_buffers_ok_def)
qed

theorem aes_ecb_tail_is_plaintext_witness:
  "drop 16 (take (unat (32 :: u32)) (the (AES_ECB_encrypt (replicate 32 7) (replicate 16 1) (replicate 32 0) 32)))
     = drop 16 (take (unat (32 :: u32)) (replicate 32 7))"
  by (rule aes_ecb_tail_is_plaintext [of "replicate 32 7" "replicate 16 1" "replicate 32 0"])
    (simp add: AES_ECB_encrypt_def Let_def ecb_buffers_ok_def BLOCKLEN_def Nk_def)

section \<open>The cipher of FIPS-197\<close>

lemma upt_0_16: "[0..<16] = [0, 1, 2, 3, 4, 5, 6, 7, 8, 9, 10, 11, 12, 13, 14, 15 :: nat]"
  by (simp add: upt_rec)

lemma gf_mul_xtime: "gf_mul 2 b = xtime b" "gf_mul 3 b = xtime b XOR b"
  by (simp_all add: gf_mul_eval fips_xtime_def xtime_alt ac_simps)

lemma round_functions_fips:
  assumes "aes_ok ap"
  shows "state (SubBytes ap) = map fips_sbox (state ap)"
    and "state (ShiftRows ap) = fips_shift_rows (state ap)"
    and "state (MixColumns ap) = fips_mix_columns (state ap)"
    and "state (AddRoundKey r ap) = fips_add_round_key (RoundKey ap) r (state ap)"
proof -
  from assms obtain a0 a1 a2 a3 a4 a5 a6 a7 a8 a9 a10 a11 a12 a13 a14 a15
    where st: "state ap = [a0, a1, a2, a3, a4, a5, a6, a7, a8, a9, a10, a11, a12, a13, a14, a15]"
    by (rule aes_okE)
  show "state (SubBytes ap) = map fips_sbox (state ap)"
    by (simp add: st SubBytes_def block_eval getSBoxValue_fips)
  show "state (ShiftRows ap) = fips_shift_rows (state ap)"
    by (simp add: st ShiftRows_def fips_shift_rows_def upt_0_16 block_eval)
  show "state (MixColumns ap) = fips_mix_columns (state ap)"
    by (simp add: st MixColumns_def mix_column_mixed fips_mix_columns_def upt_0_16 Let_def mixed_def gf_mul_xtime xor_simps)
  show "state (AddRoundKey r ap) = fips_add_round_key (RoundKey ap) r (state ap)"
    by (simp add: st AddRoundKey_def add_round_key_at_def fips_add_round_key_def upt_0_16 block_eval Nb_def add.commute mult.commute)
qed

lemma fold_cipher_round_fips:
  assumes "aes_ok ap"
  shows "state (fold cipher_round rs ap) =
    fold (\<lambda>r s. fips_add_round_key (RoundKey ap) r (fips_mix_columns (fips_shift_rows (map fips_sbox s)))) rs (state ap)"
  using assms by (induction rs arbitrary: ap) (simp_all add: cipher_round_def round_functions_fips)

lemma Cipher_fips:
  assumes "aes_ok ap" shows "state (Cipher ap) = fips_cipher (RoundKey ap) (state ap)"
proof -
  have "RoundKey (fold cipher_round rs ap) = RoundKey ap" for rs ap
    by (induction rs arbitrary: ap) (auto simp: cipher_round_def)
  then show ?thesis
    using assms by (simp add: Cipher_def fips_cipher_def Let_def Nr_def round_functions_fips fold_cipher_round_fips del: upt_Suc)
qed

text \<open>
  C28: Key expansion in place over the zeroed 176-byte array computes the AES-128 key schedule
  of FIPS-197: for every key of at least 16 bytes the array holds the eleven round keys of the
  reference schedule, whose substitution is the inverse in the field of bytes followed by the
  affine map and whose round constants are the powers of \<open>{02}\<close>.
\<close>

theorem key_expansion_is_fips_197:
  assumes "16 \<le> length key"
  shows "RoundKey (ecb_setup out key) = fips_key_schedule key"
  using assms by (rule ecb_setup_RoundKey)

theorem key_expansion_is_fips_197_witness:
  "RoundKey (ecb_setup [] (replicate 16 0)) = fips_key_schedule (replicate 16 0)"
  by (rule key_expansion_is_fips_197) simp

text \<open>
  C29: \<open>AES_ECB_encrypt\<close> computes AES-128 of FIPS-197 on the first sixteen bytes of the message,
  whatever the key, the message and the output buffer: the block it writes is the standard's
  cipher under the standard's key schedule. The bytes after it are the message unchanged.
\<close>

theorem aes_ecb_is_fips_197:
  assumes "ecb_buffers_ok input key output len" "16 \<le> unat len"
  shows "\<exists>c. AES_ECB_encrypt input key output len = Some c \<and>
             take 16 c = fips_cipher (fips_key_schedule key) (take 16 input) \<and>
             take (unat len - 16) (drop 16 c) = take (unat len - 16) (drop 16 input)"
proof -
  let ?out = "take (unat len) input @ drop (unat len) output"
  let ?ap = "ecb_setup ?out key"
  have len: "BLOCKLEN \<le> length ?out" "16 \<le> length key" "take BLOCKLEN ?out = take 16 input"
    using assms by (simp_all add: ecb_buffers_ok_def BLOCKLEN_def Nk_def)
  have "state (Cipher ?ap) = fips_cipher (fips_key_schedule key) (take 16 input)"
    using len by (simp add: Cipher_fips ecb_setup_RoundKey)
  moreover have "length (state (Cipher ?ap)) = 16" using len by (simp add: BLOCKLEN_def)
  ultimately show ?thesis
    using assms by (simp add: AES_ECB_encrypt_def Let_def BLOCKLEN_def drop_take ecb_buffers_ok_def min_def)
qed

theorem aes_ecb_is_fips_197_witness:
  "\<exists>c. AES_ECB_encrypt (replicate 20 7) (replicate 16 1) (replicate 20 0) 20 = Some c \<and>
       take 16 c = fips_cipher (fips_key_schedule (replicate 16 1)) (take 16 (replicate 20 7)) \<and>
       take (unat (20 :: u32) - 16) (drop 16 c) = take (unat (20 :: u32) - 16) (drop 16 (replicate 20 7))"
  by (rule aes_ecb_is_fips_197) (simp_all add: ecb_buffers_ok_def BLOCKLEN_def Nk_def)

end
