(* ===== verification/Aes_Kat.thy ===== *)
theory Aes_Kat
  imports Aes_Core
begin

text \<open>
  Known-answer test of the AES implementation: the cipher example of FIPS-197 (appendix B)
  is evaluated on the definitions of \<open>Aes_Core\<close> inside the kernel. Table lookups go through
  the rows of the S-box so that the simplifier does not walk the whole table.
\<close>

definition sbox_row :: "nat \<Rightarrow> bytes" where
  "sbox_row r =
     (if r = 0 then [0x63, 0x7c, 0x77, 0x7b, 0xf2, 0x6b, 0x6f, 0xc5, 0x30, 0x01, 0x67, 0x2b, 0xfe, 0xd7, 0xab, 0x76]
      else if r = 1 then [0xca, 0x82, 0xc9, 0x7d, 0xfa, 0x59, 0x47, 0xf0, 0xad, 0xd4, 0xa2, 0xaf, 0x9c, 0xa4, 0x72, 0xc0]
      else if r = 2 then [0xb7, 0xfd, 0x93, 0x26, 0x36, 0x3f, 0xf7, 0xcc, 0x34, 0xa5, 0xe5, 0xf1, 0x71, 0xd8, 0x31, 0x15]
      else if r = 3 then [0x04, 0xc7, 0x23, 0xc3, 0x18, 0x96, 0x05, 0x9a, 0x07, 0x12, 0x80, 0xe2, 0xeb, 0x27, 0xb2, 0x75]
      else if r = 4 then [0x09, 0x83, 0x2c, 0x1a, 0x1b, 0x6e, 0x5a, 0xa0, 0x52, 0x3b, 0xd6, 0xb3, 0x29, 0xe3, 0x2f, 0x84]
      else if r = 5 then [0x53, 0xd1, 0x00, 0xed, 0x20, 0xfc, 0xb1, 0x5b, 0x6a, 0xcb, 0xbe, 0x39, 0x4a, 0x4c, 0x58, 0xcf]
      else if r = 6 then [0xd0, 0xef, 0xaa, 0xfb, 0x43, 0x4d, 0x33, 0x85, 0x45, 0xf9, 0x02, 0x7f, 0x50, 0x3c, 0x9f, 0xa8]
      else if r = 7 then [0x51, 0xa3, 0x40, 0x8f, 0x92, 0x9d, 0x38, 0xf5, 0xbc, 0xb6, 0xda, 0x21, 0x10, 0xff, 0xf3, 0xd2]
      else if r = 8 then [0xcd, 0x0c, 0x13, 0xec, 0x5f, 0x97, 0x44, 0x17, 0xc4, 0xa7, 0x7e, 0x3d, 0x64, 0x5d, 0x19, 0x73]
      else if r = 9 then [0x60, 0x81, 0x4f, 0xdc, 0x22, 0x2a, 0x90, 0x88, 0x46, 0xee, 0xb8, 0x14, 0xde, 0x5e, 0x0b, 0xdb]
      else if r = 10 then [0xe0, 0x32, 0x3a, 0x0a, 0x49, 0x06, 0x24, 0x5c, 0xc2, 0xd3, 0xac, 0x62, 0x91, 0x95, 0xe4, 0x79]
      else if r = 11 then [0xe7, 0xc8, 0x37, 0x6d, 0x8d, 0xd5, 0x4e, 0xa9, 0x6c, 0x56, 0xf4, 0xea, 0x65, 0x7a, 0xae, 0x08]
      else if r = 12 then [0xba, 0x78, 0x25, 0x2e, 0x1c, 0xa6, 0xb4, 0xc6, 0xe8, 0xdd, 0x74, 0x1f, 0x4b, 0xbd, 0x8b, 0x8a]
      else if r = 13 then [0x70, 0x3e, 0xb5, 0x66, 0x48, 0x03, 0xf6, 0x0e, 0x61, 0x35, 0x57, 0xb9, 0x86, 0xc1, 0x1d, 0x9e]
      else if r = 14 then [0xe1, 0xf8, 0x98, 0x11, 0x69, 0xd9, 0x8e, 0x94, 0x9b, 0x1e, 0x87, 0xe9, 0xce, 0x55, 0x28, 0xdf]
      else [0x8c, 0xa1, 0x89, 0x0d, 0xbf, 0xe6, 0x42, 0x68, 0x41, 0x99, 0x2d, 0x0f, 0xb0, 0x54, 0xbb, 0x16])"

lemma sbox_rows: "sbox = concat (map sbox_row [0..<16])"
  by (simp add: sbox_def sbox_row_def upt_rec)

lemma length_sbox_row: "length (sbox_row r) = 16"
  by (simp add: sbox_row_def)

lemma nth_concat_uniform:
  assumes "\<And>x. length (f x) = n" "i < n * m" "0 < n"
  shows "concat (map f [0..<m]) ! i = f (i div n) ! (i mod n)"
  using assms(2)
proof (induction m)
  case 0
  then show ?case by simp
next
  case (Suc m)
  have len: "length (concat (map f [0..<m])) = n * m"
    by (simp add: length_concat comp_def assms(1) sum_list_triv mult.commute)
  show ?case
  proof (cases "i < n * m")
    case True
    with Suc len show ?thesis by (simp add: nth_append)
  next
    case False
    then have "i div n = m" using Suc.prems assms(3)
      by (metis div_nat_eqI mult.commute not_less)
    moreover have "i - n * m = i mod n" using calculation by (metis minus_mult_div_eq_mod)
    ultimately show ?thesis using False len by (simp add: nth_append)
  qed
qed

lemma getSBoxValue_by_row: "getSBoxValue x = (let n = unat x in sbox_row (n div 16) ! (n mod 16))"
proof -
  have "unat x < 16 * 16" using unsigned_less[of x, where ?'a = nat] by simp
  then show ?thesis
    using nth_concat_uniform[of sbox_row 16 "unat x" 16]
    by (simp add: getSBoxValue_def sbox_rows length_sbox_row Let_def)
qed


lemma upt_4_44: "[4..<44] = [4, 5, 6, 7, 8, 9, 10, 11, 12, 13, 14, 15, 16, 17, 18, 19, 20, 21, 22, 23,
    24, 25, 26, 27, 28, 29, 30, 31, 32, 33, 34, 35, 36, 37, 38, 39, 40, 41, 42, 43 :: nat]"
  by (simp add: upt_rec)

lemma upt_1_10: "[Suc 0..<10] = [1, 2, 3, 4, 5, 6, 7, 8, 9 :: nat]"
  by (simp add: upt_rec)

lemmas sbox_eval = getSBoxValue_by_row sbox_row_def Let_def

text \<open>The expanded key of FIPS-197, appendix A.1.\<close>

lemma fips_197_schedule:
  "fips_key_schedule [0x2b, 0x7e, 0x15, 0x16, 0x28, 0xae, 0xd2, 0xa6, 0xab, 0xf7, 0x15, 0x88, 0x09, 0xcf, 0x4f, 0x3c] =
    [0x2b, 0x7e, 0x15, 0x16, 0x28, 0xae, 0xd2, 0xa6, 0xab, 0xf7, 0x15, 0x88, 0x09, 0xcf, 0x4f, 0x3c,
     0xa0, 0xfa, 0xfe, 0x17, 0x88, 0x54, 0x2c, 0xb1, 0x23, 0xa3, 0x39, 0x39, 0x2a, 0x6c, 0x76, 0x05,
     0xf2, 0xc2, 0x95, 0xf2, 0x7a, 0x96, 0xb9, 0x43, 0x59, 0x35, 0x80, 0x7a, 0x73, 0x59, 0xf6, 0x7f,
     0x3d, 0x80, 0x47, 0x7d, 0x47, 0x16, 0xfe, 0x3e, 0x1e, 0x23, 0x7e, 0x44, 0x6d, 0x7a, 0x88, 0x3b,
     0xef, 0x44, 0xa5, 0x41, 0xa8, 0x52, 0x5b, 0x7f, 0xb6, 0x71, 0x25, 0x3b, 0xdb, 0x0b, 0xad, 0x00,
     0xd4, 0xd1, 0xc6, 0xf8, 0x7c, 0x83, 0x9d, 0x87, 0xca, 0xf2, 0xb8, 0xbc, 0x11, 0xf9, 0x15, 0xbc,
     0x6d, 0x88, 0xa3, 0x7a, 0x11, 0x0b, 0x3e, 0xfd, 0xdb, 0xf9, 0x86, 0x41, 0xca, 0x00, 0x93, 0xfd,
     0x4e, 0x54, 0xf7, 0x0e, 0x5f, 0x5f, 0xc9, 0xf3, 0x84, 0xa6, 0x4f, 0xb2, 0x4e, 0xa6, 0xdc, 0x4f,
     0xea, 0xd2, 0x73, 0x21, 0xb5, 0x8d, 0xba, 0xd2, 0x31, 0x2b, 0xf5, 0x60, 0x7f, 0x8d, 0x29, 0x2f,
     0xac, 0x77, 0x66, 0xf3, 0x19, 0xfa, 0xdc, 0x21, 0x28, 0xd1, 0x29, 0x41, 0x57, 0x5c, 0x00, 0x6e,
     0xd0, 0x14, 0xf9, 0xa8, 0xc9, 0xee, 0x25, 0x89, 0xe1, 0x3f, 0x0c, 0xc8, 0xb6, 0x63, 0x0c, 0xa6]"
  by (simp add: fips_key_schedule_def upt_4_44 fips_next_word_def sbox_eval
      fips_rcon_values[simplified] flip: getSBoxValue_fips)

text \<open>The round functions on an explicit block.\<close>

lemma round_functions_block:
  "SubBytes \<lparr>state = [a0, a1, a2, a3, a4, a5, a6, a7, a8, a9, a10, a11, a12, a13, a14, a15], RoundKey = rk, Key = k, Iv = iv\<rparr> =
    \<lparr>state = [getSBoxValue a0, getSBoxValue a1, getSBoxValue a2, getSBoxValue a3, getSBoxValue a4, getSBoxValue a5, getSBoxValue a6, getSBoxValue a7, getSBoxValue a8, getSBoxValue a9, getSBoxValue a10, getSBoxValue a11, getSBoxValue a12, getSBoxValue a13, getSBoxValue a14, getSBoxValue a15], RoundKey = rk, Key = k, Iv = iv\<rparr>"
  "ShiftRows \<lparr>state = [a0, a1, a2, a3, a4, a5, a6, a7, a8, a9, a10, a11, a12, a13, a14, a15], RoundKey = rk, Key = k, Iv = iv\<rparr> =
    \<lparr>state = [a0, a5, a10, a15, a4, a9, a14, a3, a8, a13, a2, a7, a12, a1, a6, a11], RoundKey = rk, Key = k, Iv = iv\<rparr>"
  "MixColumns \<lparr>state = [a0, a1, a2, a3, a4, a5, a6, a7, a8, a9, a10, a11, a12, a13, a14, a15], RoundKey = rk, Key = k, Iv = iv\<rparr> =
    \<lparr>state = [mixed a0 a1 a2 a3, mixed a1 a2 a3 a0, mixed a2 a3 a0 a1, mixed a3 a0 a1 a2, mixed a4 a5 a6 a7, mixed a5 a6 a7 a4, mixed a6 a7 a4 a5, mixed a7 a4 a5 a6, mixed a8 a9 a10 a11, mixed a9 a10 a11 a8, mixed a10 a11 a8 a9, mixed a11 a8 a9 a10, mixed a12 a13 a14 a15, mixed a13 a14 a15 a12, mixed a14 a15 a12 a13, mixed a15 a12 a13 a14], RoundKey = rk, Key = k, Iv = iv\<rparr>"
  "AddRoundKey r \<lparr>state = [a0, a1, a2, a3, a4, a5, a6, a7, a8, a9, a10, a11, a12, a13, a14, a15], RoundKey = rk, Key = k, Iv = iv\<rparr> =
    \<lparr>state = [a0 XOR rk ! (16 * r), a1 XOR rk ! (16 * r + 1), a2 XOR rk ! (16 * r + 2), a3 XOR rk ! (16 * r + 3), a4 XOR rk ! (16 * r + 4), a5 XOR rk ! (16 * r + 5), a6 XOR rk ! (16 * r + 6), a7 XOR rk ! (16 * r + 7), a8 XOR rk ! (16 * r + 8), a9 XOR rk ! (16 * r + 9), a10 XOR rk ! (16 * r + 10), a11 XOR rk ! (16 * r + 11), a12 XOR rk ! (16 * r + 12), a13 XOR rk ! (16 * r + 13), a14 XOR rk ! (16 * r + 14), a15 XOR rk ! (16 * r + 15)], RoundKey = rk, Key = k, Iv = iv\<rparr>"
  using mix_column_mixed[of a0 a1 a2 a3 a4 a5 a6 a7 a8 a9 a10 a11 a12 a13 a14 a15]
  by (simp_all add: SubBytes_def ShiftRows_def MixColumns_def AddRoundKey_def add_round_key_at_def
      block_eval Nb_def add.commute mult.commute del: upt_Suc)


definition fips_197_key :: bytes where
  "fips_197_key = [0x2b, 0x7e, 0x15, 0x16, 0x28, 0xae, 0xd2, 0xa6, 0xab, 0xf7, 0x15, 0x88, 0x09, 0xcf, 0x4f, 0x3c]"

definition fips_197_input :: bytes where
  "fips_197_input = [0x32, 0x43, 0xf6, 0xa8, 0x88, 0x5a, 0x30, 0x8d, 0x31, 0x31, 0x98, 0xa2, 0xe0, 0x37, 0x07, 0x34]"

lemma ecb_setup_fips_197:
  "ecb_setup fips_197_input fips_197_key =
    \<lparr>state = fips_197_input, RoundKey = fips_key_schedule fips_197_key, Key = fips_197_key, Iv = []\<rparr>"
proof -
  have "16 \<le> length fips_197_key" "take BLOCKLEN fips_197_input = fips_197_input"
    by (simp_all add: fips_197_key_def fips_197_input_def BLOCKLEN_def)
  then show ?thesis by (intro AESPrivData.equality) (simp_all add: ecb_setup_RoundKey)
qed

lemma Cipher_fips_197:
  "state (Cipher \<lparr>state = fips_197_input, RoundKey = fips_key_schedule fips_197_key, Key = k, Iv = iv\<rparr>) =
    [0x39, 0x25, 0x84, 0x1d, 0x02, 0xdc, 0x09, 0xfb, 0xdc, 0x11, 0x85, 0x97, 0x19, 0x6a, 0x0b, 0x32]"
  unfolding fips_197_input_def fips_197_key_def fips_197_schedule
  by (simp add: Cipher_def cipher_round_def upt_1_10 Nr_def round_functions_block
      sbox_eval mixed_def xtime_def)

text \<open>
  The implementation agrees with the standard on its published example: encrypting the
  block of FIPS-197 appendix B under its key gives the published ciphertext.
\<close>

theorem aes_fips_197_vector:
  "AES_ECB_encrypt fips_197_input fips_197_key (replicate 16 0) 16 =
    Some [0x39, 0x25, 0x84, 0x1d, 0x02, 0xdc, 0x09, 0xfb, 0xdc, 0x11, 0x85, 0x97, 0x19, 0x6a, 0x0b, 0x32]"
proof -
  have "length fips_197_input = 16" "length fips_197_key = 16"
    by (simp_all add: fips_197_input_def fips_197_key_def)
  then show ?thesis
    by (simp add: AES_ECB_encrypt_def ecb_buffers_ok_def BLOCKLEN_def Nk_def Let_def
        ecb_setup_fips_197 Cipher_fips_197)
qed

end
