(* ===== verification/C_Heap.thy ===== *)
theory C_Heap
  imports Snake_Prelude
begin

text \<open>
  The part of the C library the modules rely on for memory: \<open>malloc\<close>, \<open>free\<close>, and reads and
  writes through pointers. The heap maps block addresses to their contents; address 0 is
  \<open>NULL\<close>. Operations whose C counterpart has undefined behaviour (a read or write outside a
  block, a free of an address that is not allocated) return \<open>None\<close>. Memory the program has
  not written yet is indeterminate: \<open>fresh_bytes\<close> and \<open>stack_bytes\<close> hold whatever a new
  block or an uninitialised automatic variable happens to contain, and nothing is assumed
  of them. Allocation does not fail.

  An address names an allocation, like the block of a pointer in the memory models of C:
  \<open>c_malloc\<close> gives each allocation an address of its own, where \<open>malloc\<close> may give the address of a
  released block again. A program can tell the difference only by using a pointer after its
  block was released, which is undefined either way, and no theorem relies on the numbers.
\<close>

section \<open>Definitions\<close>

type_synonym ptr = nat

abbreviation (input) NULL :: ptr where "NULL \<equiv> 0"

record heap =
  blocks :: "ptr \<rightharpoonup> bytes"
  brk :: ptr
  fresh_bytes :: "ptr \<Rightarrow> nat \<Rightarrow> byte"
  stack_bytes :: "nat \<Rightarrow> byte"

definition heap_ok :: "heap \<Rightarrow> bool" where
  "heap_ok h \<longleftrightarrow> 0 < brk h \<and> (\<forall>p. brk h \<le> p \<longrightarrow> blocks h p = None) \<and> blocks h NULL = None"

definition c_malloc :: "nat \<Rightarrow> heap \<Rightarrow> ptr \<times> heap" where
  "c_malloc n h =
     (brk h, h\<lparr>blocks := (blocks h)(brk h \<mapsto> map (fresh_bytes h (brk h)) [0..<n]), brk := Suc (brk h)\<rparr>)"

definition c_free :: "ptr \<Rightarrow> heap \<Rightarrow> heap option" where
  "c_free p h =
     (if p = NULL then Some h
      else if blocks h p = None then None
      else Some (h\<lparr>blocks := (blocks h)(p := None)\<rparr>))"

definition load :: "heap \<Rightarrow> ptr \<Rightarrow> nat \<Rightarrow> nat \<Rightarrow> bytes option" where
  "load h p off n =
     (case blocks h p of None \<Rightarrow> None
      | Some b \<Rightarrow> if off + n \<le> length b then Some (take n (drop off b)) else None)"

definition overwrite :: "nat \<Rightarrow> bytes \<Rightarrow> bytes \<Rightarrow> bytes" where
  "overwrite off bs b = take off b @ bs @ drop (off + length bs) b"

definition store :: "heap \<Rightarrow> ptr \<Rightarrow> nat \<Rightarrow> bytes \<Rightarrow> heap option" where
  "store h p off bs =
     (case blocks h p of None \<Rightarrow> None
      | Some b \<Rightarrow> if off + length bs \<le> length b then Some (h\<lparr>blocks := (blocks h)(p \<mapsto> overwrite off bs b)\<rparr>)
                  else None)"

definition c_memcpy :: "heap \<Rightarrow> ptr \<Rightarrow> nat \<Rightarrow> ptr \<Rightarrow> nat \<Rightarrow> nat \<Rightarrow> heap option" where
  "c_memcpy h dst doff src soff n =
     (if n = 0 then Some h else do { bs \<leftarrow> load h src soff n; store h dst doff bs })"

section \<open>Laws\<close>

named_theorems heap_simps \<open>evaluation of heap operations on known blocks\<close>

lemma length_overwrite [simp]: "off + length bs \<le> length b \<Longrightarrow> length (overwrite off bs b) = length b"
  by (simp add: overwrite_def)

lemma overwrite_whole [simp]: "length bs = length b \<Longrightarrow> overwrite 0 bs b = bs"
  by (simp add: overwrite_def)

lemma overwrite_Nil [simp]: "overwrite off [] b = b"
  by (simp add: overwrite_def)

lemma heap_ok_blocks [dest]: "heap_ok h \<Longrightarrow> blocks h p = Some b \<Longrightarrow> p < brk h \<and> p \<noteq> NULL"
  by (metis heap_ok_def not_le option.distinct(1))

lemma heap_ok_fresh [simp]: "heap_ok h \<Longrightarrow> blocks h (brk h) = None" "heap_ok h \<Longrightarrow> 0 < brk h"
  by (simp_all add: heap_ok_def)

lemma heap_ok_malloc [simp]: "heap_ok h \<Longrightarrow> heap_ok (snd (c_malloc n h))"
  by (simp add: heap_ok_def c_malloc_def)

lemma heap_ok_free: "heap_ok h \<Longrightarrow> c_free p h = Some h' \<Longrightarrow> heap_ok h'"
  by (auto simp: heap_ok_def c_free_def split: if_splits)

lemma heap_ok_store: "heap_ok h \<Longrightarrow> store h p off bs = Some h' \<Longrightarrow> heap_ok h'"
  by (cases "p = NULL") (auto simp: heap_ok_def store_def split: option.splits if_splits)

lemma load_Some [heap_simps]:
  "blocks h p = Some b \<Longrightarrow> off + n \<le> length b \<Longrightarrow> load h p off n = Some (take n (drop off b))"
  by (simp add: load_def)

lemma load_out_of_range: "blocks h p = Some b \<Longrightarrow> length b < off + n \<Longrightarrow> load h p off n = None"
  by (simp add: load_def)

lemma store_Some [heap_simps]:
  "blocks h p = Some b \<Longrightarrow> off + length bs \<le> length b \<Longrightarrow>
     store h p off bs = Some (h\<lparr>blocks := (blocks h)(p \<mapsto> overwrite off bs b)\<rparr>)"
  by (simp add: store_def)

lemma free_Some [heap_simps]:
  "p \<noteq> NULL \<Longrightarrow> blocks h p = Some b \<Longrightarrow> c_free p h = Some (h\<lparr>blocks := (blocks h)(p := None)\<rparr>)"
  by (simp add: c_free_def)

lemma free_NULL [heap_simps, simp]: "c_free NULL h = Some h"
  by (simp add: c_free_def)

lemma double_free: "p \<noteq> NULL \<Longrightarrow> c_free p h = Some h' \<Longrightarrow> c_free p h' = None"
  by (auto simp: c_free_def split: if_splits)

lemma load_whole [heap_simps]: "blocks h p = Some b \<Longrightarrow> n = length b \<Longrightarrow> load h p 0 n = Some b"
  by (simp add: load_def)

text \<open>Loading back what a store wrote, and what it left alone.\<close>

lemma load_store_same:
  "store h p off bs = Some h' \<Longrightarrow> load h' p off (length bs) = Some bs"
  by (auto simp: store_def load_def overwrite_def split: option.splits if_splits)

lemma load_store_other: "store h p off bs = Some h' \<Longrightarrow> q \<noteq> p \<Longrightarrow> load h' q off' n = load h q off' n"
  by (auto simp: store_def load_def split: option.splits if_splits)

lemma load_Some_D: "load h p off n = Some bs \<Longrightarrow>
  \<exists>b. blocks h p = Some b \<and> off + n \<le> length b \<and> bs = take n (drop off b)"
  by (auto simp: load_def split: option.splits if_splits)

lemma length_load: "load h p off n = Some bs \<Longrightarrow> length bs = n"
  by (auto dest: load_Some_D)

end
