(* ===== verification/Module_Api.thy ===== *)
theory Module_Api
  imports C_Heap
begin

text \<open>
  The interface between SnakeSocks and its loadable modules: the data of
  \<open>src/src/modules/bss.h\<close>, \<open>conn.h\<close> and \<open>client_query.h\<close>, the functions of
  \<open>src/src/modules/stdafx.h\<close> as the record \<open>snake_module\<close> of function pointers that
  \<open>module_interface\<close> (\<open>src/src/native/src/module.hpp\<close>) holds after \<open>loadSo\<close>, the wrappers of
  \<open>module.cc\<close>, and the helpers of \<open>module-port.hpp\<close>.

  A module function takes the connection record behind its \<open>connect_info *\<close> and the heap and
  returns both updated; \<open>None\<close> is undefined behaviour. \<open>bss_bytes\<close> is the byte string a
  \<open>binary_safe_string\<close> denotes.

  The locale \<open>message_codec\<close> states what the core relies on in a pair of encode and decode
  functions: a message encoded on one side decodes to the same destination and payload on
  the other, the payload string is released exactly once, exactly one new string is handed
  back, and the encoding adds at most 1024 bytes.
\<close>

section \<open>Definitions\<close>

record binary_safe_string =
  null_terminated :: bool
  bss_length :: u32
  bss_str :: ptr

record connect_info =
  server_ip :: bytes
  server_port :: u16
  passphrase :: binary_safe_string
  connect_fd :: int
  additional_info :: ptr

record client_query =
  destination_ip :: bytes
  destination_port :: u16
  payload :: binary_safe_string

record snake_module =
  f_client_make_auth_query :: "connect_info \<Rightarrow> heap \<Rightarrow> (binary_safe_string \<times> connect_info \<times> heap) option"
  f_client_deal_auth_reply :: "connect_info \<Rightarrow> binary_safe_string \<Rightarrow> heap \<Rightarrow> (bool \<times> connect_info \<times> heap) option"
  f_client_encode :: "connect_info \<Rightarrow> client_query \<Rightarrow> heap \<Rightarrow> (binary_safe_string \<times> connect_info \<times> heap) option"
  f_client_decode :: "connect_info \<Rightarrow> binary_safe_string \<Rightarrow> heap \<Rightarrow> (client_query \<times> connect_info \<times> heap) option"
  f_client_connection_close :: "connect_info \<Rightarrow> heap \<Rightarrow> (connect_info \<times> heap) option"
  f_server_make_auth_reply :: "connect_info \<Rightarrow> binary_safe_string \<Rightarrow> heap \<Rightarrow> (binary_safe_string \<times> bool \<times> connect_info \<times> heap) option"
  f_server_encode :: "connect_info \<Rightarrow> client_query \<Rightarrow> heap \<Rightarrow> (binary_safe_string \<times> connect_info \<times> heap) option"
  f_server_decode :: "connect_info \<Rightarrow> binary_safe_string \<Rightarrow> heap \<Rightarrow> (client_query \<times> connect_info \<times> heap) option"
  f_server_connection_close :: "connect_info \<Rightarrow> heap \<Rightarrow> (connect_info \<times> heap) option"

subsection \<open>Wrappers of \<open>module_interface\<close>\<close>

definition makeAuthQuery :: "snake_module \<Rightarrow> connect_info \<Rightarrow> heap \<Rightarrow> (binary_safe_string \<times> connect_info \<times> heap) option" where
  "makeAuthQuery m conn h = f_client_make_auth_query m conn h"

definition onAuthReply :: "snake_module \<Rightarrow> ptr \<Rightarrow> nat \<Rightarrow> connect_info \<Rightarrow> heap \<Rightarrow> (bool \<times> connect_info \<times> heap) option" where
  "onAuthReply m authdata len conn h =
     f_client_deal_auth_reply m conn \<lparr>null_terminated = False, bss_length = of_nat len, bss_str = authdata\<rparr> h"

text \<open>\<open>payload\<close> replaces the template's payload only when it is not empty.\<close>

definition client_impl_encode ::
  "snake_module \<Rightarrow> binary_safe_string \<Rightarrow> connect_info \<Rightarrow> client_query \<Rightarrow> heap \<Rightarrow> (binary_safe_string \<times> connect_info \<times> heap) option" where
  "client_impl_encode m pl conn addrTemplate h =
     f_client_encode m conn (if bss_length pl \<noteq> 0 then addrTemplate\<lparr>payload := pl\<rparr> else addrTemplate) h"

definition client_impl_decode ::
  "snake_module \<Rightarrow> binary_safe_string \<Rightarrow> connect_info \<Rightarrow> heap \<Rightarrow> (client_query \<times> connect_info \<times> heap) option" where
  "client_impl_decode m pl conn h = f_client_decode m conn pl h"

definition client_impl_onCloseConn :: "snake_module \<Rightarrow> connect_info \<Rightarrow> heap \<Rightarrow> (connect_info \<times> heap) option" where
  "client_impl_onCloseConn m conn h = f_client_connection_close m conn h"

definition makeAuthReply ::
  "snake_module \<Rightarrow> connect_info \<Rightarrow> binary_safe_string \<Rightarrow> heap \<Rightarrow> (binary_safe_string \<times> bool \<times> connect_info \<times> heap) option" where
  "makeAuthReply m conn query h = f_server_make_auth_reply m conn query h"

definition server_impl_encode ::
  "snake_module \<Rightarrow> connect_info \<Rightarrow> client_query \<Rightarrow> heap \<Rightarrow> (binary_safe_string \<times> connect_info \<times> heap) option" where
  "server_impl_encode m conn pl h = f_server_encode m conn pl h"

definition server_impl_decode ::
  "snake_module \<Rightarrow> connect_info \<Rightarrow> binary_safe_string \<Rightarrow> heap \<Rightarrow> (client_query \<times> connect_info \<times> heap) option" where
  "server_impl_decode m conn pl h = f_server_decode m conn pl h"

definition server_impl_onCloseConn :: "snake_module \<Rightarrow> connect_info \<Rightarrow> heap \<Rightarrow> (connect_info \<times> heap) option" where
  "server_impl_onCloseConn m conn h = f_server_connection_close m conn h"

subsection \<open>Helpers of \<open>module-port.hpp\<close>\<close>

definition make_binary_safe_string :: "u32 \<Rightarrow> heap \<Rightarrow> binary_safe_string \<times> heap" where
  "make_binary_safe_string len h =
     (let (p, h) = c_malloc (unat len) h
      in (\<lparr>null_terminated = False, bss_length = len, bss_str = p\<rparr>, h))"

definition make_binary_safe_string_from :: "bytes \<Rightarrow> u32 \<Rightarrow> heap \<Rightarrow> (binary_safe_string \<times> heap) option" where
  "make_binary_safe_string_from cstr len h =
     (let (bss, h) = make_binary_safe_string len h
      in if unat len \<le> length cstr
         then do { h \<leftarrow> store h (bss_str bss) 0 (take (unat len) cstr); Some (bss, h) }
         else None)"

text \<open>
  The overload for \<open>std::string\<close> allocates \<open>str.size()\<close> bytes after conversion to
  \<open>uint32_t\<close>, and copies \<open>str.size()\<close> bytes.
\<close>

definition make_binary_safe_string_of :: "bytes \<Rightarrow> heap \<Rightarrow> (binary_safe_string \<times> heap) option" where
  "make_binary_safe_string_of s h =
     (let (bss, h) = make_binary_safe_string (of_nat (length s)) h
      in do { h \<leftarrow> store h (bss_str bss) 0 s; Some (bss, h) })"

definition delete_binary_safe_string :: "binary_safe_string \<Rightarrow> heap \<Rightarrow> heap option" where
  "delete_binary_safe_string bss h = c_free (bss_str bss) h"

subsection \<open>What a string denotes\<close>

definition bss_bytes :: "heap \<Rightarrow> binary_safe_string \<Rightarrow> bytes option" where
  "bss_bytes h b = (if bss_length b = 0 then Some [] else load h (bss_str b) 0 (unat (bss_length b)))"

definition query_view :: "heap \<Rightarrow> client_query \<Rightarrow> (bytes \<times> u16 \<times> bytes) option" where
  "query_view h q = map_option (\<lambda>pl. (destination_ip q, destination_port q, pl)) (bss_bytes h (payload q))"

text \<open>
  A message a caller may pass to an encode function: a 16-byte address and a payload string
  that owns its block (\<open>NULL\<close> is allowed for the empty payload), with room below \<open>2 ^ 32\<close>
  for the header and padding.
\<close>

definition query_ok :: "heap \<Rightarrow> client_query \<Rightarrow> bool" where
  "query_ok h q \<longleftrightarrow>
     length (destination_ip q) = 16 \<and>
     unat (bss_length (payload q)) + 64 < 2 ^ 32 \<and>
     (if bss_str (payload q) = NULL then bss_length (payload q) = 0
      else \<exists>b. blocks h (bss_str (payload q)) = Some b \<and> unat (bss_length (payload q)) \<le> length b)"

section \<open>Laws of the helpers\<close>

lemma bss_bytes_empty [simp]: "bss_length b = 0 \<Longrightarrow> bss_bytes h b = Some []"
  by (simp add: bss_bytes_def)

lemma query_ok_bytes:
  assumes "query_ok h q"
  obtains pl where "bss_bytes h (payload q) = Some pl" "length pl = unat (bss_length (payload q))"
    "query_view h q = Some (destination_ip q, destination_port q, pl)"
  using assms unfolding query_ok_def query_view_def bss_bytes_def load_def
  by (cases "bss_length (payload q) = 0") (auto split: if_splits option.splits)

lemma make_binary_safe_string_of_bytes:
  assumes "heap_ok h" "length s < 2 ^ 32"
  shows "\<exists>bss h'. make_binary_safe_string_of s h = Some (bss, h') \<and> bss_bytes h' bss = Some s \<and>
    unat (bss_length bss) = length s \<and> bss_str bss = brk h \<and> blocks h' = (blocks h)(brk h \<mapsto> s) \<and>
    brk h' = Suc (brk h) \<and> heap_ok h'"
proof -
  have len: "unat (of_nat (length s) :: u32) = length s"
    using assms(2) by (simp add: unat_of_nat)
  have "length s = 0" if "(of_nat (length s) :: u32) = 0" using len that by simp
  then show ?thesis
    using assms(1) len
    by (auto simp: make_binary_safe_string_of_def make_binary_safe_string_def c_malloc_def Let_def
        heap_simps bss_bytes_def heap_ok_def)
qed

lemma client_impl_encode_same:
  "client_impl_encode m pb c \<lparr>destination_ip = ip, destination_port = port, payload = pb\<rparr> h =
   f_client_encode m c \<lparr>destination_ip = ip, destination_port = port, payload = pb\<rparr> h"
  by (simp add: client_impl_encode_def)

section \<open>The contract of an encode and decode pair\<close>

text \<open>
  \<open>linked c h c' h'\<close>: the sender's connection \<open>c\<close> in its heap \<open>h\<close> and the receiver's
  connection \<open>c'\<close> in its heap \<open>h'\<close> belong to one session. \<open>private_block c\<close> are the blocks
  the connection record refers to; the agreement in \<open>stdafx.h\<close> is that nobody else frees or
  edits them, so a session only depends on those blocks.
\<close>

locale message_codec =
  fixes enc :: "connect_info \<Rightarrow> client_query \<Rightarrow> heap \<Rightarrow> (binary_safe_string \<times> connect_info \<times> heap) option"
    and dec :: "connect_info \<Rightarrow> binary_safe_string \<Rightarrow> heap \<Rightarrow> (client_query \<times> connect_info \<times> heap) option"
    and linked :: "connect_info \<Rightarrow> heap \<Rightarrow> connect_info \<Rightarrow> heap \<Rightarrow> bool"
    and private_block :: "connect_info \<Rightarrow> ptr \<Rightarrow> bool"
  assumes linked_frame:
    "linked c h c' h' \<Longrightarrow> \<forall>p. private_block c p \<longrightarrow> blocks g p = blocks h p \<Longrightarrow>
      \<forall>p. private_block c' p \<longrightarrow> blocks g' p = blocks h' p \<Longrightarrow> linked c g c' g'"
    and linked_private:
    "linked c h c' h' \<Longrightarrow> private_block c p \<Longrightarrow> blocks h p \<noteq> None"
    "linked c h c' h' \<Longrightarrow> private_block c' p \<Longrightarrow> blocks h' p \<noteq> None"
    and encode_spec:
    "linked c h c' h' \<Longrightarrow> heap_ok h \<Longrightarrow> query_ok h q \<Longrightarrow> \<not> private_block c (bss_str (payload q)) \<Longrightarrow>
      \<exists>b h1 w. enc c q h = Some (b, c, h1) \<and> bss_bytes h1 b = Some w \<and>
        unat (bss_length b) = length w \<and> length w \<le> unat (bss_length (payload q)) + 1024 \<and>
        brk h \<le> bss_str b \<and> heap_ok h1 \<and>
        blocks h1 = (blocks h)(bss_str b \<mapsto> w, bss_str (payload q) := None)"
    and decode_spec:
    "linked c h c' h' \<Longrightarrow> heap_ok h \<Longrightarrow> query_ok h q \<Longrightarrow> \<not> private_block c (bss_str (payload q)) \<Longrightarrow>
      enc c q h = Some (b, c1, h1) \<Longrightarrow> bss_bytes h1 b = Some w \<Longrightarrow>
      heap_ok h' \<Longrightarrow> blocks h' (bss_str b') = Some w \<Longrightarrow> unat (bss_length b') = length w \<Longrightarrow>
      \<not> private_block c' (bss_str b') \<Longrightarrow>
      \<exists>q' h2. dec c' b' h' = Some (q', c', h2) \<and> query_view h2 q' = query_view h q \<and>
        heap_ok h2 \<and> blocks h2 (bss_str b') = None \<and>
        (bss_str (payload q') = NULL \<or>
          brk h' \<le> bss_str (payload q') \<and> blocks h2 (bss_str (payload q')) \<noteq> None) \<and>
        (\<forall>p. p < brk h' \<longrightarrow> p \<noteq> bss_str b' \<longrightarrow> blocks h2 p = blocks h' p)"
begin

lemma fresh_not_private:
  "linked c h c' h' \<Longrightarrow> heap_ok h \<Longrightarrow> brk h \<le> p \<Longrightarrow> \<not> private_block c p"
  "linked c h c' h' \<Longrightarrow> heap_ok h' \<Longrightarrow> brk h' \<le> p \<Longrightarrow> \<not> private_block c' p"
  by (metis heap_ok_def linked_private(1), metis heap_ok_def linked_private(2))

text \<open>
  One message end to end: the sender puts \<open>data\<close> into a new string and encodes it, the
  receiver gets the encoded bytes in a new string of its own and decodes that. The receiver
  sees the sender's destination and payload, and the two sides remain linked.
\<close>

lemma message_delivered:
  assumes linked: "linked c h c' h'" and ok: "heap_ok h" "heap_ok h'"
    and ip: "length ip = 16" and data: "length data + 64 < 2 ^ 32"
  shows "\<exists>pb h0 b h1 w b' h0' q' h2.
    make_binary_safe_string_of data h = Some (pb, h0) \<and>
    enc c \<lparr>destination_ip = ip, destination_port = port, payload = pb\<rparr> h0 = Some (b, c, h1) \<and>
    bss_bytes h1 b = Some w \<and>
    make_binary_safe_string_of w h' = Some (b', h0') \<and>
    dec c' b' h0' = Some (q', c', h2) \<and> query_view h2 q' = Some (ip, port, data) \<and>
    linked c h1 c' h2 \<and> heap_ok h1 \<and> heap_ok h2"
proof -
  have "length data < 2 ^ 32" using data by linarith
  from make_binary_safe_string_of_bytes[OF ok(1) this] obtain pb h0
    where pb: "make_binary_safe_string_of data h = Some (pb, h0)" "bss_bytes h0 pb = Some data"
      "unat (bss_length pb) = length data" "bss_str pb = brk h" "blocks h0 = (blocks h)(brk h \<mapsto> data)"
      "brk h0 = Suc (brk h)" "heap_ok h0"
    by blast
  let ?q = "\<lparr>destination_ip = ip, destination_port = port, payload = pb\<rparr>"
  have q: "query_ok h0 ?q" "query_view h0 ?q = Some (ip, port, data)"
    using pb ip data ok by (auto simp: query_ok_def query_view_def)
  have priv: "\<not> private_block c (brk h)" "\<not> private_block c' (brk h')"
    using linked_private[OF linked] ok by auto
  have "linked c h0 c' h'"
    using linked by (rule linked_frame) (use priv pb in auto)
  note l0 = this pb(7) q(1)
  have np: "\<not> private_block c (bss_str (payload ?q))" using priv pb by simp
  from encode_spec[OF l0 np] obtain b h1 w
    where e: "enc c ?q h0 = Some (b, c, h1)" "bss_bytes h1 b = Some w" "unat (bss_length b) = length w"
      "heap_ok h1" "blocks h1 = (blocks h0)(bss_str b \<mapsto> w, bss_str pb := None)" "brk h0 \<le> bss_str b"
    by auto
  have "length w < 2 ^ 32" using e(3) unsigned_less[of "bss_length b", where ?'a = nat] by simp
  from make_binary_safe_string_of_bytes[OF ok(2) this] obtain b' h0'
    where b': "make_binary_safe_string_of w h' = Some (b', h0')" "unat (bss_length b') = length w"
      "bss_str b' = brk h'" "blocks h0' = (blocks h')(brk h' \<mapsto> w)" "brk h0' = Suc (brk h')" "heap_ok h0'"
    by blast
  have l0': "linked c h0 c' h0'"
    using \<open>linked c h0 c' h'\<close> by (rule linked_frame) (use priv b' in auto)
  have "blocks h0' (bss_str b') = Some w" "\<not> private_block c' (bss_str b')" using b' priv by auto
  from decode_spec[OF l0' l0(2,3) np e(1,2) b'(6) this(1) b'(2) this(2)] obtain q' h2
    where d: "dec c' b' h0' = Some (q', c', h2)" "query_view h2 q' = query_view h0 ?q" "heap_ok h2"
      "\<forall>p. p < brk h0' \<longrightarrow> p \<noteq> bss_str b' \<longrightarrow> blocks h2 p = blocks h0' p"
    by blast
  have np': "\<not> private_block c (bss_str b)" using fresh_not_private(1)[OF l0' pb(7) e(6)] .
  have "linked c h1 c' h2"
  proof (rule linked_frame[OF l0'])
    show "\<forall>p. private_block c p \<longrightarrow> blocks h1 p = blocks h0 p"
      using e(5) priv(1) pb(4) np' by auto
    show "\<forall>p. private_block c' p \<longrightarrow> blocks h2 p = blocks h0' p"
      using d(4) priv b' linked_private(2)[OF l0'] by (metis heap_ok_blocks option.exhaust)
  qed
  moreover have "query_view h2 q' = Some (ip, port, data)" using d(2) q(2) by simp
  ultimately show ?thesis
    by (intro exI conjI) (rule pb(1) e(1,2,4) b'(1) d(1,3) | assumption)+
qed

end

end
