(* ===== verification/Cxx_Exec.thy ===== *)
theory Cxx_Exec
  imports Module_Api
begin

text \<open>
  Execution of the C++ side of SnakeSocks. A piece of code is a function from the world to an
  outcome and the world it leaves behind; it may return, throw, run into undefined
  behaviour, block forever on a system call, or end the process.

  The world holds the heap, the sockets by descriptor, the count of live \<open>addrinfo\<close> lists, the
  \<open>connect_info\<close> objects the modules are given pointers to, the connections handed to the thread
  pool in order (\<open>tasks\<close>), and the network as seen through the resolver and \<open>connect\<close> (\<open>net_env\<close>, arbitrary functions: they
  stand for the C library and the kernel). A socket carries the results of its next \<open>recv\<close> and
  \<open>send\<close> calls as scripts and the bytes it has sent so far:

  \<^item> \<open>Rx_Data bs\<close> is a segment that has arrived, \<open>Rx_Data []\<close> the end of the stream, \<open>Rx_Intr\<close> an
    interrupted call, \<open>Rx_Error\<close> any other error; with nothing left a \<open>recv\<close> blocks forever.
  \<^item> \<open>Tx_Accept k\<close> lets the next \<open>send\<close> take at most \<open>k\<close> bytes, \<open>Tx_Intr\<close> and \<open>Tx_Error\<close> fail it,
    \<open>Tx_Pipe\<close> says that the peer has gone, \<open>Tx_Block\<close> blocks the call forever; with nothing left
    a \<open>send\<close> takes everything.

  Descriptors likewise name open sockets: a new socket gets a number of its own, where POSIX
  takes the lowest free one. A call on a closed descriptor fails, where on POSIX it may reach a
  socket that was given the number since; no theorem claims that numbers are not reused.

  Exceptions carry the format string of their message. \<open>handler_log_throws\<close> is what logging an
  exception from a handler throws in turn, if it throws.
\<close>

section \<open>Definitions\<close>

subsection \<open>The world\<close>

datatype rx_event = Rx_Data bytes | Rx_Intr | Rx_Error

datatype tx_event = Tx_Accept nat | Tx_Intr | Tx_Error | Tx_Pipe | Tx_Block

record sock =
  rx :: "rx_event list"
  tx :: "tx_event list"
  sent :: bytes

datatype ai_family = AF_INET | AF_INET6

record addrinfo =
  ai_family :: ai_family
  ai_addr :: bytes

datatype exn = Runtime_error string | Invalid_argument string | Logic_error string | Out_of_range string
  | Overflow_error string | System_error

record net_env =
  net_getaddrinfo :: "string \<Rightarrow> u16 \<Rightarrow> bool \<Rightarrow> int + addrinfo list"
  net_socket :: "addrinfo \<Rightarrow> bool"
  net_setsockopt :: "string \<Rightarrow> addrinfo \<Rightarrow> bool"
  net_bind :: "addrinfo \<Rightarrow> bool"
  net_listen :: "addrinfo \<Rightarrow> bool"
  net_connect :: "addrinfo \<Rightarrow> sock option"
  handler_log_throws :: "exn \<Rightarrow> exn option"

type_synonym fd = int

record world =
  mem :: heap
  socks :: "fd \<rightharpoonup> sock"
  next_fd :: fd
  addrinfos :: nat
  net :: net_env
  conns :: "nat \<rightharpoonup> connect_info"
  next_conn :: nat
  tasks :: "fd list"

subsection \<open>Programs\<close>

datatype 'a outcome = Ok 'a | Throw exn | Undefined | Blocked | Exited int

text \<open>
  The process ends with the negated signal number when a signal kills it: nothing in the
  sources installs a handler for \<open>SIGPIPE\<close> (13).
\<close>

definition killed_by_SIGPIPE :: int where "killed_by_SIGPIPE = -13"

type_synonym 'a prog = "world \<Rightarrow> 'a outcome \<times> world"

definition ret :: "'a \<Rightarrow> 'a prog" where
  "ret x w = (Ok x, w)"

definition throw :: "exn \<Rightarrow> 'a prog" where
  "throw e w = (Throw e, w)"

definition bnd :: "'a prog \<Rightarrow> ('a \<Rightarrow> 'b prog) \<Rightarrow> 'b prog" where
  "bnd m f w =
     (case m w of
        (Ok x, w) \<Rightarrow> f x w
      | (Throw e, w) \<Rightarrow> (Throw e, w)
      | (Undefined, w) \<Rightarrow> (Undefined, w)
      | (Blocked, w) \<Rightarrow> (Blocked, w)
      | (Exited c, w) \<Rightarrow> (Exited c, w))"

text \<open>\<open>try m catch h\<close>, and a scope guard: \<open>rlib_defer\<close> runs its action when the scope is left by
  \<open>return\<close> or by an exception.\<close>

definition catch :: "'a prog \<Rightarrow> (exn \<Rightarrow> 'a prog) \<Rightarrow> 'a prog" where
  "catch m h w = (case m w of (Throw e, w) \<Rightarrow> h e w | r \<Rightarrow> r)"

definition deferring :: "unit prog \<Rightarrow> 'a prog \<Rightarrow> 'a prog" where
  "deferring d m w =
     (case m w of
        (Ok x, w) \<Rightarrow> bnd d (\<lambda>_. ret x) w
      | (Throw e, w) \<Rightarrow> bnd d (\<lambda>_. throw e) w
      | r \<Rightarrow> r)"

definition throw_if :: "bool \<Rightarrow> exn \<Rightarrow> unit prog" where
  "throw_if c e = (if c then throw e else ret ())"

fun for_each :: "'a list \<Rightarrow> ('a \<Rightarrow> unit prog) \<Rightarrow> unit prog" where
  "for_each [] f = ret ()"
| "for_each (x # xs) f = bnd (f x) (\<lambda>_. for_each xs f)"

fun repeat_prog :: "nat \<Rightarrow> 'a prog \<Rightarrow> 'a list prog" where
  "repeat_prog 0 m = ret []"
| "repeat_prog (Suc n) m = bnd m (\<lambda>x. bnd (repeat_prog n m) (\<lambda>xs. ret (x # xs)))"

subsection \<open>Access to the heap\<close>

definition on_heap :: "(heap \<Rightarrow> ('a \<times> heap) option) \<Rightarrow> 'a prog" where
  "on_heap f w =
     (case f (mem w) of
        None \<Rightarrow> (Undefined, w)
      | Some (x, h) \<Rightarrow> (Ok x, w\<lparr>mem := h\<rparr>))"

definition malloc_ex :: "nat \<Rightarrow> ptr prog" where
  "malloc_ex n = on_heap (\<lambda>h. Some (c_malloc n h))"

definition free_ex :: "ptr \<Rightarrow> unit prog" where
  "free_ex p = on_heap (\<lambda>h. map_option (Pair ()) (c_free p h))"

definition load_ex :: "ptr \<Rightarrow> nat \<Rightarrow> nat \<Rightarrow> bytes prog" where
  "load_ex p off n = on_heap (\<lambda>h. map_option (\<lambda>bs. (bs, h)) (load h p off n))"

definition store_ex :: "ptr \<Rightarrow> nat \<Rightarrow> bytes \<Rightarrow> unit prog" where
  "store_ex p off bs = on_heap (\<lambda>h. map_option (Pair ()) (store h p off bs))"

subsection \<open>Connection objects\<close>

definition new_conn :: "connect_info \<Rightarrow> nat prog" where
  "new_conn c w = (Ok (next_conn w), w\<lparr>conns := (conns w)(next_conn w \<mapsto> c), next_conn := Suc (next_conn w)\<rparr>)"

definition delete_conn :: "nat \<Rightarrow> unit prog" where
  "delete_conn cid w = (Ok (), w\<lparr>conns := (conns w)(cid := None)\<rparr>)"

definition get_conn :: "nat \<Rightarrow> connect_info prog" where
  "get_conn cid w = (case conns w cid of None \<Rightarrow> (Undefined, w) | Some c \<Rightarrow> (Ok c, w))"

definition call_mod :: "nat \<Rightarrow> (connect_info \<Rightarrow> heap \<Rightarrow> ('a \<times> connect_info \<times> heap) option) \<Rightarrow> 'a prog" where
  "call_mod cid f w =
     (case conns w cid of
        None \<Rightarrow> (Undefined, w)
      | Some c \<Rightarrow>
          (case f c (mem w) of
             None \<Rightarrow> (Undefined, w)
           | Some (x, c, h) \<Rightarrow> (Ok x, w\<lparr>mem := h, conns := (conns w)(cid \<mapsto> c)\<rparr>)))"

subsection \<open>System calls on sockets\<close>

text \<open>One call to \<open>recv\<close> for at most \<open>n\<close> bytes, and one call to \<open>send\<close> offering \<open>bs\<close>.\<close>

datatype io_result = Io_Bytes bytes | Io_Intr | Io_Fail | Io_Pipe | Io_Block

fun os_recv :: "nat \<Rightarrow> rx_event list \<Rightarrow> io_result \<times> rx_event list" where
  "os_recv n [] = (if n = 0 then (Io_Bytes [], []) else (Io_Block, []))"
| "os_recv n (Rx_Data bs # es) =
     (if n = 0 then (Io_Bytes [], Rx_Data bs # es)
      else if bs = [] then (Io_Bytes [], Rx_Data bs # es)
      else if n < length bs then (Io_Bytes (take n bs), Rx_Data (drop n bs) # es)
      else (Io_Bytes bs, es))"
| "os_recv n (Rx_Intr # es) = (Io_Intr, es)"
| "os_recv n (Rx_Error # es) = (Io_Fail, es)"

fun os_send :: "bytes \<Rightarrow> tx_event list \<Rightarrow> io_result \<times> tx_event list" where
  "os_send bs [] = (Io_Bytes bs, [])"
| "os_send bs (Tx_Accept k # es) = (Io_Bytes (take k bs), es)"
| "os_send bs (Tx_Intr # es) = (Io_Intr, es)"
| "os_send bs (Tx_Error # es) = (Io_Fail, es)"
| "os_send bs (Tx_Pipe # es) = (Io_Pipe, Tx_Pipe # es)"
| "os_send bs (Tx_Block # es) = (Io_Block, Tx_Block # es)"

definition with_sock :: "fd \<Rightarrow> 'a \<Rightarrow> (sock \<Rightarrow> 'a outcome \<times> sock) \<Rightarrow> 'a prog" where
  "with_sock fd bad f w =
     (case socks w fd of
        None \<Rightarrow> (Ok bad, w)
      | Some s \<Rightarrow> (let (r, s) = f s in (r, w\<lparr>socks := (socks w)(fd \<mapsto> s)\<rparr>)))"

definition close_ex :: "fd \<Rightarrow> unit prog" where
  "close_ex fd w = (Ok (), w\<lparr>socks := (socks w)(fd := None)\<rparr>)"

section \<open>Laws\<close>

named_theorems exec_simps \<open>evaluation of programs\<close>

lemma ret_apply [exec_simps]: "ret x w = (Ok x, w)"
  by (simp add: ret_def)

lemma throw_apply [exec_simps]: "throw e w = (Throw e, w)"
  by (simp add: throw_def)

lemma bnd_Ok [exec_simps]: "m w = (Ok x, w') \<Longrightarrow> bnd m f w = f x w'"
  by (simp add: bnd_def)

lemma bnd_Throw [exec_simps]: "m w = (Throw e, w') \<Longrightarrow> bnd m f w = (Throw e, w')"
  by (simp add: bnd_def)

lemma bnd_other [exec_simps]:
  "m w = (Undefined, w') \<Longrightarrow> bnd m f w = (Undefined, w')"
  "m w = (Blocked, w') \<Longrightarrow> bnd m f w = (Blocked, w')"
  "m w = (Exited c, w') \<Longrightarrow> bnd m f w = (Exited c, w')"
  by (simp_all add: bnd_def)

lemma bnd_ret [simp]: "bnd (ret x) f = f x"
  by (simp add: bnd_def ret_def fun_eq_iff)

lemma bnd_throw [simp]: "bnd (throw e) f = throw e"
  by (simp add: bnd_def throw_def fun_eq_iff)

lemma throw_if_simps [simp]: "throw_if True e = throw e" "throw_if False e = ret ()"
  by (simp_all add: throw_if_def)

lemma bnd_ret_right [simp]: "bnd m ret = m"
  by (auto simp: bnd_def ret_def fun_eq_iff split: prod.splits outcome.splits)

lemma bnd_assoc: "bnd (bnd m f) g = bnd m (\<lambda>x. bnd (f x) g)"
  by (auto simp: bnd_def fun_eq_iff split: prod.splits outcome.splits)

lemma bnd_OkD:
  assumes "bnd m f w = (Ok y, w2)"
  obtains x w1 where "m w = (Ok x, w1)" "f x w1 = (Ok y, w2)"
  using assms by (auto simp: bnd_def split: prod.splits outcome.splits)

lemma catch_simps [exec_simps]:
  "m w = (Ok x, w') \<Longrightarrow> catch m h w = (Ok x, w')"
  "m w = (Throw e, w') \<Longrightarrow> catch m h w = h e w'"
  "m w = (Undefined, w') \<Longrightarrow> catch m h w = (Undefined, w')"
  "m w = (Blocked, w') \<Longrightarrow> catch m h w = (Blocked, w')"
  "m w = (Exited c, w') \<Longrightarrow> catch m h w = (Exited c, w')"
  by (simp_all add: catch_def)

lemma deferring_simps [exec_simps]:
  "m w = (Ok x, w') \<Longrightarrow> deferring d m w = bnd d (\<lambda>_. ret x) w'"
  "m w = (Throw e, w') \<Longrightarrow> deferring d m w = bnd d (\<lambda>_. throw e) w'"
  "m w = (Undefined, w') \<Longrightarrow> deferring d m w = (Undefined, w')"
  "m w = (Blocked, w') \<Longrightarrow> deferring d m w = (Blocked, w')"
  "m w = (Exited c, w') \<Longrightarrow> deferring d m w = (Exited c, w')"
  by (simp_all add: deferring_def)

text \<open>The bytes a socket still delivers, interrupted calls left out.\<close>

fun rx_stream :: "rx_event list \<Rightarrow> bytes" where
  "rx_stream [] = []"
| "rx_stream (Rx_Data bs # es) = (if bs = [] then [] else bs @ rx_stream es)"
| "rx_stream (Rx_Intr # es) = rx_stream es"
| "rx_stream (Rx_Error # es) = []"

text \<open>A \<open>send\<close> script under which every call makes progress or is interrupted.\<close>

fun tx_ok :: "tx_event list \<Rightarrow> bool" where
  "tx_ok [] = True"
| "tx_ok (Tx_Accept k # es) = (0 < k \<and> tx_ok es)"
| "tx_ok (Tx_Intr # es) = tx_ok es"
| "tx_ok (e # es) = False"

lemma os_recv_bytes:
  assumes "os_recv n es = (Io_Bytes bs, es')"
  shows "length bs \<le> n" "rx_stream es = bs @ rx_stream es'" "length es' \<le> length es"
  using assms by (cases es rule: list.exhaust; cases "hd es"; auto split: if_splits)+

lemma os_recv_intr: "os_recv n es = (Io_Intr, es') \<Longrightarrow> length es' < length es \<and> rx_stream es' = rx_stream es"
  by (cases es rule: list.exhaust; cases "hd es"; auto split: if_splits)

lemma os_recv_end:
  assumes "os_recv n es = (r, es')" "0 < n" "r = Io_Bytes [] \<or> r = Io_Fail \<or> r = Io_Block"
  shows "rx_stream es = []"
  using assms by (cases es rule: list.exhaust; cases "hd es"; auto split: if_splits)

lemma os_send_bytes:
  assumes "os_send bs es = (Io_Bytes out, es')"
  shows "out @ drop (length out) bs = bs" "length es' \<le> length es" "tx_ok es \<Longrightarrow> tx_ok es'"
    "tx_ok es \<Longrightarrow> bs \<noteq> [] \<Longrightarrow> out \<noteq> []"
  using assms by (cases es rule: list.exhaust; cases "hd es"; auto simp: min_def)+

lemma os_send_intr:
  "os_send bs es = (Io_Intr, es') \<Longrightarrow> length es' < length es \<and> (tx_ok es \<longrightarrow> tx_ok es')"
  by (cases es rule: list.exhaust; cases "hd es"; auto)

lemma os_send_stuck:
  "os_send bs es = (r, es') \<Longrightarrow> r = Io_Fail \<or> r = Io_Pipe \<or> r = Io_Block \<Longrightarrow> \<not> tx_ok es"
  by (cases es rule: list.exhaust; cases "hd es"; auto)

end
