(* ===== verification/Socket_IO.thy ===== *)
theory Socket_IO
  imports Cxx_Exec
begin

text \<open>
  The socket library \<open>src/src/native/src/lib/rlib/sys/sio.hpp\<close>, POSIX branch: the loops \<open>recvn\<close>,
  \<open>sendn\<close>, \<open>recvall\<close> and their \<open>fdIO\<close> twins, the throwing variants, the string helpers, the
  messages with a head, and \<open>quick_connect\<close>, \<open>quick_listen\<close>.

  A call \<open>recvn(fd, ptr, n)\<close> is \<open>recvn fd cap n\<close>, where \<open>cap\<close> is the room behind \<open>ptr\<close>; the bytes
  written there are the result, and writing more than \<open>cap\<close> bytes is undefined behaviour.
  \<open>None\<close> stands for the return value -1. \<open>nosignal\<close> is whether the flags contain \<open>MSG_NOSIGNAL\<close>;
  without it a \<open>send\<close> to a peer that has gone raises \<open>SIGPIPE\<close>.
\<close>

section \<open>Definitions\<close>

subsection \<open>The loops\<close>

function recvn_loop :: "nat \<Rightarrow> nat \<Rightarrow> bytes \<Rightarrow> rx_event list \<Rightarrow> bytes option outcome \<times> rx_event list" where
  "recvn_loop cap nleft acc es =
     (if nleft = 0 then (Ok (Some acc), es)
      else case os_recv nleft es of
        (Io_Bytes bs, es) \<Rightarrow>
          (if bs = [] then (Ok None, es)
           else if cap < length acc + length bs then (Undefined, es)
           else recvn_loop cap (nleft - length bs) (acc @ bs) es)
      | (Io_Intr, es) \<Rightarrow> recvn_loop cap nleft acc es
      | (Io_Fail, es) \<Rightarrow> (Ok None, es)
      | (Io_Pipe, es) \<Rightarrow> (Ok None, es)
      | (Io_Block, es) \<Rightarrow> (Blocked, es))"
  by pat_completeness auto
termination
  by (relation "measure (\<lambda>(cap, nleft, acc, es). nleft + length es)")
     (auto dest!: os_recv_bytes(1,3) os_recv_intr dest: sym simp flip: length_greater_0_conv)

function sendn_loop :: "bool \<Rightarrow> bytes \<Rightarrow> bytes \<Rightarrow> tx_event list \<Rightarrow> bool outcome \<times> bytes \<times> tx_event list" where
  "sendn_loop nosignal left out es =
     (if left = [] then (Ok True, out, es)
      else case os_send left es of
        (Io_Bytes bs, es) \<Rightarrow>
          (if bs = [] then (Ok False, out, es)
           else sendn_loop nosignal (drop (length bs) left) (out @ bs) es)
      | (Io_Intr, es) \<Rightarrow> sendn_loop nosignal left out es
      | (Io_Fail, es) \<Rightarrow> (Ok False, out, es)
      | (Io_Pipe, es) \<Rightarrow> (if nosignal then Ok False else Exited killed_by_SIGPIPE, out, es)
      | (Io_Block, es) \<Rightarrow> (Blocked, out, es))"
  by pat_completeness auto

termination
  by (relation "measure (\<lambda>(nosignal, left, out, es). length left + length es)")
     (auto dest!: os_send_bytes(2) os_send_intr dest: sym simp: min_def not_less_eq_eq Suc_le_eq
       simp flip: length_greater_0_conv)

text \<open>
  The loop of \<open>recvall\<close> after its first read filled half the buffer. The buffer has \<open>current\<close>
  bytes, of which \<open>acc\<close> fill the first half; it is never empty.
\<close>

function recvall_loop :: "nat \<Rightarrow> bytes \<Rightarrow> rx_event list \<Rightarrow> (bytes \<times> nat) option outcome \<times> rx_event list" where
  "recvall_loop current acc es =
     (case os_recv (current div 2) es of
        (Io_Bytes bs, es) \<Rightarrow>
          (if length bs < current \<or> current = 0 then (Ok (Some (acc @ bs, current)), es)
           else recvall_loop (2 * current) (acc @ bs) es)
      | (Io_Block, es) \<Rightarrow> (Blocked, es)
      | (r, es) \<Rightarrow> (Ok None, es))"
  by pat_completeness auto
termination
  by (relation "measure (\<lambda>(current, acc, es). 0)")
     (auto dest!: sym[of "(Io_Bytes _, _)"] dest: os_recv_bytes(1))

subsection \<open>\<open>sockIO\<close> and \<open>fdIO\<close>\<close>

definition recvn :: "fd \<Rightarrow> nat \<Rightarrow> nat \<Rightarrow> bytes option prog" where
  "recvn fd cap n = with_sock fd (if n = 0 then Some [] else None)
     (\<lambda>s. let (r, es) = recvn_loop cap n [] (rx s) in (r, s\<lparr>rx := es\<rparr>))"

definition sendn :: "bool \<Rightarrow> fd \<Rightarrow> bytes \<Rightarrow> bool prog" where
  "sendn nosignal fd bs = with_sock fd (bs = [])
     (\<lambda>s. let (r, out, es) = sendn_loop nosignal bs [] (tx s) in (r, s\<lparr>tx := es, sent := sent s @ out\<rparr>))"

text \<open>
  The reads of \<open>recvall\<close> and \<open>readall\<close>: the bytes that end up in the buffer and the size the
  buffer then has.
\<close>

definition recv_some :: "fd \<Rightarrow> nat \<Rightarrow> (bytes \<times> nat) option prog" where
  "recv_some fd current = with_sock fd None
     (\<lambda>s. let (r, es) =
                (case os_recv (current div 2) (rx s) of
                   (Io_Bytes bs, es) \<Rightarrow>
                     (if length bs < current div 2 then (Ok (Some (bs, current)), es)
                      else recvall_loop current bs es)
                 | (Io_Block, es) \<Rightarrow> (Blocked, es)
                 | (r, es) \<Rightarrow> (Ok None, es))
          in (r, s\<lparr>rx := es\<rparr>))"

text \<open>
  The result is the number of bytes, \<open>None\<close> for -1, and the value of \<open>*pvptr\<close> afterwards. A
  buffer that had to grow was reallocated.
\<close>

definition recvall :: "fd \<Rightarrow> ptr \<Rightarrow> nat \<Rightarrow> (nat option \<times> ptr) prog" where
  "recvall fd pvptr initSize =
     (let current = (if initSize \<noteq> 0 then initSize else 1024) in
      bnd (if pvptr = NULL then malloc_ex current else ret pvptr) (\<lambda>vptr.
      bnd (recv_some fd current) (\<lambda>r.
      case r of
        None \<Rightarrow> ret (None, pvptr)
      | Some (bs, sz) \<Rightarrow>
          bnd (if sz = current then ret vptr else bnd (free_ex vptr) (\<lambda>_. malloc_ex sz)) (\<lambda>vptr.
          bnd (if bs = [] then ret () else store_ex vptr 0 bs) (\<lambda>_.
          ret (Some (length bs), vptr))))))"

definition readall :: "fd \<Rightarrow> ptr \<Rightarrow> nat \<Rightarrow> (nat option \<times> ptr) prog" where
  "readall fd pvptr initSize =
     (let current = (if initSize \<noteq> 0 then initSize else 1024) in
      bnd (if pvptr = NULL then malloc_ex current else ret pvptr) (\<lambda>vptr.
      bnd (recv_some fd current) (\<lambda>r.
      case r of
        None \<Rightarrow> ret (None, pvptr)
      | Some (bs, sz) \<Rightarrow>
          bnd (if sz = current then ret vptr else bnd (free_ex vptr) (\<lambda>_. malloc_ex sz)) (\<lambda>vptr.
          bnd (if bs = [] then ret () else store_ex vptr 0 bs) (\<lambda>_.
          ret (Some (length bs), vptr))))))"

definition readn :: "fd \<Rightarrow> nat \<Rightarrow> nat \<Rightarrow> bytes option prog" where
  "readn fd cap n = with_sock fd (if n = 0 then Some [] else None)
     (\<lambda>s. let (r, es) = recvn_loop cap n [] (rx s) in (r, s\<lparr>rx := es\<rparr>))"

definition writen :: "fd \<Rightarrow> bytes \<Rightarrow> bool prog" where
  "writen fd bs = with_sock fd (bs = [])
     (\<lambda>s. let (r, out, es) = sendn_loop False bs [] (tx s) in (r, s\<lparr>tx := es, sent := sent s @ out\<rparr>))"

definition recvn_ex :: "fd \<Rightarrow> nat \<Rightarrow> nat \<Rightarrow> bytes prog" where
  "recvn_ex fd cap n =
     bnd (recvn fd cap n) (\<lambda>r.
     case r of None \<Rightarrow> throw (Runtime_error ''recvn failed. {}'') | Some bs \<Rightarrow> ret bs)"

definition sendn_ex :: "bool \<Rightarrow> fd \<Rightarrow> bytes \<Rightarrow> unit prog" where
  "sendn_ex nosignal fd bs =
     bnd (sendn nosignal fd bs) (\<lambda>ok.
     throw_if (\<not> ok) (Runtime_error ''sendn failed. {}''))"

definition recvall_ex :: "fd \<Rightarrow> ptr \<Rightarrow> nat \<Rightarrow> (nat \<times> ptr) prog" where
  "recvall_ex fd pvptr initSize =
     bnd (recvall fd pvptr initSize) (\<lambda>(r, p).
     case r of None \<Rightarrow> throw (Runtime_error ''recvall failed. {}'') | Some n \<Rightarrow> ret (n, p))"

definition readn_ex :: "fd \<Rightarrow> nat \<Rightarrow> nat \<Rightarrow> bytes prog" where
  "readn_ex fd cap n =
     bnd (readn fd cap n) (\<lambda>r.
     case r of None \<Rightarrow> throw (Runtime_error ''readn failed. errno = {}'') | Some bs \<Rightarrow> ret bs)"

definition writen_ex :: "fd \<Rightarrow> bytes \<Rightarrow> unit prog" where
  "writen_ex fd bs =
     bnd (writen fd bs) (\<lambda>ok.
     throw_if (\<not> ok) (Runtime_error ''writen failed. errno = {}''))"

definition readall_ex :: "fd \<Rightarrow> ptr \<Rightarrow> nat \<Rightarrow> (nat \<times> ptr) prog" where
  "readall_ex fd pvptr initSize =
     bnd (readall fd pvptr initSize) (\<lambda>(r, p).
     case r of None \<Rightarrow> throw (Runtime_error ''readall failed. errno = {}'') | Some n \<Rightarrow> ret (n, p))"

definition quick_recvn :: "fd \<Rightarrow> nat \<Rightarrow> bytes prog" where
  "quick_recvn fd n = recvn_ex fd n n"

definition quick_readn :: "fd \<Rightarrow> nat \<Rightarrow> bytes prog" where
  "quick_readn fd n = readn_ex fd n n"

definition quick_recvall :: "fd \<Rightarrow> bytes prog" where
  "quick_recvall fd =
     bnd (recvall_ex fd NULL 0) (\<lambda>(sz, p).
     bnd (load_ex p 0 sz) (\<lambda>result.
     bnd (free_ex p) (\<lambda>_.
     ret result)))"

text \<open>\<open>quick_readall\<close> passes the address of a pointer it never set, and keeps the buffer.\<close>

definition quick_readall :: "endian \<Rightarrow> fd \<Rightarrow> bytes prog" where
  "quick_readall e fd w =
     bnd (readall_ex fd (unat (word_of_mem e (map (stack_bytes (mem w)) [0..<8]) :: u64)) 0) (\<lambda>(sz, p).
     load_ex p 0 sz) w"

definition quick_send :: "fd \<Rightarrow> bytes \<Rightarrow> unit prog" where
  "quick_send fd bs = sendn_ex True fd bs"

definition quick_write :: "fd \<Rightarrow> bytes \<Rightarrow> unit prog" where
  "quick_write fd bs = writen_ex fd bs"

subsection \<open>Messages with a head\<close>

definition msg_magic :: u32 where "msg_magic = 0x19980427"

definition packed_msg_head :: "endian \<Rightarrow> u64 \<Rightarrow> bytes" where
  "packed_msg_head e len = mem_of_word e 4 msg_magic @ mem_of_word e 8 len"

definition recv_msg :: "endian \<Rightarrow> fd \<Rightarrow> bytes prog" where
  "recv_msg e fd =
     bnd (recvn_ex fd 12 12) (\<lambda>head.
     bnd (throw_if (word_of_mem e (take 4 head) \<noteq> msg_magic)
            (Runtime_error ''Invalid magic received.'')) (\<lambda>_.
     let len = (word_of_mem e (drop 4 head) :: u64) in
     bnd (throw_if (1024 * 1024 * 1024 * 2 < len)
            (Runtime_error ''Message len is greater than 2GiB. Refuse to alloc space.'')) (\<lambda>_.
     recvn_ex fd (unat len) (unat len))))"

definition send_msg :: "endian \<Rightarrow> fd \<Rightarrow> bytes \<Rightarrow> unit prog" where
  "send_msg e fd dat =
     bnd (sendn_ex True fd (packed_msg_head e (of_nat (length dat)))) (\<lambda>_.
     sendn_ex True fd dat)"

subsection \<open>Connections\<close>

definition getaddrinfo_ex :: "string \<Rightarrow> u16 \<Rightarrow> bool \<Rightarrow> exn \<Rightarrow> addrinfo list prog" where
  "getaddrinfo_ex addr port passive err w =
     (case net_getaddrinfo (net w) addr port passive of
        Inl _ \<Rightarrow> (Throw err, w)
      | Inr as \<Rightarrow> (Ok as, w\<lparr>addrinfos := Suc (addrinfos w)\<rparr>))"

definition freeaddrinfo_ex :: "unit prog" where
  "freeaddrinfo_ex w = (Ok (), w\<lparr>addrinfos := addrinfos w - 1\<rparr>)"

definition fresh_sock :: sock where
  "fresh_sock = \<lparr>rx = [Rx_Error], tx = [Tx_Error], sent = []\<rparr>"

definition new_fd :: "fd prog" where
  "new_fd w = (Ok (next_fd w), w\<lparr>socks := (socks w)(next_fd w \<mapsto> fresh_sock), next_fd := next_fd w + 1\<rparr>)"

definition attach :: "fd \<Rightarrow> sock \<Rightarrow> unit prog" where
  "attach fd s w = (Ok (), w\<lparr>socks := (socks w)(fd \<mapsto> s)\<rparr>)"

definition set_reuse :: "addrinfo \<Rightarrow> unit prog" where
  "set_reuse rp w =
     bnd (throw_if (\<not> net_setsockopt (net w) ''SO_REUSEADDR'' rp) (Runtime_error ''setsockopt(SO_REUSEADDR) failed'')) (\<lambda>_.
     throw_if (\<not> net_setsockopt (net w) ''SO_REUSEPORT'' rp) (Runtime_error ''setsockopt(SO_REUSEPORT) failed'')) w"

text \<open>The loops over the resolved addresses; \<open>None\<close> when no address works.\<close>

fun connect_any :: "addrinfo list \<Rightarrow> fd option prog" where
  "connect_any [] w = (Ok None, w)"
| "connect_any (rp # rps) w =
     (if \<not> net_socket (net w) rp then connect_any rps w
      else bnd new_fd (\<lambda>sockfd.
           bnd (set_reuse rp) (\<lambda>_.
           case net_connect (net w) rp of
             Some s \<Rightarrow> bnd (attach sockfd s) (\<lambda>_. ret (Some sockfd))
           | None \<Rightarrow> bnd (close_ex sockfd) (\<lambda>_. connect_any rps))) w)"

definition quick_connect :: "string \<Rightarrow> u16 \<Rightarrow> fd prog" where
  "quick_connect addr port =
     bnd (getaddrinfo_ex addr port False (Runtime_error ''getaddrinfo failed. Check network connection to {}:{}'')) (\<lambda>as.
     deferring freeaddrinfo_ex
      (bnd (connect_any as) (\<lambda>r.
       case r of None \<Rightarrow> throw (Runtime_error ''Failed to connect to any of these addr.'') | Some fd \<Rightarrow> ret fd)))"

fun bind_any :: "addrinfo list \<Rightarrow> (fd \<times> addrinfo) option prog" where
  "bind_any [] w = (Ok None, w)"
| "bind_any (rp # rps) w =
     (if \<not> net_socket (net w) rp then bind_any rps w
      else bnd new_fd (\<lambda>listenfd.
           bnd (set_reuse rp) (\<lambda>_.
           if net_bind (net w) rp then ret (Some (listenfd, rp))
           else bnd (close_ex listenfd) (\<lambda>_. bind_any rps))) w)"

text \<open>The guard that releases the list of addresses is set up only after \<open>listen\<close> succeeded.\<close>

definition quick_listen :: "string \<Rightarrow> u16 \<Rightarrow> bool \<Rightarrow> fd prog" where
  "quick_listen addr port use_udp =
     bnd (getaddrinfo_ex addr port True (Runtime_error ''Failed to getaddrinfo. returnval={}'')) (\<lambda>as.
     bnd (bind_any as) (\<lambda>r.
     case r of
       None \<Rightarrow> throw (Runtime_error ''Failed to bind {}:{}.'')
     | Some (listenfd, rp) \<Rightarrow>
         bnd (\<lambda>w. throw_if (\<not> use_udp \<and> \<not> net_listen (net w) rp) (Runtime_error ''listen failed. {}'') w) (\<lambda>_.
         deferring freeaddrinfo_ex (ret listenfd))))"

section \<open>Laws of the loops\<close>

declare recvn_loop.simps [simp del] sendn_loop.simps [simp del] recvall_loop.simps [simp del]

lemma recvn_loop_enough:
  "n \<le> length (rx_stream es) \<Longrightarrow> length acc + n \<le> cap \<Longrightarrow>
   \<exists>es'. recvn_loop cap n acc es = (Ok (Some (acc @ take n (rx_stream es))), es') \<and>
         rx_stream es' = drop n (rx_stream es)"
proof (induction cap n acc es rule: recvn_loop.induct)
  case (1 cap n acc es)
  show ?case
  proof (cases "n = 0")
    case True
    then show ?thesis by (simp add: recvn_loop.simps)
  next
    case False
    obtain r es1 where r: "os_recv n es = (r, es1)" by fastforce
    have "rx_stream es \<noteq> []" using 1(3) False by auto
    then have live: "r \<noteq> Io_Bytes []" "r \<noteq> Io_Fail" "r \<noteq> Io_Block" "r \<noteq> Io_Pipe"
      using os_recv_end[OF r] False r by (auto elim!: os_recv.elims split: if_splits)
    show ?thesis
    proof (cases r)
      case (Io_Bytes bs)
      note b = os_recv_bytes[OF r[unfolded Io_Bytes]]
      have bs: "bs \<noteq> []" using Io_Bytes live by simp
      from 1(1)[OF False r[symmetric] Io_Bytes bs] 1(3,4) b(1,2)
      show ?thesis
        using False r Io_Bytes bs by (auto simp: recvn_loop.simps[of cap n acc es])
    next
      case Io_Intr
      with 1(2)[OF False r[symmetric] Io_Intr] os_recv_intr[OF r[unfolded Io_Intr]] 1(3,4) False r
      show ?thesis by (simp add: recvn_loop.simps[of cap n acc es])
    qed (use live in auto)
  qed
qed

lemma recvn_loop_short:
  "length (rx_stream es) < n \<Longrightarrow> length acc + n \<le> cap \<Longrightarrow>
   fst (recvn_loop cap n acc es) = Ok None \<or> fst (recvn_loop cap n acc es) = Blocked"
proof (induction cap n acc es rule: recvn_loop.induct)
  case (1 cap n acc es)
  then have False: "n \<noteq> 0" by auto
  obtain r es1 where r: "os_recv n es = (r, es1)" by fastforce
  show ?case
  proof (cases r)
    case (Io_Bytes bs)
    note b = os_recv_bytes[OF r[unfolded Io_Bytes]]
    show ?thesis
    proof (cases "bs = []")
      case True
      then show ?thesis using False r Io_Bytes by (simp add: recvn_loop.simps[of cap n acc es])
    next
      case bs: False
      from 1(1)[OF False r[symmetric] Io_Bytes bs] 1(3,4) b(1,2)
      show ?thesis
        using False r Io_Bytes bs by (auto simp: recvn_loop.simps[of cap n acc es])
    qed
  next
    case Io_Intr
    with 1(2)[OF False r[symmetric] Io_Intr] os_recv_intr[OF r[unfolded Io_Intr]] 1(3,4) False r
    show ?thesis by (simp add: recvn_loop.simps[of cap n acc es])
  qed (use False r in \<open>auto simp: recvn_loop.simps[of cap n acc es]\<close>)
qed

lemma recvn_loop_overflow:
  "length acc \<le> cap \<Longrightarrow> cap < length acc + n \<Longrightarrow> cap < length acc + length (rx_stream es) \<Longrightarrow>
   fst (recvn_loop cap n acc es) = Undefined"
proof (induction cap n acc es rule: recvn_loop.induct)
  case (1 cap n acc es)
  then have False: "n \<noteq> 0" by auto
  obtain r es1 where r: "os_recv n es = (r, es1)" by fastforce
  have "rx_stream es \<noteq> []" using 1(3,5) by auto
  then have live: "r \<noteq> Io_Bytes []" "r \<noteq> Io_Fail" "r \<noteq> Io_Block" "r \<noteq> Io_Pipe"
    using os_recv_end[OF r] False r by (auto elim!: os_recv.elims split: if_splits)
  show ?case
  proof (cases r)
    case (Io_Bytes bs)
    note b = os_recv_bytes[OF r[unfolded Io_Bytes]]
    have bs: "bs \<noteq> []" using Io_Bytes live by simp
    from 1(1)[OF False r[symmetric] Io_Bytes bs] 1(3,4,5) b(1,2)
    show ?thesis
      using False r Io_Bytes bs by (auto simp: recvn_loop.simps[of cap n acc es])
  next
    case Io_Intr
    with 1(2)[OF False r[symmetric] Io_Intr] os_recv_intr[OF r[unfolded Io_Intr]] 1(3,4,5) False r
    show ?thesis by (simp add: recvn_loop.simps[of cap n acc es])
  qed (use live in auto)
qed

lemma recvn_loop_too_large:
  "length acc \<le> cap \<Longrightarrow> cap < length acc + n \<Longrightarrow> fst (recvn_loop cap n acc es) \<noteq> Ok (Some bs)"
proof (induction cap n acc es rule: recvn_loop.induct)
  case (1 cap n acc es)
  then have False: "n \<noteq> 0" by auto
  obtain r es1 where r: "os_recv n es = (r, es1)" by fastforce
  show ?case
  proof (cases r)
    case (Io_Bytes b)
    note len = os_recv_bytes(1)[OF r[unfolded Io_Bytes]]
    show ?thesis
    proof (cases "b = [] \<or> cap < length acc + length b")
      case True
      then show ?thesis using False r Io_Bytes by (auto simp: recvn_loop.simps[of cap n acc es])
    next
      case b: False
      with 1(1)[OF False r[symmetric] Io_Bytes] 1(4) len show ?thesis
        using False r Io_Bytes by (auto simp: recvn_loop.simps[of cap n acc es])
    qed
  next
    case Io_Intr
    with 1(2)[OF False r[symmetric] Io_Intr] 1(3,4) False r
    show ?thesis by (simp add: recvn_loop.simps[of cap n acc es])
  qed (use False r in \<open>auto simp: recvn_loop.simps[of cap n acc es]\<close>)
qed

lemma sendn_loop_ok:
  "tx_ok es \<Longrightarrow> \<exists>es'. sendn_loop ns bs out es = (Ok True, out @ bs, es') \<and> tx_ok es'"
proof (induction ns bs out es rule: sendn_loop.induct)
  case (1 ns bs out es)
  show ?case
  proof (cases "bs = []")
    case True
    then show ?thesis using 1(3) by (simp add: sendn_loop.simps)
  next
    case False
    obtain r es1 where r: "os_send bs es = (r, es1)" by fastforce
    show ?thesis
    proof (cases r)
      case (Io_Bytes b)
      note os_send_bytes[OF r[unfolded Io_Bytes]]
      moreover from this have b: "b \<noteq> []" using 1(3) False by simp
      ultimately show ?thesis
        using 1(1)[OF False r[symmetric] Io_Bytes b] 1(3) False r Io_Bytes
        by (auto simp: sendn_loop.simps[of ns bs out es])
    next
      case Io_Intr
      with 1(2)[OF False r[symmetric] Io_Intr] os_send_intr[OF r[unfolded Io_Intr]] 1(3) False r
      show ?thesis by (simp add: sendn_loop.simps[of ns bs out es])
    qed (use os_send_stuck[OF r] 1(3) in auto)
  qed
qed

lemma sendn_loop_prefix:
  "sendn_loop ns bs out es = (r, out', es') \<Longrightarrow>
   \<exists>k. out' = out @ take k bs \<and> (r = Ok True \<longrightarrow> out' = out @ bs) \<and>
       (r = Ok True \<or> r = Ok False \<or> r = Blocked \<or> \<not> ns \<and> r = Exited killed_by_SIGPIPE)"
proof (induction ns bs out es arbitrary: r out' es' rule: sendn_loop.induct)
  case (1 ns bs out es)
  show ?case
  proof (cases "bs = []")
    case True
    then show ?thesis using 1(3) by (simp add: sendn_loop.simps)
  next
    case False
    obtain q es1 where q: "os_send bs es = (q, es1)" by fastforce
    show ?thesis
    proof (cases "\<exists>b. q = Io_Bytes b \<and> b \<noteq> []")
      case True
      then obtain b where b: "q = Io_Bytes b" "b \<noteq> []" by blast
      have bb: "b @ drop (length b) bs = bs" using os_send_bytes(1) q b by blast
      from 1(3) have "sendn_loop ns (drop (length b) bs) (out @ b) es1 = (r, out', es')"
        using False q b by (simp add: sendn_loop.simps[of ns bs out es])
      from 1(1)[OF False q[symmetric] b this] obtain k
        where k: "out' = (out @ b) @ take k (drop (length b) bs)" "r = Ok True \<longrightarrow> out' = (out @ b) @ drop (length b) bs"
          "r = Ok True \<or> r = Ok False \<or> r = Blocked \<or> \<not> ns \<and> r = Exited killed_by_SIGPIPE" by blast
      have "take (length b + k) bs = b @ take k (drop (length b) bs)"
        using bb by (metis take_add append_eq_conv_conj)
      with k bb show ?thesis by (intro exI[of _ "length b + k"]) auto
    next
      case none: False
      show ?thesis
      proof (cases "q = Io_Intr")
        case True
        then show ?thesis using 1(2)[OF False q[symmetric] True] 1(3) False q
          by (simp add: sendn_loop.simps[of ns bs out es])
      next
        case no_intr: False
        then show ?thesis
          using 1(3) False q none
          by (intro exI[of _ 0]) (cases q; auto simp: sendn_loop.simps[of ns bs out es] split: if_splits)
      qed
    qed
  qed
qed

section \<open>Laws of the calls\<close>

text \<open>What is left to read from a descriptor, and the world after a read or a write on it.\<close>

definition incoming :: "world \<Rightarrow> fd \<Rightarrow> bytes" where
  "incoming w fd = (case socks w fd of None \<Rightarrow> [] | Some s \<Rightarrow> rx_stream (rx s))"

definition outgoing :: "world \<Rightarrow> fd \<Rightarrow> bytes" where
  "outgoing w fd = (case socks w fd of None \<Rightarrow> [] | Some s \<Rightarrow> sent s)"

definition writable :: "world \<Rightarrow> fd \<Rightarrow> bool" where
  "writable w fd \<longleftrightarrow> (case socks w fd of None \<Rightarrow> False | Some s \<Rightarrow> tx_ok (tx s))"

definition same_but :: "fd \<Rightarrow> world \<Rightarrow> world \<Rightarrow> bool" where
  "same_but fd w w' \<longleftrightarrow>
     (\<exists>s. w' = w\<lparr>socks := (socks w)(fd \<mapsto> s)\<rparr>) \<and> socks w fd \<noteq> None"

lemma same_but_trans [trans]: "same_but fd w1 w2 \<Longrightarrow> same_but fd w2 w3 \<Longrightarrow> same_but fd w1 w3"
  by (fastforce simp: same_but_def)

lemma same_but_simps:
  "same_but fd w w' \<Longrightarrow> mem w' = mem w" "same_but fd w w' \<Longrightarrow> net w' = net w"
  "same_but fd w w' \<Longrightarrow> addrinfos w' = addrinfos w" "same_but fd w w' \<Longrightarrow> next_fd w' = next_fd w"
  "same_but fd w w' \<Longrightarrow> conns w' = conns w" "same_but fd w w' \<Longrightarrow> next_conn w' = next_conn w"
  "same_but fd w w' \<Longrightarrow> fd' \<noteq> fd \<Longrightarrow> socks w' fd' = socks w fd'"
  "same_but fd w w' \<Longrightarrow> dom (socks w') = dom (socks w)"
  by (auto simp: same_but_def split: if_splits)

lemma recvn_ex_enough:
  assumes "socks w fd \<noteq> None" "n \<le> length (incoming w fd)" "n \<le> cap"
  obtains w' where "recvn_ex fd cap n w = (Ok (take n (incoming w fd)), w')" "same_but fd w w'"
    "incoming w' fd = drop n (incoming w fd)" "outgoing w' fd = outgoing w fd" "writable w' fd = writable w fd"
proof -
  obtain s where s: "socks w fd = Some s" using assms(1) by auto
  from recvn_loop_enough[of n "rx s" "[]" cap] assms s obtain es
    where l: "recvn_loop cap n [] (rx s) = (Ok (Some (take n (rx_stream (rx s)))), es)"
      "rx_stream es = drop n (rx_stream (rx s))" by (auto simp: incoming_def)
  let ?w = "w\<lparr>socks := (socks w)(fd \<mapsto> s\<lparr>rx := es\<rparr>)\<rparr>"
  have "recvn_ex fd cap n w = (Ok (take n (incoming w fd)), ?w)"
    using s l by (simp add: recvn_ex_def recvn_def with_sock_def bnd_def ret_def incoming_def)
  moreover have "same_but fd w ?w" using s by (auto simp: same_but_def)
  ultimately show thesis
    using that[of ?w] s l by (simp add: incoming_def outgoing_def writable_def)
qed

lemma recvn_ex_next:
  assumes "socks w fd \<noteq> None" "incoming w fd = bs @ rest" "length bs = n" "n \<le> cap"
  obtains w' where "recvn_ex fd cap n w = (Ok bs, w')" "same_but fd w w'" "incoming w' fd = rest"
    "outgoing w' fd = outgoing w fd" "writable w' fd = writable w fd" "socks w' fd \<noteq> None"
proof -
  have "n \<le> length (incoming w fd)" "take n (incoming w fd) = bs" "drop n (incoming w fd) = rest"
    using assms by auto
  with recvn_ex_enough[OF assms(1) _ assms(4)] obtain w'
    where w': "recvn_ex fd cap n w = (Ok bs, w')" "same_but fd w w'" "incoming w' fd = rest"
      "outgoing w' fd = outgoing w fd" "writable w' fd = writable w fd" by metis
  moreover have "socks w' fd \<noteq> None" using assms(1) same_but_simps(8)[OF w'(2)] by blast
  ultimately show thesis using that by blast
qed

lemma recvn_ex_short:
  assumes "length (incoming w fd) < n" "n \<le> cap"
  shows "fst (recvn_ex fd cap n w) = Throw (Runtime_error ''recvn failed. {}'') \<or> fst (recvn_ex fd cap n w) = Blocked"
proof (cases "socks w fd")
  case None
  then show ?thesis using assms
    by (auto simp: recvn_ex_def recvn_def with_sock_def bnd_def throw_def incoming_def)
next
  case (Some s)
  with recvn_loop_short[of "rx s" n "[]" cap] assms show ?thesis
    by (auto simp: recvn_ex_def recvn_def with_sock_def bnd_def throw_def incoming_def
        split: prod.splits outcome.splits)
qed

lemma recvn_ex_overflow:
  assumes "cap < n" "cap < length (incoming w fd)"
  shows "fst (recvn_ex fd cap n w) = Undefined"
proof (cases "socks w fd")
  case None
  then show ?thesis using assms by (simp add: incoming_def)
next
  case (Some s)
  with recvn_loop_overflow[of "[]" cap n "rx s"] assms show ?thesis
    by (auto simp: recvn_ex_def recvn_def with_sock_def bnd_def incoming_def
        split: prod.splits outcome.splits)
qed

lemma recvn_ex_too_large:
  assumes "cap < n"
  shows "fst (recvn_ex fd cap n w) \<noteq> Ok bs"
proof (cases "socks w fd")
  case None
  then show ?thesis using assms
    by (auto simp: recvn_ex_def recvn_def with_sock_def bnd_def throw_def)
next
  case (Some s)
  obtain q es where q: "recvn_loop cap n [] (rx s) = (q, es)" by fastforce
  have "q \<noteq> Ok (Some bs)" using recvn_loop_too_large[of "[]" cap n "rx s" bs] assms q by simp
  with Some q show ?thesis
    by (cases q) (auto simp: recvn_ex_def recvn_def with_sock_def bnd_def throw_def ret_def
        split: option.splits)
qed

lemma sendn_ex_ok:
  assumes "writable w fd"
  obtains w' where "sendn_ex ns fd bs w = (Ok (), w')" "same_but fd w w'" "writable w' fd"
    "outgoing w' fd = outgoing w fd @ bs" "incoming w' fd = incoming w fd"
proof -
  obtain s where s: "socks w fd = Some s" "tx_ok (tx s)" using assms by (auto simp: writable_def split: option.splits)
  from sendn_loop_ok[OF s(2), of ns bs "[]"] obtain es
    where l: "sendn_loop ns bs [] (tx s) = (Ok True, bs, es)" "tx_ok es" by auto
  let ?w = "w\<lparr>socks := (socks w)(fd \<mapsto> s\<lparr>tx := es, sent := sent s @ bs\<rparr>)\<rparr>"
  have "sendn_ex ns fd bs w = (Ok (), ?w)"
    using s l by (simp add: sendn_ex_def sendn_def with_sock_def bnd_def ret_def throw_if_def)
  moreover have "same_but fd w ?w" using s by (auto simp: same_but_def)
  ultimately show thesis
    using that[of ?w] s l by (simp add: incoming_def outgoing_def writable_def)
qed

section \<open>Framing\<close>

text \<open>
  A message protocol over a connection: what \<open>snd\<close> puts on the wire for a message, \<open>rcv\<close> reads
  back, whatever follows it in the stream and however the stream is cut into segments.
\<close>

locale framing =
  fixes put :: "fd \<Rightarrow> 'm \<Rightarrow> unit prog" and get :: "fd \<Rightarrow> 'm prog"
    and wire :: "'m \<Rightarrow> bytes" and fits :: "'m \<Rightarrow> bool"
  assumes put_spec: "fits m \<Longrightarrow> heap_ok (mem w) \<Longrightarrow> writable w fd \<Longrightarrow>
      \<exists>w'. put fd m w = (Ok (), w') \<and> heap_ok (mem w') \<and> writable w' fd \<and>
        outgoing w' fd = outgoing w fd @ wire m"
    and get_spec: "fits m \<Longrightarrow> heap_ok (mem w) \<Longrightarrow> incoming w fd = wire m @ rest \<Longrightarrow> socks w fd \<noteq> None \<Longrightarrow>
      \<exists>w'. get fd w = (Ok m, w') \<and> incoming w' fd = rest \<and> heap_ok (mem w') \<and> socks w' fd \<noteq> None"
begin

lemma put_list:
  "\<forall>m\<in>set ms. fits m \<Longrightarrow> heap_ok (mem w) \<Longrightarrow> writable w fd \<Longrightarrow>
   \<exists>w'. for_each ms (put fd) w = (Ok (), w') \<and> outgoing w' fd = outgoing w fd @ concat (map wire ms)"
proof (induction ms arbitrary: w)
  case Nil
  then show ?case by (simp add: ret_def)
next
  case (Cons m ms)
  from put_spec[of m w fd] Cons.prems obtain w1
    where w1: "put fd m w = (Ok (), w1)" "heap_ok (mem w1)" "writable w1 fd" "outgoing w1 fd = outgoing w fd @ wire m"
    by auto
  with Cons.IH[of w1] Cons.prems show ?case by (auto simp: exec_simps)
qed

lemma repeat_get_stream:
  "\<forall>m\<in>set ms. fits m \<Longrightarrow> heap_ok (mem w) \<Longrightarrow> incoming w fd = concat (map wire ms) @ rest \<Longrightarrow> socks w fd \<noteq> None \<Longrightarrow>
   \<exists>w'. repeat_prog (length ms) (get fd) w = (Ok ms, w') \<and> incoming w' fd = rest"
proof (induction ms arbitrary: w)
  case Nil
  then show ?case by (simp add: ret_def)
next
  case (Cons m ms)
  from get_spec[of m w fd "concat (map wire ms) @ rest"] Cons.prems obtain w1
    where w1: "get fd w = (Ok m, w1)" "incoming w1 fd = concat (map wire ms) @ rest" "heap_ok (mem w1)" "socks w1 fd \<noteq> None"
    by auto
  with Cons.IH[of w1] Cons.prems obtain w2
    where "repeat_prog (length ms) (get fd) w1 = (Ok ms, w2)" "incoming w2 fd = rest" by auto
  with w1 show ?case by (simp add: exec_simps)
qed

text \<open>Everything one side sends, the other side receives in the same order, message by message.\<close>

lemma transfer:
  assumes "\<forall>m\<in>set ms. fits m" "heap_ok (mem wa)" "writable wa fa" "outgoing wa fa = []"
      "heap_ok (mem wb)" "socks wb fb \<noteq> None"
    and arrives: "\<And>wa'. for_each ms (put fa) wa = (Ok (), wa') \<Longrightarrow> incoming wb fb = outgoing wa' fa"
  shows "\<exists>wa' wb'. for_each ms (put fa) wa = (Ok (), wa') \<and> repeat_prog (length ms) (get fb) wb = (Ok ms, wb')"
proof -
  from put_list[OF assms(1,2,3)] assms(4) obtain wa'
    where a: "for_each ms (put fa) wa = (Ok (), wa')" "outgoing wa' fa = concat (map wire ms)" by auto
  with repeat_get_stream[of ms wb fb "[]"] arrives[OF a(1)] assms show ?thesis by auto
qed

end

lemma length_packed_msg_head [simp]: "length (packed_msg_head e len) = 12"
  by (simp add: packed_msg_head_def)

definition msg_fits :: "bytes \<Rightarrow> bool" where
  "msg_fits dat \<longleftrightarrow> length dat \<le> 2 ^ 31"

definition msg_wire :: "endian \<Rightarrow> bytes \<Rightarrow> bytes" where
  "msg_wire e dat = packed_msg_head e (of_nat (length dat)) @ dat"

lemma send_msg_spec:
  assumes "writable w fd"
  shows "\<exists>w'. send_msg e fd dat w = (Ok (), w') \<and> same_but fd w w' \<and> writable w' fd \<and>
        outgoing w' fd = outgoing w fd @ msg_wire e dat"
proof -
  from sendn_ex_ok[OF assms, of True "packed_msg_head e (of_nat (length dat))"] obtain w1
    where w1: "sendn_ex True fd (packed_msg_head e (of_nat (length dat))) w = (Ok (), w1)" "same_but fd w w1"
      "writable w1 fd" "outgoing w1 fd = outgoing w fd @ packed_msg_head e (of_nat (length dat))" by blast
  from sendn_ex_ok[OF w1(3), of True dat] obtain w2
    where w2: "sendn_ex True fd dat w1 = (Ok (), w2)" "same_but fd w1 w2" "writable w2 fd"
      "outgoing w2 fd = outgoing w1 fd @ dat" by blast
  show ?thesis
    using w1 w2 same_but_trans[OF w1(2) w2(2)] by (auto simp: send_msg_def exec_simps msg_wire_def)
qed

lemma unat_of_nat_64: "n < 2 ^ 64 \<Longrightarrow> unat (of_nat n :: u64) = n"
  by (simp add: unat_of_nat)

lemma recv_msg_spec:
  assumes fits: "msg_fits dat" and s: "incoming w fd = msg_wire e dat @ rest" "socks w fd \<noteq> None"
  shows "\<exists>w'. recv_msg e fd w = (Ok dat, w') \<and> same_but fd w w' \<and> incoming w' fd = rest"
proof -
  have "12 \<le> length (incoming w fd)" by (simp add: s msg_wire_def)
  from recvn_ex_enough[OF s(2) this, of 12] obtain w1
    where w1: "recvn_ex fd 12 12 w = (Ok (packed_msg_head e (of_nat (length dat))), w1)" "same_but fd w w1"
      "incoming w1 fd = dat @ rest" by (auto simp: s msg_wire_def)
  have "socks w1 fd \<noteq> None" using w1(2) s(2) same_but_simps(8)[OF w1(2)] by blast
  from recvn_ex_enough[OF this, of "length dat" "length dat"] obtain w2
    where w2: "recvn_ex fd (length dat) (length dat) w1 = (Ok dat, w2)" "same_but fd w1 w2" "incoming w2 fd = rest"
    by (auto simp: w1(3))
  have len: "unat (of_nat (length dat) :: u64) = length dat" "\<not> (2147483648 :: u64) < of_nat (length dat)"
    using fits by (simp_all add: msg_fits_def unat_of_nat_64 word_less_nat_alt)
  have "recv_msg e fd w = (Ok dat, w2)"
    using w1(1) w2(1) len by (simp add: recv_msg_def bnd_def throw_if_def ret_def Let_def packed_msg_head_def)
  then show ?thesis using same_but_trans[OF w1(2) w2(2)] w2(3) by blast
qed

interpretation msg: framing "send_msg e" "recv_msg e" "msg_wire e" msg_fits for e
proof
  fix m w fd assume ok: "heap_ok (mem w)" and wr: "writable w fd"
  from send_msg_spec[OF wr, of e m] ok
  show "\<exists>w'. send_msg e fd m w = (Ok (), w') \<and> heap_ok (mem w') \<and> writable w' fd \<and>
        outgoing w' fd = outgoing w fd @ msg_wire e m"
    by (metis same_but_simps(1))
next
  fix m w fd rest
  assume m: "msg_fits m" "heap_ok (mem w)" "incoming w fd = msg_wire e m @ rest" "socks w fd \<noteq> None"
  from recv_msg_spec[OF m(1,3,4)] obtain w' where w': "recv_msg e fd w = (Ok m, w')" "same_but fd w w'" "incoming w' fd = rest" by blast
  then show "\<exists>w'. recv_msg e fd w = (Ok m, w') \<and> incoming w' fd = rest \<and> heap_ok (mem w') \<and> socks w' fd \<noteq> None"
    using m same_but_simps(1,8)[OF w'(2)] by (intro exI[of _ w']) (auto simp: dom_def)
qed

section \<open>Reading what is there\<close>

lemma recvall_loop_once:
  "0 < current \<Longrightarrow> recvall_loop current acc es =
     (case os_recv (current div 2) es of
        (Io_Bytes bs, es) \<Rightarrow> (Ok (Some (acc @ bs, current)), es)
      | (Io_Block, es) \<Rightarrow> (Blocked, es)
      | (r, es) \<Rightarrow> (Ok None, es))"
  by (subst recvall_loop.simps) (auto dest: os_recv_bytes(1) split: prod.splits io_result.splits)

lemma recv_some_cases:
  assumes "0 < current" "recv_some fd current w = (r, w')"
  shows "(\<exists>bs. r = Ok (Some (bs, current)) \<and> length bs \<le> current \<and> incoming w fd = bs @ incoming w' fd \<and> same_but fd w w') \<or>
     (r = Ok None \<or> r = Blocked) \<and> mem w' = mem w"
proof (cases "socks w fd")
  case None
  then show ?thesis using assms by (auto simp: recv_some_def with_sock_def)
next
  case (Some s)
  obtain r1 es1 where r1: "os_recv (current div 2) (rx s) = (r1, es1)" by fastforce
  obtain r2 es2 where r2: "os_recv (current div 2) es1 = (r2, es2)" by fastforce
  note b1 = os_recv_bytes[of "current div 2" "rx s" _ es1] and b2 = os_recv_bytes[of "current div 2" es1 _ es2]
  have w: "w' = w\<lparr>socks := (socks w)(fd \<mapsto> s\<lparr>rx := es\<rparr>)\<rparr> \<Longrightarrow> same_but fd w w'" for es
    using Some by (auto simp: same_but_def)
  show ?thesis
    using assms Some r1 r2 b1 b2 w
    by (auto simp: recv_some_def with_sock_def recvall_loop_once incoming_def split: if_splits io_result.splits)
qed

lemma free_malloc_fresh:
  assumes "heap_ok h" "c_malloc n h = (p, h1)" "blocks h2 = (blocks h1)(p \<mapsto> b)" "brk h2 = brk h1"
  shows "\<exists>h3. c_free p h2 = Some h3 \<and> blocks h3 = blocks h \<and> heap_ok h3"
  using assms by (auto simp: c_malloc_def c_free_def heap_ok_def fun_upd_idem_iff)

lemma malloc_ex_apply: "malloc_ex n w = (Ok (brk (mem w)), w\<lparr>mem := snd (c_malloc n (mem w))\<rparr>)"
  by (simp add: malloc_ex_def on_heap_def c_malloc_def)

lemma recvall_fresh:
  assumes ok: "heap_ok (mem w)" and r: "recvall fd NULL n w = (r, w')" and cur: "current = (if n \<noteq> 0 then n else 1024)"
  shows "(\<exists>bs rest. r = Ok (Some (length bs), brk (mem w)) \<and> length bs \<le> current \<and> length (bs @ rest) = current \<and>
       incoming w fd = bs @ incoming w' fd \<and> blocks (mem w') = (blocks (mem w))(brk (mem w) \<mapsto> bs @ rest) \<and>
       brk (mem w') = Suc (brk (mem w))) \<or>
     (r = Ok (None, NULL) \<or> r = Blocked) \<and> (\<exists>b. blocks (mem w') = (blocks (mem w))(brk (mem w) \<mapsto> b))"
proof -
  define fr where "fr = map (fresh_bytes (mem w) (brk (mem w))) [0..<current]"
  define w1 where "w1 = w\<lparr>mem := snd (c_malloc current (mem w))\<rparr>"
  have b1: "blocks (mem w1) = (blocks (mem w))(brk (mem w) \<mapsto> fr)" "brk (mem w1) = Suc (brk (mem w))"
    by (simp_all add: w1_def c_malloc_def fr_def)
  have i1: "incoming w1 fd = incoming w fd" by (simp add: w1_def incoming_def)
  obtain q w2 where q: "recv_some fd current w1 = (q, w2)" by fastforce
  have cp: "0 < current" by (simp add: cur)
  note unf = recvall_def Let_def cur[symmetric] if_P[OF refl]
  from recv_some_cases[OF cp q] consider
    (got) bs where "q = Ok (Some (bs, current))" "length bs \<le> current" "incoming w1 fd = bs @ incoming w2 fd" "same_but fd w1 w2"
    | (none) "q = Ok None" "mem w2 = mem w1" | (blocked) "q = Blocked" "mem w2 = mem w1" by blast
  then show ?thesis
  proof cases
    case got
    have m2: "mem w2 = mem w1" using got(4) by (rule same_but_simps(1))
    let ?b = "overwrite 0 bs fr"
    have lf: "length fr = current" by (simp add: fr_def)
    have st: "store (mem w2) (brk (mem w)) 0 bs = Some ((mem w2)\<lparr>blocks := (blocks (mem w2))(brk (mem w) \<mapsto> ?b)\<rparr>)"
      using b1 got(2) lf by (simp add: m2 store_def)
    let ?w = "if bs = [] then w2 else w2\<lparr>mem := (mem w2)\<lparr>blocks := (blocks (mem w2))(brk (mem w) \<mapsto> ?b)\<rparr>\<rparr>"
    have "recvall fd NULL n w = (Ok (Some (length bs), brk (mem w)), ?w)"
      using q got(1) st unfolding unf
      by (simp add: bnd_def malloc_ex_apply w1_def[symmetric] ret_def store_ex_def on_heap_def)
    then have rw: "r = Ok (Some (length bs), brk (mem w))" "w' = ?w" using r by auto
    have "blocks (mem w') = (blocks (mem w))(brk (mem w) \<mapsto> bs @ drop (length bs) fr)" "brk (mem w') = Suc (brk (mem w))"
      "incoming w' fd = incoming w2 fd"
      by (simp_all add: rw(2) m2 b1 overwrite_def incoming_def)
    with rw(1) got i1 lf show ?thesis by (intro disjI1 exI[of _ bs] exI[of _ "drop (length bs) fr"]) simp
  next
    case none
    then have "r = Ok (None, NULL)" "w' = w2"
      using r q unfolding unf by (simp_all add: bnd_def malloc_ex_apply w1_def[symmetric] ret_def)
    with none b1 show ?thesis by auto
  next
    case blocked
    then have "r = Blocked" "w' = w2"
      using r q unfolding unf by (simp_all add: bnd_def malloc_ex_apply w1_def[symmetric] ret_def)
    with blocked b1 show ?thesis by auto
  qed
qed

lemma quick_recvall_cases:
  assumes ok: "heap_ok (mem w)" and r: "quick_recvall fd w = (r, w')"
  shows "(\<exists>bs. r = Ok bs \<and> length bs \<le> 1024 \<and> incoming w fd = bs @ incoming w' fd \<and> blocks (mem w') = blocks (mem w)) \<or>
     (r = Throw (Runtime_error ''recvall failed. {}'') \<or> r = Blocked) \<and>
       (\<exists>b. blocks (mem w') = (blocks (mem w))(brk (mem w) \<mapsto> b))"
proof -
  obtain q w1 where q: "recvall fd NULL 0 w = (q, w1)" by fastforce
  from recvall_fresh[OF ok q refl] show ?thesis
  proof (elim disjE exE conjE)
    fix bs rest
    assume g: "q = Ok (Some (length bs), brk (mem w))" "length (bs @ rest) = (if (0::nat) \<noteq> 0 then 0 else 1024)"
      "incoming w fd = bs @ incoming w1 fd"
      "blocks (mem w1) = (blocks (mem w))(brk (mem w) \<mapsto> bs @ rest)" "brk (mem w1) = Suc (brk (mem w))"
    then have "load (mem w1) (brk (mem w)) 0 (length bs) = Some bs" by (simp add: load_def)
    moreover have "c_free (brk (mem w)) (mem w1) = Some ((mem w1)\<lparr>blocks := blocks (mem w)\<rparr>)"
      using g heap_ok_fresh[OF ok] by (simp add: c_free_def fun_upd_idem)
    ultimately have "r = Ok bs" "w' = w1\<lparr>mem := (mem w1)\<lparr>blocks := blocks (mem w)\<rparr>\<rparr>"
      using r q g(1) by (auto simp: quick_recvall_def recvall_ex_def bnd_def ret_def load_ex_def free_ex_def on_heap_def)
    with g show ?thesis by (auto simp: incoming_def)
  qed (use r q in \<open>auto simp: quick_recvall_def recvall_ex_def bnd_def throw_def ret_def\<close>)
qed

lemma readall_eq: "readall = recvall"
  unfolding readall_def recvall_def by (rule refl)

section \<open>Opening connections\<close>

definition fds_ok :: "world \<Rightarrow> bool" where
  "fds_ok w \<longleftrightarrow> (\<forall>fd. next_fd w \<le> fd \<longrightarrow> socks w fd = None)"

definition setsockopt_failed :: "string \<Rightarrow> bool" where
  "setsockopt_failed msg \<longleftrightarrow> msg = ''setsockopt(SO_REUSEADDR) failed'' \<or> msg = ''setsockopt(SO_REUSEPORT) failed''"

lemma set_reuse_cases:
  "set_reuse rp w = (Ok (), w) \<or> (\<exists>msg. set_reuse rp w = (Throw (Runtime_error msg), w) \<and> setsockopt_failed msg)"
  by (auto simp: set_reuse_def setsockopt_failed_def throw_if_def throw_def ret_def bnd_def)

lemma set_reuse_net: "net w' = net w \<Longrightarrow> fst (set_reuse rp w') = fst (set_reuse rp w)"
  by (simp add: set_reuse_def throw_if_def throw_def ret_def bnd_def)

lemma connect_any_cases:
  assumes "fds_ok w" "connect_any as w = (r, w')"
  shows "net w' = net w \<and> addrinfos w' = addrinfos w \<and> mem w' = mem w \<and>
    (r = Ok None \<and> socks w' = socks w \<or>
     (\<exists>fd rp s. r = Ok (Some fd) \<and> rp \<in> set as \<and> net_connect (net w) rp = Some s \<and> socks w fd = None \<and>
        socks w' = (socks w)(fd \<mapsto> s)) \<or>
     (\<exists>fd msg. r = Throw (Runtime_error msg) \<and> setsockopt_failed msg \<and> socks w fd = None \<and>
        socks w' = (socks w)(fd \<mapsto> fresh_sock)))"
  using assms
proof (induction as arbitrary: w)
  case Nil
  then show ?case by simp
next
  case (Cons rp rps)
  have free: "socks w (next_fd w) = None" using Cons.prems(1) by (simp add: fds_ok_def)
  show ?case
  proof (cases "net_socket (net w) rp")
    case False
    then have "connect_any rps w = (r, w')" using Cons.prems(2) by simp
    from Cons.IH[OF Cons.prems(1) this] show ?thesis by (simp only: list.set insert_iff) blast
  next
    case sock: True
    let ?w1 = "w\<lparr>socks := (socks w)(next_fd w \<mapsto> fresh_sock), next_fd := next_fd w + 1\<rparr>"
    show ?thesis
    proof (cases "fst (set_reuse rp w) = Ok ()")
      case False
      then have "\<exists>msg. set_reuse rp ?w1 = (Throw (Runtime_error msg), ?w1) \<and> setsockopt_failed msg"
        using set_reuse_cases[of rp ?w1] set_reuse_net[of ?w1 w rp] by auto
      then obtain msg where "r = Throw (Runtime_error msg)" "setsockopt_failed msg" "w' = ?w1"
        using sock Cons.prems(2) by (auto simp: bnd_def new_fd_def)
      then show ?thesis
        using free by (intro conjI disjI2 exI[of _ "next_fd w"] exI[of _ msg]) simp_all
    next
      case True
      then have opt: "set_reuse rp ?w1 = (Ok (), ?w1)"
        using set_reuse_cases[of rp ?w1] set_reuse_net[of ?w1 w rp] by auto
      show ?thesis
      proof (cases "net_connect (net w) rp")
        case None
        let ?w = "w\<lparr>next_fd := next_fd w + 1\<rparr>"
        have "connect_any rps ?w = (r, w')"
          using Cons.prems(2) sock opt None free
          by (simp add: bnd_def new_fd_def throw_def ret_def close_ex_def fun_upd_idem)
        moreover have "fds_ok ?w" using Cons.prems(1) by (simp add: fds_ok_def)
        ultimately show ?thesis using Cons.IH[of ?w] by (simp del: fun_upd_apply) blast
      next
        case (Some s)
        then have "r = Ok (Some (next_fd w))"
          "w' = w\<lparr>next_fd := next_fd w + 1, socks := (socks w)(next_fd w \<mapsto> s)\<rparr>"
          using sock opt Cons.prems(2) by (simp_all add: bnd_def new_fd_def ret_def attach_def)
        then show ?thesis
          using Some free by (intro conjI disjI2 disjI1 exI[of _ "next_fd w"] exI[of _ rp] exI[of _ s]) simp_all
      qed
    qed
  qed
qed

section \<open>Properties\<close>

text \<open>
  C21: \<open>recvn_ex\<close> is independent of how the network cuts the stream and of interrupted calls.
  If at least \<open>n\<close> bytes are on their way it returns exactly the next \<open>n\<close> of them, leaves the
  rest to be read and touches nothing but that descriptor; if the stream ends or fails
  before, it throws, or blocks when nothing more ever happens. It never returns short data.
\<close>

theorem recvn_ex_reassembles:
  assumes "socks w fd \<noteq> None" "n \<le> cap"
  shows "if n \<le> length (incoming w fd)
    then \<exists>w'. recvn_ex fd cap n w = (Ok (take n (incoming w fd)), w') \<and>
           incoming w' fd = drop n (incoming w fd) \<and> same_but fd w w'
    else fst (recvn_ex fd cap n w) = Throw (Runtime_error ''recvn failed. {}'') \<or>
         fst (recvn_ex fd cap n w) = Blocked"
proof (cases "n \<le> length (incoming w fd)")
  case True
  from recvn_ex_enough[OF assms(1) True assms(2)] True show ?thesis by metis
next
  case False
  with recvn_ex_short[of w fd n cap] assms(2) show ?thesis by simp
qed

definition demo_net :: net_env where
  "demo_net = \<lparr>net_getaddrinfo = (\<lambda>_ _ _. Inr [\<lparr>ai_family = AF_INET, ai_addr = [127, 0, 0, 1]\<rparr>]),
     net_socket = (\<lambda>_. True), net_setsockopt = (\<lambda>_ _. True), net_bind = (\<lambda>_. True), net_listen = (\<lambda>_. True),
     net_connect = (\<lambda>_. Some \<lparr>rx = [], tx = [], sent = []\<rparr>), handler_log_throws = (\<lambda>_. None)\<rparr>"

definition demo_world :: "sock \<Rightarrow> world" where
  "demo_world s = \<lparr>mem = \<lparr>blocks = Map.empty, brk = 1, fresh_bytes = (\<lambda>_ _. 0), stack_bytes = (\<lambda>_. 0)\<rparr>,
     socks = [3 \<mapsto> s], next_fd = 4, addrinfos = 0, net = demo_net, conns = Map.empty, next_conn = 0, tasks = []\<rparr>"

theorem recvn_ex_reassembles_witness:
  "fst (recvn_ex 3 4 4 (demo_world \<lparr>rx = [Rx_Data [1, 2], Rx_Intr, Rx_Data [3], Rx_Data [4, 5]], tx = [], sent = []\<rparr>))
     = Ok [1, 2, 3, 4]"
  using recvn_ex_reassembles[of "demo_world \<lparr>rx = [Rx_Data [1, 2], Rx_Intr, Rx_Data [3], Rx_Data [4, 5]], tx = [], sent = []\<rparr>" 3 4 4]
  by (auto simp: demo_world_def incoming_def)

text \<open>
  C22: \<open>sendn_ex\<close> sends the bytes in order without loss or repetition. What has been sent is
  always a prefix of the data, all of it when the call returns, and the call does return
  when every \<open>send\<close> is interrupted or makes progress. It ends the process only when the peer
  has gone and \<open>MSG_NOSIGNAL\<close> is not given.
\<close>

theorem sendn_ex_in_order:
  assumes "socks w fd \<noteq> None" "sendn_ex nosignal fd bs w = (r, w')"
  shows "(\<exists>k. outgoing w' fd = outgoing w fd @ take k bs) \<and>
    (r = Ok () \<longrightarrow> outgoing w' fd = outgoing w fd @ bs) \<and>
    (writable w fd \<longrightarrow> r = Ok ()) \<and>
    (r = Ok () \<or> r = Throw (Runtime_error ''sendn failed. {}'') \<or> r = Blocked \<or>
     r = Exited killed_by_SIGPIPE \<and> \<not> nosignal)"
proof -
  obtain s where s: "socks w fd = Some s" using assms(1) by auto
  obtain q out es where q: "sendn_loop nosignal bs [] (tx s) = (q, out, es)" by (metis prod_cases3)
  have w': "outgoing w' fd = outgoing w fd @ out"
    using assms(2) s q by (auto simp: sendn_ex_def sendn_def with_sock_def bnd_def throw_if_def throw_def ret_def outgoing_def
        split: outcome.splits if_splits)
  have r: "r = (case q of Ok b \<Rightarrow> if b then Ok () else Throw (Runtime_error ''sendn failed. {}'')
      | Throw e \<Rightarrow> Throw e | Undefined \<Rightarrow> Undefined | Blocked \<Rightarrow> Blocked | Exited c \<Rightarrow> Exited c)"
    using assms(2) s q by (auto simp: sendn_ex_def sendn_def with_sock_def bnd_def throw_if_def throw_def ret_def
        split: outcome.splits)
  have "writable w fd \<Longrightarrow> q = Ok True"
    using sendn_loop_ok[of "tx s" nosignal bs "[]"] q s by (auto simp: writable_def)
  moreover from sendn_loop_prefix[OF q] obtain k where "out = take k bs" "q = Ok True \<longrightarrow> out = bs"
    "q = Ok True \<or> q = Ok False \<or> q = Blocked \<or> \<not> nosignal \<and> q = Exited killed_by_SIGPIPE" by auto
  ultimately show ?thesis using w' r by auto
qed

theorem sendn_ex_in_order_witness:
  "outgoing (snd (sendn_ex False 3 [7, 8, 9] (demo_world \<lparr>rx = [], tx = [Tx_Accept 1, Tx_Intr, Tx_Accept 1], sent = []\<rparr>))) 3 = [7, 8, 9]"
proof -
  let ?w = "demo_world \<lparr>rx = [], tx = [Tx_Accept 1, Tx_Intr, Tx_Accept 1], sent = []\<rparr>"
  obtain r w' where r: "sendn_ex False 3 [7, 8, 9] ?w = (r, w')" by fastforce
  with sendn_ex_in_order[of ?w 3 False "[7, 8, 9]" r w']
  show ?thesis by (auto simp: demo_world_def writable_def outgoing_def)
qed

text \<open>
  messages sent with \<open>send_msg\<close> over a connection arrive with \<open>recv_msg\<close> one by one, in
  order and unchanged, for any number of messages of at most 2 GiB and however the network
  cuts the stream.
\<close>

theorem send_msg_recv_msg:
  assumes "\<forall>m\<in>set ms. length m \<le> 2 ^ 31" "heap_ok (mem wa)" "writable wa fa" "outgoing wa fa = []"
    and "heap_ok (mem wb)" "socks wb fb \<noteq> None"
    and "\<And>wa'. for_each ms (send_msg e fa) wa = (Ok (), wa') \<Longrightarrow> incoming wb fb = outgoing wa' fa"
  shows "\<exists>wa' wb'. for_each ms (send_msg e fa) wa = (Ok (), wa') \<and>
    repeat_prog (length ms) (recv_msg e fb) wb = (Ok ms, wb')"
  using msg.transfer[of ms wa fa wb fb e] assms by (simp add: msg_fits_def)

theorem send_msg_recv_msg_witness:
  "\<exists>wb'. repeat_prog 2 (recv_msg Little_Endian 3)
     (demo_world \<lparr>rx = [Rx_Data (msg_wire Little_Endian [5, 6] @ msg_wire Little_Endian [])], tx = [], sent = []\<rparr>) = (Ok [[5, 6], []], wb')"
proof -
  let ?wa = "demo_world \<lparr>rx = [], tx = [], sent = []\<rparr>"
  let ?wb = "demo_world \<lparr>rx = [Rx_Data (msg_wire Little_Endian [5, 6] @ msg_wire Little_Endian [])], tx = [], sent = []\<rparr>"
  have wa: "heap_ok (mem ?wa)" "writable ?wa 3" "outgoing ?wa 3 = []"
    by (simp_all add: demo_world_def heap_ok_def writable_def outgoing_def)
  have arr: "incoming ?wb 3 = outgoing wa' 3" if "for_each [[5, 6], []] (send_msg Little_Endian 3) ?wa = (Ok (), wa')" for wa'
    using msg.put_list[of "[[5, 6], []]" ?wa 3 Little_Endian] that wa
    by (auto simp: msg_fits_def demo_world_def incoming_def msg_wire_def packed_msg_head_def mem_of_word_def le_of_word_def)
  have ok: "heap_ok (mem ?wb)" "socks ?wb 3 \<noteq> None" by (simp_all add: demo_world_def heap_ok_def)
  have small: "\<forall>m\<in>set [[5, 6], [] :: bytes]. length m \<le> 2 ^ 31" by simp
  have "\<exists>wa' wb'. for_each [[5, 6], []] (send_msg Little_Endian 3) ?wa = (Ok (), wa') \<and>
      repeat_prog (length [[5, 6], [] :: bytes]) (recv_msg Little_Endian 3) ?wb = (Ok [[5, 6], []], wb')"
    by (rule send_msg_recv_msg[OF small wa ok arr])
  then show ?thesis by (simp add: numeral_2_eq_2 del: repeat_prog.simps)
qed

text \<open>
  C35: \<open>quick_recvall\<close> returns at most 1024 bytes: the data it returns is the beginning of what
  is to be read, the rest stays in the stream, and the heap is as before. The branch that
  would grow the buffer compares the second read with the whole buffer size and is never
  taken. When it throws, the buffer allocated by \<open>recvall\<close> has been lost.
\<close>

theorem quick_recvall_is_bounded:
  assumes "heap_ok (mem w)" "quick_recvall fd w = (r, w')"
  shows "(\<exists>bs. r = Ok bs \<and> length bs \<le> 1024 \<and> incoming w fd = bs @ incoming w' fd \<and> blocks (mem w') = blocks (mem w)) \<or>
     (r = Throw (Runtime_error ''recvall failed. {}'') \<or> r = Blocked) \<and>
       (\<exists>b. blocks (mem w') = (blocks (mem w))(brk (mem w) \<mapsto> b))"
  using quick_recvall_cases[OF assms] .

theorem quick_recvall_is_bounded_witness:
  "fst (quick_recvall 3 (demo_world \<lparr>rx = [Rx_Data (replicate 600 1), Rx_Data (replicate 600 2)], tx = [], sent = []\<rparr>))
     \<noteq> Ok (replicate 600 1 @ replicate 600 2)"
proof -
  let ?w = "demo_world \<lparr>rx = [Rx_Data (replicate 600 1), Rx_Data (replicate 600 2)], tx = [], sent = []\<rparr>"
  obtain r w' where r: "quick_recvall 3 ?w = (r, w')" by fastforce
  have ok: "heap_ok (mem ?w)" by (simp add: demo_world_def heap_ok_def)
  from quick_recvall_is_bounded[OF ok r] r show ?thesis by auto
qed

text \<open>
  \<open>quick_connect\<close> and the resources it takes. The list of addresses is released on every
  path. When it returns, exactly one descriptor has been added and it is connected to one
  of the resolved addresses; when no address accepts, none is left open; but when
  \<open>setsockopt\<close> fails, the exception leaves the new socket open.
\<close>

theorem quick_connect_resources:
  assumes "fds_ok w" "quick_connect addr port w = (r, w')"
  shows "addrinfos w' = addrinfos w \<and>
    ((\<exists>fd as rp s. r = Ok fd \<and> net_getaddrinfo (net w) addr port False = Inr as \<and> rp \<in> set as \<and>
        net_connect (net w) rp = Some s \<and> socks w fd = None \<and> socks w' = (socks w)(fd \<mapsto> s)) \<or>
     (\<exists>msg. r = Throw (Runtime_error msg) \<and>
       (if setsockopt_failed msg
        then \<exists>fd. socks w fd = None \<and> socks w' = (socks w)(fd \<mapsto> fresh_sock)
        else socks w' = socks w)))"
proof (cases "net_getaddrinfo (net w) addr port False")
  case (Inl c)
  then have "r = Throw (Runtime_error ''getaddrinfo failed. Check network connection to {}:{}'')" "w' = w"
    using assms(2) by (auto simp: quick_connect_def getaddrinfo_ex_def bnd_def)
  then show ?thesis
    by (intro conjI disjI2 exI[of _ "''getaddrinfo failed. Check network connection to {}:{}''"])
      (simp_all add: setsockopt_failed_def)
next
  case (Inr as)
  let ?w = "w\<lparr>addrinfos := Suc (addrinfos w)\<rparr>"
  obtain q w1 where q: "connect_any as ?w = (q, w1)" by fastforce
  have "fds_ok ?w" using assms(1) by (simp add: fds_ok_def)
  from connect_any_cases[OF this q]
  have w1: "addrinfos w1 = Suc (addrinfos w)"
    and c: "q = Ok None \<and> socks w1 = socks w \<or>
     (\<exists>fd rp s. q = Ok (Some fd) \<and> rp \<in> set as \<and> net_connect (net w) rp = Some s \<and> socks w fd = None \<and>
        socks w1 = (socks w)(fd \<mapsto> s)) \<or>
     (\<exists>fd msg. q = Throw (Runtime_error msg) \<and> setsockopt_failed msg \<and> socks w fd = None \<and>
        socks w1 = (socks w)(fd \<mapsto> fresh_sock))" by simp_all
  have run: "quick_connect addr port w =
      (case q of
         Ok None \<Rightarrow> (Throw (Runtime_error ''Failed to connect to any of these addr.''), w1\<lparr>addrinfos := addrinfos w\<rparr>)
       | Ok (Some fd) \<Rightarrow> (Ok fd, w1\<lparr>addrinfos := addrinfos w\<rparr>)
       | Throw e \<Rightarrow> (Throw e, w1\<lparr>addrinfos := addrinfos w\<rparr>)
       | Undefined \<Rightarrow> (Undefined, w1) | Blocked \<Rightarrow> (Blocked, w1) | Exited k \<Rightarrow> (Exited k, w1))"
    using Inr q w1 by (simp add: quick_connect_def getaddrinfo_ex_def bnd_def deferring_def freeaddrinfo_ex_def
        throw_def ret_def split: outcome.splits option.splits)
  have "w' = w1\<lparr>addrinfos := addrinfos w\<rparr>" if "q = Ok x \<or> q = Throw err" for x err
    using that assms(2) run by (auto split: option.splits)
  then have a: "addrinfos w' = addrinfos w" and s: "socks w' = socks w1" using c by auto
  from c consider "q = Ok None" "socks w1 = socks w"
    | fd rp s where "q = Ok (Some fd)" "rp \<in> set as" "net_connect (net w) rp = Some s" "socks w fd = None"
        "socks w1 = (socks w)(fd \<mapsto> s)"
    | fd msg where "q = Throw (Runtime_error msg)" "setsockopt_failed msg" "socks w fd = None"
        "socks w1 = (socks w)(fd \<mapsto> fresh_sock)" by blast
  then show ?thesis
  proof cases
    case 1
    then have "r = Throw (Runtime_error ''Failed to connect to any of these addr.'')" using assms(2) run by simp
    with 1 a s show ?thesis by (simp add: setsockopt_failed_def)
  next
    case (2 fd rp s)
    then have "r = Ok fd" using assms(2) run by simp
    with 2 a s Inr show ?thesis
      by (intro conjI disjI1 exI[of _ fd] exI[of _ as] exI[of _ rp] exI[of _ s]) simp_all
  next
    case (3 fd msg)
    then have "r = Throw (Runtime_error msg)" using assms(2) run by simp
    with 3 a s show ?thesis by (intro conjI disjI2 exI[of _ msg]) (simp_all only: if_True simp_thms, blast)
  qed
qed

theorem quick_connect_resources_witness:
  "\<exists>fd s. quick_connect ''localhost'' 80 (demo_world \<lparr>rx = [], tx = [], sent = []\<rparr>) =
     (Ok fd, snd (quick_connect ''localhost'' 80 (demo_world \<lparr>rx = [], tx = [], sent = []\<rparr>))) \<and>
     socks (snd (quick_connect ''localhost'' 80 (demo_world \<lparr>rx = [], tx = [], sent = []\<rparr>))) fd = Some s"
proof -
  let ?w = "demo_world \<lparr>rx = [], tx = [], sent = []\<rparr>"
  have ok: "fds_ok ?w" by (simp add: fds_ok_def demo_world_def)
  obtain r w' where r: "quick_connect ''localhost'' 80 ?w = (r, w')" by fastforce
  have "fst (quick_connect ''localhost'' 80 ?w) = Ok 4"
    by (simp add: quick_connect_def getaddrinfo_ex_def demo_world_def demo_net_def bnd_def deferring_def
        new_fd_def attach_def ret_def freeaddrinfo_ex_def set_reuse_def)
  with quick_connect_resources[OF ok r] r show ?thesis by auto
qed

end
