(* ===== verification/Net_Lib.thy ===== *)
theory Net_Lib
  imports Socket_IO
begin

text \<open>
  \<open>src/src/native/src/lib/NetLib.hpp\<close> and \<open>NetLib.cc\<close>: packets preceded by their length, the DNS
  queries a client tunnels to the server, and the text forms of addresses and data.
  Host names are byte strings; the resolver is a parameter.
\<close>

section \<open>Definitions\<close>

subsection \<open>Packets\<close>

definition packet_limit :: u32 where "packet_limit = 64 * 1024 * 1024"

definition load_n :: "ptr \<Rightarrow> nat \<Rightarrow> bytes prog" where
  "load_n p n = (if n = 0 then ret [] else load_ex p 0 n)"

definition send_length_and_packet :: "endian \<Rightarrow> fd \<Rightarrow> ptr \<Rightarrow> u32 \<Rightarrow> unit prog" where
  "send_length_and_packet e connfd data len =
     bnd (throw_if (packet_limit < len)
            (Invalid_argument ''send_length_and_packet: refuse to send too large packet: length=()'')) (\<lambda>_.
     bnd (sendn_ex False connfd (mem_of_word e 4 (hton e 4 len))) (\<lambda>_.
     bnd (load_n data (unat len)) (\<lambda>bs.
     sendn_ex False connfd bs)))"

definition recv_length_and_packet :: "endian \<Rightarrow> fd \<Rightarrow> (ptr \<times> u32) prog" where
  "recv_length_and_packet e connfd =
     bnd (recvn_ex connfd 4 4) (\<lambda>n.
     let len = hton e 4 (word_of_mem e n) in
     bnd (throw_if (packet_limit < len)
            (Invalid_argument ''recv_length_and_packet: refuse to recv too large packet: length=()'')) (\<lambda>_.
     bnd (malloc_ex (unat len)) (\<lambda>data.
     bnd (recvn_ex connfd (unat len) (unat len)) (\<lambda>bs.
     bnd (store_ex data 0 bs) (\<lambda>_.
     ret (data, len))))))"

subsection \<open>DNS queries\<close>

definition dns_head :: bytes where
  "dns_head = bytes_of_string ''__m_str_dns_head_32__snakesocks_''"

definition assemble_dns_query :: "bytes \<Rightarrow> client_query prog" where
  "assemble_dns_query domain =
     (let len = (of_nat (32 + length domain + 1) :: u32) in
      bnd (malloc_ex (unat len)) (\<lambda>str.
      bnd (store_ex str 0 dns_head) (\<lambda>_.
      bnd (store_ex str 32 domain) (\<lambda>_.
      bnd (store_ex str (unat (len - 1)) [0]) (\<lambda>_.
      ret \<lparr>destination_ip = replicate 16 0, destination_port = 0,
           payload = \<lparr>null_terminated = True, bss_length = len, bss_str = str\<rparr>\<rparr>)))))"

definition is_dns_query :: "client_query \<Rightarrow> bool" where
  "is_dns_query cq = list_all (\<lambda>b. b = 0) (destination_ip cq)"

text \<open>A C string starting at an offset of a block; without a terminator the read leaves the block.\<close>

definition c_string :: "heap \<Rightarrow> ptr \<Rightarrow> nat \<Rightarrow> bytes option" where
  "c_string h p off =
     (case blocks h p of
        None \<Rightarrow> None
      | Some b \<Rightarrow> if off \<le> length b \<and> 0 \<in> set (drop off b) then Some (takeWhile (\<lambda>c. c \<noteq> 0) (drop off b)) else None)"

definition get_domain_from_dns_query :: "client_query \<Rightarrow> bytes prog" where
  "get_domain_from_dns_query cq =
     (if bss_length (payload cq) \<le> 32 then ret []
      else on_heap (\<lambda>h. map_option (\<lambda>s. (s, h)) (c_string h (bss_str (payload cq)) 32)))"

subsection \<open>Text\<close>

definition is_v6 :: "bytes \<Rightarrow> bool" where
  "is_v6 iparr = list_ex (\<lambda>i. iparr ! i \<noteq> 0) [4..<16]"

definition ip_array_to_str :: "bytes \<Rightarrow> string" where
  "ip_array_to_str iparr =
     butlast (concat (map (\<lambda>i. to_string (unat (iparr ! i)) @ (if is_v6 iparr then '':'' else ''.''))
       [0..<(if is_v6 iparr then 16 else 4)]))"

definition printData :: "bytes \<Rightarrow> string" where
  "printData bs = concat (map (\<lambda>b. to_string (unat b) @ '' '') bs) @ [char_of (10 :: nat)]"

subsection \<open>Resolving\<close>

datatype ip_address = Ip_V4 bytes | Ip_V6 bytes

type_synonym resolver = "bytes \<Rightarrow> exn + ip_address list"

definition resolveDomainOnce :: "resolver \<Rightarrow> bytes \<Rightarrow> (ip_address \<Rightarrow> bool) \<Rightarrow> ip_address prog" where
  "resolveDomainOnce resolve domain flt =
     (case resolve domain of
        Inl e \<Rightarrow> throw e
      | Inr as \<Rightarrow>
          (case find flt as of
             Some a \<Rightarrow> ret a
           | None \<Rightarrow> throw (Runtime_error ''BOOST Failed to resolve address '')))"

definition resolveDomainOnce_any :: "resolver \<Rightarrow> bytes \<Rightarrow> ip_address prog" where
  "resolveDomainOnce_any resolve domain = resolveDomainOnce resolve domain (\<lambda>_. True)"

section \<open>Packets arrive\<close>

text \<open>
  How the tunnels use the two functions: a string is sent and released, and a received
  packet is read and released.
\<close>

definition send_packet :: "endian \<Rightarrow> fd \<Rightarrow> bytes \<Rightarrow> unit prog" where
  "send_packet e fd bs =
     bnd (on_heap (make_binary_safe_string_of bs)) (\<lambda>b.
     bnd (send_length_and_packet e fd (bss_str b) (bss_length b)) (\<lambda>_.
     free_ex (bss_str b)))"

definition recv_packet :: "endian \<Rightarrow> fd \<Rightarrow> bytes prog" where
  "recv_packet e fd =
     bnd (recv_length_and_packet e fd) (\<lambda>(p, n).
     bnd (load_n p (unat n)) (\<lambda>bs.
     bnd (free_ex p) (\<lambda>_.
     ret bs)))"

definition packet_wire :: "bytes \<Rightarrow> bytes" where
  "packet_wire bs = mem_of_word Big_Endian 4 (of_nat (length bs) :: u32) @ bs"

definition packet_fits :: "bytes \<Rightarrow> bool" where
  "packet_fits bs \<longleftrightarrow> length bs \<le> 64 * 1024 * 1024"

lemma packet_len:
  assumes "packet_fits bs"
  shows "unat (of_nat (length bs) :: u32) = length bs" "\<not> packet_limit < (of_nat (length bs) :: u32)"
  using assms by (simp_all add: packet_fits_def packet_limit_def word_less_nat_alt unat_of_nat)

lemma send_length_and_packet_spec:
  assumes fits: "packet_fits bs" and wr: "writable w fd"
    and p: "len = of_nat (length bs)" "bs = [] \<or> blocks (mem w) p = Some bs"
  shows "\<exists>w'. send_length_and_packet e fd p len w = (Ok (), w') \<and> same_but fd w w' \<and> writable w' fd \<and>
    outgoing w' fd = outgoing w fd @ packet_wire bs \<and> incoming w' fd = incoming w fd"
proof -
  let ?n = "mem_of_word e 4 (hton e 4 len)"
  have n: "?n = mem_of_word Big_Endian 4 len" by (simp add: mem_of_hton)
  from sendn_ex_ok[OF wr, of False ?n] obtain w1
    where w1: "sendn_ex False fd ?n w = (Ok (), w1)" "same_but fd w w1" "writable w1 fd"
      "outgoing w1 fd = outgoing w fd @ ?n" "incoming w1 fd = incoming w fd" by blast
  have ld: "load_n p (unat len) w1 = (Ok bs, w1)"
    using p packet_len[OF fits] same_but_simps(1)[OF w1(2)]
    by (cases "bs = []") (auto simp: load_n_def load_ex_def on_heap_def load_def ret_def)
  from sendn_ex_ok[OF w1(3), of False bs] obtain w2
    where w2: "sendn_ex False fd bs w1 = (Ok (), w2)" "same_but fd w1 w2" "writable w2 fd"
      "outgoing w2 fd = outgoing w1 fd @ bs" "incoming w2 fd = incoming w1 fd" by blast
  have "send_length_and_packet e fd p len w = (Ok (), w2)"
    using packet_len(2)[OF fits] w1(1) ld w2(1) p(1)
    by (simp add: send_length_and_packet_def exec_simps)
  with w1 w2 n p(1) same_but_trans[OF w1(2) w2(2)] show ?thesis by (auto simp: packet_wire_def)
qed

lemma recv_length_and_packet_spec:
  assumes fits: "packet_fits bs" and ok: "heap_ok (mem w)"
    and s: "incoming w fd = packet_wire bs @ rest" "socks w fd \<noteq> None"
  shows "\<exists>w'. recv_length_and_packet e fd w = (Ok (brk (mem w), of_nat (length bs)), w') \<and> incoming w' fd = rest \<and>
    blocks (mem w') = (blocks (mem w))(brk (mem w) \<mapsto> bs) \<and> heap_ok (mem w') \<and> socks w' fd \<noteq> None \<and>
    outgoing w' fd = outgoing w fd \<and> writable w' fd = writable w fd \<and>
    conns w' = conns w \<and> net w' = net w \<and> (\<forall>f. f \<noteq> fd \<longrightarrow> socks w' f = socks w f) \<and>
    brk (mem w') = Suc (brk (mem w)) \<and> next_fd w' = next_fd w \<and>
    mem w' = (mem w)\<lparr>blocks := (blocks (mem w))(brk (mem w) \<mapsto> bs), brk := Suc (brk (mem w))\<rparr>"
proof -
  let ?len = "of_nat (length bs) :: u32"
  have "4 \<le> length (incoming w fd)" by (simp add: s packet_wire_def)
  from recvn_ex_enough[OF s(2) this, of 4] obtain w1
    where w1: "recvn_ex fd 4 4 w = (Ok (mem_of_word Big_Endian 4 ?len), w1)" "same_but fd w w1"
      "incoming w1 fd = bs @ rest" "outgoing w1 fd = outgoing w fd" "writable w1 fd = writable w fd"
    by (auto simp: s packet_wire_def)
  have n: "hton e 4 (word_of_mem e (mem_of_word Big_Endian 4 ?len)) = ?len"
    using hton_hton[of 4 e ?len] by (simp add: hton_def)
  define w2 where "w2 = w1\<lparr>mem := snd (c_malloc (length bs) (mem w))\<rparr>"
  have m1: "mem w1 = mem w" using w1(2) by (rule same_but_simps(1))
  have w2: "malloc_ex (length bs) w1 = (Ok (brk (mem w)), w2)" "incoming w2 fd = bs @ rest" "socks w2 fd \<noteq> None"
    using s(2) same_but_simps(8)[OF w1(2)] w1(3) by (auto simp: malloc_ex_apply m1 w2_def incoming_def)
  from recvn_ex_enough[OF w2(3), of "length bs" "length bs"] w2(2) obtain w3
    where w3: "recvn_ex fd (length bs) (length bs) w2 = (Ok bs, w3)" "same_but fd w2 w3" "incoming w3 fd = rest"
      "outgoing w3 fd = outgoing w2 fd" "writable w3 fd = writable w2 fd"
    by auto
  have m3: "mem w3 = snd (c_malloc (length bs) (mem w))" using same_but_simps(1)[OF w3(2)] by (simp add: w2_def)
  define w4 where "w4 = w3\<lparr>mem := (mem w3)\<lparr>blocks := (blocks (mem w))(brk (mem w) \<mapsto> bs)\<rparr>\<rparr>"
  have w4: "store_ex (brk (mem w)) 0 bs w3 = (Ok (), w4)"
    by (simp add: store_ex_def on_heap_def store_def m3 c_malloc_def w4_def)
  have "recv_length_and_packet e fd w = (Ok (brk (mem w), ?len), w4)"
    using w1(1) w2(1) w3(1) w4 n packet_len[OF fits]
    by (simp add: recv_length_and_packet_def bnd_def ret_def throw_if_def)
  moreover have "heap_ok (mem w4)" using ok by (simp add: w4_def m3 c_malloc_def heap_ok_def)
  moreover have "socks w4 fd \<noteq> None" using w2(3) same_but_simps(8)[OF w3(2)] by (auto simp: w4_def)
  ultimately show ?thesis
    using w1(4,5) w3(3,4,5) same_but_simps[OF w1(2)] same_but_simps[OF w3(2)]
    by (simp add: w4_def incoming_def outgoing_def writable_def w2_def c_malloc_def)
qed

lemma send_packet_spec:
  assumes "packet_fits bs" "heap_ok (mem w)" "writable w fd"
  shows "\<exists>w'. send_packet e fd bs w = (Ok (), w') \<and> heap_ok (mem w') \<and> writable w' fd \<and>
    outgoing w' fd = outgoing w fd @ packet_wire bs"
proof -
  have "length bs < 2 ^ 32" using assms(1) by (simp add: packet_fits_def)
  from make_binary_safe_string_of_bytes[OF assms(2) this] obtain b h
    where b: "make_binary_safe_string_of bs (mem w) = Some (b, h)" "unat (bss_length b) = length bs"
      "bss_str b = brk (mem w)" "blocks h = (blocks (mem w))(brk (mem w) \<mapsto> bs)" "heap_ok h" by blast
  let ?w = "w\<lparr>mem := h\<rparr>"
  have len: "bss_length b = of_nat (length bs)" by (simp flip: b(2))
  have wr: "writable ?w fd" using assms(3) by (simp add: writable_def)
  have bl: "blocks (mem ?w) (bss_str b) = Some bs" using b by simp
  from send_length_and_packet_spec[OF assms(1) wr len disjI2[OF bl], of e] obtain w1
    where w1: "send_length_and_packet e fd (bss_str b) (bss_length b) ?w = (Ok (), w1)" "same_but fd ?w w1" "writable w1 fd"
      "outgoing w1 fd = outgoing ?w fd @ packet_wire bs" by blast
  have m1: "mem w1 = h" using same_but_simps(1)[OF w1(2)] by simp
  have "bss_str b \<noteq> 0" "blocks h (bss_str b) = Some bs" using b(3,4) heap_ok_fresh(2)[OF assms(2)] by simp_all
  from free_Some[OF this] have "free_ex (bss_str b) w1 = (Ok (), w1\<lparr>mem := h\<lparr>blocks := (blocks h)(bss_str b := None)\<rparr>\<rparr>)"
    by (simp add: free_ex_def on_heap_def m1)
  with b(1) w1 have "send_packet e fd bs w = (Ok (), w1\<lparr>mem := h\<lparr>blocks := (blocks h)(bss_str b := None)\<rparr>\<rparr>)"
    by (simp add: send_packet_def bnd_def on_heap_def)
  moreover have "heap_ok (h\<lparr>blocks := (blocks h)(bss_str b := None)\<rparr>)" using b(5) by (simp add: heap_ok_def)
  ultimately show ?thesis using w1(3,4) by (auto simp: writable_def outgoing_def)
qed

lemma recv_packet_spec:
  assumes "packet_fits bs" "heap_ok (mem w)" "incoming w fd = packet_wire bs @ rest" "socks w fd \<noteq> None"
  shows "\<exists>w'. recv_packet e fd w = (Ok bs, w') \<and> incoming w' fd = rest \<and> heap_ok (mem w') \<and> socks w' fd \<noteq> None"
proof -
  let ?p = "brk (mem w)"
  from recv_length_and_packet_spec[OF assms, of e] obtain w1
    where w1: "recv_length_and_packet e fd w = (Ok (?p, of_nat (length bs)), w1)" "incoming w1 fd = rest"
      "blocks (mem w1) = (blocks (mem w))(?p \<mapsto> bs)" "heap_ok (mem w1)" "socks w1 fd \<noteq> None" by blast
  have ld: "load_n ?p (length bs) w1 = (Ok bs, w1)"
    using w1(3) by (simp add: load_n_def load_ex_def on_heap_def load_def ret_def)
  have "?p \<noteq> 0" "blocks (mem w1) ?p = Some bs" using w1(3) heap_ok_fresh(2)[OF assms(2)] by simp_all
  from free_Some[OF this] have fr: "free_ex ?p w1 = (Ok (), w1\<lparr>mem := (mem w1)\<lparr>blocks := (blocks (mem w1))(?p := None)\<rparr>\<rparr>)"
    by (simp add: free_ex_def on_heap_def)
  have "recv_packet e fd w = (Ok bs, w1\<lparr>mem := (mem w1)\<lparr>blocks := (blocks (mem w1))(?p := None)\<rparr>\<rparr>)"
    using w1(1) ld fr packet_len(1)[OF assms(1)] by (simp add: recv_packet_def bnd_def ret_def)
  moreover have "heap_ok ((mem w1)\<lparr>blocks := (blocks (mem w1))(?p := None)\<rparr>)" using w1(4) by (simp add: heap_ok_def)
  ultimately show ?thesis using w1(2,5) by (auto simp: incoming_def)
qed

interpretation pkt: framing "send_packet e" "recv_packet e" packet_wire packet_fits for e
  by unfold_locales (auto intro: send_packet_spec dest: recv_packet_spec)

section \<open>DNS queries and text\<close>

lemma length_dns_head [simp]: "length dns_head = 32"
  by (simp add: dns_head_def bytes_of_string_def)

lemma store_ex_apply:
  "blocks (mem w) p = Some b \<Longrightarrow> off + length bs \<le> length b \<Longrightarrow>
   store_ex p off bs w = (Ok (), w\<lparr>mem := (mem w)\<lparr>blocks := (blocks (mem w))(p \<mapsto> overwrite off bs b)\<rparr>\<rparr>)"
  by (simp add: store_ex_def on_heap_def store_def)

lemma assemble_dns_query_value:
  assumes "length domain + 33 < 2 ^ 32"
  shows "\<exists>w'. assemble_dns_query domain w =
      (Ok \<lparr>destination_ip = replicate 16 0, destination_port = 0,
           payload = \<lparr>null_terminated = True, bss_length = of_nat (33 + length domain), bss_str = brk (mem w)\<rparr>\<rparr>, w') \<and>
    blocks (mem w') = (blocks (mem w))(brk (mem w) \<mapsto> dns_head @ domain @ [0]) \<and>
    brk (mem w') = Suc (brk (mem w)) \<and> socks w' = socks w \<and>
    w' = w\<lparr>mem := (mem w)\<lparr>blocks := (blocks (mem w))(brk (mem w) \<mapsto> dns_head @ domain @ [0]), brk := Suc (brk (mem w))\<rparr>\<rparr>"
proof -
  let ?n = "33 + length domain" and ?p = "brk (mem w)"
  have u: "unat (of_nat ?n :: u32) = ?n" using assms by (simp only: unat_of_nat) simp
  have "unat ((of_nat ?n :: u32) - 1) = 32 + length domain"
  proof -
    have "(of_nat ?n :: u32) - 1 = of_nat (32 + length domain)" by simp
    then show ?thesis using assms by (simp only: unat_of_nat) simp
  qed
  note u1 = this
  define fr where "fr = map (fresh_bytes (mem w) ?p) [0..<?n]"
  have lf: "length fr = ?n" by (simp add: fr_def)
  let ?b = "overwrite (32 + length domain) [0] (overwrite 32 domain (overwrite 0 dns_head fr))"
  have b: "?b = dns_head @ domain @ [0]" using lf by (simp add: overwrite_def)
  have "assemble_dns_query domain w =
      (Ok \<lparr>destination_ip = replicate 16 0, destination_port = 0,
           payload = \<lparr>null_terminated = True, bss_length = of_nat ?n, bss_str = ?p\<rparr>\<rparr>,
       w\<lparr>mem := (mem w)\<lparr>blocks := (blocks (mem w))(?p \<mapsto> ?b), brk := Suc ?p\<rparr>\<rparr>)"
    using u u1 lf
    by (simp add: assemble_dns_query_def Let_def bnd_def malloc_ex_apply c_malloc_def store_ex_def
        on_heap_def store_def ret_def add.commute) (simp add: fr_def add.commute)
  then show ?thesis by (simp add: b)
qed

lemma takeWhile_append_stop: "x \<notin> set xs \<Longrightarrow> takeWhile (\<lambda>c. c \<noteq> x) (xs @ x # ys) = xs"
  by (induction xs) auto

section \<open>Properties\<close>

text \<open>
  C8: packets sent with \<open>send_length_and_packet\<close> on a host of one byte order arrive with
  \<open>recv_length_and_packet\<close> on a host of any byte order, one by one, in order and unchanged, for
  any number of packets of at most 64 MiB and however the network cuts the stream.
\<close>

theorem packets_cross_hosts:
  assumes "\<forall>m\<in>set ms. length m \<le> 64 * 1024 * 1024" "heap_ok (mem wa)" "writable wa fa" "outgoing wa fa = []"
    and "heap_ok (mem wb)" "socks wb fb \<noteq> None"
    and "\<And>wa'. for_each ms (send_packet e fa) wa = (Ok (), wa') \<Longrightarrow> incoming wb fb = outgoing wa' fa"
  shows "\<exists>wa' wb'. for_each ms (send_packet e fa) wa = (Ok (), wa') \<and>
    repeat_prog (length ms) (recv_packet e' fb) wb = (Ok ms, wb')"
proof -
  have fits: "\<forall>m\<in>set ms. packet_fits m" using assms(1) by (simp add: packet_fits_def)
  from pkt.put_list[OF this assms(2,3), of e] assms(4) obtain wa'
    where a: "for_each ms (send_packet e fa) wa = (Ok (), wa')" "outgoing wa' fa = concat (map packet_wire ms)" by auto
  then have "incoming wb fb = concat (map packet_wire ms) @ []" using assms(7) by simp
  from pkt.repeat_get_stream[OF fits assms(5) this assms(6), of e'] a(1) show ?thesis by blast
qed

theorem packets_cross_hosts_witness:
  "\<exists>wb'. repeat_prog 2 (recv_packet Big_Endian 3)
     (demo_world \<lparr>rx = [Rx_Data [0, 0], Rx_Data [0, 2, 5, 6, 0, 0, 0, 0]], tx = [], sent = []\<rparr>) = (Ok [[5, 6], []], wb')"
proof -
  let ?wa = "demo_world \<lparr>rx = [], tx = [], sent = []\<rparr>"
  let ?wb = "demo_world \<lparr>rx = [Rx_Data [0, 0], Rx_Data [0, 2, 5, 6, 0, 0, 0, 0]], tx = [], sent = []\<rparr>"
  have wa: "heap_ok (mem ?wa)" "writable ?wa 3" "outgoing ?wa 3 = []"
    by (simp_all add: demo_world_def heap_ok_def writable_def outgoing_def)
  have small: "\<forall>m\<in>set [[5, 6], [] :: bytes]. length m \<le> 64 * 1024 * 1024" by simp
  have arr: "incoming ?wb 3 = outgoing wa' 3" if "for_each [[5, 6], []] (send_packet Little_Endian 3) ?wa = (Ok (), wa')" for wa'
    using pkt.put_list[of "[[5, 6], []]" ?wa 3 Little_Endian] that wa
    by (auto simp: packet_fits_def demo_world_def incoming_def packet_wire_def mem_of_word_def le_of_word_def
        upt_conv_Cons drop_bit_eq_div)
  have ok: "heap_ok (mem ?wb)" "socks ?wb 3 \<noteq> None" by (simp_all add: demo_world_def heap_ok_def)
  have "\<exists>wa' wb'. for_each [[5, 6], []] (send_packet Little_Endian 3) ?wa = (Ok (), wa') \<and>
      repeat_prog (length [[5, 6], [] :: bytes]) (recv_packet Big_Endian 3) ?wb = (Ok [[5, 6], []], wb')"
    by (rule packets_cross_hosts[OF small wa ok arr])
  then show ?thesis by (simp add: numeral_2_eq_2 del: repeat_prog.simps)
qed

text \<open>
  A length field above 64 MiB is refused: \<open>recv_length_and_packet\<close> throws before it
  allocates anything, and has read nothing but the field.
\<close>

theorem recv_packet_refuses_large:
  assumes "socks w fd \<noteq> None" "4 \<le> length (incoming w fd)"
    "packet_limit < (word_of_mem Big_Endian (take 4 (incoming w fd)) :: u32)"
  shows "\<exists>w'. recv_length_and_packet e fd w =
      (Throw (Invalid_argument ''recv_length_and_packet: refuse to recv too large packet: length=()''), w') \<and>
    mem w' = mem w \<and> incoming w' fd = drop 4 (incoming w fd)"
proof -
  let ?n = "take 4 (incoming w fd)"
  from recvn_ex_enough[OF assms(1,2), of 4] obtain w1
    where w1: "recvn_ex fd 4 4 w = (Ok ?n, w1)" "same_but fd w w1" "incoming w1 fd = drop 4 (incoming w fd)" by auto
  have "?n = mem_of_word Big_Endian 4 (word_of_mem Big_Endian ?n :: u32)"
    using assms(2) mem_of_word_of_mem[of ?n Big_Endian, where 'a = 32] by simp
  then have "hton e 4 (word_of_mem e ?n) = (word_of_mem Big_Endian ?n :: u32)"
    using hton_hton[of 4 e "word_of_mem Big_Endian ?n :: u32"] by (simp add: hton_def)
  with assms(3) w1 same_but_simps(1)[OF w1(2)] show ?thesis
    by (simp add: recv_length_and_packet_def bnd_def throw_def)
qed

theorem recv_packet_refuses_large_witness:
  "\<exists>w'. recv_length_and_packet Little_Endian 3 (demo_world \<lparr>rx = [Rx_Data [255, 0, 0, 0]], tx = [], sent = []\<rparr>) =
      (Throw (Invalid_argument ''recv_length_and_packet: refuse to recv too large packet: length=()''), w')"
  using recv_packet_refuses_large[of "demo_world \<lparr>rx = [Rx_Data [255, 0, 0, 0]], tx = [], sent = []\<rparr>" 3 Little_Endian]
  by (auto simp: demo_world_def incoming_def word_of_mem_def packet_limit_def push_bit_eq_mult)

text \<open>
  The server recovers from a DNS query the name the client put into it, and recognises
  the query as one, for every name without a NUL character.
\<close>

theorem dns_query_round_trip:
  assumes "length domain + 33 < 2 ^ 32" "0 \<notin> set domain"
  shows "\<exists>cq w1 w2. assemble_dns_query domain w = (Ok cq, w1) \<and> is_dns_query cq \<and>
    (if domain = [] then get_domain_from_dns_query cq w1 = (Ok [], w2)
     else get_domain_from_dns_query cq w1 = (Ok domain, w2))"
proof -
  from assemble_dns_query_value[OF assms(1), of w] obtain w1 where
    a: "assemble_dns_query domain w =
      (Ok \<lparr>destination_ip = replicate 16 0, destination_port = 0,
           payload = \<lparr>null_terminated = True, bss_length = of_nat (33 + length domain), bss_str = brk (mem w)\<rparr>\<rparr>, w1)"
    "blocks (mem w1) = (blocks (mem w))(brk (mem w) \<mapsto> dns_head @ domain @ [0])" by blast
  have "unat (of_nat (33 + length domain) :: u32) = 33 + length domain" using assms(1) by (simp only: unat_of_nat) simp
  then have big: "\<not> (of_nat (33 + length domain) :: u32) \<le> 32" by (simp add: word_le_nat_alt del: of_nat_add)
  have "c_string (mem w1) (brk (mem w)) 32 = Some domain"
    using a(2) takeWhile_append_stop[OF assms(2), of "[]"] by (simp add: c_string_def)
  with a big show ?thesis
    by (auto simp: is_dns_query_def get_domain_from_dns_query_def on_heap_def list_all_iff simp del: of_nat_add)
qed

theorem dns_query_round_trip_witness:
  "\<exists>cq w1 w2. assemble_dns_query [97, 46, 98] (demo_world fresh_sock) = (Ok cq, w1) \<and>
     get_domain_from_dns_query cq w1 = (Ok [97, 46, 98], w2)"
  using dns_query_round_trip[of "[97, 46, 98]" "demo_world fresh_sock"] by auto

text \<open>
  The server does not check that the name in a received query is terminated. A query
  of more than 32 bytes with no NUL after the head makes it read past the block.
\<close>

theorem dns_query_without_nul_is_undefined:
  assumes "32 < bss_length (payload cq)" "blocks (mem w) (bss_str (payload cq)) = Some b" "0 \<notin> set (drop 32 b)"
  shows "fst (get_domain_from_dns_query cq w) = Undefined"
  using assms(2,3) assms(1)[folded not_le] by (simp add: get_domain_from_dns_query_def on_heap_def c_string_def)

theorem dns_query_without_nul_is_undefined_witness:
  "fst (get_domain_from_dns_query
     \<lparr>destination_ip = replicate 16 0, destination_port = 0,
      payload = \<lparr>null_terminated = False, bss_length = 40, bss_str = 1\<rparr>\<rparr>
     ((demo_world fresh_sock)\<lparr>mem := \<lparr>blocks = [1 \<mapsto> replicate 40 1], brk = 2, fresh_bytes = (\<lambda>_ _. 0), stack_bytes = (\<lambda>_. 0)\<rparr>\<rparr>))
   = Undefined"
  by (rule dns_query_without_nul_is_undefined[where b = "replicate 40 1"]) simp_all

text \<open>
  Text of addresses. An address whose last twelve bytes are zero prints as four decimal
  numbers separated by dots. Any other prints as sixteen decimal numbers separated by
  fifteen colons, which is not the text of an IPv6 address (those have at most seven), so no
  resolver accepts it.
\<close>

theorem ip_array_to_str_form:
  assumes "length ip = 16"
  shows "(drop 4 ip = replicate 12 0 \<longrightarrow>
      ip_array_to_str ip = to_string (unat (ip ! 0)) @ ''.'' @ to_string (unat (ip ! 1)) @ ''.'' @
        to_string (unat (ip ! 2)) @ ''.'' @ to_string (unat (ip ! 3))) \<and>
    (drop 4 ip \<noteq> replicate 12 0 \<longrightarrow>
      ip_array_to_str ip = concat (map (\<lambda>b. to_string (unat b) @ '':'') (take 15 ip)) @ to_string (unat (ip ! 15)))"
proof -
  have v6: "is_v6 ip \<longleftrightarrow> drop 4 ip \<noteq> replicate 12 0"
  proof -
    have "drop 4 ip = replicate 12 0 \<longleftrightarrow> (\<forall>i<12. ip ! (4 + i) = 0)"
      using assms by (auto simp: list_eq_iff_nth_eq)
    also have "\<dots> \<longleftrightarrow> (\<forall>i\<in>{4..<16}. ip ! i = 0)"
    proof safe
      fix i :: nat assume a: "\<forall>i<12. ip ! (4 + i) = 0" "i \<in> {4..<16}"
      then have "i - 4 < 12" by auto
      with a(1) have "ip ! (4 + (i - 4)) = 0" by blast
      with a(2) show "ip ! i = 0" by simp
    qed auto
    also have "\<dots> \<longleftrightarrow> \<not> is_v6 ip" by (simp only: is_v6_def list_ex_iff set_upt) blast
    finally show ?thesis by blast
  qed
  have four: "[0..<4] = [0, 1, 2, 3 :: nat]" by (simp add: upt_rec)
  have sixteen: "map (\<lambda>i. f (ip ! i)) [0..<16] = map f (take 15 ip) @ [f (ip ! 15)]" for f :: "byte \<Rightarrow> string"
  proof -
    have "map (\<lambda>i. f (ip ! i)) [0..<16] = map f ip" using assms by (auto simp: list_eq_iff_nth_eq)
    also have "\<dots> = map f (take 15 ip @ [ip ! 15])" using assms take_Suc_conv_app_nth[of 15 ip] by simp
    finally show ?thesis by simp
  qed
  show ?thesis
    using v6 sixteen[of "\<lambda>b. to_string (unat b) @ '':''"]
    by (auto simp: ip_array_to_str_def four butlast_append)
qed

theorem ip_array_to_str_form_witness:
  "ip_array_to_str ([10, 0, 0, 255] @ replicate 12 0) = ''10.0.0.255''"
  using ip_array_to_str_form[of "[10, 0, 0, 255] @ replicate 12 0"]
  by (simp add: to_string.simps char_of_def bit_Suc_0_iff)

end
