(* ===== verification/Tunnel.thy ===== *)
theory Tunnel
  imports Net_Lib
begin

text \<open>
  The two ends of a tunnel: \<open>outbound_tunnel\<close> and \<open>inbound_tunnel\<close> of
  \<open>src/src/native/src/tunnel.hpp\<close> and \<open>tunnel.cc\<close>, and the client's \<open>SnakeConnection\<close> of
  \<open>connection.hpp\<close>. A module is the record \<open>snake_module\<close>; the \<open>connect_info\<close> it works on lives in
  the world under an identifier, as the pointer handed to it does in the code. \<open>die\<close> and
  \<open>sysdie\<close> log and throw a \<open>runtime_error\<close>; log output is not modelled.

  A loop around \<open>select\<close> takes the results of the successive calls as a list: \<open>Sel_Ready fds\<close> lists
  the descriptors reported readable, \<open>Sel_Error\<close> is a failed call, and at the end of the list
  \<open>select\<close> does not return any more. Likewise the resolver and \<open>accept\<close> where they are called in
  a loop.
\<close>

section \<open>Definitions\<close>

definition die :: "string \<Rightarrow> 'a prog" where
  "die msg = throw (Runtime_error msg)"

definition sysdie :: "string \<Rightarrow> 'a prog" where
  "sysdie msg = throw (Runtime_error msg)"

datatype select_event = Sel_Ready "fd list" | Sel_Error

subsection \<open>The client's end\<close>

record outbound_tunnel =
  ot_mod :: snake_module
  serverAddr :: bytes
  serverPort :: u16
  ot_passphrase :: bytes
  nx_retry :: bool
  conv_serverAddr :: bytes
  conv_passphrase :: binary_safe_string

fun resolve_retry :: "bool \<Rightarrow> bytes \<Rightarrow> (exn + ip_address list) list \<Rightarrow> ip_address prog" where
  "resolve_retry retry domain [] w = (Blocked, w)"
| "resolve_retry retry domain (r # rs) w =
     catch (resolveDomainOnce_any (\<lambda>_. r) domain)
       (\<lambda>err. if err = System_error
              then (if retry then resolve_retry retry domain rs else throw err)
              else throw err) w"

definition put_ip :: "bytes \<Rightarrow> ip_address \<Rightarrow> bytes" where
  "put_ip arr a = (case a of Ip_V4 b \<Rightarrow> overwrite 0 b arr | Ip_V6 b \<Rightarrow> overwrite 0 b arr)"

definition initCString :: "(exn + ip_address list) list \<Rightarrow> outbound_tunnel \<Rightarrow> outbound_tunnel prog" where
  "initCString rs ot =
     bnd (resolve_retry (nx_retry ot) (serverAddr ot) rs) (\<lambda>servAddr.
     let n = length (ot_passphrase ot) in
     bnd (malloc_ex (n + 1)) (\<lambda>str.
     bnd (store_ex str 0 (replicate (n + 1) 0)) (\<lambda>_.
     bnd (store_ex str 0 (ot_passphrase ot)) (\<lambda>_.
     ret (ot\<lparr>conv_serverAddr := put_ip (conv_serverAddr ot) servAddr,
             conv_passphrase := \<lparr>null_terminated = True, bss_length = of_nat n, bss_str = str\<rparr>\<rparr>)))))"

definition destroyCString :: "outbound_tunnel \<Rightarrow> unit prog" where
  "destroyCString ot = free_ex (bss_str (conv_passphrase ot))"

definition new_outbound_tunnel ::
  "(exn + ip_address list) list \<Rightarrow> bytes \<Rightarrow> u16 \<Rightarrow> bytes \<Rightarrow> snake_module \<Rightarrow> bool \<Rightarrow> outbound_tunnel prog" where
  "new_outbound_tunnel rs addr port pswd m retry =
     initCString rs \<lparr>ot_mod = m, serverAddr = addr, serverPort = port, ot_passphrase = pswd, nx_retry = retry,
       conv_serverAddr = replicate 16 0, conv_passphrase = \<lparr>null_terminated = False, bss_length = 0, bss_str = NULL\<rparr>\<rparr>"

text \<open>The move constructor resolves again and does not set \<open>nx_retry\<close>, which then is whatever memory held.\<close>

definition move_outbound_tunnel ::
  "bool \<Rightarrow> (exn + ip_address list) list \<Rightarrow> outbound_tunnel \<Rightarrow> outbound_tunnel prog" where
  "move_outbound_tunnel garbage rs ano =
     initCString rs \<lparr>ot_mod = ot_mod ano, serverAddr = serverAddr ano, serverPort = serverPort ano,
       ot_passphrase = ot_passphrase ano, nx_retry = garbage,
       conv_serverAddr = replicate 16 0, conv_passphrase = \<lparr>null_terminated = False, bss_length = 0, bss_str = NULL\<rparr>\<rparr>"

definition string_of_bytes :: "bytes \<Rightarrow> string" where
  "string_of_bytes bs = map (\<lambda>b. char_of (unat b)) bs"

definition newConnection :: "outbound_tunnel \<Rightarrow> fd prog" where
  "newConnection ot =
     bnd (getaddrinfo_ex (string_of_bytes (serverAddr ot)) (serverPort ot) False
            (Runtime_error ''getaddrinfo failed. Check network connection to {}:{}'')) (\<lambda>as.
     deferring freeaddrinfo_ex
       (bnd (connect_any as) (\<lambda>r.
        case r of None \<Rightarrow> sysdie ''Failed to connect to any of these addr.'' | Some fd \<Rightarrow> ret fd)))"

definition outbound_doAuth :: "endian \<Rightarrow> outbound_tunnel \<Rightarrow> nat \<Rightarrow> bool prog" where
  "outbound_doAuth e ot cid =
     bnd (get_conn cid) (\<lambda>conn.
     let connfd = connect_fd conn in
     bnd (call_mod cid (makeAuthQuery (ot_mod ot))) (\<lambda>authdat.
     deferring (free_ex (bss_str authdat))
      (bnd (if packet_limit < bss_length authdat then die ''authQuery is too long(incorrect)'' else ret ()) (\<lambda>_.
       bnd (sendn_ex False connfd (mem_of_word e 4 (hton e 4 (bss_length authdat)))) (\<lambda>_.
       bnd (load_n (bss_str authdat) (unat (bss_length authdat))) (\<lambda>bs.
       bnd (sendn_ex False connfd bs) (\<lambda>_.
       bnd (recvn_ex connfd 4 4) (\<lambda>n.
       let replyLen = hton e 4 (word_of_mem e n) in
       bnd (if packet_limit < replyLen then die ''authReply is too long(incorrect)'' else ret ()) (\<lambda>_.
       bnd (malloc_ex (unat replyLen)) (\<lambda>rbuf.
       deferring (free_ex rbuf)
        (bnd (recvn_ex connfd (unat replyLen) (unat replyLen)) (\<lambda>bs.
         bnd (store_ex rbuf 0 bs) (\<lambda>_.
         call_mod cid (onAuthReply (ot_mod ot) rbuf (unat replyLen)))))))))))))))"

subsection \<open>\<open>SnakeConnection\<close>\<close>

record snake_connection =
  sc_info :: nat
  sc_fd :: fd

definition initConnInfo :: "outbound_tunnel \<Rightarrow> nat prog" where
  "initConnInfo ot =
     new_conn \<lparr>server_ip = take 16 (conv_serverAddr ot), server_port = serverPort ot,
               passphrase = conv_passphrase ot, connect_fd = 0, additional_info = NULL\<rparr>"

definition set_connect_fd :: "nat \<Rightarrow> fd \<Rightarrow> unit prog" where
  "set_connect_fd cid fd =
     call_mod cid (\<lambda>c h. Some ((), c\<lparr>connect_fd := fd\<rparr>, h))"

text \<open>An exception in the constructor leaves the object under construction without its destructor.\<close>

definition new_SnakeConnection :: "endian \<Rightarrow> outbound_tunnel \<Rightarrow> snake_connection prog" where
  "new_SnakeConnection e ot =
     bnd (initConnInfo ot) (\<lambda>cid.
     bnd (newConnection ot) (\<lambda>connfd.
     bnd (set_connect_fd cid connfd) (\<lambda>_.
     bnd (outbound_doAuth e ot cid) (\<lambda>ok.
     if ok then ret \<lparr>sc_info = cid, sc_fd = connfd\<rparr> else die ''Auth failed.''))))"

definition close_conn_mod :: "(connect_info \<Rightarrow> heap \<Rightarrow> (connect_info \<times> heap) option) \<Rightarrow> nat \<Rightarrow> unit prog" where
  "close_conn_mod f cid = call_mod cid (\<lambda>c h. map_option (Pair ()) (f c h))"

definition delete_SnakeConnection :: "outbound_tunnel \<Rightarrow> snake_connection \<Rightarrow> unit prog" where
  "delete_SnakeConnection ot sc =
     bnd (close_conn_mod (client_impl_onCloseConn (ot_mod ot)) (sc_info sc)) (\<lambda>_.
     bnd (delete_conn (sc_info sc)) (\<lambda>_.
     if sc_fd sc \<noteq> 0 then close_ex (sc_fd sc) else ret ()))"

definition sc_sendn :: "snake_connection \<Rightarrow> bytes \<Rightarrow> unit prog" where
  "sc_sendn sc bs = sendn_ex True (sc_fd sc) bs"

definition sc_recvn :: "snake_connection \<Rightarrow> nat \<Rightarrow> nat \<Rightarrow> bytes prog" where
  "sc_recvn sc cap n = recvn_ex (sc_fd sc) cap n"

definition recvn_and_free_on_err :: "snake_connection \<Rightarrow> ptr \<Rightarrow> nat \<Rightarrow> unit prog" where
  "recvn_and_free_on_err sc p n =
     bnd (recvn (sc_fd sc) n n) (\<lambda>r.
     case r of
       None \<Rightarrow> bnd (free_ex p) (\<lambda>_. sysdie ''RecvnAndFree failed.'')
     | Some bs \<Rightarrow> store_ex p 0 bs)"

subsection \<open>The server's end\<close>

record inbound_tunnel =
  it_mod :: snake_module
  bindAddr :: bytes
  bindPort :: u16
  it_passphrase :: bytes

definition inbound_doAuth :: "endian \<Rightarrow> inbound_tunnel \<Rightarrow> nat \<Rightarrow> bool prog" where
  "inbound_doAuth e it cid =
     bnd (get_conn cid) (\<lambda>conn.
     let connfd = connect_fd conn in
     bnd (recv_length_and_packet e connfd) (\<lambda>(dataptr, msgLen).
     let authMsg = \<lparr>null_terminated = False, bss_length = msgLen, bss_str = dataptr\<rparr> in
     bnd (call_mod cid (\<lambda>c h. map_option (\<lambda>(r, failed, c, h). ((r, failed), c, h)) (makeAuthReply (it_mod it) c authMsg h)))
       (\<lambda>(reply, authFailed).
     deferring (free_ex (bss_str reply))
      (bnd (send_length_and_packet e connfd (bss_str reply) (bss_length reply)) (\<lambda>_.
       ret (\<not> authFailed))))))"

text \<open>The reply to a DNS query, and a packet of data for the next hop; the result is the next hop's descriptor.\<close>

definition serve_dns :: "endian \<Rightarrow> resolver \<Rightarrow> inbound_tunnel \<Rightarrow> nat \<Rightarrow> fd \<Rightarrow> client_query \<Rightarrow> unit prog" where
  "serve_dns e resolve it cid connfd thisQuery =
     bnd (get_domain_from_dns_query thisQuery) (\<lambda>domainStr.
     bnd (resolveDomainOnce_any resolve domainStr) (\<lambda>nextHopIp.
     let thisResponse = \<lparr>destination_ip = put_ip (replicate 16 0) nextHopIp,
           destination_port = destination_port thisQuery,
           payload = \<lparr>null_terminated = False, bss_length = 0, bss_str = NULL\<rparr>\<rparr> in
     bnd (call_mod cid (\<lambda>c. server_impl_encode (it_mod it) c thisResponse)) (\<lambda>encoded.
     deferring (free_ex (bss_str encoded))
      (send_length_and_packet e connfd (bss_str encoded) (bss_length encoded)))))"

definition send_payload :: "fd \<Rightarrow> client_query \<Rightarrow> fd prog" where
  "send_payload nextHopConn thisQuery =
     bnd (load_n (bss_str (payload thisQuery)) (unat (bss_length (payload thisQuery)))) (\<lambda>bs.
     bnd (sendn_ex False nextHopConn bs) (\<lambda>_.
     ret nextHopConn))"

text \<open>
  \<open>nextHopConn\<close> is a variable the scope guard of \<open>dealConnectionImpl\<close> refers to: when an exception
  leaves the loop the guard closes the descriptor the variable then holds. A connection made
  by \<open>serve_data\<close> is therefore closed when sending over it fails.
\<close>

definition serve_data :: "fd \<Rightarrow> client_query \<Rightarrow> fd prog" where
  "serve_data nextHopConn thisQuery =
     (if nextHopConn = -1
      then bnd (quick_connect (ip_array_to_str (destination_ip thisQuery)) (destination_port thisQuery)) (\<lambda>new.
           catch (send_payload new thisQuery) (\<lambda>err. bnd (close_ex new) (\<lambda>_. throw err)))
      else send_payload nextHopConn thisQuery)"

definition serve_client :: "endian \<Rightarrow> resolver \<Rightarrow> inbound_tunnel \<Rightarrow> nat \<Rightarrow> fd \<Rightarrow> fd \<Rightarrow> fd prog" where
  "serve_client e resolve it cid connfd nextHopConn =
     bnd (recv_length_and_packet e connfd) (\<lambda>(dataptr, msgLen).
     bnd (call_mod cid (\<lambda>c. server_impl_decode (it_mod it) c
            \<lparr>null_terminated = False, bss_length = msgLen, bss_str = dataptr\<rparr>)) (\<lambda>thisQuery.
     if is_dns_query thisQuery
     then bnd (serve_dns e resolve it cid connfd thisQuery) (\<lambda>_. ret nextHopConn)
     else serve_data nextHopConn thisQuery))"

text \<open>Data from the next hop; the result is whether the connection goes on.\<close>

definition serve_next_hop :: "endian \<Rightarrow> inbound_tunnel \<Rightarrow> nat \<Rightarrow> fd \<Rightarrow> fd \<Rightarrow> bool prog" where
  "serve_next_hop e it cid connfd nextHopConn =
     bnd (quick_recvall nextHopConn) (\<lambda>freedomData.
     if freedomData = [] then ret False
     else
       bnd (on_heap (make_binary_safe_string_of freedomData)) (\<lambda>bss.
       let cq = \<lparr>destination_ip = replicate 16 0, destination_port = bindPort it, payload = bss\<rparr> in
       bnd (call_mod cid (\<lambda>c. server_impl_encode (it_mod it) c cq)) (\<lambda>encodedData.
       bnd (send_length_and_packet e connfd (bss_str encodedData) (bss_length encodedData)) (\<lambda>_.
       ret True))))"

text \<open>
  The loop of \<open>dealConnectionImpl\<close> with the guard that closes the next hop when it is left.
\<close>

definition close_next_hop :: "fd \<Rightarrow> unit prog" where
  "close_next_hop nextHopConn = (if nextHopConn \<noteq> -1 then close_ex nextHopConn else ret ())"

fun serve_loop :: "endian \<Rightarrow> resolver \<Rightarrow> inbound_tunnel \<Rightarrow> nat \<Rightarrow> fd \<Rightarrow> fd \<Rightarrow> select_event list \<Rightarrow> unit prog" where
  "serve_loop e resolve it cid connfd nextHopConn [] w = (Blocked, w)"
| "serve_loop e resolve it cid connfd nextHopConn (Sel_Error # sels) w =
     bnd (close_next_hop nextHopConn) (\<lambda>_. sysdie ''Select failed'') w"
| "serve_loop e resolve it cid connfd nextHopConn (Sel_Ready ready # sels) w =
     bnd (catch (if connfd \<in> set ready
                 then serve_client e resolve it cid connfd nextHopConn
                 else ret nextHopConn)
            (\<lambda>err. bnd (close_next_hop nextHopConn) (\<lambda>_. throw err))) (\<lambda>nextHopConn'.
     bnd (catch (if nextHopConn \<noteq> -1 \<and> nextHopConn \<in> set ready
                 then serve_next_hop e it cid connfd nextHopConn
                 else ret True)
            (\<lambda>err. bnd (close_next_hop nextHopConn') (\<lambda>_. throw err))) (\<lambda>goes_on.
     if goes_on then serve_loop e resolve it cid connfd nextHopConn' sels
     else close_next_hop nextHopConn')) w"

definition dealConnectionImpl :: "endian \<Rightarrow> resolver \<Rightarrow> inbound_tunnel \<Rightarrow> fd \<Rightarrow> select_event list \<Rightarrow> unit prog" where
  "dealConnectionImpl e resolve it connfd sels =
     bnd (on_heap (make_binary_safe_string_of (it_passphrase it))) (\<lambda>pw.
     bnd (new_conn \<lparr>server_ip = replicate 16 0, server_port = bindPort it, passphrase = pw,
                    connect_fd = connfd, additional_info = NULL\<rparr>) (\<lambda>cid.
     deferring (delete_conn cid)
      (bnd (inbound_doAuth e it cid) (\<lambda>ok.
       if \<not> ok then die ''client {}:{} auth failed.''
       else deferring (close_conn_mod (server_impl_onCloseConn (it_mod it)) cid)
              (serve_loop e resolve it cid connfd (-1) sels)))))"

definition inbound_dealConnection :: "endian \<Rightarrow> resolver \<Rightarrow> inbound_tunnel \<Rightarrow> fd \<Rightarrow> select_event list \<Rightarrow> unit prog" where
  "inbound_dealConnection e resolve it connfd sels =
     bnd (catch (dealConnectionImpl e resolve it connfd sels) (\<lambda>_. ret ())) (\<lambda>_.
     close_ex connfd)"

text \<open>
  \<open>listen\<close> hands each accepted descriptor to the thread pool; the list holds the results of the
  successive \<open>accept\<close> calls.
\<close>

definition add_task :: "fd \<Rightarrow> unit prog" where
  "add_task connfd w = (Ok (), w\<lparr>tasks := tasks w @ [connfd]\<rparr>)"

definition quick_accept :: "fd option \<Rightarrow> fd prog" where
  "quick_accept res = (case res of None \<Rightarrow> throw (Runtime_error ''accept failed. errno = {}'') | Some connfd \<Rightarrow> ret connfd)"

fun accept_loop :: "fd option list \<Rightarrow> unit prog" where
  "accept_loop [] w = (Blocked, w)"
| "accept_loop (res # rs) w = bnd (quick_accept res) (\<lambda>connfd. bnd (add_task connfd) (\<lambda>_. accept_loop rs)) w"

definition inbound_listen :: "inbound_tunnel \<Rightarrow> fd option list \<Rightarrow> unit prog" where
  "inbound_listen it accepts =
     bnd (quick_listen (string_of_bytes (bindAddr it)) (bindPort it) False) (\<lambda>listenfd. accept_loop accepts)"

end
