(* ===== verification/Addr_Info.thy ===== *)
theory Addr_Info
  imports Tunnel
begin

text \<open>
  \<open>Socks5Connection::addr_info\<close> of \<open>src/src/native/src/socks5.hpp\<close>: the destination a SOCKS5 client
  asks for, as an address or a name, and its conversion into the query the tunnel carries.
\<close>

section \<open>Definitions\<close>

datatype addr_t = Addr_null | Addr_ipv4 | Addr_ipv6 | Addr_domain

record addr_info =
  addr_type :: addr_t
  addr_data :: bytes
  addr_port :: u16

text \<open>The default constructor leaves the port as it finds it.\<close>

definition addr_info_null :: "u16 \<Rightarrow> addr_info" where
  "addr_info_null garbage = \<lparr>addr_type = Addr_null, addr_data = [], addr_port = garbage\<rparr>"

definition set_domain :: "bytes \<Rightarrow> addr_info \<Rightarrow> addr_info" where
  "set_domain domain a = a\<lparr>addr_type := Addr_domain, addr_data := domain\<rparr>"

definition set_v4 :: "bytes \<Rightarrow> addr_info \<Rightarrow> addr_info" where
  "set_v4 v4addr a = a\<lparr>addr_type := Addr_ipv4, addr_data := v4addr\<rparr>"

definition set_v6 :: "bytes \<Rightarrow> addr_info \<Rightarrow> addr_info" where
  "set_v6 v6addr a = a\<lparr>addr_type := Addr_ipv6, addr_data := v6addr\<rparr>"

definition setport :: "u16 \<Rightarrow> addr_info \<Rightarrow> addr_info" where
  "setport port a = a\<lparr>addr_port := port\<rparr>"

definition getport :: "addr_info \<Rightarrow> u16" where
  "getport a = addr_port a"

text \<open>\<open>operator!\<close>: \<open>std::accumulate\<close> starts from a \<open>char\<close>, so the sum wraps at 8 bits.\<close>

definition addr_not :: "addr_info \<Rightarrow> bool" where
  "addr_not a \<longleftrightarrow> foldl (\<lambda>acc c. acc + c) 0 (addr_data a) = 0 \<or> addr_type a = Addr_null"

definition try_6to4 :: "addr_info \<Rightarrow> addr_info prog" where
  "try_6to4 a =
     (if addr_type a \<noteq> Addr_ipv6 then die ''incorrect type.''
      else if list_all (\<lambda>c. c = 0) (drop 4 (addr_data a))
      then ret (a\<lparr>addr_data := take 4 (addr_data a), addr_type := Addr_ipv4\<rparr>)
      else ret a)"

definition to_query_template :: "addr_info \<Rightarrow> client_query prog" where
  "to_query_template a =
     (if addr_type a = Addr_null then die ''convert null addr to query template.''
      else if addr_type a = Addr_domain then die ''convert addr to query template before resolve its domain.''
      else if addr_port a = 0 then die ''convert addr to query template before assign port number.''
      else ret \<lparr>destination_ip =
                 overwrite 0 (take (if addr_type a = Addr_ipv4 then 4 else 16) (addr_data a)) (replicate 16 0),
               destination_port = addr_port a,
               payload = \<lparr>null_terminated = False, bss_length = 0, bss_str = NULL\<rparr>\<rparr>)"

definition make_dns_query_body :: "addr_info \<Rightarrow> client_query prog" where
  "make_dns_query_body a =
     bnd (assemble_dns_query (addr_data a)) (\<lambda>cq.
     ret (cq\<lparr>destination_port := addr_port a\<rparr>))"

text \<open>\<open>std::to_string((int)e)\<close> of a \<open>char\<close>: bytes from 128 on are negative.\<close>

definition dump_data :: "bytes \<Rightarrow> string" where
  "dump_data bs = '' '' @ concat (map (\<lambda>b. int_to_string (sint b) @ ''|'') bs)"

definition print_addr :: "addr_info \<Rightarrow> string" where
  "print_addr a =
     (case addr_type a of
        Addr_null \<Rightarrow> ''null''
      | Addr_ipv4 \<Rightarrow> ''ipv4'' @ dump_data (addr_data a)
      | Addr_ipv6 \<Rightarrow> ''ipv6'' @ dump_data (addr_data a)
      | Addr_domain \<Rightarrow> ''domain'' @ '' '' @ string_of_bytes (addr_data a))"

section \<open>Laws\<close>

lemma foldl_plus: "foldl (\<lambda>acc c. acc + c) (a :: byte) bs = a + sum_list bs"
  by (induction bs arbitrary: a) (simp_all add: add.assoc)

section \<open>Properties\<close>

text \<open>
  Turning an answer of the resolver that stands for an IPv4 address into an IPv4
  address does not change the query that is sent for it: for every address of sixteen bytes
  the query template is the same before and after \<open>try_6to4\<close>, and carries the sixteen bytes
  unchanged.
\<close>

theorem try_6to4_keeps_query:
  assumes "length ip = 16" "port \<noteq> 0"
  shows "\<exists>a. try_6to4 (setport port (set_v6 ip a0)) w = (Ok a, w) \<and>
    to_query_template a w = to_query_template (setport port (set_v6 ip a0)) w \<and>
    (\<exists>q. to_query_template a w = (Ok q, w) \<and> destination_ip q = ip \<and> destination_port q = port)"
proof (cases "list_all (\<lambda>c. c = 0) (drop 4 ip)")
  case True
  have "drop 4 ip = replicate 12 0"
    using True assms(1) by (auto simp: list_all_iff intro!: replicate_eqI)
  then have "ip = take 4 ip @ replicate 12 0" by (metis append_take_drop_id)
  then have "overwrite 0 (take 4 ip) (replicate 16 0) = ip" using assms(1) by (simp add: overwrite_def)
  with True assms show ?thesis
    by (auto simp: try_6to4_def set_v6_def setport_def to_query_template_def ret_def)
next
  case False
  with assms show ?thesis
    by (auto simp: try_6to4_def set_v6_def setport_def to_query_template_def ret_def)
qed

theorem try_6to4_keeps_query_witness:
  "\<exists>q. fst (to_query_template (setport 80 (set_v6 ([10, 0, 0, 1] @ replicate 12 0) (addr_info_null 0)))
       (demo_world fresh_sock)) = Ok q \<and> destination_ip q = [10, 0, 0, 1] @ replicate 12 0"
proof -
  have "\<exists>a. try_6to4 (setport 80 (set_v6 ([10, 0, 0, 1] @ replicate 12 0) (addr_info_null 0))) (demo_world fresh_sock) = (Ok a, demo_world fresh_sock) \<and>
    to_query_template a (demo_world fresh_sock) = to_query_template (setport 80 (set_v6 ([10, 0, 0, 1] @ replicate 12 0) (addr_info_null 0))) (demo_world fresh_sock) \<and>
    (\<exists>q. to_query_template a (demo_world fresh_sock) = (Ok q, demo_world fresh_sock) \<and> destination_ip q = [10, 0, 0, 1] @ replicate 12 0 \<and> destination_port q = 80)"
    by (rule try_6to4_keeps_query) (simp_all)
  then show ?thesis by (metis fst_conv)
qed

text \<open>
  \<open>operator!\<close> takes usable addresses for missing ones. It is meant to recognise the
  all-zero address a server sends when a name does not resolve, but it sums the bytes in a
  \<open>char\<close>: in every block of 256 IPv4 addresses \<open>x.y.z.0\<close> to \<open>x.y.z.255\<close> exactly one address, most
  often not the zero address, is taken for unresolved.
\<close>

theorem addr_not_hits_every_block:
  "\<exists>!d. addr_not (set_v6 ([x, y, z, d] @ replicate 12 0) a)"
proof -
  have "addr_not (set_v6 ([x, y, z, d] @ replicate 12 0) a) \<longleftrightarrow> d = - (x + y + z)" for d
  proof -
    have "addr_not (set_v6 ([x, y, z, d] @ replicate 12 0) a) \<longleftrightarrow> x + (y + (z + d)) = 0"
      by (simp add: addr_not_def set_v6_def foldl_plus sum_list_replicate add.assoc)
    also have "\<dots> \<longleftrightarrow> d = - (x + y + z)"
      by (simp only: eq_neg_iff_add_eq_0 add.assoc add.commute add.left_commute)
    finally show ?thesis .
  qed
  then show ?thesis by simp
qed

end
