(* ===== verification/Socks5.thy ===== *)
theory Socks5
  imports Addr_Info
begin

text \<open>
  The SOCKS5 server of the client program: \<open>Socks5Server\<close> and \<open>Socks5Connection\<close> of
  \<open>src/src/native/src/socks5.hpp\<close> and \<open>socks5.cc\<close> (POSIX branch). A connection performs the
  method handshake, reads the connect request, opens a tunnel, resolves a name through it
  when the request has one, and then relays data in both directions.

  \<open>char\<close> is signed: a length byte converted by \<open>(size_t)\<close> is sign-extended to 64 bits.
\<close>

section \<open>Definitions\<close>

definition size_of_char :: "byte \<Rightarrow> u64" where
  "size_of_char c = scast c"

definition std_string_to_bin_safe :: "bytes \<Rightarrow> binary_safe_string prog" where
  "std_string_to_bin_safe src =
     bnd (malloc_ex (length src)) (\<lambda>str.
     bnd (store_ex str 0 src) (\<lambda>_.
     ret \<lparr>null_terminated = False, bss_length = of_nat (length src), bss_str = str\<rparr>))"

subsection \<open>The handshake\<close>

definition handshake_pkgs :: "fd \<Rightarrow> unit prog" where
  "handshake_pkgs m_fd =
     bnd (recvn_ex m_fd 258 2) (\<lambda>headBuf.
     bnd (if headBuf ! 0 \<noteq> 5 then die ''Broken protocol. (Incorrect protocol number)'' else ret ()) (\<lambda>_.
     let methodSize = size_of_char (headBuf ! 1) in
     bnd (recvn_ex m_fd 256 (unat methodSize)) (\<lambda>methods.
     let methodOk = list_ex (\<lambda>c. c = 0) methods in
     sendn_ex False m_fd [5, if methodOk then 0 else 255])))"

subsection \<open>The connect request\<close>

text \<open>Reads of a buffer: outside it they are undefined.\<close>

definition read_buf :: "bytes \<Rightarrow> nat \<Rightarrow> nat \<Rightarrow> bytes prog" where
  "read_buf buf off n w =
     (if off + n \<le> length buf then (Ok (take n (drop off buf)), w) else (Undefined, w))"

definition unpackConnectionPacket :: "endian \<Rightarrow> bytes \<Rightarrow> (byte \<times> byte \<times> addr_info) prog" where
  "unpackConnectionPacket e pkgStr w =
     (let CMD = pkgStr ! 1; ATYP = pkgStr ! 3;
          remoteInfo = addr_info_null (word_of_mem e (map (stack_bytes (mem w)) [0..<2]));
          port = (\<lambda>bs. hton e 2 (word_of_mem e bs :: u16))
      in
      bnd (if pkgStr ! 0 \<noteq> 5 then die ''Broken package. Incorrect ver.'' else ret ()) (\<lambda>_.
      if ATYP = 1 then
        bnd (read_buf pkgStr 4 4) (\<lambda>bArr.
        bnd (read_buf pkgStr 8 2) (\<lambda>p.
        ret (CMD, ATYP, setport (port p) (set_v4 bArr remoteInfo))))
      else if ATYP = 4 then
        bnd (read_buf pkgStr 4 16) (\<lambda>bArr.
        bnd (read_buf pkgStr 20 2) (\<lambda>p.
        ret (CMD, ATYP, setport (port p) (set_v6 bArr remoteInfo))))
      else if ATYP = 3 then
        (let addrlen = size_of_char (pkgStr ! 4) in
        bnd (read_buf pkgStr (unat (5 + addrlen)) 2) (\<lambda>p.
        bnd (malloc_ex (unat (addrlen + 1))) (\<lambda>sbuffer.
        deferring (free_ex sbuffer)
         (bnd (read_buf pkgStr 5 (unat addrlen)) (\<lambda>name.
          bnd (store_ex sbuffer 0 name) (\<lambda>_.
          bnd (store_ex sbuffer (unat addrlen) [0]) (\<lambda>_.
          bnd (on_heap (\<lambda>h. map_option (\<lambda>s. (s, h)) (c_string h sbuffer 0))) (\<lambda>domain.
          ret (CMD, ATYP, setport (port p) (set_domain domain remoteInfo))))))))))
      else die ''Broken package.Invalid ATYP'') w)"

text \<open>\<open>char buf[263]\<close>: what has been received so far, then whatever the stack holds.\<close>

definition connect_buf :: "heap \<Rightarrow> bytes \<Rightarrow> bytes" where
  "connect_buf h received = take 263 (received @ map (stack_bytes h) [length received..<263])"

definition connect_pkgs :: "endian \<Rightarrow> fd \<Rightarrow> addr_info prog" where
  "connect_pkgs e m_fd =
     bnd (recvn_ex m_fd 263 5) (\<lambda>head.
     bnd (if head ! 3 = 1 then ret 4
          else if head ! 3 = 3 then ret (size_of_char (head ! 4) + 1)
          else if head ! 3 = 4 then ret 16
          else die ''Wrong ATYP in connect packet.'') (\<lambda>addrlen.
     bnd (recvn_ex m_fd 258 (unat (addrlen + 1))) (\<lambda>tail w.
     let buf = connect_buf (mem w) (head @ tail) in
     bnd (unpackConnectionPacket e buf) (\<lambda>(CMD, ATYP, remoteInfo).
     bnd (if CMD \<noteq> 1 then die ''Socks5 request can not be processed.(CMD={})'' else ret ()) (\<lambda>_.
     bnd (sendn_ex False m_fd (take (unat (addrlen + 6)) (buf[1 := 0]))) (\<lambda>_.
     ret remoteInfo))) w)))"

subsection \<open>Name resolution through the tunnel\<close>

definition dns_pkgs :: "endian \<Rightarrow> outbound_tunnel \<Rightarrow> snake_connection \<Rightarrow> addr_info \<Rightarrow> addr_info prog" where
  "dns_pkgs e ot nextHop rawAddr =
     (if addr_type rawAddr \<noteq> Addr_domain then ret rawAddr
      else
        bnd (make_dns_query_body rawAddr) (\<lambda>pkg.
        bnd (call_mod (sc_info nextHop) (\<lambda>c. client_impl_encode (ot_mod ot) (payload pkg) c pkg)) (\<lambda>firstPack.
        deferring (free_ex (bss_str firstPack))
         (bnd (sc_sendn nextHop (mem_of_word e 4 (hton e 4 (bss_length firstPack)))) (\<lambda>_.
          bnd (load_n (bss_str firstPack) (unat (bss_length firstPack))) (\<lambda>bs.
          bnd (sc_sendn nextHop bs) (\<lambda>_.
          bnd (sc_recvn nextHop 4 4) (\<lambda>n.
          let len = hton e 4 (word_of_mem e n) in
          bnd (malloc_ex (unat len)) (\<lambda>str.
          bnd (sc_recvn nextHop (unat len) (unat len)) (\<lambda>bs.
          bnd (store_ex str 0 bs) (\<lambda>_.
          bnd (call_mod (sc_info nextHop) (\<lambda>c. client_impl_decode (ot_mod ot)
                 \<lparr>null_terminated = False, bss_length = len, bss_str = str\<rparr> c)) (\<lambda>dnsResponse.
          let goodaddr = setport (getport rawAddr) (set_v6 (destination_ip dnsResponse) (addr_info_null 0)) in
          bnd (if addr_not goodaddr then die ''Can not resolve address `{}`'' else ret ()) (\<lambda>_.
          try_6to4 goodaddr)))))))))))))"

subsection \<open>Relaying\<close>

text \<open>
  The two halves of an iteration of \<open>passData\<close>: data from the SOCKS5 client to the tunnel, and
  from the tunnel to the SOCKS5 client. The result is whether the connection goes on.
\<close>

definition pass_up :: "endian \<Rightarrow> outbound_tunnel \<Rightarrow> fd \<Rightarrow> snake_connection \<Rightarrow> client_query \<Rightarrow> bool prog" where
  "pass_up e ot m_fd nextHop templateQueryWithIp =
     bnd (readall m_fd NULL 0) (\<lambda>(r, bridgeBuffer).
     bnd (if r = None \<or> r = Some 0 then free_ex bridgeBuffer else ret ()) (\<lambda>_.
     case r of
       None \<Rightarrow> sysdie ''read failed''
     | Some n \<Rightarrow>
         if n = 0 then ret False
         else
           bnd (call_mod (sc_info nextHop) (\<lambda>c. client_impl_encode (ot_mod ot)
                  \<lparr>null_terminated = False, bss_length = of_nat n, bss_str = bridgeBuffer\<rparr> c templateQueryWithIp)) (\<lambda>encodedDat.
           deferring (free_ex (bss_str encodedDat))
            (bnd (sc_sendn nextHop (mem_of_word e 4 (hton e 4 (bss_length encodedDat)))) (\<lambda>_.
             bnd (load_n (bss_str encodedDat) (unat (bss_length encodedDat))) (\<lambda>bs.
             bnd (sc_sendn nextHop bs) (\<lambda>_.
             ret True)))))))"

definition pass_down :: "endian \<Rightarrow> outbound_tunnel \<Rightarrow> fd \<Rightarrow> snake_connection \<Rightarrow> bool prog" where
  "pass_down e ot m_fd nextHop =
     bnd (sc_recvn nextHop 4 4) (\<lambda>n.
     let binLen = hton e 4 (word_of_mem e n) in
     if binLen = 0 then ret False
     else
       bnd (malloc_ex (unat binLen)) (\<lambda>bridgeBuffer.
       bnd (recvn_and_free_on_err nextHop bridgeBuffer (unat binLen)) (\<lambda>_.
       bnd (call_mod (sc_info nextHop) (\<lambda>c. client_impl_decode (ot_mod ot)
              \<lparr>null_terminated = False, bss_length = binLen, bss_str = bridgeBuffer\<rparr> c)) (\<lambda>cq.
       let decodedDat = payload cq in
       deferring (free_ex (bss_str decodedDat))
        (bnd (load_n (bss_str decodedDat) (unat (bss_length decodedDat))) (\<lambda>bs.
         bnd (sendn_ex True m_fd bs) (\<lambda>_.
         ret True)))))))"

fun pass_loop :: "endian \<Rightarrow> outbound_tunnel \<Rightarrow> fd \<Rightarrow> snake_connection \<Rightarrow> client_query \<Rightarrow> select_event list \<Rightarrow> unit prog" where
  "pass_loop e ot m_fd nextHop tmpl [] w = (Blocked, w)"
| "pass_loop e ot m_fd nextHop tmpl (Sel_Error # sels) w = sysdie ''Select failed'' w"
| "pass_loop e ot m_fd nextHop tmpl (Sel_Ready ready # sels) w =
     bnd (if m_fd \<in> set ready then pass_up e ot m_fd nextHop tmpl else ret True) (\<lambda>up.
     if \<not> up then ret ()
     else
       bnd (if sc_fd nextHop \<in> set ready then pass_down e ot m_fd nextHop else ret True) (\<lambda>down.
       if \<not> down then ret ()
       else pass_loop e ot m_fd nextHop tmpl sels)) w"

definition passData :: "endian \<Rightarrow> outbound_tunnel \<Rightarrow> fd \<Rightarrow> snake_connection \<Rightarrow> addr_info \<Rightarrow> select_event list \<Rightarrow> unit prog" where
  "passData e ot m_fd nextHop resolvedAddr sels =
     bnd (to_query_template resolvedAddr) (\<lambda>templateQueryWithIp.
     pass_loop e ot m_fd nextHop templateQueryWithIp sels)"

subsection \<open>A connection\<close>

text \<open>
  The handler of \<open>launch\<close> passes a message with the text of the exception to \<open>rlog.error\<close>, which
  formats the message once more and throws itself when that text contains a placeholder; such an
  exception leaves \<open>launch\<close>. Which texts do is a function of the environment here
  (\<open>handler_log_throws\<close>), because the exceptions of the model carry their message before its
  placeholders are filled in; what the logger and the formatter do with a given text is
  modelled in \<open>Rlib_Log\<close> and \<open>Rlib_String\<close>. The lines that only log numbers and literals
  cannot throw and are left out.
\<close>

definition report_exception :: "exn \<Rightarrow> unit prog" where
  "report_exception err w =
     (case handler_log_throws (net w) err of None \<Rightarrow> (Ok (), w) | Some err' \<Rightarrow> (Throw err', w))"

definition launch :: "endian \<Rightarrow> outbound_tunnel \<Rightarrow> fd \<Rightarrow> select_event list \<Rightarrow> unit prog" where
  "launch e ot m_fd sels =
     catch
      (bnd (handshake_pkgs m_fd) (\<lambda>_.
       bnd (connect_pkgs e m_fd) (\<lambda>rawAddr.
       bnd (new_SnakeConnection e ot) (\<lambda>nextHop.
       deferring (delete_SnakeConnection ot nextHop)
        (bnd (dns_pkgs e ot nextHop rawAddr) (\<lambda>resolvedAddr.
         passData e ot m_fd nextHop resolvedAddr sels))))))
      report_exception"

definition socks5_dealConnection :: "endian \<Rightarrow> outbound_tunnel \<Rightarrow> fd \<Rightarrow> select_event list \<Rightarrow> unit prog" where
  "socks5_dealConnection e ot connfd sels =
     bnd (launch e ot connfd sels) (\<lambda>_.
     close_ex connfd)"

text \<open>\<open>listen\<close>: a failed \<open>accept\<close> is retried; each accepted descriptor becomes a task of the pool.\<close>

fun socks5_accept_loop :: "fd option list \<Rightarrow> unit prog" where
  "socks5_accept_loop [] w = (Blocked, w)"
| "socks5_accept_loop (None # rs) w = socks5_accept_loop rs w"
| "socks5_accept_loop (Some connfd # rs) w = bnd (add_task connfd) (\<lambda>_. socks5_accept_loop rs) w"

definition socks5_listen :: "string \<Rightarrow> u16 \<Rightarrow> fd option list \<Rightarrow> unit prog" where
  "socks5_listen bindIp port accepts =
     bnd (getaddrinfo_ex bindIp port True (Runtime_error ''Failed to getaddrinfo. returnval={}'')) (\<lambda>as.
     bnd (bind_any as) (\<lambda>r.
     case r of
       None \<Rightarrow> sysdie ''Failed to bind {}:{}.''
     | Some (listenfd, rp) \<Rightarrow>
         bnd (\<lambda>w. (if net_listen (net w) rp then ret () else sysdie ''listen failed.'') w) (\<lambda>_.
         socks5_accept_loop accepts)))"

section \<open>Laws\<close>

text \<open>The requests of RFC 1928: a destination, its bytes on the wire, and what it is parsed to.\<close>

datatype socks_dest = Dest_v4 bytes | Dest_v6 bytes | Dest_name bytes

fun dest_ok :: "socks_dest \<Rightarrow> bool" where
  "dest_ok (Dest_v4 ip) \<longleftrightarrow> length ip = 4"
| "dest_ok (Dest_v6 ip) \<longleftrightarrow> length ip = 16"
| "dest_ok (Dest_name name) \<longleftrightarrow> length name < 128 \<and> 0 \<notin> set name"

fun dest_wire :: "socks_dest \<Rightarrow> bytes" where
  "dest_wire (Dest_v4 ip) = 1 # ip"
| "dest_wire (Dest_v6 ip) = 4 # ip"
| "dest_wire (Dest_name name) = 3 # of_nat (length name) # name"

fun dest_info :: "socks_dest \<Rightarrow> u16 \<Rightarrow> addr_info" where
  "dest_info (Dest_v4 ip) port = \<lparr>addr_type = Addr_ipv4, addr_data = ip, addr_port = port\<rparr>"
| "dest_info (Dest_v6 ip) port = \<lparr>addr_type = Addr_ipv6, addr_data = ip, addr_port = port\<rparr>"
| "dest_info (Dest_name name) port = \<lparr>addr_type = Addr_domain, addr_data = name, addr_port = port\<rparr>"

definition request :: "byte \<Rightarrow> byte \<Rightarrow> socks_dest \<Rightarrow> u16 \<Rightarrow> bytes" where
  "request cmd rsv d port = [5, cmd, rsv] @ dest_wire d @ mem_of_word Big_Endian 2 port"

lemma hton_port: "hton e 2 (word_of_mem e (mem_of_word Big_Endian 2 port) :: u16) = port"
  using hton_hton[of 2 e port] by (simp add: hton_def)

lemma read_buf_prefix:
  "off + n \<le> length T \<Longrightarrow> read_buf (T @ g) off n w = (Ok (take n (drop off T)), w)"
  by (simp add: read_buf_def)

lemma unpack_v4:
  assumes "length ip = 4"
  shows "unpackConnectionPacket e (request cmd rsv (Dest_v4 ip) port @ g) w =
    (Ok (cmd, 1, dest_info (Dest_v4 ip) port), w)"
  using assms
  by (simp add: unpackConnectionPacket_def request_def Let_def bnd_def ret_def read_buf_def addr_info_null_def
      set_v4_def setport_def hton_port)

lemma unpack_v6:
  assumes "length ip = 16"
  shows "unpackConnectionPacket e (request cmd rsv (Dest_v6 ip) port @ g) w =
    (Ok (cmd, 4, dest_info (Dest_v6 ip) port), w)"
  using assms
  by (simp add: unpackConnectionPacket_def request_def Let_def bnd_def ret_def read_buf_def addr_info_null_def
      set_v6_def setport_def hton_port)

lemma unat_small_byte: "n < 256 \<Longrightarrow> unat (of_nat n :: byte) = n"
  by (simp add: unat_of_nat)

text \<open>A block that is allocated, filled and released leaves the heap's contents as they were.\<close>

lemma free_fresh:
  assumes "heap_ok h"
  shows "c_free (brk h) (h\<lparr>blocks := (blocks h)(brk h \<mapsto> b), brk := Suc (brk h)\<rparr>) =
    Some (h\<lparr>brk := Suc (brk h)\<rparr>)"
  using heap_ok_fresh[OF assms] by (simp add: c_free_def fun_upd_idem)

lemma unpack_name:
  assumes "dest_ok (Dest_name name)" and ok: "heap_ok (mem w)"
  shows "unpackConnectionPacket e (request cmd rsv (Dest_name name) port @ g) w =
    (Ok (cmd, 3, dest_info (Dest_name name) port), w\<lparr>mem := (mem w)\<lparr>brk := Suc (brk (mem w))\<rparr>\<rparr>)"
proof -
  let ?T = "request cmd rsv (Dest_name name) port @ g" and ?n = "length name" and ?h = "mem w"
  have n: "?n < 128" "0 \<notin> set name" using assms(1) by auto
  have len: "unat (size_of_char (of_nat ?n)) = ?n"
    using n by (simp add: size_of_char_def unat_scast_byte unat_small_byte)
  have len': "unat (5 + size_of_char (of_nat ?n)) = 5 + ?n" "unat (size_of_char (of_nat ?n) + 1) = ?n + 1"
    using n len by (simp_all add: unat_word_ariths)
  have rd: "read_buf ?T (5 + ?n) 2 w' = (Ok (mem_of_word Big_Endian 2 port), w')" "read_buf ?T 5 ?n w' = (Ok name, w')" for w'
  proof -
    have d: "drop 5 ?T = name @ mem_of_word Big_Endian 2 port @ g" by (simp add: request_def)
    have "drop (5 + ?n) ?T = drop ?n (drop 5 ?T)" by (simp only: drop_drop add.commute)
    then have "drop (5 + ?n) ?T = mem_of_word Big_Endian 2 port @ g" by (simp only: d) simp
    moreover have "length ?T = 7 + ?n + length g" by (simp add: request_def)
    ultimately show "read_buf ?T (5 + ?n) 2 w' = (Ok (mem_of_word Big_Endian 2 port), w')"
      by (simp add: read_buf_def)
    show "read_buf ?T 5 ?n w' = (Ok name, w')" by (simp add: read_buf_def request_def)
  qed
  let ?at = "\<lambda>b. w\<lparr>mem := ?h\<lparr>blocks := (blocks ?h)(brk ?h \<mapsto> b), brk := Suc (brk ?h)\<rparr>\<rparr>"
  define fr where "fr = map (fresh_bytes ?h (brk ?h)) [0..<?n + 1]"
  have fr: "length fr = ?n + 1" by (simp add: fr_def)
  have m: "malloc_ex (?n + 1) w = (Ok (brk ?h), ?at fr)" by (simp add: malloc_ex_apply c_malloc_def fr_def)
  have st: "store_ex (brk ?h) off bs (?at b) = (Ok (), ?at (overwrite off bs b))" if "off + length bs \<le> length b" for off bs b
    using that by (simp add: store_ex_def on_heap_def store_def)
  have b: "overwrite ?n [0] (overwrite 0 name fr) = name @ [0]" using fr by (simp add: overwrite_def)
  have s: "on_heap (\<lambda>h. map_option (\<lambda>s. (s, h)) (c_string h (brk ?h) 0)) (?at (name @ [0])) = (Ok name, ?at (name @ [0]))"
    using takeWhile_append_stop[OF n(2), of "[]"] by (simp add: on_heap_def c_string_def)
  have f: "free_ex (brk ?h) (?at (name @ [0])) = (Ok (), w\<lparr>mem := ?h\<lparr>brk := Suc (brk ?h)\<rparr>\<rparr>)"
    using free_fresh[OF ok] by (simp add: free_ex_def on_heap_def)
  let ?inner = "\<lambda>g0. bnd (read_buf ?T 5 ?n) (\<lambda>name.
          bnd (store_ex (brk ?h) 0 name) (\<lambda>_.
          bnd (store_ex (brk ?h) ?n [0]) (\<lambda>_.
          bnd (on_heap (\<lambda>h. map_option (\<lambda>s. (s, h)) (c_string h (brk ?h) 0))) (\<lambda>domain.
          ret (cmd, 3 :: byte, setport port (set_domain domain (addr_info_null g0)))))))"
  have "?inner g0 (?at fr) = (Ok (cmd, 3, dest_info (Dest_name name) port), ?at (name @ [0]))" for g0
    using fr by (simp add: bnd_def rd st b s ret_def setport_def set_domain_def addr_info_null_def)
  then have "deferring (free_ex (brk ?h)) (?inner g0) (?at fr) =
      (Ok (cmd, 3, dest_info (Dest_name name) port), w\<lparr>mem := ?h\<lparr>brk := Suc (brk ?h)\<rparr>\<rparr>)" for g0
    by (simp only: deferring_def f bnd_def ret_def prod.case outcome.case)
  moreover have "?T ! 0 = 5" "?T ! 1 = cmd" "?T ! 3 = 3" "?T ! 4 = of_nat ?n" by (simp_all add: request_def)
  ultimately show ?thesis
    using m rd(1) by (simp add: unpackConnectionPacket_def Let_def len len' hton_port bnd_def ret_def)
qed

lemma handshake_pkgs_spec:
  assumes s: "socks w fd \<noteq> None" "writable w fd" and ms: "length ms < 128"
    and inc: "incoming w fd = [5, of_nat (length ms)] @ ms @ rest"
  shows "\<exists>w'. handshake_pkgs fd w = (Ok (), w') \<and> same_but fd w w' \<and> incoming w' fd = rest \<and> writable w' fd \<and>
    outgoing w' fd = outgoing w fd @ [5, if 0 \<in> set ms then 0 else 255]"
proof -
  let ?hd = "[5, of_nat (length ms)] :: bytes"
  obtain w1 where w1: "recvn_ex fd 258 2 w = (Ok ?hd, w1)" "same_but fd w w1" "incoming w1 fd = ms @ rest"
      "outgoing w1 fd = outgoing w fd" "writable w1 fd = writable w fd" "socks w1 fd \<noteq> None"
    using recvn_ex_next[OF s(1) inc, of 2 258] by auto
  have n: "unat (size_of_char (of_nat (length ms))) = length ms"
    using ms by (simp add: size_of_char_def unat_scast_byte unat_small_byte)
  obtain w2 where w2: "recvn_ex fd 256 (length ms) w1 = (Ok ms, w2)" "same_but fd w1 w2" "incoming w2 fd = rest"
      "outgoing w2 fd = outgoing w1 fd" "writable w2 fd = writable w1 fd"
    using recvn_ex_next[OF w1(6,3) refl, of 256] ms by auto
  have "writable w2 fd" using w2(5) w1(5) s(2) by simp
  from sendn_ex_ok[OF this, of False "[5, if list_ex (\<lambda>c. c = 0) ms then 0 else 255]"] obtain w3
    where w3: "sendn_ex False fd [5, if list_ex (\<lambda>c. c = 0) ms then 0 else 255] w2 = (Ok (), w3)" "same_but fd w2 w3"
      "writable w3 fd" "outgoing w3 fd = outgoing w2 fd @ [5, if list_ex (\<lambda>c. c = 0) ms then 0 else 255]" "incoming w3 fd = incoming w2 fd"
    by blast
  have "handshake_pkgs fd w = (Ok (), w3)"
    using w1(1) w2(1) w3(1) n by (simp add: handshake_pkgs_def bnd_def ret_def Let_def split del: if_split)
  moreover have "list_ex (\<lambda>c. c = 0) ms \<longleftrightarrow> 0 \<in> set ms" by (auto simp: list_ex_iff)
  moreover have "same_but fd w w3" using w1(2) w2(2) w3(2) same_but_trans by blast
  ultimately show ?thesis using w3 w2 w1 by auto
qed

lemma connect_buf_full:
  "length T \<le> 263 \<Longrightarrow> connect_buf h T = T @ map (stack_bytes h) [length T..<263]"
  by (simp add: connect_buf_def)

lemma connect_pkgs_eval:
  fixes al :: u64
  assumes r: "recvn_ex fd 263 5 w = (Ok pre, w1)" "recvn_ex fd 258 (unat (al + 1)) w1 = (Ok post, w2)" "length pre = 5"
    and T: "length (pre @ post) = unat (al + 6)" "length (pre @ post) \<le> 263"
    and al: "(if pre ! 3 = 1 then ret 4 else if pre ! 3 = 3 then ret (size_of_char (pre ! 4) + 1)
        else if pre ! 3 = 4 then ret 16 else die ''Wrong ATYP in connect packet.'') = (ret al :: u64 prog)"
    and u: "\<And>g. unpackConnectionPacket e ((pre @ post) @ g) w2 = (Ok (1, atyp, info), w3)"
  shows "connect_pkgs e fd w = bnd (sendn_ex False fd ((pre @ post)[1 := 0])) (\<lambda>_. ret info) w3"
proof -
  let ?T = "pre @ post"
  let ?g = "map (stack_bytes (mem w2)) [length ?T..<263]"
  have buf: "connect_buf (mem w2) ?T = ?T @ ?g" by (rule connect_buf_full[OF T(2)])
  have reply: "take (unat (al + 6)) ((?T @ ?g)[1 := 0]) = ?T[1 := 0]"
    using T r(3) by (simp add: list_update_append)
  show ?thesis
    using r(1,2) u[of ?g] reply
    by (simp add: connect_pkgs_def bnd_Ok al Let_def buf bnd_Ok[where m = "ret _"] ret_apply del: append_assoc
        split del: if_split)
qed

lemma connect_pkgs_run:
  fixes al :: u64
  assumes s: "socks w fd \<noteq> None" "writable w fd" and inc: "incoming w fd = T @ rest"
    and T: "length T = unat (al + 6)" "unat (al + 1) = length T - 5" "5 \<le> length T" "length T \<le> 263"
    and al: "(if T ! 3 = 1 then ret 4 else if T ! 3 = 3 then ret (size_of_char (T ! 4) + 1)
        else if T ! 3 = 4 then ret 16 else die ''Wrong ATYP in connect packet.'') = (ret al :: u64 prog)"
    and u: "\<And>w1 g. mem w1 = mem w \<Longrightarrow> unpackConnectionPacket e (T @ g) w1 = (Ok (1, atyp, info), w1\<lparr>mem := h\<rparr>)"
  shows "\<exists>w'. connect_pkgs e fd w = (Ok info, w') \<and> incoming w' fd = rest \<and> writable w' fd \<and>
    outgoing w' fd = outgoing w fd @ T[1 := 0] \<and> mem w' = h"
proof -
  obtain hd tl where T2: "T = hd @ tl" "length hd = 5" using T(3) by (metis append_take_drop_id length_take min.absorb2)
  have n: "T ! 3 = hd ! 3" "T ! 4 = hd ! 4" using T2 by (simp_all add: nth_append)
  obtain w1 where w1: "recvn_ex fd 263 5 w = (Ok hd, w1)" "same_but fd w w1" "incoming w1 fd = tl @ rest"
      "outgoing w1 fd = outgoing w fd" "writable w1 fd = writable w fd" "socks w1 fd \<noteq> None"
    using recvn_ex_next[OF s(1), of hd "tl @ rest" 5 263] inc T2 by auto
  have l: "length tl = unat (al + 1)" "unat (al + 1) \<le> 258" using T T2 by auto
  obtain w2 where w2: "recvn_ex fd 258 (unat (al + 1)) w1 = (Ok tl, w2)" "same_but fd w1 w2" "incoming w2 fd = rest"
      "outgoing w2 fd = outgoing w1 fd" "writable w2 fd = writable w1 fd"
    using recvn_ex_next[OF w1(6,3) l] by auto
  have m2: "mem w2 = mem w" using same_but_simps(1)[OF w1(2)] same_but_simps(1)[OF w2(2)] by simp
  have run: "connect_pkgs e fd w = bnd (sendn_ex False fd (T[1 := 0])) (\<lambda>_. ret info) (w2\<lparr>mem := h\<rparr>)"
    unfolding T2(1)
    by (rule connect_pkgs_eval[OF w1(1) w2(1) T2(2)]) (use T(1,4) T2 al[unfolded n] u[OF m2] in simp_all)
  have "writable (w2\<lparr>mem := h\<rparr>) fd" using w2(5) w1(5) s(2) by (simp add: writable_def)
  from sendn_ex_ok[OF this, of False "T[1 := 0]"] obtain w3
    where w3: "sendn_ex False fd (T[1 := 0]) (w2\<lparr>mem := h\<rparr>) = (Ok (), w3)" "same_but fd (w2\<lparr>mem := h\<rparr>) w3" "writable w3 fd"
      "outgoing w3 fd = outgoing (w2\<lparr>mem := h\<rparr>) fd @ T[1 := 0]" "incoming w3 fd = incoming (w2\<lparr>mem := h\<rparr>) fd" by blast
  have "connect_pkgs e fd w = (Ok info, w3)" using run w3(1) by (simp add: bnd_def ret_def)
  then show ?thesis
    using w3 w2(3,4) w1(4) same_but_simps(1)[OF w3(2)] by (simp add: incoming_def outgoing_def)
qed

lemma request_reply:
  "(request cmd rsv d port)[1 := 0] = request 0 rsv d port"
  "(request cmd rsv d port)[Suc 0 := 0] = request 0 rsv d port"
  by (simp_all add: request_def)

lemma connect_pkgs_spec:
  assumes d: "dest_ok d" and ok: "heap_ok (mem w)" and s: "socks w fd \<noteq> None" "writable w fd"
    and inc: "incoming w fd = request 1 rsv d port @ rest"
  shows "\<exists>w'. connect_pkgs e fd w = (Ok (dest_info d port), w') \<and> incoming w' fd = rest \<and> writable w' fd \<and>
    outgoing w' fd = outgoing w fd @ request 0 rsv d port \<and> blocks (mem w') = blocks (mem w) \<and> heap_ok (mem w')"
proof (cases d)
  case (Dest_v4 ip)
  have len: "length ip = 4" using d Dest_v4 by simp
  have "\<exists>w'. connect_pkgs e fd w = (Ok (dest_info d port), w') \<and> incoming w' fd = rest \<and> writable w' fd \<and>
    outgoing w' fd = outgoing w fd @ (request 1 rsv d port)[1 := 0] \<and> mem w' = mem w"
  proof (rule connect_pkgs_run[OF s inc, where al = 4 and atyp = 1])
    fix w1 :: world and g assume "mem w1 = mem w"
    then show "unpackConnectionPacket e (request 1 rsv d port @ g) w1 = (Ok (1, 1, dest_info d port), w1\<lparr>mem := mem w\<rparr>)"
      using unpack_v4[OF len, of e 1 rsv port g w1] Dest_v4 by simp
  qed (use len Dest_v4 in \<open>simp_all add: request_def\<close>)
  then show ?thesis using ok by (auto simp: request_reply)
next
  case (Dest_v6 ip)
  have len: "length ip = 16" using d Dest_v6 by simp
  have "\<exists>w'. connect_pkgs e fd w = (Ok (dest_info d port), w') \<and> incoming w' fd = rest \<and> writable w' fd \<and>
    outgoing w' fd = outgoing w fd @ (request 1 rsv d port)[1 := 0] \<and> mem w' = mem w"
  proof (rule connect_pkgs_run[OF s inc, where al = 16 and atyp = 4])
    fix w1 :: world and g assume "mem w1 = mem w"
    then show "unpackConnectionPacket e (request 1 rsv d port @ g) w1 = (Ok (1, 4, dest_info d port), w1\<lparr>mem := mem w\<rparr>)"
      using unpack_v6[OF len, of e 1 rsv port g w1] Dest_v6 by simp
  qed (use len Dest_v6 in \<open>simp_all add: request_def\<close>)
  then show ?thesis using ok by (auto simp: request_reply)
next
  case (Dest_name name)
  let ?n = "length name" and ?h = "(mem w)\<lparr>brk := Suc (brk (mem w))\<rparr>"
  let ?al = "size_of_char (of_nat ?n) + 1"
  have n: "?n < 128" using d Dest_name by simp
  have sc: "unat (size_of_char (of_nat ?n)) = ?n"
    using n by (simp add: size_of_char_def unat_scast_byte unat_small_byte)
  have "of_nat (unat (size_of_char (of_nat ?n))) = size_of_char (of_nat ?n)" by simp
  then have "size_of_char (of_nat ?n) = of_nat ?n" by (simp only: sc)
  then have al: "?al = of_nat (?n + 1)" by simp
  have al6: "unat (?al + 6) = ?n + 7" "unat (?al + 1) = ?n + 2"
  proof -
    have "?al + 6 = of_nat (?n + 7)" "?al + 1 = of_nat (?n + 2)" by (simp_all add: al)
    then show "unat (?al + 6) = ?n + 7" "unat (?al + 1) = ?n + 2"
      using n by (simp_all only: unat_of_nat) simp_all
  qed
  have "\<exists>w'. connect_pkgs e fd w = (Ok (dest_info d port), w') \<and> incoming w' fd = rest \<and> writable w' fd \<and>
    outgoing w' fd = outgoing w fd @ (request 1 rsv d port)[1 := 0] \<and> mem w' = ?h"
  proof (rule connect_pkgs_run[OF s inc, where al = ?al and atyp = 3])
    fix w1 :: world and g assume m: "mem w1 = mem w"
    then show "unpackConnectionPacket e (request 1 rsv d port @ g) w1 = (Ok (1, 3, dest_info d port), w1\<lparr>mem := ?h\<rparr>)"
      using unpack_name[of name w1 e 1 rsv port g] d ok Dest_name by simp
  qed (use n al6 Dest_name in \<open>simp_all add: request_def\<close>)
  moreover have "heap_ok ?h" using ok by (simp add: heap_ok_def)
  ultimately show ?thesis by (auto simp: request_reply)
qed

section \<open>Properties\<close>

text \<open>
  The method handshake. For a client that offers at most 127 methods the server reads
  exactly the greeting and answers with "no authentication" (0) if that is among the
  methods and with 255 otherwise; in both cases the connection goes on.
\<close>

theorem handshake_answers:
  assumes "socks w fd \<noteq> None" "writable w fd" "length ms < 128"
    "incoming w fd = [5, of_nat (length ms)] @ ms @ rest"
  shows "\<exists>w'. handshake_pkgs fd w = (Ok (), w') \<and> same_but fd w w' \<and> incoming w' fd = rest \<and>
    outgoing w' fd = outgoing w fd @ [5, if 0 \<in> set ms then 0 else 255]"
  using handshake_pkgs_spec[OF assms] by blast

theorem handshake_answers_witness:
  "\<exists>w'. handshake_pkgs 3 (demo_world \<lparr>rx = [Rx_Data [5], Rx_Data [2, 1, 0]], tx = [], sent = []\<rparr>) = (Ok (), w') \<and>
     outgoing w' 3 = [5, 0]"
  using handshake_answers[of "demo_world \<lparr>rx = [Rx_Data [5], Rx_Data [2, 1, 0]], tx = [], sent = []\<rparr>" 3 "[1, 0]" "[]"]
  by (auto simp: demo_world_def writable_def incoming_def outgoing_def)

text \<open>
  A client that offers 128 or more methods, which RFC 1928 allows, is never served: the
  count is a signed \<open>char\<close> and becomes a size beyond \<open>2 ^ 63\<close>. If such a client sends more than
  256 bytes after the count, they overflow the 258-byte buffer on the stack.
\<close>

theorem handshake_many_methods:
  assumes "socks w fd \<noteq> None" "incoming w fd = [5, n] @ rest" "128 \<le> unat n"
  shows "fst (handshake_pkgs fd w) \<noteq> Ok () \<and> (256 < length rest \<longrightarrow> fst (handshake_pkgs fd w) = Undefined)"
proof -
  obtain w1 where w1: "recvn_ex fd 258 2 w = (Ok [5, n], w1)" "incoming w1 fd = rest"
    using recvn_ex_next[OF assms(1,2), of 2 258] by auto
  have big: "256 < unat (size_of_char n)" using assms(3) by (simp add: size_of_char_def unat_scast_byte)
  obtain r w2 where r: "recvn_ex fd 256 (unat (size_of_char n)) w1 = (r, w2)" by fastforce
  have "r \<noteq> Ok bs" for bs using recvn_ex_too_large[OF big, of fd w1] r by simp
  moreover have "256 < length rest \<longrightarrow> r = Undefined" using recvn_ex_overflow[OF big, of w1 fd] w1(2) r by simp
  ultimately show ?thesis using w1(1) r
    by (cases r) (auto simp: handshake_pkgs_def bnd_def ret_def)
qed

theorem handshake_many_methods_witness:
  "fst (handshake_pkgs 3 (demo_world \<lparr>rx = [Rx_Data [5, 200], Rx_Data (replicate 300 0)], tx = [], sent = []\<rparr>)) = Undefined"
  using handshake_many_methods[of "demo_world \<lparr>rx = [Rx_Data [5, 200], Rx_Data (replicate 300 0)], tx = [], sent = []\<rparr>" 3 200 "replicate 300 0"]
  by (simp add: demo_world_def incoming_def)

text \<open>
  C19: the connect request. For every IPv4 address, IPv6 address and name of at most 127
  bytes, the server parses from the request the destination and the port the client put
  there, on hosts of both byte orders, answers with the request's own bytes and a success
  code, leaves what follows unread, and releases what it allocated.
\<close>

theorem connect_request_round_trip:
  assumes "dest_ok d" "heap_ok (mem w)" "socks w fd \<noteq> None" "writable w fd"
    "incoming w fd = request 1 rsv d port @ rest"
  shows "\<exists>w'. connect_pkgs e fd w = (Ok (dest_info d port), w') \<and> incoming w' fd = rest \<and>
    outgoing w' fd = outgoing w fd @ request 0 rsv d port \<and> blocks (mem w') = blocks (mem w)"
  using connect_pkgs_spec[OF assms] by blast

theorem connect_request_round_trip_witness:
  "\<exists>w'. connect_pkgs Little_Endian 3
      (demo_world \<lparr>rx = [Rx_Data [5, 1, 0, 3, 2, 97], Rx_Data [98, 0, 80]], tx = [], sent = []\<rparr>) =
    (Ok \<lparr>addr_type = Addr_domain, addr_data = [97, 98], addr_port = 80\<rparr>, w')"
proof -
  let ?w = "demo_world \<lparr>rx = [Rx_Data [5, 1, 0, 3, 2, 97], Rx_Data [98, 0, 80]], tx = [], sent = []\<rparr>"
  have "dest_ok (Dest_name [97, 98])" "heap_ok (mem ?w)" "socks ?w 3 \<noteq> None" "writable ?w 3"
    "incoming ?w 3 = request 1 0 (Dest_name [97, 98]) 80 @ []"
    by (simp_all add: demo_world_def heap_ok_def writable_def incoming_def request_def mem_of_word_def le_of_word_def
        upt_conv_Cons drop_bit_eq_div)
  from connect_request_round_trip[OF this, of Little_Endian] show ?thesis by auto
qed

text \<open>
  The length byte of a name is a \<open>char\<close>, so 128 or more is sign-extended to a length near the
  top of \<open>size_t\<close>. The offsets computed from it wrap around: for 251 or more the port is read
  inside the buffer, and for 255 the copy goes to a block of no bytes. The copy of the name
  itself leaves the buffer in every case.
\<close>

lemma unpack_long_name:
  assumes "pkgStr ! 0 = 5" "pkgStr ! 3 = 3" "128 \<le> unat (pkgStr ! 4)" "length pkgStr \<le> 263"
  shows "fst (unpackConnectionPacket e pkgStr w) = Undefined"
proof -
  let ?n = "size_of_char (pkgStr ! 4)"
  have "263 < unat ?n" using assms(3) by (simp add: size_of_char_def unat_scast_byte)
  then have rd: "read_buf pkgStr 5 (unat ?n) w = (Undefined, w)" for w
    using assms(4) by (simp add: read_buf_def)
  have port: "read_buf pkgStr i 2 w \<in> {(Ok (take 2 (drop i pkgStr)), w), (Undefined, w)}" for i
    by (simp add: read_buf_def)
  show ?thesis
    using assms(1,2) port[of "unat (5 + ?n)"]
    by (auto simp: unpackConnectionPacket_def Let_def bnd_def ret_def deferring_def rd malloc_ex_apply c_malloc_def)
qed

text \<open>
  C40: a connect request for a name of 128 or more bytes, which RFC 1928 allows, is never
  served: the length byte is sign-extended, so the server asks for far more bytes than the
  buffer holds, or, for the lengths 254 and 255, where the number of bytes to receive wraps
  around to 0 and 1 and the receive succeeds, copies the name out of the buffer's bounds.
\<close>

theorem connect_long_name:
  assumes "socks w fd \<noteq> None" "incoming w fd = [5, 1, rsv, 3, n] @ rest" "128 \<le> unat n"
  shows "(\<forall>a. fst (connect_pkgs e fd w) \<noteq> Ok a) \<and>
    ((n = 254 \<or> n = 255 \<and> rest \<noteq> []) \<longrightarrow> fst (connect_pkgs e fd w) = Undefined)"
proof -
  let ?hd = "[5, 1, rsv, 3, n]"
  obtain w1 where w1: "recvn_ex fd 263 5 w = (Ok ?hd, w1)" "socks w1 fd \<noteq> None" "incoming w1 fd = rest"
    by (rule recvn_ex_next[OF assms(1,2), of 5 263]) auto
  let ?al = "size_of_char n + 1"
  obtain r w2 where r: "recvn_ex fd 258 (unat (?al + 1)) w1 = (r, w2)" by fastforce
  have run: "connect_pkgs e fd w = (case r of
      Ok tls \<Rightarrow> (let buf = connect_buf (mem w2) (?hd @ tls) in
        bnd (unpackConnectionPacket e buf) (\<lambda>(CMD, ATYP, remoteInfo).
        bnd (if CMD \<noteq> 1 then die ''Socks5 request can not be processed.(CMD={})'' else ret ()) (\<lambda>_.
        bnd (sendn_ex False fd (take (unat (?al + 6)) (buf[1 := 0]))) (\<lambda>_.
        ret remoteInfo))) w2)
    | Throw x \<Rightarrow> (Throw x, w2) | Undefined \<Rightarrow> (Undefined, w2) | Blocked \<Rightarrow> (Blocked, w2) | Exited c \<Rightarrow> (Exited c, w2))"
    using w1 r by (simp add: connect_pkgs_def bnd_Ok bnd_def[where m = "recvn_ex fd 258 _"] split: outcome.splits)
  have undef: "fst (connect_pkgs e fd w) = Undefined" if Ok: "r = Ok tls" for tls
  proof -
    let ?buf = "connect_buf (mem w2) (?hd @ tls)"
    have "fst (unpackConnectionPacket e ?buf w2) = Undefined"
      by (rule unpack_long_name) (use assms(3) in \<open>simp_all add: connect_buf_def\<close>)
    then show ?thesis using run Ok by (cases "unpackConnectionPacket e ?buf w2") (simp add: bnd_def)
  qed
  moreover have "\<exists>tls. r = Ok tls" if "n = 254 \<or> n = 255 \<and> rest \<noteq> []"
  proof (cases "n = 254")
    case True
    then have "unat (?al + 1) = 0" by (simp add: size_of_char_def)
    then show ?thesis using r recvn_ex_next[of w1 fd "[]" rest 0 258] w1(2,3) by fastforce
  next
    case False
    with that obtain b bs where "n = 255" "rest = [b] @ bs" by (cases rest) auto
    moreover from \<open>n = 255\<close> have "unat (?al + 1) = 1" by (simp add: size_of_char_def)
    ultimately show ?thesis using r recvn_ex_next[of w1 fd "[b]" bs 1 258] w1(2,3) by fastforce
  qed
  ultimately show ?thesis using run by (cases r) auto
qed

theorem connect_long_name_witness:
  "fst (connect_pkgs Little_Endian 3 (demo_world \<lparr>rx = [Rx_Data ([5, 1, 0, 3, 255] @ replicate 257 97)], tx = [], sent = []\<rparr>)) = Undefined"
  using connect_long_name[of "demo_world \<lparr>rx = [Rx_Data ([5, 1, 0, 3, 255] @ replicate 257 97)], tx = [], sent = []\<rparr>" 3 0 255
    "replicate 257 97" Little_Endian]
  by (simp add: demo_world_def incoming_def)

text \<open>
  Failures and connections. Whatever bytes arrive, whatever the module does and whichever call
  fails, the task of a server connection does not end with an exception, and when it ends it has
  closed the connection's descriptor. The task of a client connection ends with an exception
  exactly when the log call of its handler throws one.
\<close>

lemma server_task_contains_failures:
  "case inbound_dealConnection e resolve it connfd sels w of
     (Ok _, w') \<Rightarrow> socks w' connfd = None | (Throw _, _) \<Rightarrow> False | _ \<Rightarrow> True"
  by (auto simp: inbound_dealConnection_def bnd_def catch_def ret_def close_ex_def split: prod.splits outcome.splits)

lemma catch_report_throws:
  "catch m report_exception w = (Throw err', w') \<Longrightarrow> \<exists>err. handler_log_throws (net w') err = Some err'"
  by (auto simp: report_exception_def catch_def split: prod.splits outcome.splits option.splits)

lemma client_task_throws:
  assumes "socks5_dealConnection e ot connfd sels w = (Throw err', w')"
  shows "\<exists>err. handler_log_throws (net w') err = Some err'"
proof -
  have "launch e ot connfd sels w = (Throw err', w')"
    using assms by (cases "launch e ot connfd sels w")
      (auto simp: socks5_dealConnection_def bnd_def close_ex_def split: outcome.splits)
  then show ?thesis unfolding launch_def by (rule catch_report_throws)
qed

text \<open>
  The two listeners. Every accepted connection becomes one task, in the order of the \<open>accept\<close> calls. When a
  call fails, the SOCKS5 listener goes on with the next one, while the server's listener ends with the
  exception of \<open>quick_accept\<close> and serves no further client.
\<close>

theorem failed_accept_ends_only_the_server:
  "accept_loop (map Some fds @ None # rs) w =
     (Throw (Runtime_error ''accept failed. errno = {}''), w\<lparr>tasks := tasks w @ fds\<rparr>) \<and>
   socks5_accept_loop (map Some fds @ None # map Some gds) w = (Blocked, w\<lparr>tasks := tasks w @ fds @ gds\<rparr>)"
proof -
  have *: "socks5_accept_loop (map Some gds) w = (Blocked, w\<lparr>tasks := tasks w @ gds\<rparr>)" for gds w
    by (induction gds arbitrary: w) (simp_all add: bnd_def add_task_def)
  show ?thesis
    by (induction fds arbitrary: w) (simp_all add: bnd_def add_task_def quick_accept_def throw_def ret_def *)
qed

end
