(* ===== verification/Simple_Proxy.thy ===== *)
theory Simple_Proxy
  imports Module_Api
begin

text \<open>
  The module \<open>simple_proxy\<close> (\<open>src/src/modules/simple_proxy/simple_proxy.c\<close>), definitions
  prefixed \<open>sp_\<close>. A message is the struct \<open>data_struct\<close>, the 16 address bytes at offset 0,
  the port at 16, the payload length at 20 and the payload from 24 on, in a block of
  \<open>sizeof (struct data_struct) + length - 1\<close>, that is \<open>27 + length\<close>, bytes. Every byte is XORed with the
  sum of the passphrase's bytes. Bytes 18, 19 and the last three of the block are never
  written and carry what the allocator left there. Port and length are in the host's byte
  order, so the functions take the host's \<open>endian\<close>.

  The module implements the contract \<open>message_codec\<close> in both directions.
\<close>

section \<open>Definitions\<close>

definition simple_hash :: "bytes \<Rightarrow> byte" where
  "simple_hash s = foldl (\<lambda>tmp c. tmp + c) 0 s"

definition bss_hash :: "heap \<Rightarrow> binary_safe_string \<Rightarrow> byte option" where
  "bss_hash h bss = map_option simple_hash (bss_bytes h bss)"

text \<open>The loop \<open>for (i ...) p[i] = p[i] ^ k\<close> over the indices given.\<close>

fun xor_buffer :: "heap \<Rightarrow> ptr \<Rightarrow> byte \<Rightarrow> nat list \<Rightarrow> heap option" where
  "xor_buffer h p k [] = Some h"
| "xor_buffer h p k (i # is) = do {
     c \<leftarrow> load h p i 1;
     h \<leftarrow> store h p i (map (\<lambda>x. x XOR k) c);
     xor_buffer h p k is
   }"

definition sizeof_data_struct :: nat where "sizeof_data_struct = 28"

definition sp_client_make_auth_query :: "connect_info \<Rightarrow> heap \<Rightarrow> (binary_safe_string \<times> connect_info \<times> heap) option" where
  "sp_client_make_auth_query conn h =
     (let len = bss_length (passphrase conn);
          (p, h) = c_malloc (unat len) h
      in do {
        h \<leftarrow> c_memcpy h p 0 (bss_str (passphrase conn)) 0 (unat len);
        Some (\<lparr>null_terminated = False, bss_length = len, bss_str = p\<rparr>, conn, h)
      })"

definition sp_client_deal_auth_reply :: "connect_info \<Rightarrow> binary_safe_string \<Rightarrow> heap \<Rightarrow> (bool \<times> connect_info \<times> heap) option" where
  "sp_client_deal_auth_reply conn server_reply h = do {
     c \<leftarrow> load h (bss_str server_reply) 0 1;
     Some (c \<noteq> [0], conn, h)
   }"

definition sp_client_encode :: "endian \<Rightarrow> connect_info \<Rightarrow> client_query \<Rightarrow> heap \<Rightarrow> (binary_safe_string \<times> connect_info \<times> heap) option" where
  "sp_client_encode e conn q h =
     (let overall_size = sizeof_data_struct + unat (bss_length (payload q)) - 1;
          (data, h) = c_malloc overall_size h
      in do {
        h \<leftarrow> store h data 0 (destination_ip q);
        h \<leftarrow> store h data 16 (mem_of_word e 2 (destination_port q));
        h \<leftarrow> store h data 20 (mem_of_word e 4 (bss_length (payload q)));
        h \<leftarrow> (if bss_length (payload q) \<noteq> 0
              then c_memcpy h data 24 (bss_str (payload q)) 0 (unat (bss_length (payload q)))
              else Some h);
        simple_encoder \<leftarrow> bss_hash h (passphrase conn);
        h \<leftarrow> xor_buffer h data simple_encoder [0..<overall_size];
        h \<leftarrow> c_free (bss_str (payload q)) h;
        Some (\<lparr>null_terminated = False, bss_length = of_nat overall_size, bss_str = data\<rparr>, conn, h)
      })"

text \<open>
  A message of at most 24 bytes returns with only \<open>payload.length\<close> and \<open>payload.str\<close> set;
  the other fields of \<open>query\<close> are what the stack held (\<open>null_terminated\<close> at offset 24 of the
  struct).
\<close>

definition uninitialised_query :: "endian \<Rightarrow> heap \<Rightarrow> client_query" where
  "uninitialised_query e h =
     \<lparr>destination_ip = map (stack_bytes h) [0..<16],
      destination_port = word_of_mem e (map (stack_bytes h) [16..<18]),
      payload = \<lparr>null_terminated = stack_bytes h 24 \<noteq> 0, bss_length = 0, bss_str = NULL\<rparr>\<rparr>"

definition sp_client_decode :: "endian \<Rightarrow> connect_info \<Rightarrow> binary_safe_string \<Rightarrow> heap \<Rightarrow> (client_query \<times> connect_info \<times> heap) option" where
  "sp_client_decode e conn data h = do {
     simple_encoder \<leftarrow> bss_hash h (passphrase conn);
     h \<leftarrow> xor_buffer h (bss_str data) simple_encoder [0..<unat (bss_length data)];
     let query = uninitialised_query e h;
     if bss_length data \<le> 24 then do {
       h \<leftarrow> c_free (bss_str data) h;
       Some (query, conn, h)
     } else do {
       ip \<leftarrow> load h (bss_str data) 0 16;
       port \<leftarrow> load h (bss_str data) 16 2;
       plsz \<leftarrow> load h (bss_str data) 20 4;
       let len = (word_of_mem e plsz :: u32);
       (str, h) \<leftarrow> (if len \<noteq> 0 then
           (let (p, h) = c_malloc (unat len) h
            in map_option (Pair p) (c_memcpy h p 0 (bss_str data) 24 (unat len)))
         else Some (NULL, h));
       h \<leftarrow> c_free (bss_str data) h;
       Some (\<lparr>destination_ip = ip, destination_port = word_of_mem e port,
              payload = \<lparr>null_terminated = False, bss_length = len, bss_str = str\<rparr>\<rparr>, conn, h)
     }
   }"

definition sp_server_make_auth_reply ::
  "connect_info \<Rightarrow> binary_safe_string \<Rightarrow> heap \<Rightarrow> (binary_safe_string \<times> bool \<times> connect_info \<times> heap) option" where
  "sp_server_make_auth_reply conn data h =
     (let (p, h) = c_malloc 1 h
      in do {
        h \<leftarrow> store h p 0 [1];
        h \<leftarrow> c_free (bss_str data) h;
        Some (\<lparr>null_terminated = False, bss_length = 1, bss_str = p\<rparr>, False, conn, h)
      })"

definition sp_server_encode :: "endian \<Rightarrow> connect_info \<Rightarrow> client_query \<Rightarrow> heap \<Rightarrow> (binary_safe_string \<times> connect_info \<times> heap) option" where
  "sp_server_encode e conn q h =
     (let overall_size = sizeof_data_struct + unat (bss_length (payload q)) - 1;
          (data, h) = c_malloc overall_size h
      in do {
        h \<leftarrow> store h data 0 (destination_ip q);
        h \<leftarrow> store h data 16 (mem_of_word e 2 (destination_port q));
        h \<leftarrow> store h data 20 (mem_of_word e 4 (bss_length (payload q)));
        h \<leftarrow> (if bss_length (payload q) \<noteq> 0
              then c_memcpy h data 24 (bss_str (payload q)) 0 (unat (bss_length (payload q)))
              else Some h);
        simple_encoder \<leftarrow> bss_hash h (passphrase conn);
        h \<leftarrow> xor_buffer h data simple_encoder [0..<overall_size];
        h \<leftarrow> c_free (bss_str (payload q)) h;
        Some (\<lparr>null_terminated = False, bss_length = of_nat overall_size, bss_str = data\<rparr>, conn, h)
      })"

definition sp_server_decode :: "endian \<Rightarrow> connect_info \<Rightarrow> binary_safe_string \<Rightarrow> heap \<Rightarrow> (client_query \<times> connect_info \<times> heap) option" where
  "sp_server_decode e conn data h = do {
     simple_encoder \<leftarrow> bss_hash h (passphrase conn);
     h \<leftarrow> xor_buffer h (bss_str data) simple_encoder [0..<unat (bss_length data)];
     let query = uninitialised_query e h;
     if bss_length data \<le> 24 then do {
       h \<leftarrow> c_free (bss_str data) h;
       Some (query, conn, h)
     } else do {
       ip \<leftarrow> load h (bss_str data) 0 16;
       port \<leftarrow> load h (bss_str data) 16 2;
       plsz \<leftarrow> load h (bss_str data) 20 4;
       let len = (word_of_mem e plsz :: u32);
       (str, h) \<leftarrow> (if len \<noteq> 0 then
           (let (p, h) = c_malloc (unat len) h
            in map_option (Pair p) (c_memcpy h p 0 (bss_str data) 24 (unat len)))
         else Some (NULL, h));
       h \<leftarrow> c_free (bss_str data) h;
       Some (\<lparr>destination_ip = ip, destination_port = word_of_mem e port,
              payload = \<lparr>null_terminated = False, bss_length = len, bss_str = str\<rparr>\<rparr>, conn, h)
     }
   }"

definition sp_client_connection_close :: "connect_info \<Rightarrow> heap \<Rightarrow> (connect_info \<times> heap) option" where
  "sp_client_connection_close conn h = Some (conn, h)"

definition sp_server_connection_close :: "connect_info \<Rightarrow> heap \<Rightarrow> (connect_info \<times> heap) option" where
  "sp_server_connection_close conn h = Some (conn, h)"

definition simple_proxy :: "endian \<Rightarrow> snake_module" where
  "simple_proxy e =
     \<lparr>f_client_make_auth_query = sp_client_make_auth_query,
      f_client_deal_auth_reply = sp_client_deal_auth_reply,
      f_client_encode = sp_client_encode e,
      f_client_decode = sp_client_decode e,
      f_client_connection_close = sp_client_connection_close,
      f_server_make_auth_reply = sp_server_make_auth_reply,
      f_server_encode = sp_server_encode e,
      f_server_decode = sp_server_decode e,
      f_server_connection_close = sp_server_connection_close\<rparr>"

section \<open>The encoding as a byte string\<close>

text \<open>The plain struct: \<open>pad\<close> are the five bytes nobody writes.\<close>

definition struct_bytes :: "endian \<Rightarrow> bytes \<Rightarrow> u16 \<Rightarrow> bytes \<Rightarrow> bytes \<Rightarrow> bytes" where
  "struct_bytes e ip port pl pad =
     ip @ mem_of_word e 2 port @ take 2 pad @ mem_of_word e 4 (of_nat (length pl) :: u32) @ pl @ drop 2 pad"

lemma xor_buffer_range:
  "blocks h p = Some b \<Longrightarrow> i + n \<le> length b \<Longrightarrow>
   xor_buffer h p k [i..<i + n] =
     Some (h\<lparr>blocks := (blocks h)(p \<mapsto> take i b @ map (\<lambda>x. x XOR k) (take n (drop i b)) @ drop (i + n) b)\<rparr>)"
proof (induction n arbitrary: h b i)
  case 0
  then show ?case by (simp add: fun_upd_idem)
next
  case (Suc n)
  let ?b = "overwrite i [b ! i XOR k] b"
  have i: "i < length b" using Suc.prems(2) by simp
  have ld: "load h p i 1 = Some [b ! i]"
    using Suc.prems i by (simp add: load_def take_Suc_conv_app_nth Cons_nth_drop_Suc[symmetric])
  have st: "store h p i [b ! i XOR k] = Some (h\<lparr>blocks := (blocks h)(p \<mapsto> ?b)\<rparr>)"
    using Suc.prems i by (simp add: store_def)
  have b: "take (Suc i) ?b = take i b @ [b ! i XOR k]" "drop (Suc i) ?b = drop (Suc i) b" "length ?b = length b"
    "drop (Suc i + n) ?b = drop (Suc i + n) b"
    using i by (simp_all add: overwrite_def add.commute)
  have "xor_buffer (h\<lparr>blocks := (blocks h)(p \<mapsto> ?b)\<rparr>) p k [Suc i..<Suc i + n] =
    Some (h\<lparr>blocks := (blocks h)(p \<mapsto> take i b @ (b ! i XOR k) # map (\<lambda>x. x XOR k) (take n (drop (Suc i) b)) @ drop (Suc i + n) b)\<rparr>)"
    using Suc.IH[of "h\<lparr>blocks := (blocks h)(p \<mapsto> ?b)\<rparr>" ?b "Suc i"] Suc.prems(2) b
    by (simp del: upt_Suc fun_upd_apply add: fun_upd_same)
  moreover have "[i..<i + Suc n] = i # [Suc i..<Suc i + n]" by (simp add: upt_conv_Cons)
  moreover have "take (Suc n) (drop i b) = b ! i # take n (drop (Suc i) b)"
    using i by (simp add: Cons_nth_drop_Suc[symmetric])
  ultimately show ?case using ld st by (simp del: upt_Suc fun_upd_apply)
qed

lemma xor_buffer_whole [heap_simps]:
  assumes "blocks h p = Some b" "n = length b"
  shows "xor_buffer h p k [0..<n] = Some (h\<lparr>blocks := (blocks h)(p \<mapsto> map (\<lambda>x. x XOR k) b)\<rparr>)"
  using xor_buffer_range[of h p b 0 n k] assms by simp

lemma struct_overwrites:
  assumes "length ip = 16" "length a = 2" "length c = 4" "length fr = 27 + length pl"
  shows "overwrite 24 pl (overwrite 20 c (overwrite 16 a (overwrite 0 ip fr))) =
    ip @ a @ take 2 (drop 18 fr) @ c @ pl @ drop (24 + length pl) fr"
  using assms by (simp add: overwrite_def add.commute)

lemma struct_overwrites_empty:
  assumes "length ip = 16" "length a = 2" "length c = 4" "length fr = 27"
  shows "overwrite 20 c (overwrite 16 a (overwrite 0 ip fr)) = ip @ a @ take 2 (drop 18 fr) @ c @ drop 24 fr"
  using assms by (simp add: overwrite_def)

lemma length_struct_bytes [simp]:
  "length ip = 16 \<Longrightarrow> length pad = 5 \<Longrightarrow> length (struct_bytes e ip port pl pad) = 27 + length pl"
  by (simp add: struct_bytes_def)

lemma bss_hash_Some: "bss_bytes h b = Some pw \<Longrightarrow> bss_hash h b = Some (simple_hash pw)"
  by (simp add: bss_hash_def)

lemma bss_bytes_frame:
  "bss_length b \<noteq> 0 \<Longrightarrow> blocks g (bss_str b) = blocks h (bss_str b) \<Longrightarrow> bss_bytes g b = bss_bytes h b"
  by (simp add: bss_bytes_def load_def)

lemma sp_server_encode_eq: "sp_server_encode = sp_client_encode"
  unfolding sp_server_encode_def sp_client_encode_def by (rule refl)

lemma sp_server_decode_eq: "sp_server_decode = sp_client_decode"
  unfolding sp_server_decode_def sp_client_decode_def by (rule refl)

definition sp_private :: "connect_info \<Rightarrow> ptr \<Rightarrow> bool" where
  "sp_private c p \<longleftrightarrow> bss_length (passphrase c) \<noteq> 0 \<and> p = bss_str (passphrase c)"

definition sp_linked :: "connect_info \<Rightarrow> heap \<Rightarrow> connect_info \<Rightarrow> heap \<Rightarrow> bool" where
  "sp_linked c h c' h' \<longleftrightarrow>
     (\<exists>pw. bss_bytes h (passphrase c) = Some pw \<and> bss_bytes h' (passphrase c') = Some pw)"

lemma bss_bytes_passphrase_frame:
  "\<forall>p. sp_private c p \<longrightarrow> blocks g p = blocks h p \<Longrightarrow> bss_bytes g (passphrase c) = bss_bytes h (passphrase c)"
  by (cases "bss_length (passphrase c) = 0") (auto simp: sp_private_def intro: bss_bytes_frame)

lemma bss_bytes_passphrase_block:
  "bss_bytes h (passphrase c) = Some pw \<Longrightarrow> sp_private c p \<Longrightarrow> blocks h p \<noteq> None"
  by (auto simp: sp_private_def bss_bytes_def dest: load_Some_D)

text \<open>
  The first half of both encoders: the new block at \<open>brk h\<close> ends up holding the struct. \<open>K\<close> is what
  the encoder does next.
\<close>

lemma struct_built:
  assumes ok: "heap_ok h" "query_ok h q" and pl: "bss_bytes h (payload q) = Some pl"
    and fr: "fr = map (fresh_bytes h (brk h)) [0..<27 + length pl]"
    and at: "at = (\<lambda>b. h\<lparr>blocks := (blocks h)(brk h \<mapsto> b), brk := Suc (brk h)\<rparr>)"
  shows "do {
      h1 \<leftarrow> store (at fr) (brk h) 0 (destination_ip q);
      h2 \<leftarrow> store h1 (brk h) 16 (mem_of_word e 2 (destination_port q));
      h3 \<leftarrow> store h2 (brk h) 20 (mem_of_word e 4 (bss_length (payload q)));
      h4 \<leftarrow> (if bss_length (payload q) \<noteq> 0
             then c_memcpy h3 (brk h) 24 (bss_str (payload q)) 0 (unat (bss_length (payload q)))
             else Some h3);
      K h4 } =
    K (at (struct_bytes e (destination_ip q) (destination_port q) pl (take 2 (drop 18 fr) @ drop (24 + length pl) fr)))"
proof -
  have len: "length pl = unat (bss_length (payload q))" and ip: "length (destination_ip q) = 16"
    using query_ok_bytes[OF ok(2)] pl ok(2) by (auto simp: query_ok_def)
  have hq: "bss_length (payload q) \<noteq> 0 \<Longrightarrow> load (at b) (bss_str (payload q)) 0 (length pl) = Some pl" for b
    using ok pl len by (auto simp: query_ok_def bss_bytes_def load_def at split: if_splits)
  have fl: "length fr = 27 + length pl" by (simp add: fr)
  have st: "store (at b) (brk h) off bs = Some (at (overwrite off bs b))" if "off + length bs \<le> length b" for off bs b
    using that by (simp add: store_def at)
  let ?b = "overwrite 20 (mem_of_word e 4 (bss_length (payload q)))
    (overwrite 16 (mem_of_word e 2 (destination_port q)) (overwrite 0 (destination_ip q) fr))"
  have lb: "length ?b = 27 + length pl" using ip fl by simp
  have copy: "(if bss_length (payload q) \<noteq> 0
      then c_memcpy (at ?b) (brk h) 24 (bss_str (payload q)) 0 (length pl) else Some (at ?b)) =
      Some (at (overwrite 24 pl ?b))"
  proof (cases "bss_length (payload q) = 0")
    case True
    then show ?thesis using len by simp
  next
    case False
    then have "pl \<noteq> []" using len by (auto simp: unat_eq_zero)
    then show ?thesis using False hq lb by (simp add: c_memcpy_def st)
  qed
  have "bss_length (payload q) = of_nat (length pl)" by (simp add: len)
  then have "overwrite 24 pl ?b = struct_bytes e (destination_ip q) (destination_port q) pl (take 2 (drop 18 fr) @ drop (24 + length pl) fr)"
    using ip fl by (simp add: struct_overwrites struct_bytes_def)
  then show ?thesis unfolding len[symmetric] using ip fl copy by (simp add: st split del: if_split)
qed

text \<open>
  The bytes \<open>sp_client_encode\<close> produces: the struct, XORed with the hash of the passphrase.
\<close>

lemma sp_encode_value:
  assumes ok: "heap_ok h" "query_ok h q" and pw: "bss_bytes h (passphrase c) = Some pw"
    and pl: "bss_bytes h (payload q) = Some pl"
    and fr: "fr = map (fresh_bytes h (brk h)) [0..<27 + length pl]"
    and w: "w = map (\<lambda>x. x XOR simple_hash pw)
      (struct_bytes e (destination_ip q) (destination_port q) pl (take 2 (drop 18 fr) @ drop (24 + length pl) fr))"
  shows "sp_client_encode e c q h =
    Some (\<lparr>null_terminated = False, bss_length = of_nat (27 + length pl), bss_str = brk h\<rparr>, c,
      h\<lparr>blocks := (blocks h)(brk h \<mapsto> w, bss_str (payload q) := None), brk := Suc (brk h)\<rparr>)"
proof -
  have len: "length pl = unat (bss_length (payload q))" and ip: "length (destination_ip q) = 16"
    using query_ok_bytes[OF ok(2)] pl ok(2) by (auto simp: query_ok_def)
  define at where "at = (\<lambda>b. h\<lparr>blocks := (blocks h)(brk h \<mapsto> b), brk := Suc (brk h)\<rparr>)"
  let ?s = "struct_bytes e (destination_ip q) (destination_port q) pl (take 2 (drop 18 fr) @ drop (24 + length pl) fr)"
  have m: "c_malloc (27 + length pl) h = (brk h, at fr)" by (simp add: c_malloc_def at_def fr)
  have hq: "bss_str (payload q) \<noteq> brk h" using ok by (auto simp: query_ok_def split: if_splits)
  have pw': "bss_bytes (at b) (passphrase c) = Some pw" for b
    using pw ok(1) by (auto simp: at_def bss_bytes_def load_def split: if_splits option.splits)
  have x: "xor_buffer (at b) (brk h) k [0..<n] = Some (at (map (\<lambda>x. x XOR k) b))" if "n = length b" for b k n
    using that by (simp add: at_def xor_buffer_whole)
  have fr': "c_free (bss_str (payload q)) (at b) =
     Some (h\<lparr>blocks := (blocks h)(brk h \<mapsto> b, bss_str (payload q) := None), brk := Suc (brk h)\<rparr>)" for b
    using hq ok by (auto simp: c_free_def query_ok_def at_def fun_upd_twist fun_upd_idem split: if_splits)
  have ls: "27 + length pl = length ?s" using ip by (simp add: fr)
  have sz: "sizeof_data_struct + unat (bss_length (payload q)) - 1 = 27 + length pl"
    by (simp add: sizeof_data_struct_def len)
  show ?thesis
    unfolding sp_client_encode_def Let_def sz m prod.case
    by (subst struct_built[OF ok pl fr at_def]) (simp add: bss_hash_Some[OF pw'] x[OF ls] fr' w)
qed

lemma struct_fields:
  assumes "length ip = 16" "length pad = 5"
  shows "take 16 (struct_bytes e ip port pl pad) = ip"
    "take 2 (drop 16 (struct_bytes e ip port pl pad)) = mem_of_word e 2 port"
    "take 4 (drop 20 (struct_bytes e ip port pl pad)) = mem_of_word e 4 (of_nat (length pl) :: u32)"
    "take (length pl) (drop 24 (struct_bytes e ip port pl pad)) = pl"
  using assms by (simp_all add: struct_bytes_def)

text \<open>The second half of both decoders, on a block that starts with the struct.\<close>

lemma struct_read:
  assumes ok: "heap_ok h" and s: "blocks h p = Some s" "take (27 + length pl) s = struct_bytes e ip port pl pad"
    and len: "length ip = 16" "length pad = 5" "length pl + 64 < 2 ^ 32"
  shows "\<exists>q h2. do {
      ip \<leftarrow> load h p 0 16;
      port \<leftarrow> load h p 16 2;
      plsz \<leftarrow> load h p 20 4;
      let len = (word_of_mem e plsz :: u32);
      (str, h) \<leftarrow> (if len \<noteq> 0 then
          (let (x, h) = c_malloc (unat len) h in map_option (Pair x) (c_memcpy h x 0 p 24 (unat len)))
        else Some (NULL, h));
      h \<leftarrow> c_free p h;
      Some (\<lparr>destination_ip = ip, destination_port = word_of_mem e port,
             payload = \<lparr>null_terminated = False, bss_length = len, bss_str = str\<rparr>\<rparr>, c, h)
    } = Some (q, c, h2) \<and> query_view h2 q = Some (ip, port, pl) \<and> heap_ok h2 \<and> blocks h2 p = None \<and>
    (bss_str (payload q) = NULL \<or> brk h \<le> bss_str (payload q) \<and> blocks h2 (bss_str (payload q)) \<noteq> None) \<and>
    (\<forall>x. x < brk h \<longrightarrow> x \<noteq> p \<longrightarrow> blocks h2 x = blocks h x)"
    (is "\<exists>q h2. ?run = Some (q, c, h2) \<and> _ q h2")
proof -
  have p: "p < brk h" "p \<noteq> 0" using ok s by auto
  have ls: "27 + length pl \<le> length s"
    using arg_cong[OF s(2), of length] len by simp
  have cut: "take n (drop off s) = take n (drop off (struct_bytes e ip port pl pad))" if "off + n \<le> 27 + length pl" for off n
    using that by (simp add: s(2)[symmetric] drop_take min_def)
  have ld: "load h p 0 16 = Some ip" "load h p 16 2 = Some (mem_of_word e 2 port)"
    "load h p 20 4 = Some (mem_of_word e 4 (of_nat (length pl) :: u32))"
    "load h p 24 (length pl) = Some pl"
    using s(1) ls struct_fields[OF len(1,2)] cut[of 0 16] cut[of 16 2] cut[of 20 4] cut[of 24 "length pl"] by (simp_all add: load_def)
  have ul: "unat (of_nat (length pl) :: u32) = length pl" using len(3) by (simp add: unat_of_nat)
  then have nz: "(of_nat (length pl) :: u32) = 0 \<longleftrightarrow> pl = []" by (cases "pl = []") auto
  show ?thesis
  proof (cases "pl = []")
    case True
    then show ?thesis
      using p ok ld s(1) by (simp add: free_Some[OF p(2) s(1)]) (simp add: query_view_def heap_ok_def)
  next
    case False
    define h2 where "h2 = h\<lparr>blocks := (blocks h)(brk h \<mapsto> pl), brk := Suc (brk h)\<rparr>"
    have c: "c_memcpy (snd (c_malloc (length pl) h)) (brk h) 0 p 24 (length pl) = Some h2"
      using p ld(4) False by (simp add: c_malloc_def c_memcpy_def load_def store_def h2_def split: option.splits if_splits)
    have b2: "blocks h2 p = Some s" using s(1) p by (simp add: h2_def)
    have "?run = Some (\<lparr>destination_ip = ip, destination_port = port,
      payload = \<lparr>null_terminated = False, bss_length = of_nat (length pl), bss_str = brk h\<rparr>\<rparr>, c,
      h2\<lparr>blocks := (blocks h2)(p := None)\<rparr>)"
      using False c by (simp add: ld nz ul free_Some[OF p(2) b2] c_malloc_def)
    then show ?thesis
      using p ok ul by (auto simp: query_view_def bss_bytes_def load_def h2_def heap_ok_def)
  qed
qed

lemma sp_decode_value:
  assumes ok: "heap_ok h" and pw: "bss_bytes h (passphrase c) = Some pw"
    and len: "length ip = 16" "length pad = 5" "length pl + 64 < 2 ^ 32"
    and w: "blocks h (bss_str b) = Some (map (\<lambda>x. x XOR simple_hash pw) (struct_bytes e ip port pl pad))"
    and bl: "unat (bss_length b) = 27 + length pl"
  shows "\<exists>q h2. sp_client_decode e c b h = Some (q, c, h2) \<and> query_view h2 q = Some (ip, port, pl) \<and>
    heap_ok h2 \<and> blocks h2 (bss_str b) = None \<and>
    (bss_str (payload q) = NULL \<or> brk h \<le> bss_str (payload q) \<and> blocks h2 (bss_str (payload q)) \<noteq> None) \<and>
    (\<forall>p. p < brk h \<longrightarrow> p \<noteq> bss_str b \<longrightarrow> blocks h2 p = blocks h p)"
proof -
  let ?p = "bss_str b" and ?s = "struct_bytes e ip port pl pad"
  let ?h1 = "h\<lparr>blocks := (blocks h)(?p \<mapsto> ?s)\<rparr>"
  have p: "?p < brk h" "?p \<noteq> 0" using ok w by auto
  have x: "xor_buffer h ?p (simple_hash pw) [0..<27 + length pl] = Some ?h1"
    using w len xor_buffer_whole[OF w, of "27 + length pl" "simple_hash pw"] by (simp add: comp_def xor_simps)
  have h1: "heap_ok ?h1" "blocks ?h1 ?p = Some ?s" "take (27 + length pl) ?s = ?s"
    using ok p len by (auto simp: heap_ok_def)
  have big: "\<not> bss_length b \<le> 24" using bl by (simp add: word_le_nat_alt)
  show ?thesis
    using struct_read[OF h1 len, of c] p
    by (simp add: sp_client_decode_def bss_hash_Some[OF pw] bl x big Let_def split del: if_split cong: if_cong) 
qed

section \<open>The module implements the contract\<close>

lemma sp_encode_obtain:
  assumes ok: "heap_ok h" "query_ok h q" and pw: "bss_bytes h (passphrase c) = Some pw"
  obtains b h1 pl pad w where
    "sp_client_encode e c q h = Some (b, c, h1)" "bss_bytes h1 b = Some w"
    "unat (bss_length b) = length w" "length w \<le> unat (bss_length (payload q)) + 1024" "bss_str b = brk h" "heap_ok h1"
    "blocks h1 = (blocks h)(brk h \<mapsto> w, bss_str (payload q) := None)"
    "w = map (\<lambda>x. x XOR simple_hash pw) (struct_bytes e (destination_ip q) (destination_port q) pl pad)"
    "length pad = 5" "length pl + 64 < 2 ^ 32" "length (destination_ip q) = 16"
    "query_view h q = Some (destination_ip q, destination_port q, pl)"
proof -
  from query_ok_bytes[OF ok(2)] obtain pl where pl: "bss_bytes h (payload q) = Some pl"
    "length pl = unat (bss_length (payload q))"
    "query_view h q = Some (destination_ip q, destination_port q, pl)" by blast
  have bd: "length pl + 64 < 2 ^ 32" "length (destination_ip q) = 16" using ok(2) pl(2) by (auto simp: query_ok_def)
  define fr where "fr = map (fresh_bytes h (brk h)) [0..<27 + length pl]"
  define pad where "pad = take 2 (drop 18 fr) @ drop (24 + length pl) fr"
  define w where "w = map (\<lambda>x. x XOR simple_hash pw) (struct_bytes e (destination_ip q) (destination_port q) pl pad)"
  have lp: "length pad = 5" by (simp add: pad_def fr_def)
  have lw: "length w = 27 + length pl" using lp bd by (simp add: w_def)
  have ne: "bss_str (payload q) \<noteq> brk h" using ok by (auto simp: query_ok_def split: if_splits)
  let ?b = "\<lparr>null_terminated = False, bss_length = of_nat (27 + length pl), bss_str = brk h\<rparr>"
    and ?h1 = "h\<lparr>blocks := (blocks h)(brk h \<mapsto> w, bss_str (payload q) := None), brk := Suc (brk h)\<rparr>"
  have enc: "sp_client_encode e c q h = Some (?b, c, ?h1)"
    using sp_encode_value[OF ok pw pl(1) fr_def w_def[unfolded pad_def]] .
  have ul: "unat (of_nat (27 + length pl) :: u32) = 27 + length pl" using bd by (simp only: unat_of_nat) simp
  then have nz: "(of_nat (27 + length pl) :: u32) \<noteq> 0" by (metis add_is_0 numeral_neq_zero unat_0)
  have "bss_bytes ?h1 ?b = Some w" "unat (bss_length ?b) = length w" "heap_ok ?h1"
    using ul nz lw ne ok(1) by (simp_all add: bss_bytes_def load_def heap_ok_def del: of_nat_add)
  then show thesis
    using that[of ?b ?h1 w pl pad] enc w_def lp bd lw pl(2,3) by simp
qed

lemma sp_codec: "message_codec (sp_client_encode e) (sp_client_decode e) sp_linked sp_private"
proof
  fix c h c' h' g g'
  assume "sp_linked c h c' h'" "\<forall>p. sp_private c p \<longrightarrow> blocks (g :: heap) p = blocks h p"
    "\<forall>p. sp_private c' p \<longrightarrow> blocks (g' :: heap) p = blocks h' p"
  then show "sp_linked c g c' g'"
    unfolding sp_linked_def by (metis bss_bytes_passphrase_frame)
next
  fix c h c' h' p
  assume l: "sp_linked c h c' h'"
  show "sp_private c p \<Longrightarrow> blocks h p \<noteq> None" "sp_private c' p \<Longrightarrow> blocks h' p \<noteq> None"
    using l by (auto simp: sp_linked_def dest: bss_bytes_passphrase_block)
next
  fix c h c' h' q
  assume l: "sp_linked c h c' h'" and ok: "heap_ok h" "query_ok h q"
  from l obtain pw where pw: "bss_bytes h (passphrase c) = Some pw" "bss_bytes h' (passphrase c') = Some pw"
    by (auto simp: sp_linked_def)
  note enc = sp_encode_obtain[OF ok pw(1), of e]
  show "\<exists>b h1 w. sp_client_encode e c q h = Some (b, c, h1) \<and> bss_bytes h1 b = Some w \<and>
        unat (bss_length b) = length w \<and> length w \<le> unat (bss_length (payload q)) + 1024 \<and>
        brk h \<le> bss_str b \<and> heap_ok h1 \<and>
        blocks h1 = (blocks h)(bss_str b \<mapsto> w, bss_str (payload q) := None)"
    by (rule enc) (metis order_refl)
  fix b c1 h1 w and b' :: binary_safe_string
  assume r: "sp_client_encode e c q h = Some (b, c1, h1)" "bss_bytes h1 b = Some w"
    "heap_ok h'" "blocks h' (bss_str b') = Some w" "unat (bss_length b') = length w"
  obtain pl pad where "w = map (\<lambda>x. x XOR simple_hash pw) (struct_bytes e (destination_ip q) (destination_port q) pl pad)"
    "length pad = 5" "length pl + 64 < 2 ^ 32" "length (destination_ip q) = 16"
    "query_view h q = Some (destination_ip q, destination_port q, pl)"
    by (rule enc) (use r(1,2) in auto)
  with r show "\<exists>q' h2. sp_client_decode e c' b' h' = Some (q', c', h2) \<and> query_view h2 q' = query_view h q \<and>
        heap_ok h2 \<and> blocks h2 (bss_str b') = None \<and>
        (bss_str (payload q') = NULL \<or>
          brk h' \<le> bss_str (payload q') \<and> blocks h2 (bss_str (payload q')) \<noteq> None) \<and>
        (\<forall>p. p < brk h' \<longrightarrow> p \<noteq> bss_str b' \<longrightarrow> blocks h2 p = blocks h' p)"
    using sp_decode_value[OF r(3) pw(2), of "destination_ip q" pad pl b' e "destination_port q"] by simp
qed

interpretation sp_up: message_codec "sp_client_encode e" "sp_server_decode e" sp_linked sp_private for e
  unfolding sp_server_decode_eq by (rule sp_codec)

interpretation sp_down: message_codec "sp_server_encode e" "sp_client_decode e" sp_linked sp_private for e
  unfolding sp_server_encode_eq by (rule sp_codec)

section \<open>Properties\<close>

text \<open>
  A payload the client puts into a string and encodes with \<open>simple_proxy\<close> is decoded by
  the server, holding the same passphrase, to the same destination address, port and
  payload. No memory error happens on the way on either side, and afterwards the two sides
  can exchange the next message (they still hold the same passphrase in sound heaps).
\<close>

theorem simple_proxy_delivers:
  assumes "sp_linked c h c' h'" "heap_ok h" "heap_ok h'"
    "length ip = 16" "length data + 64 < 2 ^ 32"
  shows "\<exists>pb h0 b h1 w b' h0' q' h2.
    make_binary_safe_string_of data h = Some (pb, h0) \<and>
    client_impl_encode (simple_proxy e) pb c \<lparr>destination_ip = ip, destination_port = port, payload = pb\<rparr> h0 = Some (b, c, h1) \<and>
    bss_bytes h1 b = Some w \<and>
    make_binary_safe_string_of w h' = Some (b', h0') \<and>
    server_impl_decode (simple_proxy e) c' b' h0' = Some (q', c', h2) \<and>
    query_view h2 q' = Some (ip, port, data) \<and>
    sp_linked c h1 c' h2 \<and> heap_ok h1 \<and> heap_ok h2"
  using sp_up.message_delivered[OF assms, of e port]
  by (simp add: client_impl_encode_same server_impl_decode_def simple_proxy_def)

text \<open>
  Connections of both sides with the passphrase \<open>pw\<close> and nothing else in the heap.
\<close>

definition start_heap :: "bytes \<Rightarrow> heap" where
  "start_heap pw = \<lparr>blocks = [1 \<mapsto> pw], brk = 2, fresh_bytes = (\<lambda>p i. of_nat (p + i)), stack_bytes = of_nat\<rparr>"

definition start_conn :: "bytes \<Rightarrow> connect_info" where
  "start_conn pw = \<lparr>server_ip = replicate 16 0, server_port = 0,
     passphrase = \<lparr>null_terminated = False, bss_length = of_nat (length pw), bss_str = 1\<rparr>,
     connect_fd = 3, additional_info = NULL\<rparr>"

theorem simple_proxy_delivers_witness:
  "\<exists>pb h0 b h1 w b' h0' q' h2.
    make_binary_safe_string_of [5, 6] (start_heap [1, 2]) = Some (pb, h0) \<and>
    client_impl_encode (simple_proxy Little_Endian) pb (start_conn [1, 2]) \<lparr>destination_ip = replicate 16 7, destination_port = 80, payload = pb\<rparr> h0 = Some (b, start_conn [1, 2], h1) \<and>
    bss_bytes h1 b = Some w \<and>
    make_binary_safe_string_of w (start_heap [1, 2]) = Some (b', h0') \<and>
    server_impl_decode (simple_proxy Little_Endian) (start_conn [1, 2]) b' h0' = Some (q', start_conn [1, 2], h2) \<and>
    query_view h2 q' = Some (replicate 16 7, 80, [5, 6])"
proof -
  have l: "sp_linked (start_conn [1, 2]) (start_heap [1, 2]) (start_conn [1, 2]) (start_heap [1, 2])"
    by (simp add: sp_linked_def start_conn_def start_heap_def bss_bytes_def load_def)
  have ok: "heap_ok (start_heap [1, 2])" by (simp add: heap_ok_def start_heap_def)
  show ?thesis
    using simple_proxy_delivers[OF l ok ok, of "replicate 16 7" "[5, 6]" Little_Endian 80] by simp blast
qed

text \<open>
  The same in the other direction: what the server encodes for the client is what the
  client decodes.
\<close>

theorem simple_proxy_replies:
  assumes "sp_linked c h c' h'" "heap_ok h" "heap_ok h'"
    "length ip = 16" "length data + 64 < 2 ^ 32"
  shows "\<exists>pb h0 b h1 w b' h0' q' h2.
    make_binary_safe_string_of data h = Some (pb, h0) \<and>
    server_impl_encode (simple_proxy e) c \<lparr>destination_ip = ip, destination_port = port, payload = pb\<rparr> h0 = Some (b, c, h1) \<and>
    bss_bytes h1 b = Some w \<and>
    make_binary_safe_string_of w h' = Some (b', h0') \<and>
    client_impl_decode (simple_proxy e) b' c' h0' = Some (q', c', h2) \<and>
    query_view h2 q' = Some (ip, port, data) \<and>
    sp_linked c h1 c' h2 \<and> heap_ok h1 \<and> heap_ok h2"
  using sp_down.message_delivered[OF assms, of e port]
  by (simp add: server_impl_encode_def client_impl_decode_def simple_proxy_def)

theorem simple_proxy_replies_witness:
  "\<exists>pb h0 b h1 w b' h0' q' h2.
    make_binary_safe_string_of [5, 6] (start_heap [1, 2]) = Some (pb, h0) \<and>
    server_impl_encode (simple_proxy Little_Endian) (start_conn [1, 2]) \<lparr>destination_ip = replicate 16 7, destination_port = 80, payload = pb\<rparr> h0 = Some (b, start_conn [1, 2], h1) \<and>
    bss_bytes h1 b = Some w \<and>
    make_binary_safe_string_of w (start_heap [1, 2]) = Some (b', h0') \<and>
    client_impl_decode (simple_proxy Little_Endian) b' (start_conn [1, 2]) h0' = Some (q', start_conn [1, 2], h2) \<and>
    query_view h2 q' = Some (replicate 16 7, 80, [5, 6])"
proof -
  have l: "sp_linked (start_conn [1, 2]) (start_heap [1, 2]) (start_conn [1, 2]) (start_heap [1, 2])"
    by (simp add: sp_linked_def start_conn_def start_heap_def bss_bytes_def load_def)
  have ok: "heap_ok (start_heap [1, 2])" by (simp add: heap_ok_def start_heap_def)
  show ?thesis
    using simple_proxy_replies[OF l ok ok, of "replicate 16 7" "[5, 6]" Little_Endian 80] by simp blast
qed

text \<open>
  C38: \<open>server_decode\<close> trusts the length field of the message. A message of the right shape
  whose length field exceeds the bytes that follow it makes the server read past the end of
  the received block, which is undefined behaviour.
\<close>

theorem simple_proxy_length_field_unchecked:
  assumes pw: "bss_bytes h (passphrase c) = Some pw" and ok: "heap_ok h"
    and w: "blocks h (bss_str b) = Some w" "unat (bss_length b) = length w" "24 < length w"
    and big: "length w - 24 < unat (word_of_mem e (map (\<lambda>x. x XOR simple_hash pw) (take 4 (drop 20 w))) :: u32)"
  shows "server_impl_decode (simple_proxy e) c b h = None"
proof -
  let ?s = "map (\<lambda>x. x XOR simple_hash pw) w"
  let ?h = "h\<lparr>blocks := (blocks h)(bss_str b \<mapsto> ?s)\<rparr>"
  define len where "len = (word_of_mem e (take 4 (drop 20 ?s)) :: u32)"
  have p: "bss_str b < brk h" using ok w by auto
  have len: "length w - 24 < unat len" using big by (simp add: len_def take_map drop_map)
  then have nz: "len \<noteq> 0" by auto
  have x: "xor_buffer h (bss_str b) (simple_hash pw) [0..<length w] = Some ?h"
    using w by (simp add: xor_buffer_whole)
  have ld: "load ?h (bss_str b) off n = (if off + n \<le> length w then Some (take n (drop off ?s)) else None)" for off n
    by (simp add: load_def)
  have c: "c_memcpy (snd (c_malloc n ?h)) q 0 (bss_str b) 24 (unat len) = None" for n q
    using p len nz w(3) by (auto simp: c_memcpy_def c_malloc_def load_def unat_eq_zero)
  have "\<not> bss_length b \<le> 24" using w by (simp add: word_le_nat_alt)
  then show ?thesis
    using w nz c
    by (simp add: server_impl_decode_def simple_proxy_def sp_server_decode_def bss_hash_Some[OF pw] x ld
        len_def[symmetric] Let_def case_prod_unfold)
qed

text \<open>The five bytes after the length field stand for a payload that claims to be 200 long.\<close>

theorem simple_proxy_length_field_unchecked_witness:
  "server_impl_decode (simple_proxy Little_Endian) (start_conn [])
     \<lparr>null_terminated = False, bss_length = 29, bss_str = 2\<rparr>
     \<lparr>blocks = [2 \<mapsto> replicate 20 0 @ [200, 0, 0, 0] @ replicate 5 0], brk = 3, fresh_bytes = (\<lambda>p i. 0), stack_bytes = (\<lambda>i. 0)\<rparr> = None"
  by (rule simple_proxy_length_field_unchecked[where pw = "[]" and w = "replicate 20 0 @ [200, 0, 0, 0] @ replicate 5 0"])
     (simp_all add: start_conn_def heap_ok_def simple_hash_def word_of_mem_def)

text \<open>
  Authentication of \<open>simple_proxy\<close>. The client sends its passphrase in a new string and
  the server answers every query, whatever it contains, with the byte 1, keeps the
  connection open and releases the query; the client accepts that answer.
\<close>

theorem simple_proxy_auth_accepts_everyone:
  assumes "heap_ok h" "blocks h (bss_str qry) = Some any"
  shows "\<exists>r h'. makeAuthReply (simple_proxy e) c qry h = Some (r, False, c, h') \<and>
    bss_bytes h' r = Some [1] \<and> blocks h' (bss_str qry) = None \<and> heap_ok h' \<and>
    (\<forall>cc len hc p. blocks hc p = Some [1] \<longrightarrow> onAuthReply (simple_proxy e) p len cc hc = Some (True, cc, hc))"
proof -
  have "bss_str qry < brk h" "bss_str qry \<noteq> 0" using assms by auto
  then show ?thesis
    using assms
    by (auto simp: makeAuthReply_def onAuthReply_def simple_proxy_def sp_server_make_auth_reply_def
        sp_client_deal_auth_reply_def c_malloc_def Let_def store_def c_free_def bss_bytes_def load_def heap_ok_def)
qed

theorem simple_proxy_auth_accepts_everyone_witness:
  "\<exists>r h'. makeAuthReply (simple_proxy Little_Endian) (start_conn [1, 2])
     \<lparr>null_terminated = False, bss_length = 2, bss_str = 1\<rparr> (start_heap [9, 9]) = Some (r, False, start_conn [1, 2], h')"
  using simple_proxy_auth_accepts_everyone[of "start_heap [9, 9]" "\<lparr>null_terminated = False, bss_length = 2, bss_str = 1\<rparr>"
      "[9, 9]" Little_Endian "start_conn [1, 2]"]
  by (auto simp: start_heap_def heap_ok_def)

end
