(* ===== verification/Aes_Util.thy ===== *)
theory Aes_Util
  imports Aes_Core C_Heap
begin

text \<open>
  The wrappers \<open>AESEncrypt\<close> and \<open>AESDecrypt\<close> of \<open>src/src/modules/module_util/aes.c\<close> with their two modes, and
  the CBC entry points of \<open>kokke_aes.c\<close>. A buffer argument is the bytes from its pointer to the end
  of its block; the functions return the new contents of the buffers they write, and \<open>None\<close> where
  the C code leaves a buffer. The temporary copies of the key and of the padded text are allocated and
  released inside the functions and are values here.
\<close>

section \<open>Definitions\<close>

definition round_up :: "nat \<Rightarrow> nat \<Rightarrow> nat" where
  "round_up base mult = (base div mult) * mult + mult"

definition round_down :: "nat \<Rightarrow> nat \<Rightarrow> nat" where
  "round_down base mult = (base div mult) * mult"

definition Q_AES_FLAG_FILL :: byte where "Q_AES_FLAG_FILL = 0"
definition Q_AES_FLAG_LESS :: byte where "Q_AES_FLAG_LESS = 1"

text \<open>The key cut or padded with zeros to 16 bytes.\<close>

definition pad_key :: "bytes \<Rightarrow> nat \<Rightarrow> bytes option" where
  "pad_key key keylen =
     (if keylen < 16
      then if keylen \<le> length key then Some (take keylen key @ replicate (16 - keylen) 0) else None
      else if 16 \<le> length key then Some (take 16 key) else None)"

definition AESEncrypt :: "bytes \<Rightarrow> bytes \<Rightarrow> bytes \<Rightarrow> nat \<Rightarrow> nat \<Rightarrow> byte \<Rightarrow> bytes option" where
  "AESEncrypt src key cip srclen keylen flag = do {
     rkey \<leftarrow> pad_key key keylen;
     if flag \<noteq> 0 then
       if srclen \<le> length src \<and> srclen \<le> length cip
       then AES_ECB_encrypt src rkey (overwrite 0 (take srclen src) cip) (of_nat (round_down srclen 16))
       else None
     else
       if srclen \<le> length src then
         let delta = (of_nat (round_up srclen 16 - srclen) :: byte);
             rsrc = replicate (round_up srclen 16) 0;
             rsrc = rsrc[round_up srclen 16 - 1 := delta];
             rsrc = overwrite 0 (take srclen src) rsrc
         in AES_ECB_encrypt rsrc rkey cip (of_nat (round_up srclen 16))
       else None
   }"

definition AESDecrypt :: "bytes \<Rightarrow> bytes \<Rightarrow> bytes \<Rightarrow> nat \<Rightarrow> nat \<Rightarrow> byte \<Rightarrow> (u64 \<times> bytes) option" where
  "AESDecrypt src key result srclen keylen flag = do {
     rkey \<leftarrow> pad_key key keylen;
     if flag \<noteq> 0 then
       if srclen \<le> length src \<and> srclen \<le> length result
       then do {
         result \<leftarrow> AES_ECB_decrypt src rkey (overwrite 0 (take srclen src) result) (of_nat (round_down srclen 16));
         Some (of_nat srclen, result)
       }
       else None
     else do {
       result \<leftarrow> AES_ECB_decrypt src rkey result (of_nat srclen);
       if 0 < srclen \<and> srclen \<le> length result
       then Some (of_nat srclen - scast (result ! (srclen - 1)), result)
       else None
     }
   }"

subsection \<open>CBC\<close>

definition XorWithIv :: "bytes \<Rightarrow> bytes \<Rightarrow> bytes" where
  "XorWithIv buf iv = map2 (\<lambda>x y. x XOR y) (take BLOCKLEN buf) (take BLOCKLEN iv)"

text \<open>
  \<open>key\<close> and \<open>iv\<close> may be null pointers; without a key the round keys stay zero. A key is read
  for \<open>Nk * 4\<close> bytes, so a shorter one is read out of bounds (\<open>None\<close>). The three buffers do not
  overlap.
\<close>

definition cbc_setup :: "bytes option \<Rightarrow> AESPrivData option" where
  "cbc_setup key =
     (let ap = \<lparr>state = replicate BLOCKLEN 0, RoundKey = replicate keyExpSize 0, Key = [], Iv = []\<rparr>
      in case key of
           None \<Rightarrow> Some ap
         | Some k \<Rightarrow> if Nk * 4 \<le> length k then Some (KeyExpansion (ap\<lparr>Key := k\<rparr>)) else None)"

definition in_block :: "nat \<Rightarrow> bytes \<Rightarrow> bool" where
  "in_block off b \<longleftrightarrow> off + BLOCKLEN \<le> length b"

text \<open>\<open>n\<close> blocks from offset \<open>off\<close> on: the initialisation vector, the input (which the encryption changes) and the output.\<close>

fun cbc_encrypt_loop :: "AESPrivData \<Rightarrow> nat \<Rightarrow> nat \<Rightarrow> bytes option \<Rightarrow> bytes \<Rightarrow> bytes \<Rightarrow> (bytes \<times> bytes) option" where
  "cbc_encrypt_loop ap 0 off iv input output = Some (input, output)"
| "cbc_encrypt_loop ap (Suc n) off iv input output =
     (case iv of
        None \<Rightarrow> None
      | Some v \<Rightarrow>
          if in_block off input \<and> in_block off output \<and> BLOCKLEN \<le> length v
          then let x = XorWithIv (drop off input) v;
                   y = state (Cipher (ap\<lparr>state := x\<rparr>))
               in cbc_encrypt_loop ap n (off + BLOCKLEN) (Some y) (overwrite off x input) (overwrite off y output)
          else None)"

fun cbc_decrypt_loop :: "AESPrivData \<Rightarrow> nat \<Rightarrow> nat \<Rightarrow> bytes option \<Rightarrow> bytes \<Rightarrow> bytes \<Rightarrow> bytes option" where
  "cbc_decrypt_loop ap 0 off iv input output = Some output"
| "cbc_decrypt_loop ap (Suc n) off iv input output =
     (case iv of
        None \<Rightarrow> None
      | Some v \<Rightarrow>
          if in_block off input \<and> in_block off output \<and> BLOCKLEN \<le> length v
          then let x = take BLOCKLEN (drop off input);
                   y = XorWithIv (state (InvCipher (ap\<lparr>state := x\<rparr>))) v
               in cbc_decrypt_loop ap n (off + BLOCKLEN) (Some x) input (overwrite off y output)
          else None)"

definition blocks_of :: "nat \<Rightarrow> nat" where
  "blocks_of len = (len + BLOCKLEN - 1) div BLOCKLEN"

text \<open>What is left of an incomplete last block is handled again, one block further on.\<close>

definition cbc_extra :: "(AESPrivData \<Rightarrow> AESPrivData) \<Rightarrow> AESPrivData \<Rightarrow> nat \<Rightarrow> bytes \<Rightarrow> bytes \<Rightarrow> bytes option" where
  "cbc_extra f ap len input output =
     (let extra = len mod BLOCKLEN; off = blocks_of len * BLOCKLEN in
      if extra = 0 then Some output
      else if off + extra \<le> length input \<and> in_block off output
      then let b = overwrite 0 (take extra (drop off input)) (take BLOCKLEN (drop off output))
           in Some (overwrite off (state (f (ap\<lparr>state := b\<rparr>))) output)
      else None)"

definition AES_CBC_encrypt_buffer :: "bytes \<Rightarrow> bytes \<Rightarrow> u32 \<Rightarrow> bytes option \<Rightarrow> bytes option \<Rightarrow> (bytes \<times> bytes) option" where
  "AES_CBC_encrypt_buffer output input len key iv = do {
     ap \<leftarrow> cbc_setup key;
     (input, output) \<leftarrow> cbc_encrypt_loop ap (blocks_of (unat len)) 0 iv input output;
     output \<leftarrow> cbc_extra Cipher ap (unat len) input output;
     Some (input, output)
   }"

definition AES_CBC_decrypt_buffer :: "bytes \<Rightarrow> bytes \<Rightarrow> u32 \<Rightarrow> bytes option \<Rightarrow> bytes option \<Rightarrow> bytes option" where
  "AES_CBC_decrypt_buffer output input len key iv = do {
     ap \<leftarrow> cbc_setup key;
     output \<leftarrow> cbc_decrypt_loop ap (blocks_of (unat len)) 0 iv input output;
     cbc_extra InvCipher ap (unat len) input output
   }"

section \<open>Laws\<close>

lemma round_up_gt: "0 < m \<Longrightarrow> n < round_up n m" "0 < m \<Longrightarrow> round_up n m \<le> n + m"
proof -
  assume m: "0 < m"
  have "n = (n div m) * m + n mod m" "n mod m < m" using m by simp_all
  then show "n < round_up n m" "round_up n m \<le> n + m" unfolding round_up_def by linarith+
qed

lemma pad_key_Some: "min 16 keylen \<le> length key \<Longrightarrow> \<exists>k. pad_key key keylen = Some k \<and> length k = 16"
  by (auto simp: pad_key_def)

text \<open>The padded text: zeros, the number of padding bytes last.\<close>

lemma padded_text:
  assumes "srclen \<le> length src" "n = round_up srclen 16"
  shows "length (overwrite 0 (take srclen src) ((replicate n 0)[n - 1 := d])) = n"
    "take srclen (overwrite 0 (take srclen src) ((replicate n 0)[n - 1 := d])) = take srclen src"
    "overwrite 0 (take srclen src) ((replicate n 0)[n - 1 := d]) ! (n - 1) = d"
proof -
  have n: "srclen < n" using assms(2) round_up_gt(1)[of 16 srclen] by simp
  then show "length (overwrite 0 (take srclen src) ((replicate n 0)[n - 1 := d])) = n"
    "take srclen (overwrite 0 (take srclen src) ((replicate n 0)[n - 1 := d])) = take srclen src"
    using assms(1) by (simp_all add: overwrite_def)
  show "overwrite 0 (take srclen src) ((replicate n 0)[n - 1 := d]) ! (n - 1) = d"
  proof -
    have "\<not> n - Suc 0 < srclen" using n by linarith
    then show ?thesis using n assms(1) by (simp add: overwrite_def nth_append)
  qed
qed

text \<open>Encryption in fill mode, and what its decryption gives back.\<close>

lemma AESEncrypt_fill:
  assumes "srclen \<le> length src" "min 16 keylen \<le> length key" "srclen + 16 < 2 ^ 32" "round_up srclen 16 \<le> length cip"
  shows "\<exists>c. AESEncrypt src key cip srclen keylen Q_AES_FLAG_FILL = Some c \<and> length c = length cip \<and>
    (\<forall>result. round_up srclen 16 \<le> length result \<longrightarrow>
      (\<exists>r. AESDecrypt c key result (round_up srclen 16) keylen Q_AES_FLAG_FILL = Some (of_nat srclen, r) \<and>
           length r = length result \<and> take srclen r = take srclen src))"
proof -
  let ?n = "round_up srclen 16"
  let ?d = "of_nat (?n - srclen) :: byte"
  let ?t = "overwrite 0 (take srclen src) ((replicate ?n 0)[?n - 1 := ?d])"
  note pt = padded_text[OF assms(1) refl, of ?d]
  have n: "srclen < ?n" "?n \<le> srclen + 16" "16 \<le> ?n" using round_up_gt[of 16 srclen] by (simp_all add: round_up_def)
  have un: "unat (of_nat ?n :: u32) = ?n" using n(2) assms(3) by (simp add: unat_of_nat)
  obtain k where k: "pad_key key keylen = Some k" "length k = 16" using pad_key_Some[OF assms(2)] by blast
  have ok: "ecb_buffers_ok ?t k cip (of_nat ?n)"
    using pt(1) un k(2) n(3) assms(4) by (simp add: ecb_buffers_ok_def BLOCKLEN_def Nk_def)
  then obtain c where c: "AES_ECB_encrypt ?t k cip (of_nat ?n) = Some c" by (auto simp: AES_ECB_encrypt_def Let_def)
  have lc: "length c = length cip" using length_AES_ECB_encrypt[OF c] .
  have e: "AESEncrypt src key cip srclen keylen Q_AES_FLAG_FILL = Some c"
    using c k(1) assms(1) by (simp add: AESEncrypt_def Q_AES_FLAG_FILL_def Let_def)
  have "\<exists>r. AESDecrypt c key result ?n keylen Q_AES_FLAG_FILL = Some (of_nat srclen, r) \<and>
      length r = length result \<and> take srclen r = take srclen src" if r: "?n \<le> length result" for result
  proof -
    have "ecb_buffers_ok c k result (of_nat ?n)" "BLOCKLEN \<le> unat (of_nat ?n :: u32)"
      using lc assms(4) un k(2) n(3) r by (simp_all add: ecb_buffers_ok_def BLOCKLEN_def Nk_def)
    from ecb_decrypt_encrypt[OF c this] have d: "AES_ECB_decrypt c k result (of_nat ?n) = Some (?t @ drop ?n result)"
      using un pt(1) by simp
    have l: "(?t @ drop ?n result) ! (?n - 1) = ?d" using pt(1,3) n(1) by (simp add: nth_append)
    have "?n - srclen < 128" using n by simp
    then have "(scast ?d :: u64) = of_nat (?n - srclen)"
      by (intro word_unat_eq_iff[THEN iffD2]) (simp add: unat_scast_byte unat_of_nat)
    then have "(of_nat ?n - scast ?d :: u64) = of_nat srclen" using n(1) by (simp add: of_nat_diff)
    moreover have "take srclen (?t @ drop ?n result) = take srclen src" "length (?t @ drop ?n result) = length result"
      using pt(1,2) n(1) r by simp_all
    moreover have "?n \<le> length (?t @ drop ?n result)" "0 < ?n" using pt(1) n(1) by simp_all
    ultimately show ?thesis using d k(1) l by (simp add: AESDecrypt_def Q_AES_FLAG_FILL_def)
  qed
  with e lc show ?thesis by blast
qed

lemma xor_iv_twice:
  assumes "length x = BLOCKLEN" "BLOCKLEN \<le> length v"
  shows "XorWithIv (XorWithIv x v) v = x" "length (XorWithIv x v) = BLOCKLEN"
proof -
  show l: "length (XorWithIv x v) = BLOCKLEN" using assms by (simp add: XorWithIv_def)
  show "XorWithIv (XorWithIv x v) v = x"
    using assms l by (intro nth_equalityI) (simp_all add: XorWithIv_def xor.assoc)
qed

lemma overwrite_block:
  assumes "in_block off b" "length y = BLOCKLEN"
  shows "take off (overwrite off y b) = take off b" "take BLOCKLEN (drop off (overwrite off y b)) = y"
    "drop (off + BLOCKLEN) (overwrite off y b) = drop (off + BLOCKLEN) b" "length (overwrite off y b) = length b"
    "take (off + BLOCKLEN) (overwrite off y b) = take off b @ y"
proof -
  have l: "length (take off b) = off" using assms(1) by (simp add: in_block_def)
  show "take off (overwrite off y b) = take off b" "take BLOCKLEN (drop off (overwrite off y b)) = y"
    "drop (off + BLOCKLEN) (overwrite off y b) = drop (off + BLOCKLEN) b" "length (overwrite off y b) = length b"
    "take (off + BLOCKLEN) (overwrite off y b) = take off b @ y"
    using assms l by (simp_all add: overwrite_def in_block_def)
qed

lemma cbc_block_inverse:
  assumes "length x = BLOCKLEN"
  shows "state (InvCipher (ap\<lparr>state := state (Cipher (ap\<lparr>state := x\<rparr>))\<rparr>)) = x" "length (state (Cipher (ap\<lparr>state := x\<rparr>))) = BLOCKLEN"
proof -
  have ok: "aes_ok (ap\<lparr>state := x\<rparr>)" using assms by (simp add: aes_ok_def)
  have eq: "ap\<lparr>state := state (Cipher (ap\<lparr>state := x\<rparr>))\<rparr> = Cipher (ap\<lparr>state := x\<rparr>)"
    by (intro AESPrivData.equality) simp_all
  show "state (InvCipher (ap\<lparr>state := state (Cipher (ap\<lparr>state := x\<rparr>))\<rparr>)) = x"
    by (subst eq) (simp add: InvCipher_Cipher[OF ok])
  show "length (state (Cipher (ap\<lparr>state := x\<rparr>))) = BLOCKLEN" using ok by simp
qed

lemma cbc_encrypt_loop_prefix:
  "cbc_encrypt_loop ap n off iv input output = Some (i', o') \<Longrightarrow>
   take off o' = take off output \<and> length o' = length output"
proof (induction n arbitrary: off iv input "output")
  case (Suc n)
  from Suc.prems obtain v where v: "iv = Some v" "in_block off input" "in_block off output" "BLOCKLEN \<le> length v"
    by (auto split: option.splits if_splits)
  let ?x = "XorWithIv (drop off input) v"
  let ?y = "state (Cipher (ap\<lparr>state := ?x\<rparr>))"
  have lx: "length ?x = BLOCKLEN" using v(2,4) by (simp add: XorWithIv_def in_block_def)
  note ly = cbc_block_inverse(2)[OF lx, of ap]
  have run: "cbc_encrypt_loop ap n (off + BLOCKLEN) (Some ?y) (overwrite off ?x input) (overwrite off ?y output) = Some (i', o')"
    using Suc.prems v by (simp add: Let_def)
  note ob = overwrite_block[OF v(3) ly]
  from Suc.IH[OF run] have "take (off + BLOCKLEN) o' = take off output @ ?y" "length o' = length output"
    using ob(4,5) by simp_all
  then have "take off (take (off + BLOCKLEN) o') = take off output" using v(3) by (simp add: in_block_def)
  then show ?case using \<open>length o' = length output\<close> by (simp add: min_def)
qed simp

lemma cbc_loops:
  assumes "off + n * BLOCKLEN \<le> length input" "off + n * BLOCKLEN \<le> length output" "off + n * BLOCKLEN \<le> length out2" "BLOCKLEN \<le> length v"
  shows "\<exists>i' c. cbc_encrypt_loop ap n off (Some v) input output = Some (i', c) \<and> length c = length output \<and>
    (\<exists>p. cbc_decrypt_loop ap n off (Some v) c out2 = Some p \<and> take off p = take off out2 \<and>
       take (n * BLOCKLEN) (drop off p) = take (n * BLOCKLEN) (drop off input) \<and> length p = length out2)"
  using assms
proof (induction n arbitrary: off v input "output" out2)
  case 0
  then show ?case by simp
next
  case (Suc n)
  let ?x = "XorWithIv (drop off input) v" and ?in = "take BLOCKLEN (drop off input)"
  let ?y = "state (Cipher (ap\<lparr>state := ?x\<rparr>))"
  have ib: "in_block off input" "in_block off output" "in_block off out2" using Suc.prems by (simp_all add: in_block_def)
  have lx: "length ?x = BLOCKLEN" and li: "length ?in = BLOCKLEN"
    using ib(1) Suc.prems(4) by (simp_all add: XorWithIv_def in_block_def)
  note y = cbc_block_inverse[OF lx, of ap]
  note oi = overwrite_block[OF ib(1) lx] and oo = overwrite_block[OF ib(2) y(2)] and o2 = overwrite_block[OF ib(3) li]
  have "\<exists>i' c. cbc_encrypt_loop ap n (off + BLOCKLEN) (Some ?y) (overwrite off ?x input) (overwrite off ?y output) = Some (i', c) \<and>
    length c = length (overwrite off ?y output) \<and>
    (\<exists>p. cbc_decrypt_loop ap n (off + BLOCKLEN) (Some ?y) c (overwrite off ?in out2) = Some p \<and>
       take (off + BLOCKLEN) p = take (off + BLOCKLEN) (overwrite off ?in out2) \<and>
       take (n * BLOCKLEN) (drop (off + BLOCKLEN) p) = take (n * BLOCKLEN) (drop (off + BLOCKLEN) (overwrite off ?x input)) \<and>
       length p = length (overwrite off ?in out2))"
    using Suc.prems oi(4) oo(4) o2(4) y(2) by (intro Suc.IH) (simp_all add: algebra_simps)
  then obtain i' c p where r: "cbc_encrypt_loop ap n (off + BLOCKLEN) (Some ?y) (overwrite off ?x input) (overwrite off ?y output) = Some (i', c)"
    "length c = length output"
    "cbc_decrypt_loop ap n (off + BLOCKLEN) (Some ?y) c (overwrite off ?in out2) = Some p"
    "take (off + BLOCKLEN) p = take off out2 @ ?in"
    "take (n * BLOCKLEN) (drop (off + BLOCKLEN) p) = take (n * BLOCKLEN) (drop (off + BLOCKLEN) input)" "length p = length out2"
    using oi(3) oo(4) o2(4,5) by auto
  have enc: "cbc_encrypt_loop ap (Suc n) off (Some v) input output = Some (i', c)"
    using r(1) ib Suc.prems(4) by (simp add: Let_def)
  have "take (off + BLOCKLEN) c = take off output @ ?y" using cbc_encrypt_loop_prefix[OF r(1)] oo(5) by simp
  then have cb: "take BLOCKLEN (drop off c) = ?y"
    using ib(2) r(2) by (metis (no_types, lifting) add.commute append_eq_conv_conj drop_take diff_add_inverse2 in_block_def length_take min.absorb2 add_leD1)
  have "XorWithIv ?x v = ?in"
    using xor_iv_twice(1)[OF li Suc.prems(4)] by (simp add: XorWithIv_def)
  then have dec: "cbc_decrypt_loop ap (Suc n) off (Some v) c out2 = Some p"
    using r(2,3) cb y(1) ib Suc.prems(4) by (simp add: Let_def in_block_def)
  have "take off p = take off out2" "take BLOCKLEN (drop off p) = ?in"
    using arg_cong[OF r(4), of "take off"] arg_cong[OF r(4), of "drop off"] ib(3)
    by (simp_all add: in_block_def drop_take)
  moreover have "take (Suc n * BLOCKLEN) (drop off q) = take BLOCKLEN (drop off q) @ take (n * BLOCKLEN) (drop (off + BLOCKLEN) q)" for q :: bytes
    by (simp add: take_add add.commute)
  ultimately show ?case using enc dec r(2,5,6) by auto
qed

section \<open>Properties\<close>

text \<open>
  C30: CBC. For a text of whole blocks, \<open>AES_CBC_decrypt_buffer\<close> gives back what \<open>AES_CBC_encrypt_buffer\<close> was given,
  under every key and initialisation vector of at least 16 bytes, and both stay inside their
  buffers, which are as long as the text and do not overlap. (The encryption also
  changes its input buffer, which is why the decrypted text is compared with the input as it was.)
\<close>

theorem aes_cbc_round_trip:
  assumes "unat len mod 16 = 0" "unat len \<le> length input" "unat len \<le> length output" "unat len \<le> length out2"
    "16 \<le> length v" "16 \<le> length key"
  shows "\<exists>i' c p. AES_CBC_encrypt_buffer output input len (Some key) (Some v) = Some (i', c) \<and>
    AES_CBC_decrypt_buffer out2 c len (Some key) (Some v) = Some p \<and> take (unat len) p = take (unat len) input"
proof -
  have n: "blocks_of (unat len) * BLOCKLEN = unat len" "unat len mod BLOCKLEN = 0"
    using assms(1) unfolding blocks_of_def BLOCKLEN_def by presburger+
  obtain ap where ap: "cbc_setup (Some key) = Some ap"
    using assms(6) by (simp add: cbc_setup_def Nk_def)
  have "\<exists>i' c. cbc_encrypt_loop ap (blocks_of (unat len)) 0 (Some v) input output = Some (i', c) \<and> length c = length output \<and>
    (\<exists>p. cbc_decrypt_loop ap (blocks_of (unat len)) 0 (Some v) c out2 = Some p \<and> take 0 p = take 0 out2 \<and>
       take (blocks_of (unat len) * BLOCKLEN) (drop 0 p) = take (blocks_of (unat len) * BLOCKLEN) (drop 0 input) \<and> length p = length out2)"
    by (rule cbc_loops) (use assms n in \<open>simp_all add: BLOCKLEN_def\<close>)
  then show ?thesis
    using n ap by (auto simp: AES_CBC_encrypt_buffer_def AES_CBC_decrypt_buffer_def cbc_extra_def)
qed

theorem aes_cbc_round_trip_witness:
  "\<exists>i' c p. AES_CBC_encrypt_buffer (replicate 32 0) (map of_nat [0..<32]) 32 (Some (replicate 16 1)) (Some (replicate 16 2)) = Some (i', c) \<and>
    AES_CBC_decrypt_buffer (replicate 32 0) c 32 (Some (replicate 16 1)) (Some (replicate 16 2)) = Some p \<and> take 32 p = map of_nat [0..<32]"
  using aes_cbc_round_trip[of 32 "map of_nat [0..<32]" "replicate 32 0" "replicate 32 0" "replicate 16 2" "replicate 16 1"] by simp

end
