(* ===== verification/Se_Proxy.thy ===== *)
theory Se_Proxy
  imports Simple_Proxy Aes_Util
begin

text \<open>
  The module \<open>se_proxy\<close> (\<open>src/src/modules/se_proxy/se_proxy.c\<close>), definitions prefixed \<open>se_\<close>. The client proves
  that it knows the passphrase by sending a constant encrypted with it; the server answers with a
  random number encrypted the same way, and the text \<open>_<number>\<close> becomes the session key both sides keep
  in a block behind \<open>additional_info\<close>: a \<open>size_t\<close> with its length, and the key from offset 8 on. Messages are
  the struct of \<open>simple_proxy\<close> encrypted with \<open>AESEncrypt\<close> in fill mode. The value of \<open>rand()\<close> is an
  argument, as is the host's byte order.
\<close>

section \<open>Definitions\<close>

definition AUTH_STR :: bytes where "AUTH_STR = bytes_of_string ''SE_PROXYv1''"
definition MAGIC_STR :: bytes where "MAGIC_STR = bytes_of_string ''SE_MAGIC''"
definition EXCEEDING_SIZE :: nat where "EXCEEDING_SIZE = 512"

definition sizeof_sym_passphrase :: nat where "sizeof_sym_passphrase = 16"

text \<open>The bytes from a pointer to the end of its block; a key of length zero is not read.\<close>

definition bytes_from :: "heap \<Rightarrow> ptr \<Rightarrow> nat \<Rightarrow> bytes option" where
  "bytes_from h p off =
     (case blocks h p of None \<Rightarrow> None | Some b \<Rightarrow> if off \<le> length b then Some (drop off b) else None)"

definition key_from :: "heap \<Rightarrow> ptr \<Rightarrow> nat \<Rightarrow> nat \<Rightarrow> bytes option" where
  "key_from h p off keylen = (if keylen = 0 then Some [] else bytes_from h p off)"

definition aes_encrypt_into :: "heap \<Rightarrow> bytes \<Rightarrow> bytes \<Rightarrow> ptr \<Rightarrow> nat \<Rightarrow> nat \<Rightarrow> heap option" where
  "aes_encrypt_into h src key cip srclen keylen = do {
     b \<leftarrow> blocks h cip;
     c \<leftarrow> AESEncrypt src key b srclen keylen Q_AES_FLAG_FILL;
     Some (h\<lparr>blocks := (blocks h)(cip \<mapsto> c)\<rparr>)
   }"

definition aes_decrypt_into :: "heap \<Rightarrow> bytes \<Rightarrow> bytes \<Rightarrow> ptr \<Rightarrow> nat \<Rightarrow> nat \<Rightarrow> (u64 \<times> heap) option" where
  "aes_decrypt_into h src key result srclen keylen = do {
     b \<leftarrow> blocks h result;
     (n, r) \<leftarrow> AESDecrypt src key b srclen keylen Q_AES_FLAG_FILL;
     Some (n, h\<lparr>blocks := (blocks h)(result \<mapsto> r)\<rparr>)
   }"

text \<open>\<open>strncmp(b, lit, n) == 0\<close> for a literal of \<open>n\<close> characters: it stops at the first difference.\<close>

fun strncmp_eq :: "bytes \<Rightarrow> bytes \<Rightarrow> bool option" where
  "strncmp_eq b [] = Some True"
| "strncmp_eq [] (c # cs) = None"
| "strncmp_eq (x # xs) (c # cs) = (if x \<noteq> c then Some False else strncmp_eq xs cs)"

text \<open>\<open>a\<close> is the memory from the pointer on; \<open>alen\<close> bytes of it are compared.\<close>

definition strfullcmp :: "bytes \<Rightarrow> bytes \<Rightarrow> u64 \<Rightarrow> nat \<Rightarrow> bool option" where
  "strfullcmp a b alen blen = (if unat alen \<noteq> blen then Some False else strncmp_eq a (take blen b))"

definition se_client_make_auth_query :: "connect_info \<Rightarrow> heap \<Rightarrow> (binary_safe_string \<times> connect_info \<times> heap) option" where
  "se_client_make_auth_query conn h =
     (let conn = conn\<lparr>additional_info := NULL\<rparr>;
          len = round_up (length AUTH_STR) 16;
          (str, h) = c_malloc len h
      in do {
        h \<leftarrow> store h str 0 (replicate len 0);
        key \<leftarrow> key_from h (bss_str (passphrase conn)) 0 (unat (bss_length (passphrase conn)));
        h \<leftarrow> aes_encrypt_into h AUTH_STR key str (length AUTH_STR) (unat (bss_length (passphrase conn)));
        Some (\<lparr>null_terminated = False, bss_length = of_nat len, bss_str = str\<rparr>, conn, h)
      })"

definition se_client_deal_auth_reply ::
  "endian \<Rightarrow> connect_info \<Rightarrow> binary_safe_string \<Rightarrow> heap \<Rightarrow> (bool \<times> connect_info \<times> heap) option" where
  "se_client_deal_auth_reply e conn server_reply h =
     (let (result, h) = c_malloc (unat (bss_length server_reply)) h
      in do {
        src \<leftarrow> bytes_from h (bss_str server_reply) 0;
        key \<leftarrow> key_from h (bss_str (passphrase conn)) 0 (unat (bss_length (passphrase conn)));
        (rlen, h) \<leftarrow> aes_decrypt_into h src key result (unat (bss_length server_reply)) (unat (bss_length (passphrase conn)));
        text \<leftarrow> bytes_from h result 0;
        same \<leftarrow> strncmp_eq text MAGIC_STR;
        if \<not> same then Some (False, conn, h)
        else do {
          let tmplen = rlen - of_nat (length MAGIC_STR);
          let size = (of_nat sizeof_sym_passphrase + tmplen :: u64);
          let (info, h) = c_malloc (unat size) h;
          h \<leftarrow> store h info 0 (replicate (unat size) 0);
          h \<leftarrow> store h info 0 (mem_of_word e 8 tmplen);
          h \<leftarrow> c_memcpy h info 8 result (length MAGIC_STR) (unat tmplen);
          Some (True, conn\<lparr>additional_info := info\<rparr>, h)
        }
      })"

text \<open>The session key behind \<open>additional_info\<close>: its length and the memory it starts at.\<close>

definition session_key :: "endian \<Rightarrow> heap \<Rightarrow> connect_info \<Rightarrow> (nat \<times> bytes) option" where
  "session_key e h conn = do {
     n \<leftarrow> load h (additional_info conn) 0 8;
     let pwlen = unat (word_of_mem e n :: u64);
     key \<leftarrow> key_from h (additional_info conn) 8 pwlen;
     Some (pwlen, key)
   }"

definition se_client_encode :: "endian \<Rightarrow> connect_info \<Rightarrow> client_query \<Rightarrow> heap \<Rightarrow> (binary_safe_string \<times> connect_info \<times> heap) option" where
  "se_client_encode e conn q h =
     (let overall_size = sizeof_data_struct + unat (bss_length (payload q)) - 1;
          (data, h) = c_malloc overall_size h
      in do {
        h \<leftarrow> store h data 0 (destination_ip q);
        h \<leftarrow> store h data 16 (mem_of_word e 2 (destination_port q));
        h \<leftarrow> store h data 20 (mem_of_word e 4 (bss_length (payload q)));
        h \<leftarrow> (if bss_length (payload q) \<noteq> 0
              then c_memcpy h data 24 (bss_str (payload q)) 0 (unat (bss_length (payload q)))
              else Some h);
        let (encresult, h) = c_malloc (round_up overall_size 16) h;
        h \<leftarrow> store h encresult 0 (replicate (round_up overall_size 16) 0);
        src \<leftarrow> bytes_from h data 0;
        (pwlen, key) \<leftarrow> session_key e h conn;
        h \<leftarrow> aes_encrypt_into h src key encresult overall_size pwlen;
        h \<leftarrow> c_free data h;
        h \<leftarrow> c_free (bss_str (payload q)) h;
        Some (\<lparr>null_terminated = False, bss_length = of_nat (round_up overall_size 16), bss_str = encresult\<rparr>, conn, h)
      })"

definition se_client_decode :: "endian \<Rightarrow> connect_info \<Rightarrow> binary_safe_string \<Rightarrow> heap \<Rightarrow> (client_query \<times> connect_info \<times> heap) option" where
  "se_client_decode e conn data h =
     (let (tmpresult, h) = c_malloc (unat (bss_length data)) h
      in do {
        src \<leftarrow> bytes_from h (bss_str data) 0;
        (pwlen, key) \<leftarrow> session_key e h conn;
        (n, h) \<leftarrow> aes_decrypt_into h src key tmpresult (unat (bss_length data)) pwlen;
        h \<leftarrow> c_free (bss_str data) h;
        let query = uninitialised_query e h;
        let len = (ucast n :: u32);
        if len \<le> 24 then do {
          h \<leftarrow> c_free tmpresult h;
          Some (query, conn, h)
        } else do {
          ip \<leftarrow> load h tmpresult 0 16;
          port \<leftarrow> load h tmpresult 16 2;
          plsz \<leftarrow> load h tmpresult 20 4;
          let len = (word_of_mem e plsz :: u32);
          (str, h) \<leftarrow> (if len \<noteq> 0 then
              (let (p, h) = c_malloc (unat len) h
               in map_option (Pair p) (c_memcpy h p 0 tmpresult 24 (unat len)))
            else Some (NULL, h));
          h \<leftarrow> c_free tmpresult h;
          Some (\<lparr>destination_ip = ip, destination_port = word_of_mem e port,
                 payload = \<lparr>null_terminated = False, bss_length = len, bss_str = str\<rparr>\<rparr>, conn, h)
        }
      })"

text \<open>The text \<open>sprintf\<close> makes of the random number, as bytes.\<close>

definition rnd_text :: "int \<Rightarrow> bytes" where
  "rnd_text rnd = bytes_of_string (''_'' @ int_to_string rnd)"

definition se_server_make_auth_reply ::
  "endian \<Rightarrow> int \<Rightarrow> connect_info \<Rightarrow> binary_safe_string \<Rightarrow> heap \<Rightarrow> (binary_safe_string \<times> bool \<times> connect_info \<times> heap) option" where
  "se_server_make_auth_reply e rnd conn data h =
     (let (request, h) = c_malloc (unat (bss_length data)) h
      in do {
        src \<leftarrow> bytes_from h (bss_str data) 0;
        key \<leftarrow> key_from h (bss_str (passphrase conn)) 0 (unat (bss_length (passphrase conn)));
        (rlen, h) \<leftarrow> aes_decrypt_into h src key request (unat (bss_length data)) (unat (bss_length (passphrase conn)));
        text \<leftarrow> bytes_from h request 0;
        same \<leftarrow> strfullcmp text AUTH_STR rlen (length AUTH_STR);
        if \<not> same then do {
          h \<leftarrow> c_free (bss_str data) h;
          let (str, h) = c_malloc 1 h;
          h \<leftarrow> store h str 0 [1];
          Some (\<lparr>null_terminated = False, bss_length = 1, bss_str = str\<rparr>, True, conn, h)
        } else do {
          let (tmpenc, h) = c_malloc EXCEEDING_SIZE h;
          let text = MAGIC_STR @ rnd_text rnd;
          h \<leftarrow> store h tmpenc 0 (text @ [0]);
          let tmpenl = length text;
          let (str, h) = c_malloc (round_up tmpenl 16) h;
          src \<leftarrow> bytes_from h tmpenc 0;
          h \<leftarrow> aes_encrypt_into h src key str tmpenl (unat (bss_length (passphrase conn)));
          let (info, h) = c_malloc EXCEEDING_SIZE h;
          h \<leftarrow> store h info 0 (replicate EXCEEDING_SIZE 0);
          h \<leftarrow> store h info 8 (rnd_text rnd @ [0]);
          h \<leftarrow> store h info 0 (mem_of_word e 8 (of_nat (length (rnd_text rnd)) :: u64));
          h \<leftarrow> c_free (bss_str data) h;
          Some (\<lparr>null_terminated = False, bss_length = of_nat (round_up tmpenl 16), bss_str = str\<rparr>, False,
                conn\<lparr>additional_info := info\<rparr>, h)
        }
      })"

definition se_server_encode :: "endian \<Rightarrow> connect_info \<Rightarrow> client_query \<Rightarrow> heap \<Rightarrow> (binary_safe_string \<times> connect_info \<times> heap) option" where
  "se_server_encode e conn q h =
     (let overall_size = sizeof_data_struct + unat (bss_length (payload q)) - 1;
          (data, h) = c_malloc overall_size h
      in do {
        h \<leftarrow> store h data 0 (destination_ip q);
        h \<leftarrow> store h data 16 (mem_of_word e 2 (destination_port q));
        h \<leftarrow> store h data 20 (mem_of_word e 4 (bss_length (payload q)));
        h \<leftarrow> (if bss_length (payload q) \<noteq> 0
              then c_memcpy h data 24 (bss_str (payload q)) 0 (unat (bss_length (payload q)))
              else Some h);
        let (encresult, h) = c_malloc (round_up overall_size 16) h;
        h \<leftarrow> store h encresult 0 (replicate (round_up overall_size 16) 0);
        src \<leftarrow> bytes_from h data 0;
        (pwlen, key) \<leftarrow> session_key e h conn;
        h \<leftarrow> aes_encrypt_into h src key encresult overall_size pwlen;
        h \<leftarrow> c_free data h;
        h \<leftarrow> c_free (bss_str (payload q)) h;
        Some (\<lparr>null_terminated = False, bss_length = of_nat (round_up overall_size 16), bss_str = encresult\<rparr>, conn, h)
      })"

definition se_server_decode :: "endian \<Rightarrow> connect_info \<Rightarrow> binary_safe_string \<Rightarrow> heap \<Rightarrow> (client_query \<times> connect_info \<times> heap) option" where
  "se_server_decode e conn data h =
     (let (tmpresult, h) = c_malloc (unat (bss_length data)) h
      in do {
        src \<leftarrow> bytes_from h (bss_str data) 0;
        (pwlen, key) \<leftarrow> session_key e h conn;
        (n, h) \<leftarrow> aes_decrypt_into h src key tmpresult (unat (bss_length data)) pwlen;
        h \<leftarrow> c_free (bss_str data) h;
        let query = uninitialised_query e h;
        let len = (ucast n :: u32);
        if len \<le> 24 then do {
          h \<leftarrow> c_free tmpresult h;
          Some (query, conn, h)
        } else do {
          ip \<leftarrow> load h tmpresult 0 16;
          port \<leftarrow> load h tmpresult 16 2;
          plsz \<leftarrow> load h tmpresult 20 4;
          let len = (word_of_mem e plsz :: u32);
          (str, h) \<leftarrow> (if len \<noteq> 0 then
              (let (p, h) = c_malloc (unat len) h
               in map_option (Pair p) (c_memcpy h p 0 tmpresult 24 (unat len)))
            else Some (NULL, h));
          h \<leftarrow> c_free tmpresult h;
          Some (\<lparr>destination_ip = ip, destination_port = word_of_mem e port,
                 payload = \<lparr>null_terminated = False, bss_length = len, bss_str = str\<rparr>\<rparr>, conn, h)
        }
      })"

definition se_client_connection_close :: "connect_info \<Rightarrow> heap \<Rightarrow> (connect_info \<times> heap) option" where
  "se_client_connection_close conn h =
     (if additional_info conn \<noteq> NULL then map_option (Pair conn) (c_free (additional_info conn) h) else Some (conn, h))"

definition se_server_connection_close :: "connect_info \<Rightarrow> heap \<Rightarrow> (connect_info \<times> heap) option" where
  "se_server_connection_close conn h =
     (if additional_info conn \<noteq> NULL then map_option (Pair conn) (c_free (additional_info conn) h) else Some (conn, h))"

definition se_proxy :: "endian \<Rightarrow> int \<Rightarrow> snake_module" where
  "se_proxy e rnd =
     \<lparr>f_client_make_auth_query = se_client_make_auth_query,
      f_client_deal_auth_reply = se_client_deal_auth_reply e,
      f_client_encode = se_client_encode e,
      f_client_decode = se_client_decode e,
      f_client_connection_close = se_client_connection_close,
      f_server_make_auth_reply = se_server_make_auth_reply e rnd,
      f_server_encode = se_server_encode e,
      f_server_decode = se_server_decode e,
      f_server_connection_close = se_server_connection_close\<rparr>"

section \<open>Laws\<close>

lemma se_server_encode_eq: "se_server_encode = se_client_encode"
  unfolding se_server_encode_def se_client_encode_def by (rule refl)

lemma se_server_decode_eq: "se_server_decode = se_client_decode"
  unfolding se_server_decode_def se_client_decode_def by (rule refl)

text \<open>Only the first \<open>keylen\<close> bytes of the memory behind the key matter.\<close>

lemma pad_key_take: "keylen \<le> length key \<Longrightarrow> pad_key key keylen = pad_key (take keylen key) keylen"
  by (simp add: pad_key_def)

lemma AES_key_take:
  assumes "keylen \<le> length key"
  shows "AESEncrypt src key cip srclen keylen flag = AESEncrypt src (take keylen key) cip srclen keylen flag"
    "AESDecrypt src key result srclen keylen flag = AESDecrypt src (take keylen key) result srclen keylen flag"
  unfolding AESEncrypt_def AESDecrypt_def pad_key_take[OF assms] by (rule refl)+

text \<open>The session key a connection holds, and what it means for the two sides to share one.\<close>

definition se_private :: "connect_info \<Rightarrow> ptr \<Rightarrow> bool" where
  "se_private c p \<longleftrightarrow> p = additional_info c"

definition has_session_key :: "endian \<Rightarrow> heap \<Rightarrow> connect_info \<Rightarrow> bytes \<Rightarrow> bool" where
  "has_session_key e h c k \<longleftrightarrow>
     (\<exists>r. session_key e h c = Some (length k, r) \<and> length k \<le> length r \<and> k = take (length k) r)"

definition se_linked :: "endian \<Rightarrow> connect_info \<Rightarrow> heap \<Rightarrow> connect_info \<Rightarrow> heap \<Rightarrow> bool" where
  "se_linked e c h c' h' \<longleftrightarrow> (\<exists>k. has_session_key e h c k \<and> has_session_key e h' c' k)"

lemma session_key_frame:
  "blocks g (additional_info c) = blocks h (additional_info c) \<Longrightarrow> session_key e g c = session_key e h c"
proof -
  assume "blocks g (additional_info c) = blocks h (additional_info c)"
  then have "load g (additional_info c) = load h (additional_info c)" "bytes_from g (additional_info c) = bytes_from h (additional_info c)"
    by (intro ext; simp add: load_def bytes_from_def)+
  then show ?thesis by (simp add: session_key_def key_from_def cong: if_cong)
qed

lemma has_session_key_frame:
  "blocks g (additional_info c) = blocks h (additional_info c) \<Longrightarrow> has_session_key e g c k = has_session_key e h c k"
  by (simp add: has_session_key_def session_key_frame[of g c h])

lemma has_session_key_block: "has_session_key e h c k \<Longrightarrow> blocks h (additional_info c) \<noteq> None"
  by (auto simp: has_session_key_def session_key_def load_def split: option.splits)

text \<open>Encryption under a session key, into a buffer of the right size.\<close>

definition fill_cipher :: "bytes \<Rightarrow> bytes \<Rightarrow> bytes \<Rightarrow> bool" where
  "fill_cipher k s w \<longleftrightarrow> length w = round_up (length s) 16 \<and>
     (\<forall>result r. length k \<le> length r \<longrightarrow> take (length k) r = k \<longrightarrow> length w \<le> length result \<longrightarrow>
       (\<exists>t. AESDecrypt w r result (length w) (length k) Q_AES_FLAG_FILL = Some (of_nat (length s), t) \<and>
            length t = length result \<and> take (length s) t = s))"

lemma AESEncrypt_fill_cipher:
  assumes "length k \<le> length r" "take (length k) r = k" "length s + 16 < 2 ^ 32" "length cip = round_up (length s) 16"
  shows "\<exists>w. AESEncrypt s r cip (length s) (length k) Q_AES_FLAG_FILL = Some w \<and> fill_cipher k s w"
proof -
  from AESEncrypt_fill[of "length s" s "length k" k cip] assms(3,4) obtain w
    where w: "AESEncrypt s k cip (length s) (length k) Q_AES_FLAG_FILL = Some w" "length w = length cip"
      "\<And>result. round_up (length s) 16 \<le> length result \<Longrightarrow>
        \<exists>t. AESDecrypt w k result (round_up (length s) 16) (length k) Q_AES_FLAG_FILL = Some (of_nat (length s), t) \<and>
           length t = length result \<and> take (length s) t = s"
    by auto
  have key: "AESDecrypt w r result n (length k) f = AESDecrypt w k result n (length k) f"
    if "length k \<le> length r" "take (length k) r = k" for r result n f
    using AES_key_take(2)[OF that(1)] that(2) by simp
  have "fill_cipher k s w"
    unfolding fill_cipher_def
  proof (intro conjI allI impI)
    show "length w = round_up (length s) 16" using w(2) assms(4) by simp
    fix result r :: bytes assume r: "length k \<le> length r" "take (length k) r = k" and "length w \<le> length result"
    then have l: "round_up (length s) 16 \<le> length result" using w(2) assms(4) by simp
    show "\<exists>t. AESDecrypt w r result (length w) (length k) Q_AES_FLAG_FILL = Some (of_nat (length s), t) \<and>
            length t = length result \<and> take (length s) t = s"
      unfolding key[OF r] using w(3)[OF l] w(2) assms(4) by simp
  qed
  then show ?thesis using w(1) assms(1,2) AES_key_take(1)[OF assms(1)] by auto
qed

lemma se_encode_value:
  assumes ok: "heap_ok h" "query_ok h q" and k: "has_session_key e h c k"
    and np: "bss_str (payload q) \<noteq> additional_info c"
    and pl: "bss_bytes h (payload q) = Some pl"
    and s: "s = struct_bytes e (destination_ip q) (destination_port q) pl
      (take 2 (drop 18 (map (fresh_bytes h (brk h)) [0..<27 + length pl])) @ drop (24 + length pl) (map (fresh_bytes h (brk h)) [0..<27 + length pl]))"
  shows "\<exists>w. fill_cipher k s w \<and> se_client_encode e c q h =
    Some (\<lparr>null_terminated = False, bss_length = of_nat (length w), bss_str = Suc (brk h)\<rparr>, c,
      h\<lparr>blocks := (blocks h)(Suc (brk h) \<mapsto> w, bss_str (payload q) := None), brk := Suc (Suc (brk h))\<rparr>)"
proof -
  have len: "length pl = unat (bss_length (payload q))" and ip: "length (destination_ip q) = 16"
    using query_ok_bytes[OF ok(2)] pl ok(2) by (auto simp: query_ok_def)
  have bd: "length pl + 64 < 2 ^ 32" using ok(2) by (simp add: query_ok_def len)
  define fr where "fr = map (fresh_bytes h (brk h)) [0..<27 + length pl]"
  define at where "at = (\<lambda>b. h\<lparr>blocks := (blocks h)(brk h \<mapsto> b), brk := Suc (brk h)\<rparr>)"
  define at2 where "at2 = (\<lambda>w. h\<lparr>blocks := (blocks h)(brk h \<mapsto> s, Suc (brk h) \<mapsto> w), brk := Suc (Suc (brk h))\<rparr>)"
  let ?n = "round_up (27 + length pl) 16"
  have m: "c_malloc (27 + length pl) h = (brk h, at fr)" by (simp add: c_malloc_def at_def fr_def)
  have m2: "c_malloc ?n (at s) = (Suc (brk h), at2 (map (fresh_bytes h (Suc (brk h))) [0..<?n]))"
    by (simp add: c_malloc_def at_def at2_def)
  have ls: "length s = 27 + length pl" using ip by (simp add: s)
  have st: "store (at2 b) (Suc (brk h)) 0 z = Some (at2 z)" if "length z = length b" for b z
    using that by (simp add: store_def at2_def)
  have src: "bytes_from (at2 b) (brk h) 0 = Some s" for b by (simp add: bytes_from_def at2_def)
  obtain r where r: "session_key e h c = Some (length k, r)" "length k \<le> length r" "take (length k) r = k"
    using k by (auto simp: has_session_key_def)
  have ai: "additional_info c < brk h" using has_session_key_block[OF k] ok(1) by auto
  have sk: "session_key e (at2 b) c = Some (length k, r)" for b
    using r(1) ai session_key_frame[of "at2 b" c h e] by (simp add: at2_def)
  obtain w where w: "AESEncrypt s r (replicate ?n 0) (27 + length pl) (length k) Q_AES_FLAG_FILL = Some w" "fill_cipher k s w"
    using AESEncrypt_fill_cipher[OF r(2,3), of s "replicate ?n 0"] ls bd by auto
  have enc: "aes_encrypt_into (at2 (replicate ?n 0)) s r (Suc (brk h)) (27 + length pl) (length k) = Some (at2 w)"
    using w(1) by (simp add: aes_encrypt_into_def at2_def)
  have lw: "length w = ?n" using w(2) ls by (simp add: fill_cipher_def)
  have pq: "bss_str (payload q) < brk h" "bss_str (payload q) \<noteq> NULL \<Longrightarrow> blocks h (bss_str (payload q)) \<noteq> None" 
    using ok by (auto simp: query_ok_def split: if_splits)
  have fr1: "c_free (brk h) (at2 w) = Some (h\<lparr>blocks := (blocks h)(Suc (brk h) \<mapsto> w), brk := Suc (Suc (brk h))\<rparr>)"
    using heap_ok_fresh[OF ok(1)] by (simp add: c_free_def at2_def fun_upd_twist fun_upd_idem)
  have fr2: "c_free (bss_str (payload q)) (h\<lparr>blocks := (blocks h)(Suc (brk h) \<mapsto> w), brk := Suc (Suc (brk h))\<rparr>) =
    Some (h\<lparr>blocks := (blocks h)(Suc (brk h) \<mapsto> w, bss_str (payload q) := None), brk := Suc (Suc (brk h))\<rparr>)"
    using pq ok(1) by (cases "bss_str (payload q) = NULL") (auto simp: c_free_def fun_upd_twist fun_upd_idem heap_ok_def)
  have sz: "sizeof_data_struct + unat (bss_length (payload q)) - 1 = 27 + length pl"
    by (simp add: sizeof_data_struct_def len)
  have "se_client_encode e c q h =
    Some (\<lparr>null_terminated = False, bss_length = of_nat (length w), bss_str = Suc (brk h)\<rparr>, c,
      h\<lparr>blocks := (blocks h)(Suc (brk h) \<mapsto> w, bss_str (payload q) := None), brk := Suc (Suc (brk h))\<rparr>)"
    unfolding se_client_encode_def Let_def sz m prod.case
    by (subst struct_built[OF ok pl fr_def at_def], unfold fr_def s[symmetric])
       (simp add: m2 st src sk enc fr1 fr2 lw)
  then show ?thesis using w(2) by blast
qed

lemma se_decode_value:
  assumes ok: "heap_ok h" and k: "has_session_key e h c k" and np: "bss_str b \<noteq> additional_info c"
    and len: "length ip = 16" "length pad = 5" "length pl + 64 < 2 ^ 32"
    and w: "blocks h (bss_str b) = Some w" "unat (bss_length b) = length w"
      "fill_cipher k (struct_bytes e ip port pl pad) w"
  shows "\<exists>q h2. se_client_decode e c b h = Some (q, c, h2) \<and> query_view h2 q = Some (ip, port, pl) \<and>
    heap_ok h2 \<and> blocks h2 (bss_str b) = None \<and>
    (bss_str (payload q) = NULL \<or> brk h \<le> bss_str (payload q) \<and> blocks h2 (bss_str (payload q)) \<noteq> None) \<and>
    (\<forall>p. p < brk h \<longrightarrow> p \<noteq> bss_str b \<longrightarrow> blocks h2 p = blocks h p)"
proof -
  let ?s = "struct_bytes e ip port pl pad"
  have ls: "length ?s = 27 + length pl" using len by simp
  have p: "bss_str b < brk h" "bss_str b \<noteq> 0" using ok w(1) by auto
  define fr where "fr = map (fresh_bytes h (brk h)) [0..<length w]"
  define at where "at = (\<lambda>t. h\<lparr>blocks := (blocks h)(brk h \<mapsto> t), brk := Suc (brk h)\<rparr>)"
  have m: "c_malloc (length w) h = (brk h, at fr)" by (simp add: c_malloc_def at_def fr_def)
  have src: "bytes_from (at t) (bss_str b) 0 = Some w" for t using p w(1) by (simp add: bytes_from_def at_def)
  obtain r where r: "session_key e h c = Some (length k, r)" "length k \<le> length r" "take (length k) r = k"
    using k by (auto simp: has_session_key_def)
  have ai: "additional_info c < brk h" using has_session_key_block[OF k] ok by auto
  have sk: "session_key e (at t) c = Some (length k, r)" for t
    using r(1) ai session_key_frame[of "at t" c h e] by (simp add: at_def)
  obtain t where t: "AESDecrypt w r fr (length w) (length k) Q_AES_FLAG_FILL = Some (of_nat (27 + length pl), t)"
    "take (27 + length pl) t = ?s"
    using w(3) r(2,3) ls unfolding fill_cipher_def by (metis fr_def length_map length_upt diff_zero order_refl)
  have dec: "aes_decrypt_into (at fr) w r (brk h) (length w) (length k) = Some (of_nat (27 + length pl), at t)"
    using t(1) by (simp add: aes_decrypt_into_def at_def)
  let ?h1 = "(at t)\<lparr>blocks := (blocks (at t))(bss_str b := None)\<rparr>"
  have fr1: "c_free (bss_str b) (at t) = Some ?h1" using p w(1) by (simp add: c_free_def at_def)
  have h1: "heap_ok ?h1" "blocks ?h1 (brk h) = Some t" using ok p by (auto simp: heap_ok_def at_def)
  have "unat (ucast (of_nat (27 + length pl) :: u64) :: u32) = 27 + length pl"
    using len(3) by (simp add: unsigned_ucast_eq unsigned_of_nat take_bit_nat_eq_self del: of_nat_add)
  then have big: "\<not> (ucast (of_nat (27 + length pl) :: u64) :: u32) \<le> 24"
    by (simp add: word_le_nat_alt del: of_nat_add)
  from struct_read[OF h1 t(2) len, of c] obtain q h2 where q: "se_client_decode e c b h = Some (q, c, h2)"
    "query_view h2 q = Some (ip, port, pl)" "heap_ok h2" "blocks h2 (brk h) = None"
    "bss_str (payload q) = NULL \<or> brk ?h1 \<le> bss_str (payload q) \<and> blocks h2 (bss_str (payload q)) \<noteq> None"
    "\<forall>x. x < brk ?h1 \<longrightarrow> x \<noteq> brk h \<longrightarrow> blocks h2 x = blocks ?h1 x"
    by (auto simp: se_client_decode_def m src sk dec fr1 w(2) big simp del: of_nat_add)
  then show ?thesis using p by (intro exI[of _ q] exI[of _ h2]) (auto simp: at_def)
qed

end
