(* ===== verification/Se_Session.thy ===== *)
theory Se_Session
  imports Se_Proxy
begin

text \<open>
  What \<open>se_proxy\<close> guarantees: its encode and decode functions satisfy the contract \<open>message_codec\<close> of
  \<open>Module_Api\<close> between two sides that hold the same session key, and the authentication that precedes
  the messages gives the two sides such a key exactly when the client knows the server's passphrase. The
  last section shows what the client does with the one byte a server sends that refuses it.
\<close>

section \<open>The contract of the messages\<close>

lemma se_encode_obtain:
  assumes ok: "heap_ok h" "query_ok h q" and k: "has_session_key e h c k"
    and np: "bss_str (payload q) \<noteq> additional_info c"
  obtains b h1 pl pad w where
    "se_client_encode e c q h = Some (b, c, h1)" "bss_bytes h1 b = Some w"
    "unat (bss_length b) = length w" "length w \<le> unat (bss_length (payload q)) + 1024" "brk h \<le> bss_str b" "heap_ok h1"
    "blocks h1 = (blocks h)(bss_str b \<mapsto> w, bss_str (payload q) := None)"
    "fill_cipher k (struct_bytes e (destination_ip q) (destination_port q) pl pad) w"
    "length pad = 5" "length pl + 64 < 2 ^ 32" "length (destination_ip q) = 16"
    "query_view h q = Some (destination_ip q, destination_port q, pl)"
proof -
  from query_ok_bytes[OF ok(2)] obtain pl where pl: "bss_bytes h (payload q) = Some pl"
    "length pl = unat (bss_length (payload q))"
    "query_view h q = Some (destination_ip q, destination_port q, pl)" by blast
  have bd: "length pl + 64 < 2 ^ 32" "length (destination_ip q) = 16" using ok(2) pl(2) by (auto simp: query_ok_def)
  define fr where "fr = map (fresh_bytes h (brk h)) [0..<27 + length pl]"
  define pad where "pad = take 2 (drop 18 fr) @ drop (24 + length pl) fr"
  define s where "s = struct_bytes e (destination_ip q) (destination_port q) pl pad"
  have lp: "length pad = 5" by (simp add: pad_def fr_def)
  have ls: "length s = 27 + length pl" using lp bd by (simp add: s_def)
  from se_encode_value[OF ok k np pl(1) s_def[unfolded pad_def fr_def]] obtain w where w: "fill_cipher k s w"
    "se_client_encode e c q h = Some (\<lparr>null_terminated = False, bss_length = of_nat (length w), bss_str = Suc (brk h)\<rparr>, c,
      h\<lparr>blocks := (blocks h)(Suc (brk h) \<mapsto> w, bss_str (payload q) := None), brk := Suc (Suc (brk h))\<rparr>)"
      (is "_ = Some (?b, c, ?h1)") by blast
  have ne: "bss_str (payload q) \<noteq> Suc (brk h)" using ok by (auto simp: query_ok_def split: if_splits)
  have lw: "27 + length pl < length w" "length w \<le> 43 + length pl"
    using w(1) ls round_up_gt[of 16 "length s"] by (auto simp: fill_cipher_def)
  then have ul: "unat (of_nat (length w) :: u32) = length w" using bd by (simp add: unat_of_nat)
  then have nz: "(of_nat (length w) :: u32) \<noteq> 0" using lw by force
  have "bss_bytes ?h1 ?b = Some w" "unat (bss_length ?b) = length w" "heap_ok ?h1"
    using ul nz ne ok(1) by (simp_all add: bss_bytes_def load_def heap_ok_def)
  then show thesis
    using that[of ?b ?h1 w pl pad] w lp bd lw pl(2,3) by (simp add: s_def)
qed

lemma se_codec: "message_codec (se_client_encode e) (se_client_decode e) (se_linked e) se_private"
proof
  fix c h c' h' g g'
  assume "se_linked e c h c' h'" "\<forall>p. se_private c p \<longrightarrow> blocks (g :: heap) p = blocks h p"
    "\<forall>p. se_private c' p \<longrightarrow> blocks (g' :: heap) p = blocks h' p"
  then show "se_linked e c g c' g'"
    unfolding se_linked_def se_private_def by (metis has_session_key_frame)
next
  fix c h c' h' p
  assume l: "se_linked e c h c' h'"
  show "se_private c p \<Longrightarrow> blocks h p \<noteq> None" "se_private c' p \<Longrightarrow> blocks h' p \<noteq> None"
    using l by (auto simp: se_linked_def se_private_def dest: has_session_key_block)
next
  fix c h c' h' q
  assume l: "se_linked e c h c' h'" and ok: "heap_ok h" "query_ok h q" and "\<not> se_private c (bss_str (payload q))"
  then obtain k where k: "has_session_key e h c k" "has_session_key e h' c' k" and np: "bss_str (payload q) \<noteq> additional_info c"
    by (auto simp: se_linked_def se_private_def)
  note enc = se_encode_obtain[OF ok k(1) np]
  show "\<exists>b h1 w. se_client_encode e c q h = Some (b, c, h1) \<and> bss_bytes h1 b = Some w \<and>
        unat (bss_length b) = length w \<and> length w \<le> unat (bss_length (payload q)) + 1024 \<and>
        brk h \<le> bss_str b \<and> heap_ok h1 \<and>
        blocks h1 = (blocks h)(bss_str b \<mapsto> w, bss_str (payload q) := None)"
    by (rule enc) blast
  fix b c1 h1 w and b' :: binary_safe_string
  assume r: "se_client_encode e c q h = Some (b, c1, h1)" "bss_bytes h1 b = Some w"
    "heap_ok h'" "blocks h' (bss_str b') = Some w" "unat (bss_length b') = length w" "\<not> se_private c' (bss_str b')"
  obtain pl pad where f: "fill_cipher k (struct_bytes e (destination_ip q) (destination_port q) pl pad) w"
    "length pad = 5" "length pl + 64 < 2 ^ 32" "length (destination_ip q) = 16"
    "query_view h q = Some (destination_ip q, destination_port q, pl)"
    by (rule enc) (use r(1,2) in auto)
  have "bss_str b' \<noteq> additional_info c'" using r(6) by (simp add: se_private_def)
  from se_decode_value[OF r(3) k(2) this f(4,2,3) r(4,5) f(1)] f(5)
  show "\<exists>q' h2. se_client_decode e c' b' h' = Some (q', c', h2) \<and> query_view h2 q' = query_view h q \<and>
        heap_ok h2 \<and> blocks h2 (bss_str b') = None \<and>
        (bss_str (payload q') = NULL \<or>
          brk h' \<le> bss_str (payload q') \<and> blocks h2 (bss_str (payload q')) \<noteq> None) \<and>
        (\<forall>p. p < brk h' \<longrightarrow> p \<noteq> bss_str b' \<longrightarrow> blocks h2 p = blocks h' p)"
    by simp
qed

interpretation se_up: message_codec "se_client_encode e" "se_server_decode e" "se_linked e" se_private for e
  unfolding se_server_decode_eq by (rule se_codec)

interpretation se_down: message_codec "se_server_encode e" "se_client_decode e" "se_linked e" se_private for e
  unfolding se_server_encode_eq by (rule se_codec)

section \<open>Authentication\<close>

lemma fill_cipherD:
  "fill_cipher k s w \<Longrightarrow> length k \<le> length r \<Longrightarrow> take (length k) r = k \<Longrightarrow> length w \<le> length result \<Longrightarrow>
    \<exists>t. AESDecrypt w r result (length w) (length k) Q_AES_FLAG_FILL = Some (of_nat (length s), t) \<and>
      length t = length result \<and> take (length s) t = s"
  unfolding fill_cipher_def by blast

lemma length_to_string: "n < 10 ^ k \<Longrightarrow> 0 < k \<Longrightarrow> length (to_string n) \<le> k"
proof (induction k arbitrary: n)
  case (Suc k)
  then show ?case
  proof (cases "n < 10 \<or> k = 0")
    case True
    then show ?thesis using Suc.prems by (auto simp: to_string.simps[of n])
  next
    case False
    then have "n div 10 < 10 ^ k" using Suc.prems by (auto simp: div_less_iff_less_mult mult.commute)
    from Suc.IH[OF this] False show ?thesis by (simp add: to_string.simps[of n])
  qed
qed simp

lemma length_rnd_text:
  assumes "0 \<le> rnd" "rnd < 2 ^ 31"
  shows "length (rnd_text rnd) \<le> 11" "0 < length (rnd_text rnd)"
proof -
  have "nat rnd < 10 ^ 10" using assms by (simp add: nat_less_iff)
  from length_to_string[OF this] show "length (rnd_text rnd) \<le> 11"
    using assms(1) by (simp add: rnd_text_def bytes_of_string_def int_to_string_def)
qed (simp add: rnd_text_def bytes_of_string_def)

lemma auth_lengths [simp]: "length AUTH_STR = 10" "length MAGIC_STR = 8"
  by (simp_all add: AUTH_STR_def MAGIC_STR_def bytes_of_string_def)

lemma strncmp_eq_prefix: "take (length cs) b = cs \<Longrightarrow> strncmp_eq b cs = Some True"
  by (induction b cs rule: strncmp_eq.induct) auto

text \<open>The passphrase as the AES functions read it: the memory from its pointer on.\<close>

lemma passphrase_key:
  assumes "bss_bytes h b = Some pw"
  shows "\<exists>r. key_from h (bss_str b) 0 (unat (bss_length b)) = Some r \<and> length pw \<le> length r \<and>
    take (length pw) r = pw \<and> unat (bss_length b) = length pw"
  using assms
  by (cases "bss_length b = 0") (auto simp: bss_bytes_def key_from_def bytes_from_def load_def unat_eq_zero split: option.splits if_splits)

lemma key_from_frame:
  "(keylen \<noteq> 0 \<Longrightarrow> blocks g p = blocks h p) \<Longrightarrow> key_from g p off keylen = key_from h p off keylen"
  by (auto simp: key_from_def bytes_from_def)

lemma passphrase_frame:
  assumes "bss_bytes h b = Some pw" "heap_ok h" "\<And>p. p < brk h \<Longrightarrow> blocks g p = blocks h p"
  shows "key_from g (bss_str b) 0 (unat (bss_length b)) = key_from h (bss_str b) 0 (unat (bss_length b))"
proof (rule key_from_frame)
  assume "unat (bss_length b) \<noteq> 0"
  then have "blocks h (bss_str b) \<noteq> None" using assms(1) by (auto simp: bss_bytes_def load_def unat_eq_zero split: if_splits option.splits)
  then show "blocks g (bss_str b) = blocks h (bss_str b)" using assms(2,3) by auto
qed

lemma se_auth_query:
  assumes ok: "heap_ok h" and pw: "bss_bytes h (passphrase c) = Some pw"
  shows "\<exists>w. fill_cipher pw AUTH_STR w \<and> se_client_make_auth_query c h =
    Some (\<lparr>null_terminated = False, bss_length = of_nat (length w), bss_str = brk h\<rparr>, c\<lparr>additional_info := NULL\<rparr>,
      h\<lparr>blocks := (blocks h)(brk h \<mapsto> w), brk := Suc (brk h)\<rparr>)"
proof -
  define at where "at = (\<lambda>b. h\<lparr>blocks := (blocks h)(brk h \<mapsto> b), brk := Suc (brk h)\<rparr>)"
  obtain r where r: "key_from h (bss_str (passphrase c)) 0 (unat (bss_length (passphrase c))) = Some r"
    "length pw \<le> length r" "take (length pw) r = pw" "unat (bss_length (passphrase c)) = length pw"
    using passphrase_key[OF pw] by blast
  have rk: "key_from (at b) (bss_str (passphrase c)) 0 (length pw) = Some r" for b
    using passphrase_frame[OF pw ok, of "at b"] r(1,4) by (simp add: at_def)
  have m: "c_malloc 16 h = (brk h, at (map (fresh_bytes h (brk h)) [0..<16]))" by (simp add: c_malloc_def at_def)
  have ru: "round_up 10 16 = 16" by (simp add: round_up_def)
  have st: "store (at b) (brk h) 0 z = Some (at z)" if "length z = length b" for b z
    using that by (simp add: store_def at_def)
  obtain w where w: "AESEncrypt AUTH_STR r (replicate 16 0) 10 (length pw) Q_AES_FLAG_FILL = Some w" "fill_cipher pw AUTH_STR w"
    using AESEncrypt_fill_cipher[OF r(2,3), of AUTH_STR "replicate 16 0"] by (auto simp: ru)
  have enc: "aes_encrypt_into (at (replicate 16 0)) AUTH_STR r (brk h) 10 (length pw) = Some (at w)"
    using w(1) by (simp add: aes_encrypt_into_def at_def)
  have "length w = 16" using w(2) by (simp add: fill_cipher_def ru)
  then have "se_client_make_auth_query c h = Some (\<lparr>null_terminated = False, bss_length = of_nat (length w), bss_str = brk h\<rparr>,
      c\<lparr>additional_info := NULL\<rparr>, at w)"
    by (simp add: se_client_make_auth_query_def Let_def ru m st rk r(4) enc)
  then show ?thesis using w(2) by (auto simp: at_def)
qed

text \<open>A heap to which the blocks \<open>bs\<close> have been added, one after the other.\<close>

definition grown :: "heap \<Rightarrow> bytes list \<Rightarrow> heap" where
  "grown h bs = h\<lparr>blocks := (\<lambda>p. if brk h \<le> p \<and> p < brk h + length bs then Some (bs ! (p - brk h)) else blocks h p),
     brk := brk h + length bs\<rparr>"

lemma grown_Nil: "grown h [] = h"
  by (rule heap.equality) (auto simp: grown_def fun_eq_iff)

lemma grown_malloc: "c_malloc n (grown h bs) =
  (brk h + length bs, grown h (bs @ [map (fresh_bytes h (brk h + length bs)) [0..<n]]))"
proof -
  have "blocks (snd (c_malloc n (grown h bs))) = blocks (grown h (bs @ [map (fresh_bytes h (brk h + length bs)) [0..<n]]))"
    by (rule ext) (auto simp: c_malloc_def grown_def nth_append)
  then show ?thesis by (auto simp: c_malloc_def intro!: heap.equality) (simp_all add: grown_def)
qed

lemma grown_blocks:
  "i < length bs \<Longrightarrow> blocks (grown h bs) (brk h + i) = Some (bs ! i)" "p < brk h \<Longrightarrow> blocks (grown h bs) p = blocks h p"
  by (simp_all add: grown_def)

lemma grown_update:
  "i < length bs \<Longrightarrow> (grown h bs)\<lparr>blocks := (blocks (grown h bs))(brk h + i \<mapsto> b)\<rparr> = grown h (bs[i := b])"
  by (rule heap.equality) (auto simp: grown_def fun_eq_iff nth_list_update)

lemma grown_store:
  "i < length bs \<Longrightarrow> off + length z \<le> length (bs ! i) \<Longrightarrow>
   store (grown h bs) (brk h + i) off z = Some (grown h (bs[i := overwrite off z (bs ! i)]))"
  by (simp add: store_def grown_blocks grown_update)

lemma grown_encrypt:
  "i < length bs \<Longrightarrow> AESEncrypt src key (bs ! i) n m Q_AES_FLAG_FILL = Some w \<Longrightarrow>
   aes_encrypt_into (grown h bs) src key (brk h + i) n m = Some (grown h (bs[i := w]))"
  by (simp add: aes_encrypt_into_def grown_blocks grown_update)

lemma grown_decrypt:
  "i < length bs \<Longrightarrow> AESDecrypt src key (bs ! i) n m Q_AES_FLAG_FILL = Some (l, w) \<Longrightarrow>
   aes_decrypt_into (grown h bs) src key (brk h + i) n m = Some (l, grown h (bs[i := w]))"
  by (simp add: aes_decrypt_into_def grown_blocks grown_update)

lemma grown_ok: "heap_ok h \<Longrightarrow> heap_ok (grown h bs)"
  by (auto simp: heap_ok_def grown_def)

lemma grown_passphrase:
  assumes "bss_bytes h b = Some pw" "heap_ok h"
  shows "\<exists>r. (\<forall>bs. key_from (grown h bs) (bss_str b) 0 (unat (bss_length b)) = Some r) \<and> length pw \<le> length r \<and>
    take (length pw) r = pw \<and> unat (bss_length b) = length pw"
  using passphrase_key[OF assms(1)] passphrase_frame[OF assms] by (metis grown_blocks(2))

lemma grown_bytes_from:
  "i < length bs \<Longrightarrow> bytes_from (grown h bs) (brk h + i) 0 = Some (bs ! i)"
  "p < brk h \<Longrightarrow> bytes_from (grown h bs) p off = bytes_from h p off"
  by (simp_all add: bytes_from_def grown_blocks)

lemmas grown_simps = grown_malloc grown_store grown_bytes_from grown_encrypt grown_decrypt

lemma AESEncrypt_src_take:
  "n \<le> length src \<Longrightarrow> AESEncrypt src key cip n m Q_AES_FLAG_FILL = AESEncrypt (take n src) key cip n m Q_AES_FLAG_FILL"
  by (simp add: AESEncrypt_def Q_AES_FLAG_FILL_def)

text \<open>A session key block: the length, then the key from offset 8 on.\<close>

lemma has_session_key_intro:
  assumes "blocks h (additional_info c) = Some b" "take 8 b = mem_of_word e 8 (of_nat (length k) :: u64)"
    "length k < 2 ^ 64" "8 + length k \<le> length b" "take (length k) (drop 8 b) = k" "0 < length k"
  shows "has_session_key e h c k"
proof -
  have "unat (of_nat (length k) :: u64) = length k" using assms(3) by (simp add: unat_of_nat)
  then have "session_key e h c = Some (length k, drop 8 b)"
    using assms by (simp add: session_key_def load_def key_from_def bytes_from_def)
  then show ?thesis using assms by (simp add: has_session_key_def)
qed

lemma se_auth_reply:
  assumes ok: "heap_ok h" and pw: "bss_bytes h (passphrase c) = Some pw"
    and w: "blocks h (bss_str b) = Some w" "unat (bss_length b) = length w" "fill_cipher pw AUTH_STR w"
    and rnd: "0 \<le> rnd" "rnd < 2 ^ 31"
  shows "\<exists>r c1 h1 w'. se_server_make_auth_reply e rnd c b h = Some (r, False, c1, h1) \<and> bss_bytes h1 r = Some w' \<and>
    length w' < 2 ^ 32 \<and> fill_cipher pw (MAGIC_STR @ rnd_text rnd) w' \<and> heap_ok h1 \<and> has_session_key e h1 c1 (rnd_text rnd) \<and>
    brk h \<le> bss_str r \<and> blocks h1 (bss_str r) = Some w' \<and> bss_length r = of_nat (length w') \<and> length w' \<le> 36 \<and>
    additional_info c1 \<noteq> bss_str r"
proof -
  have pb: "bss_str b < brk h" "bss_str b \<noteq> 0" using ok w(1) by auto
  obtain r where r: "\<And>bs. key_from (grown h bs) (bss_str (passphrase c)) 0 (unat (bss_length (passphrase c))) = Some r"
    "length pw \<le> length r" "take (length pw) r = pw" "unat (bss_length (passphrase c)) = length pw"
    using grown_passphrase[OF pw ok] by blast
  note lt = length_rnd_text[OF rnd]
  define msg where "msg = MAGIC_STR @ rnd_text rnd"
  define n where "n = length msg"
  have n: "n = 8 + length (rnd_text rnd)" "n < 20" "round_up n 16 \<le> 36" using lt round_up_gt(2)[of 16 n] by (simp_all add: n_def msg_def)
  define fr where "fr = map (fresh_bytes h (brk h)) [0..<length w]"
  obtain t where t: "AESDecrypt w r fr (length w) (length pw) Q_AES_FLAG_FILL = Some (10, t)" "take 10 t = AUTH_STR"
    using fill_cipherD[OF w(3) r(2,3), of fr] by (auto simp: fr_def)
  define f1 where "f1 = map (fresh_bytes h (Suc (brk h))) [0..<512]"
  define B where "B = overwrite 0 (msg @ [0]) f1"
  define f2 where "f2 = map (fresh_bytes h (brk h + 2)) [0..<round_up n 16]"
  define f3 where "f3 = map (fresh_bytes h (brk h + 3)) [0..<512]"
  have B: "take n B = msg" "n \<le> length B" using n by (simp_all add: B_def overwrite_def n_def f1_def)
  obtain w' where w': "AESEncrypt B r f2 n (length pw) Q_AES_FLAG_FILL = Some w'" "fill_cipher pw msg w'"
    using AESEncrypt_fill_cipher[OF r(2,3), of msg f2] n(2) AESEncrypt_src_take[OF B(2), of r f2 "length pw"]
    by (auto simp: f2_def B(1)[unfolded n_def] n_def)
  define I0 where "I0 = overwrite 8 (rnd_text rnd @ [0]) (replicate 512 (0 :: byte))"
  define I where "I = overwrite 0 (mem_of_word e 8 (of_nat (length (rnd_text rnd)) :: u64)) I0"
  define p1 p2 p3 where p: "p1 = brk h + 1" "p2 = brk h + 2" "p3 = brk h + 3"
  have m: "c_malloc (length w) h = (brk h, grown h [fr])" "c_malloc EXCEEDING_SIZE (grown h [t]) = (p1, grown h [t, f1])"
    "c_malloc (round_up n 16) (grown h [t, B]) = (p2, grown h [t, B, f2])"
    "c_malloc EXCEEDING_SIZE (grown h [t, B, w']) = (p3, grown h [t, B, w', f3])"
    using grown_malloc[of "length w" h "[]"] grown_malloc[of 512 h "[t]"] grown_malloc[of "round_up n 16" h "[t, B]"] grown_malloc[of 512 h "[t, B, w']"]
    by (simp_all add: grown_Nil EXCEEDING_SIZE_def p fr_def f1_def f2_def f3_def numeral_2_eq_2 numeral_3_eq_3)
  have dec: "aes_decrypt_into (grown h [fr]) w r (brk h) (length w) (length pw) = Some (10, grown h [t])"
    using grown_decrypt[of 0 "[fr]"] t(1) by simp
  have enc: "aes_encrypt_into (grown h [t, B, f2]) B r p2 n (length pw) = Some (grown h [t, B, w'])"
    using grown_encrypt[of 2 "[t, B, f2]"] w'(1) by (simp add: p)
  have st: "store (grown h [t, f1]) p1 0 (msg @ [0]) = Some (grown h [t, B])"
    "store (grown h [t, B, w', f3]) p3 0 (replicate EXCEEDING_SIZE 0) = Some (grown h [t, B, w', replicate 512 0])"
    "store (grown h [t, B, w', replicate 512 0]) p3 8 (rnd_text rnd @ [0]) = Some (grown h [t, B, w', I0])"
    "store (grown h [t, B, w', I0]) p3 0 (mem_of_word e 8 (of_nat (length (rnd_text rnd)) :: u64)) = Some (grown h [t, B, w', I])"
    using n lt grown_store[of 1 "[t, f1]" 0 "msg @ [0]" h] grown_store[of 3 "[t, B, w', f3]" 0 "replicate 512 0" h]
      grown_store[of 3 "[t, B, w', replicate 512 0]" 8 "rnd_text rnd @ [0]" h]
      grown_store[of 3 "[t, B, w', I0]" 0 "mem_of_word e 8 (of_nat (length (rnd_text rnd)) :: u64)" h]
    by (simp_all add: p EXCEEDING_SIZE_def B_def I_def I0_def f1_def f3_def n_def numeral_2_eq_2 numeral_3_eq_3)
  have ld: "bytes_from (grown h [fr]) (bss_str b) 0 = Some w" "bytes_from (grown h [t]) (brk h) 0 = Some t"
    "bytes_from (grown h [t, B, f2]) p1 0 = Some B"
    using grown_bytes_from(1)[of 0 "[t]" h] grown_bytes_from(1)[of 1 "[t, B, f2]" h] pb(1) w(1)
    by (simp_all add: p grown_bytes_from(2), simp add: bytes_from_def)
  have cmp: "strfullcmp t AUTH_STR 10 10 = Some True"
    using t(2) by (simp add: strfullcmp_def strncmp_eq_prefix)
  define H where "H = grown h [t, B, w', I]"
  define h1 where "h1 = H\<lparr>blocks := (blocks H)(bss_str b := None)\<rparr>"
  have fr1: "c_free (bss_str b) (grown h [t, B, w', I]) = Some h1" using pb w(1) by (simp add: c_free_def h1_def H_def grown_def)
  have run: "se_server_make_auth_reply e rnd c b h =
    Some (\<lparr>null_terminated = False, bss_length = of_nat (round_up n 16), bss_str = p2\<rparr>, False, c\<lparr>additional_info := p3\<rparr>, h1)"
    by (simp add: se_server_make_auth_reply_def Let_def w(2) m(1) ld(1) r(1)[unfolded r(4)] r(4) dec ld(2) cmp
        m(2) msg_def[symmetric] st(1) n_def[symmetric] m(3) ld(3) enc m(4) st(2-4) fr1)
  have lw: "length w' = round_up n 16" using w'(2) by (simp add: fill_cipher_def n_def)
  have un: "unat (of_nat (round_up n 16) :: u32) = round_up n 16" using n(3) by (simp add: unat_of_nat)
  moreover have "0 < round_up n 16" by (simp add: round_up_def)
  ultimately have nz: "(of_nat (round_up n 16) :: u32) \<noteq> 0" by force
  have bl: "blocks h1 p2 = Some w'" "blocks h1 p3 = Some I" using pb by (simp_all add: h1_def H_def grown_def p)
  have "has_session_key e h1 (c\<lparr>additional_info := p3\<rparr>) (rnd_text rnd)"
    by (rule has_session_key_intro[of _ _ I]) (use bl lt in \<open>simp_all add: I_def I0_def overwrite_def\<close>)
  moreover have "heap_ok h1" using grown_ok[OF ok] pb by (auto simp: h1_def H_def heap_ok_def)
  moreover have "bss_bytes h1 \<lparr>null_terminated = False, bss_length = of_nat (round_up n 16), bss_str = p2\<rparr> = Some w'"
    using bl un nz lw by (simp add: bss_bytes_def load_def)
  ultimately show ?thesis
    using run w'(2) lw n(3) bl(1) by (intro exI[of _ "\<lparr>null_terminated = False, bss_length = of_nat (round_up n 16), bss_str = p2\<rparr>"]) (auto simp: msg_def p)
qed

lemma se_auth_done:
  assumes ok: "heap_ok h" and pw: "bss_bytes h (passphrase c) = Some pw"
    and w: "blocks h (bss_str b) = Some w" "unat (bss_length b) = length w" "fill_cipher pw (MAGIC_STR @ k) w"
    and k: "0 < length k" "length k < 2 ^ 16"
  shows "\<exists>c1 h1. se_client_deal_auth_reply e c b h = Some (True, c1, h1) \<and> heap_ok h1 \<and> has_session_key e h1 c1 k \<and>
    (\<forall>p < brk h. blocks h1 p = blocks h p) \<and> brk h \<le> additional_info c1"
proof -
  have pb: "bss_str b < brk h" using ok w(1) by auto
  obtain r where r: "\<And>bs. key_from (grown h bs) (bss_str (passphrase c)) 0 (unat (bss_length (passphrase c))) = Some r"
    "length pw \<le> length r" "take (length pw) r = pw" "unat (bss_length (passphrase c)) = length pw"
    using grown_passphrase[OF pw ok] by blast
  define fr where "fr = map (fresh_bytes h (brk h)) [0..<length w]"
  obtain t where t: "AESDecrypt w r fr (length w) (length pw) Q_AES_FLAG_FILL = Some (of_nat (8 + length k), t)"
    "take (8 + length k) t = MAGIC_STR @ k"
    using fill_cipherD[OF w(3) r(2,3), of fr] by (auto simp: fr_def)
  have lt: "8 + length k \<le> length t" using arg_cong[OF t(2), of length] by simp
  have t8: "take 8 t = MAGIC_STR" "take (length k) (drop 8 t) = k"
    using arg_cong[OF t(2), of "take 8"] arg_cong[OF t(2), of "drop 8"] by (simp_all add: drop_take)
  define p1 where p: "p1 = Suc (brk h)"
  define f1 where "f1 = map (fresh_bytes h p1) [0..<16 + length k]"
  define L where "L = mem_of_word e 8 (of_nat (length k) :: u64)"
  define I0 where "I0 = overwrite 0 L (replicate (16 + length k) 0)"
  define I where "I = overwrite 8 k I0"
  have m: "c_malloc (length w) h = (brk h, grown h [fr])" "c_malloc (16 + length k) (grown h [t]) = (p1, grown h [t, f1])"
    using grown_malloc[of "length w" h "[]"] grown_malloc[of "16 + length k" h "[t]"] by (simp_all add: grown_Nil p fr_def f1_def)
  have dec: "aes_decrypt_into (grown h [fr]) w r (brk h) (length w) (length pw) = Some (of_nat (8 + length k), grown h [t])"
    using grown_decrypt[of 0 "[fr]"] t(1) by simp
  have ld: "bytes_from (grown h [fr]) (bss_str b) 0 = Some w" "bytes_from (grown h [t]) (brk h) 0 = Some t"
    using grown_bytes_from(1)[of 0 "[t]" h] pb w(1) by (simp_all add: grown_bytes_from(2), simp add: bytes_from_def)
  have st: "store (grown h [t, f1]) p1 0 (replicate (16 + length k) 0) = Some (grown h [t, replicate (16 + length k) 0])"
    "store (grown h [t, replicate (16 + length k) 0]) p1 0 L = Some (grown h [t, I0])"
    "store (grown h [t, I0]) p1 8 k = Some (grown h [t, I])"
    using grown_store[of 1 "[t, f1]" 0 "replicate (16 + length k) 0" h] grown_store[of 1 "[t, replicate (16 + length k) 0]" 0 L h]
      grown_store[of 1 "[t, I0]" 8 k h]
    by (simp_all add: p I_def I0_def L_def f1_def)
  have "load (grown h [t, I0]) (brk h) 8 (length k) = Some k"
    using grown_blocks(1)[of 0 "[t, I0]" h] lt t8(2) by (simp add: load_def)
  then have cp: "c_memcpy (grown h [t, I0]) p1 8 (brk h) 8 (length k) = Some (grown h [t, I])"
    using st(3) k(1) by (simp add: c_memcpy_def)
  have cmp: "strncmp_eq t MAGIC_STR = Some True" using t8(1) by (simp add: strncmp_eq_prefix)
  have un: "(of_nat (8 + length k) - of_nat 8 :: u64) = of_nat (length k)" "unat (of_nat (length k) :: u64) = length k"
    "unat (of_nat 16 + of_nat (length k) :: u64) = 16 + length k"
  proof -
    show "(of_nat (8 + length k) - of_nat 8 :: u64) = of_nat (length k)" "unat (of_nat (length k) :: u64) = length k"
      using k(2) by (simp_all add: unat_of_nat)
    have "unat (of_nat (16 + length k) :: u64) = 16 + length k" using k(2) by (simp only: unat_of_nat) simp
    then show "unat (of_nat 16 + of_nat (length k) :: u64) = 16 + length k" by simp
  qed
  have run: "se_client_deal_auth_reply e c b h = Some (True, c\<lparr>additional_info := p1\<rparr>, grown h [t, I])"
    by (simp add: se_client_deal_auth_reply_def Let_def w(2) m(1) ld(1) r(1)[unfolded r(4)] r(4) dec ld(2) cmp
        un sizeof_sym_passphrase_def m(2) st(1) L_def[symmetric] st(2) cp del: of_nat_add of_nat_numeral)
  have "blocks (grown h [t, I]) p1 = Some I" using grown_blocks(1)[of 1 "[t, I]" h] by (simp add: p)
  then have "has_session_key e (grown h [t, I]) (c\<lparr>additional_info := p1\<rparr>) k"
    by (intro has_session_key_intro[of _ _ I]) (use k in \<open>simp_all add: I_def I0_def L_def overwrite_def\<close>)
  then show ?thesis using run grown_ok[OF ok] by (auto simp: grown_blocks(2) p)
qed

lemma strfullcmp_False:
  "\<not> (n = 10 \<and> take 10 t = AUTH_STR) \<Longrightarrow> 10 \<le> length t \<Longrightarrow> strfullcmp t AUTH_STR n 10 = Some False"
proof -
  have *: "length cs \<le> length b \<Longrightarrow> strncmp_eq b cs = Some (take (length cs) b = cs)" for b cs
    by (induction b cs rule: strncmp_eq.induct) auto
  assume a: "\<not> (n = 10 \<and> take 10 t = AUTH_STR)" "10 \<le> length t"
  have "n = 10" if "unat n = 10" using that by (simp add: word_unat_eq_iff)
  then show ?thesis using a *[of AUTH_STR t] by (auto simp: strfullcmp_def)
qed

lemma se_one_byte_reply:
  assumes "heap_ok hc" "blocks hc p = Some [1]"
  shows "onAuthReply (se_proxy e rnd) p 1 cc hc = None"
proof -
  have p: "p < brk hc" using assms by auto
  have "AES_ECB_decrypt [1] k [x] 1 = None" for k x by (simp add: AES_ECB_decrypt_def ecb_buffers_ok_def BLOCKLEN_def)
  then have "AESDecrypt [1] key [x] 1 n Q_AES_FLAG_FILL = None" for key x n
    by (simp add: AESDecrypt_def Q_AES_FLAG_FILL_def Option.bind_eq_None_conv)
  then show ?thesis
    using p assms(2)
    by (simp add: onAuthReply_def se_proxy_def se_client_deal_auth_reply_def c_malloc_def Let_def bytes_from_def aes_decrypt_into_def
        Option.bind_eq_None_conv)
qed

section \<open>Properties\<close>

text \<open>
  A session of \<open>se_proxy\<close>. When client and server hold the same passphrase, the server accepts the client's
  query whatever number \<open>rand()\<close> gives it, the client accepts the reply, and both sides then hold the same
  session key in sound heaps, so that the messages that follow can be decoded.
\<close>

theorem se_session_established:
  assumes pw: "bss_bytes h (passphrase c) = Some pw" "bss_bytes h' (passphrase c') = Some pw"
    and ok: "heap_ok h" "heap_ok h'" and rnd: "0 \<le> rnd" "rnd < 2 ^ 31"
  shows "\<exists>b c1 h1 w b' h0' r c1' h1' w' r' h2 c3 h3.
    makeAuthQuery (se_proxy e rnd) c h = Some (b, c1, h1) \<and> bss_bytes h1 b = Some w \<and>
    make_binary_safe_string_of w h' = Some (b', h0') \<and>
    makeAuthReply (se_proxy e rnd) c' b' h0' = Some (r, False, c1', h1') \<and> bss_bytes h1' r = Some w' \<and>
    make_binary_safe_string_of w' h1 = Some (r', h2) \<and>
    onAuthReply (se_proxy e rnd) (bss_str r') (length w') c1 h2 = Some (True, c3, h3) \<and>
    se_linked e c3 h3 c1' h1' \<and> heap_ok h3 \<and> heap_ok h1'"
proof -
  from se_auth_query[OF ok(1) pw(1)] obtain w where w: "fill_cipher pw AUTH_STR w"
    "se_client_make_auth_query c h = Some (\<lparr>null_terminated = False, bss_length = of_nat (length w), bss_str = brk h\<rparr>,
      c\<lparr>additional_info := NULL\<rparr>, h\<lparr>blocks := (blocks h)(brk h \<mapsto> w), brk := Suc (brk h)\<rparr>)" (is "_ = Some (?b, ?c1, ?h1)")
    by blast
  have lw: "length w = 16" using w(1) by (simp add: fill_cipher_def round_up_def)
  then have bw: "bss_bytes ?h1 ?b = Some w" by (simp add: bss_bytes_def load_def)
  have ok1: "heap_ok ?h1" using ok(1) by (simp add: heap_ok_def)
  from make_binary_safe_string_of_bytes[OF ok(2), of w] lw obtain b' h0' where b': "make_binary_safe_string_of w h' = Some (b', h0')"
    "unat (bss_length b') = length w" "bss_str b' = brk h'" "blocks h0' = (blocks h')(brk h' \<mapsto> w)" "heap_ok h0'" by auto
  have p0: "bss_bytes h0' (passphrase c') = Some pw"
    using pw(2) b'(4) ok(2) by (auto simp: bss_bytes_def load_def split: if_splits option.splits)
  have "blocks h0' (bss_str b') = Some w" using b' by simp
  from se_auth_reply[OF b'(5) p0 this b'(2) w(1) rnd, of e] obtain r c1' h1' w' where r:
    "se_server_make_auth_reply e rnd c' b' h0' = Some (r, False, c1', h1')" "bss_bytes h1' r = Some w'"
    "length w' < 2 ^ 32" "fill_cipher pw (MAGIC_STR @ rnd_text rnd) w'" "heap_ok h1'" "has_session_key e h1' c1' (rnd_text rnd)" by blast
  from make_binary_safe_string_of_bytes[OF ok1 r(3)] obtain r' h2 where r': "make_binary_safe_string_of w' ?h1 = Some (r', h2)"
    "unat (bss_length r') = length w'" "bss_str r' = brk ?h1" "blocks h2 = (blocks ?h1)(brk ?h1 \<mapsto> w')" "heap_ok h2" by blast
  have p2: "bss_bytes h2 (passphrase ?c1) = Some pw"
    using pw(1) r'(4) ok(1) by (auto simp: bss_bytes_def load_def heap_ok_def split: if_splits option.splits)
  let ?r = "\<lparr>null_terminated = False, bss_length = of_nat (length w'), bss_str = bss_str r'\<rparr>"
  have "blocks h2 (bss_str ?r) = Some w'" "unat (bss_length ?r) = length w'" using r'(3,4) r(3) by (simp_all add: unat_of_nat)
  from se_auth_done[OF r'(5) p2 this r(4), of e] length_rnd_text[OF rnd] obtain c3 h3 where d:
    "se_client_deal_auth_reply e ?c1 ?r h2 = Some (True, c3, h3)" "heap_ok h3" "has_session_key e h3 c3 (rnd_text rnd)" by auto
  have "se_linked e c3 h3 c1' h1'" using d(3) r(6) by (auto simp: se_linked_def)
  moreover have "makeAuthQuery (se_proxy e rnd) c h = Some (?b, ?c1, ?h1)"
    "makeAuthReply (se_proxy e rnd) c' b' h0' = Some (r, False, c1', h1')"
    "onAuthReply (se_proxy e rnd) (bss_str r') (length w') ?c1 h2 = Some (True, c3, h3)"
    using w(2) r(1) d(1) by (simp_all add: makeAuthQuery_def makeAuthReply_def onAuthReply_def se_proxy_def)
  ultimately show ?thesis by (intro exI conjI) (assumption | rule bw b'(1) r(2,5) r'(1) d(2))+
qed

theorem se_session_established_witness:
  "\<exists>b c1 h1 w b' h0' r c1' h1' w' r' h2 c3 h3.
    makeAuthQuery (se_proxy Little_Endian 4711) (start_conn [1, 2]) (start_heap [1, 2]) = Some (b, c1, h1) \<and> bss_bytes h1 b = Some w \<and>
    make_binary_safe_string_of w (start_heap [1, 2]) = Some (b', h0') \<and>
    makeAuthReply (se_proxy Little_Endian 4711) (start_conn [1, 2]) b' h0' = Some (r, False, c1', h1') \<and> bss_bytes h1' r = Some w' \<and>
    make_binary_safe_string_of w' h1 = Some (r', h2) \<and>
    onAuthReply (se_proxy Little_Endian 4711) (bss_str r') (length w') c1 h2 = Some (True, c3, h3) \<and>
    se_linked Little_Endian c3 h3 c1' h1' \<and> heap_ok h3 \<and> heap_ok h1'"
  by (rule se_session_established[where pw = "[1, 2]"])
     (simp_all add: start_conn_def start_heap_def bss_bytes_def load_def heap_ok_def)

text \<open>
  C37: refusal. When the decrypted query is not the expected text, the server announces that it closes the
  connection and answers with the single byte 1. The client that gets this byte decrypts it into a block of
  one byte as if it were a whole AES block: undefined behaviour instead of a failed authentication.
\<close>

theorem se_refusal_undefined_at_client:
  assumes ok: "heap_ok h" and pw: "bss_bytes h (passphrase c) = Some pw"
    and q: "blocks h (bss_str b) = Some w" "unat (bss_length b) = length w"
    and dec: "AESDecrypt w pw (map (fresh_bytes h (brk h)) [0..<length w]) (length w) (length pw) Q_AES_FLAG_FILL = Some (n, t)"
    and other: "\<not> (n = 10 \<and> take 10 t = AUTH_STR)" "16 \<le> length w"
  shows "\<exists>r h'. makeAuthReply (se_proxy e rnd) c b h = Some (r, True, c, h') \<and> bss_bytes h' r = Some [1] \<and>
    heap_ok h' \<and> blocks h' (bss_str b) = None \<and>
    (\<forall>cc hc p. heap_ok hc \<and> blocks hc p = Some [1] \<longrightarrow> onAuthReply (se_proxy e rnd) p 1 cc hc = None)"
proof -
  have pb: "bss_str b < brk h" "bss_str b \<noteq> 0" using ok q(1) by auto
  obtain r where r: "\<And>bs. key_from (grown h bs) (bss_str (passphrase c)) 0 (unat (bss_length (passphrase c))) = Some r"
    "length pw \<le> length r" "take (length pw) r = pw" "unat (bss_length (passphrase c)) = length pw"
    using grown_passphrase[OF pw ok] by blast
  define fr where "fr = map (fresh_bytes h (brk h)) [0..<length w]"
  have m: "c_malloc (length w) h = (brk h, grown h [fr])" using grown_malloc[of "length w" h "[]"] by (simp add: grown_Nil fr_def)
  have "AESDecrypt w r fr (length w) (length pw) Q_AES_FLAG_FILL = Some (n, t)"
    using dec AES_key_take(2)[OF r(2)] r(3) by (simp add: fr_def)
  then have dec': "aes_decrypt_into (grown h [fr]) w r (brk h) (length w) (length pw) = Some (n, grown h [t])"
    using grown_decrypt[of 0 "[fr]"] by simp
  have ld: "bytes_from (grown h [fr]) (bss_str b) 0 = Some w" "bytes_from (grown h [t]) (brk h) 0 = Some t"
    using grown_bytes_from(1)[of 0 "[t]" h] pb(1) q(1) by (simp_all add: grown_bytes_from(2), simp add: bytes_from_def)
  have "length t = length w" using dec by (auto simp: AESDecrypt_def Q_AES_FLAG_FILL_def bind_eq_Some_conv dest!: length_AES_ECB_decrypt split: if_splits)
  then have cmp: "strfullcmp t AUTH_STR n 10 = Some False" using other by (intro strfullcmp_False) simp_all
  define hf where "hf = (grown h [t])\<lparr>blocks := (blocks (grown h [t]))(bss_str b := None)\<rparr>"
  have f: "c_free (bss_str b) (grown h [t]) = Some hf" using pb q(1) by (simp add: c_free_def hf_def grown_def)
  define h' where "h' = hf\<lparr>blocks := (blocks hf)(brk hf \<mapsto> [1]), brk := Suc (brk hf)\<rparr>"
  obtain hm where m1: "c_malloc (Suc 0) hf = (brk hf, hm)" "store hm (brk hf) 0 [1] = Some h'"
    by (simp add: c_malloc_def store_def h'_def)
  have run: "makeAuthReply (se_proxy e rnd) c b h = Some (\<lparr>null_terminated = False, bss_length = 1, bss_str = brk hf\<rparr>, True, c, h')"
    by (simp add: makeAuthReply_def se_proxy_def se_server_make_auth_reply_def Let_def q(2) m ld r(1)[unfolded r(4)] r(4) dec' cmp f
        m1)
  have "heap_ok hf" using grown_ok[OF ok, of "[t]"] pb(2) by (auto simp: hf_def heap_ok_def)
  then have "heap_ok h'" by (simp add: h'_def heap_ok_def)
  moreover have "bss_bytes h' \<lparr>null_terminated = False, bss_length = 1, bss_str = brk hf\<rparr> = Some [1]"
    by (simp add: h'_def bss_bytes_def load_def)
  moreover have "blocks h' (bss_str b) = None" using pb by (simp add: h'_def hf_def grown_def)
  moreover have "onAuthReply (se_proxy e rnd) p 1 cc hc = None" if "heap_ok hc" "blocks hc p = Some [1]" for cc hc p
    by (rule se_one_byte_reply[OF that])
  ultimately show ?thesis using run by blast
qed

text \<open>The server gets the encryption of the empty text.\<close>

theorem se_refusal_undefined_at_client_witness:
  "\<exists>w r h'. makeAuthReply (se_proxy Little_Endian 0) (start_conn [1, 2]) \<lparr>null_terminated = False, bss_length = 16, bss_str = 2\<rparr>
      ((start_heap [1, 2])\<lparr>blocks := [1 \<mapsto> [1, 2], 2 \<mapsto> w], brk := 3\<rparr>) = Some (r, True, start_conn [1, 2], h') \<and>
    bss_bytes h' r = Some [1] \<and> onAuthReply (se_proxy Little_Endian 0) 1 1 (start_conn [1]) (start_heap [1]) = None"
proof -
  from AESEncrypt_fill_cipher[of "[1, 2]" "[1, 2]" "[]" "replicate 16 0"] obtain w where w: "fill_cipher [1, 2] [] w"
    by (auto simp: round_up_def)
  let ?h = "(start_heap [1, 2])\<lparr>blocks := [1 \<mapsto> [1, 2], 2 \<mapsto> w], brk := 3\<rparr>"
  let ?b = "\<lparr>null_terminated = False, bss_length = 16, bss_str = 2\<rparr> :: binary_safe_string"
  have lw: "length w = 16" using w by (simp add: fill_cipher_def round_up_def)
  have ok: "heap_ok ?h" "heap_ok (start_heap [1])" by (simp_all add: heap_ok_def start_heap_def)
  have pw: "bss_bytes ?h (passphrase (start_conn [1, 2])) = Some [1, 2]" by (simp add: bss_bytes_def start_conn_def load_def)
  from fill_cipherD[OF w, of "[1, 2]" "map (fresh_bytes ?h (brk ?h)) [0..<length w]"] obtain t where
    "AESDecrypt w [1, 2] (map (fresh_bytes ?h (brk ?h)) [0..<length w]) (length w) (length [1, 2 :: byte]) Q_AES_FLAG_FILL = Some (of_nat 0, t)"
    by auto
  from se_refusal_undefined_at_client[OF ok(1) pw, of ?b w, OF _ _ this, of Little_Endian 0] lw obtain r h' where
    "makeAuthReply (se_proxy Little_Endian 0) (start_conn [1, 2]) ?b ?h = Some (r, True, start_conn [1, 2], h')" "bss_bytes h' r = Some [1]"
    "\<And>cc hc p. heap_ok hc \<and> blocks hc p = Some [1] \<Longrightarrow> onAuthReply (se_proxy Little_Endian 0) p 1 cc hc = None"
    by auto
  with ok(2) show ?thesis by (intro exI[of _ w] exI[of _ r] exI[of _ h']) (simp add: start_heap_def)
qed

end
