(* ===== verification/Data_Path.thy ===== *)
theory Data_Path
  imports Socks5 Se_Session
begin

text \<open>
  Data through the tunnel. The locale \<open>tunnel_module\<close> joins the contracts of a module's two
  directions; inside it the relay loops of both programs are shown to carry a stream of data
  from the SOCKS5 client to the destination, in order and unchanged, for every module that
  keeps the contract. It is interpreted for \<open>simple_proxy\<close> and for \<open>se_proxy\<close>.
\<close>

section \<open>How the relays cut a stream\<close>

text \<open>
  What one call of \<open>recvall\<close> or \<open>readall\<close> takes from the script of a socket: a read of up to 512 bytes, and a second one when
  the first was full. \<open>None\<close> when a read fails, or would wait for more to arrive.
\<close>

definition next_read :: "rx_event list \<Rightarrow> (bytes \<times> rx_event list) option" where
  "next_read es =
     (case os_recv 512 es of
        (Io_Bytes bs, es1) \<Rightarrow>
          (if length bs < 512 then Some (bs, es1)
           else case os_recv 512 es1 of (Io_Bytes bs', es2) \<Rightarrow> Some (bs @ bs', es2) | _ \<Rightarrow> None)
      | _ \<Rightarrow> None)"

lemma next_read_stream:
  assumes "next_read es = Some (bs, es')"
  shows "rx_stream es = bs @ rx_stream es'" "length bs \<le> 1024"
proof -
  obtain a es1 where a: "os_recv 512 es = (Io_Bytes a, es1)"
    using assms by (auto simp: next_read_def split: prod.splits io_result.splits)
  note a' = os_recv_bytes[OF a]
  show "rx_stream es = bs @ rx_stream es'" "length bs \<le> 1024"
    using assms a a' by (auto simp: next_read_def split: if_splits prod.splits io_result.splits dest: os_recv_bytes)
qed

text \<open>
  The pieces in which successive calls read a script to its end, if none of them fails, waits or finds the end of the stream.
\<close>

function pieces :: "rx_event list \<Rightarrow> bytes list option" where
  "pieces es =
     (if es = [] then Some []
      else case next_read es of
             None \<Rightarrow> None
           | Some (bs, es') \<Rightarrow> if bs = [] then None else map_option (Cons bs) (pieces es'))"
  by pat_completeness auto
termination
  by (relation "measure (\<lambda>es. length (rx_stream es))") (auto dest: next_read_stream(1))

declare pieces.simps [simp del]

lemma pieces_Nil [simp]: "pieces [] = Some []"
  by (simp add: pieces.simps)

lemma pieces_ConsE:
  assumes "pieces es = Some (p # ps)"
  obtains es' where "next_read es = Some (p, es')" "p \<noteq> []" "pieces es' = Some ps"
  using assms by (subst (asm) pieces.simps) (auto split: if_splits option.splits prod.splits)

lemma pieces_stream: "pieces es = Some ps \<Longrightarrow> concat ps = rx_stream es"
proof (induction ps arbitrary: es)
  case Nil
  then show ?case by (subst (asm) pieces.simps) (auto split: if_splits option.splits)
next
  case (Cons p ps)
  then show ?case by (auto elim!: pieces_ConsE dest: next_read_stream(1))
qed

text \<open>Segments shorter than 512 bytes are the pieces; a segment of exactly 512 bytes is joined with the next 512 bytes.\<close>

lemma next_read_short: "bs \<noteq> [] \<Longrightarrow> length bs < 512 \<Longrightarrow> next_read (Rx_Data bs # es) = Some (bs, es)"
  by (simp add: next_read_def)

lemma pieces_short:
  "\<forall>d\<in>set datas. d \<noteq> [] \<and> length d < 512 \<Longrightarrow> pieces (map Rx_Data datas) = Some datas"
  by (induction datas) (simp_all add: pieces.simps[of "_ # _"] next_read_short)

lemma next_read_long:
  "512 < length bs \<Longrightarrow> next_read (Rx_Data bs # es) = Some (take 1024 bs, if length bs \<le> 1024 then es else Rx_Data (drop 1024 bs) # es)"
  by (auto simp: next_read_def take_add[of 512 512, simplified] drop_drop)

text \<open>One call on a socket.\<close>

lemma recv_some_next:
  assumes "socks w fd = Some s" "next_read (rx s) = Some (bs, es)"
  shows "recv_some fd 1024 w = (Ok (Some (bs, 1024)), w\<lparr>socks := (socks w)(fd \<mapsto> s\<lparr>rx := es\<rparr>)\<rparr>)"
  using assms
  by (auto simp: recv_some_def with_sock_def next_read_def recvall_loop_once split: prod.splits io_result.splits if_splits)

lemma readall_next:
  assumes ok: "heap_ok (mem w)" and s: "socks w fd = Some s" "next_read (rx s) = Some (bs, es)" "bs \<noteq> []"
  shows "\<exists>rest. readall fd NULL 0 w = (Ok (Some (length bs), brk (mem w)),
      w\<lparr>socks := (socks w)(fd \<mapsto> s\<lparr>rx := es\<rparr>),
        mem := (mem w)\<lparr>blocks := (blocks (mem w))(brk (mem w) \<mapsto> bs @ rest), brk := Suc (brk (mem w))\<rparr>\<rparr>)"
proof -
  define fr where "fr = map (fresh_bytes (mem w) (brk (mem w))) [0..<1024]"
  have lf: "length fr = 1024" by (simp add: fr_def)
  let ?w1 = "w\<lparr>mem := snd (c_malloc 1024 (mem w))\<rparr>"
  have r: "recv_some fd 1024 ?w1 = (Ok (Some (bs, 1024)), ?w1\<lparr>socks := (socks w)(fd \<mapsto> s\<lparr>rx := es\<rparr>)\<rparr>)"
    using recv_some_next[of ?w1 fd s bs es] s by simp
  have st: "store (snd (c_malloc 1024 (mem w))) (brk (mem w)) 0 bs =
      Some ((mem w)\<lparr>blocks := (blocks (mem w))(brk (mem w) \<mapsto> bs @ drop (length bs) fr), brk := Suc (brk (mem w))\<rparr>)"
    using next_read_stream(2)[OF s(2)] lf by (simp add: store_def c_malloc_def fr_def[symmetric] overwrite_def)
  have "readall fd NULL 0 w = (Ok (Some (length bs), brk (mem w)),
      w\<lparr>socks := (socks w)(fd \<mapsto> s\<lparr>rx := es\<rparr>),
        mem := (mem w)\<lparr>blocks := (blocks (mem w))(brk (mem w) \<mapsto> bs @ drop (length bs) fr), brk := Suc (brk (mem w))\<rparr>\<rparr>)"
    using r s(3) st by (simp add: readall_def Let_def bnd_def malloc_ex_apply ret_def store_ex_def on_heap_def)
  then show ?thesis by blast
qed

lemma quick_recvall_next:
  assumes ok: "heap_ok (mem w)" and s: "socks w fd = Some s" "next_read (rx s) = Some (bs, es)" "bs \<noteq> []"
  shows "quick_recvall fd w = (Ok bs,
      w\<lparr>socks := (socks w)(fd \<mapsto> s\<lparr>rx := es\<rparr>), mem := (mem w)\<lparr>brk := Suc (brk (mem w))\<rparr>\<rparr>)"
proof -
  let ?p = "brk (mem w)"
  from readall_next[OF assms] obtain rest where r: "recvall fd NULL 0 w = (Ok (Some (length bs), ?p),
      w\<lparr>socks := (socks w)(fd \<mapsto> s\<lparr>rx := es\<rparr>),
        mem := (mem w)\<lparr>blocks := (blocks (mem w))(?p \<mapsto> bs @ rest), brk := Suc ?p\<rparr>\<rparr>)" (is "_ = (_, ?w1)")
    unfolding readall_eq by blast
  have "load (mem ?w1) ?p 0 (length bs) = Some bs" by (simp add: load_def)
  moreover have "c_free ?p (mem ?w1) = Some ((mem w)\<lparr>brk := Suc ?p\<rparr>)"
    using heap_ok_fresh[OF ok] by (simp add: c_free_def fun_upd_idem)
  ultimately show ?thesis
    using r by (simp add: quick_recvall_def recvall_ex_def bnd_def ret_def load_ex_def free_ex_def on_heap_def)
qed

section \<open>The contract of a module\<close>

locale tunnel_module =
  up: message_codec "f_client_encode m" "f_server_decode m" linked private_block +
  down: message_codec "f_server_encode m" "f_client_decode m" "\<lambda>s hs c hc. linked c hc s hs" private_block
  for m :: snake_module and linked :: "connect_info \<Rightarrow> heap \<Rightarrow> connect_info \<Rightarrow> heap \<Rightarrow> bool"
    and private_block :: "connect_info \<Rightarrow> ptr \<Rightarrow> bool"
begin

text \<open>\<open>w\<close> is what the client's end makes of a message for a server whose heap is \<open>g\<close>.\<close>

definition encoding_of :: "connect_info \<Rightarrow> connect_info \<Rightarrow> heap \<Rightarrow> bytes \<Rightarrow> u16 \<Rightarrow> bytes \<Rightarrow> bytes \<Rightarrow> bool" where
  "encoding_of c cs g ip port data w \<longleftrightarrow>
     (\<exists>h q b h1. linked c h cs g \<and> heap_ok h \<and> query_ok h q \<and> \<not> private_block c (bss_str (payload q)) \<and>
        query_view h q = Some (ip, port, data) \<and> f_client_encode m c q h = Some (b, c, h1) \<and>
        bss_bytes h1 b = Some w) \<and> packet_fits w"

lemma encoding_of_frame:
  "encoding_of c cs g ip port data w \<Longrightarrow> \<forall>p. private_block cs p \<longrightarrow> blocks g' p = blocks g p \<Longrightarrow>
   encoding_of c cs g' ip port data w"
  unfolding encoding_of_def by (metis up.linked_frame)

text \<open>One packet at the server: decoded, then passed on to the next hop.\<close>

lemma serve_client_decodes:
  assumes enc: "encoding_of c cs (mem w) ip port data wire" and ok: "heap_ok (mem w)"
    and cid: "conns w cid = Some cs" and m: "it_mod it = m"
    and s: "socks w fd \<noteq> None" "incoming w fd = packet_wire wire @ rest" and ip: "ip \<noteq> replicate 16 0"
  shows "\<exists>w' q. serve_client e resolve it cid fd hop w = serve_data hop q w' \<and> destination_ip q = ip \<and> destination_port q = port \<and>
    (\<forall>w''. mem w'' = mem w' \<longrightarrow> load_n (bss_str (payload q)) (unat (bss_length (payload q))) w'' = (Ok data, w'')) \<and>
    heap_ok (mem w') \<and> conns w' cid = Some cs \<and> socks w' fd \<noteq> None \<and> incoming w' fd = rest \<and> outgoing w' fd = outgoing w fd \<and>
    net w' = net w \<and> next_fd w' = next_fd w \<and> (\<forall>f. f \<noteq> fd \<longrightarrow> socks w' f = socks w f) \<and>
    (\<forall>p. private_block cs p \<longrightarrow> blocks (mem w') p = blocks (mem w) p)"
proof -
  from enc obtain h q b h1 where e: "linked c h cs (mem w)" "heap_ok h" "query_ok h q"
      "\<not> private_block c (bss_str (payload q))" "query_view h q = Some (ip, port, data)"
      "f_client_encode m c q h = Some (b, c, h1)" "bss_bytes h1 b = Some wire" "packet_fits wire"
    unfolding encoding_of_def by blast
  let ?p = "brk (mem w)"
  from recv_length_and_packet_spec[OF e(8) ok s(2,1), of e] obtain w1
    where w1: "recv_length_and_packet e fd w = (Ok (?p, of_nat (length wire)), w1)" "incoming w1 fd = rest"
      "blocks (mem w1) = (blocks (mem w))(?p \<mapsto> wire)" "heap_ok (mem w1)" "socks w1 fd \<noteq> None" "outgoing w1 fd = outgoing w fd"
      "conns w1 = conns w" "net w1 = net w" "\<forall>f. f \<noteq> fd \<longrightarrow> socks w1 f = socks w f" "brk (mem w1) = Suc ?p" "next_fd w1 = next_fd w" by blast
  have np: "\<not> private_block cs ?p" using up.linked_private(2)[OF e(1)] ok by fastforce
  have l1: "linked c h cs (mem w1)"
    using e(1) by (rule up.linked_frame) (use np w1(3) in auto)
  let ?b = "\<lparr>null_terminated = False, bss_length = of_nat (length wire), bss_str = ?p\<rparr>"
  have d: "blocks (mem w1) (bss_str ?b) = Some wire" "unat (bss_length ?b) = length wire" "\<not> private_block cs (bss_str ?b)"
    using w1(3) packet_len(1)[OF e(8)] np by simp_all
  from up.decode_spec[OF l1 e(2,3,4,6,7) w1(4) d] obtain q' h2
    where q': "f_server_decode m cs ?b (mem w1) = Some (q', cs, h2)" "query_view h2 q' = query_view h q" "heap_ok h2"
      "\<forall>p. p < brk (mem w1) \<longrightarrow> p \<noteq> bss_str ?b \<longrightarrow> blocks h2 p = blocks (mem w1) p" by blast
  define w2 where "w2 = w1\<lparr>mem := h2, conns := (conns w1)(cid \<mapsto> cs)\<rparr>"
  have c2: "call_mod cid (\<lambda>c. server_impl_decode (it_mod it) c ?b) w1 = (Ok q', w2)"
    using cid w1(7) q'(1) by (simp add: call_mod_def server_impl_decode_def m w2_def)
  have view: "query_view h2 q' = Some (ip, port, data)" using q'(2) e(5) by simp
  then have qf: "destination_ip q' = ip" "destination_port q' = port" "bss_bytes h2 (payload q') = Some data" by (auto simp: query_view_def)
  have "length ip = 16" using e(3,5) by (auto simp: query_view_def query_ok_def)
  then have nd: "\<not> is_dns_query q'" using ip qf(1) by (auto simp: is_dns_query_def list_all_iff intro!: replicate_eqI)
  have "load_n (bss_str (payload q')) (unat (bss_length (payload q'))) w'' = (Ok data, w'')" if "mem w'' = mem w2" for w''
    using qf(3) that by (auto simp: load_n_def bss_bytes_def load_ex_def on_heap_def w2_def ret_def unat_eq_zero split: if_splits)
  moreover have "serve_client e resolve it cid fd hop w = serve_data hop q' w2"
    using w1(1) c2 nd by (simp add: serve_client_def bnd_def)
  moreover have "private_block cs p \<Longrightarrow> blocks h2 p = blocks (mem w) p" for p
  proof -
    assume a: "private_block cs p"
    then have "p < brk (mem w)" using up.linked_private(2)[OF e(1)] ok by fastforce
    then show "blocks h2 p = blocks (mem w) p" using q'(4) w1(3,10) by auto
  qed
  ultimately show ?thesis
    using qf(1,2) q'(3) w1(2,5,6,8,9,11) by (intro exI[of _ w2] exI[of _ q']) (auto simp: w2_def incoming_def outgoing_def)
qed

lemma send_payload_ok:
  assumes "load_n (bss_str (payload q)) (unat (bss_length (payload q))) w = (Ok data, w)" "writable w hop"
  shows "\<exists>w'. send_payload hop q w = (Ok hop, w') \<and> same_but hop w w' \<and> writable w' hop \<and> outgoing w' hop = outgoing w hop @ data"
proof -
  from sendn_ex_ok[OF assms(2), of False data] obtain w3
    where "sendn_ex False hop data w = (Ok (), w3)" "same_but hop w w3" "writable w3 hop" "outgoing w3 hop = outgoing w hop @ data" by blast
  then show ?thesis using assms(1) by (simp add: send_payload_def bnd_def ret_def)
qed

lemma serve_client_forwards:
  assumes enc: "encoding_of c cs (mem w) ip port data wire" and ok: "heap_ok (mem w)"
    and cid: "conns w cid = Some cs" and m: "it_mod it = m"
    and s: "socks w fd \<noteq> None" "incoming w fd = packet_wire wire @ rest"
    and hop: "hop \<noteq> fd" "hop \<noteq> -1" "writable w hop" and ip: "ip \<noteq> replicate 16 0"
  shows "\<exists>w'. serve_client e resolve it cid fd hop w = (Ok hop, w') \<and> heap_ok (mem w') \<and> conns w' cid = Some cs \<and>
    socks w' fd \<noteq> None \<and> incoming w' fd = rest \<and> writable w' hop \<and> outgoing w' hop = outgoing w hop @ data \<and> outgoing w' fd = outgoing w fd \<and>
    (\<forall>p. private_block cs p \<longrightarrow> blocks (mem w') p = blocks (mem w) p)"
proof -
  from serve_client_decodes[OF enc ok cid m s ip, of e resolve hop] obtain w2 q where w2:
      "serve_client e resolve it cid fd hop w = serve_data hop q w2"
      "load_n (bss_str (payload q)) (unat (bss_length (payload q))) w2 = (Ok data, w2)"
      "heap_ok (mem w2)" "conns w2 cid = Some cs" "socks w2 fd \<noteq> None" "incoming w2 fd = rest" "outgoing w2 fd = outgoing w fd"
      "\<forall>f. f \<noteq> fd \<longrightarrow> socks w2 f = socks w f" "\<forall>p. private_block cs p \<longrightarrow> blocks (mem w2) p = blocks (mem w) p" by blast
  have "writable w2 hop" "outgoing w2 hop = outgoing w hop" using hop w2(8) by (simp_all add: writable_def outgoing_def)
  from send_payload_ok[OF w2(2) this(1)] this(2) obtain w3 where w3: "send_payload hop q w2 = (Ok hop, w3)" "same_but hop w2 w3"
      "writable w3 hop" "outgoing w3 hop = outgoing w hop @ data" by auto
  have "serve_client e resolve it cid fd hop w = (Ok hop, w3)" using w2(1) w3(1) hop(2) by (simp add: serve_data_def)
  then show ?thesis using w3 w2(3-7,9) same_but_simps[OF w3(2)] hop(1) by (auto simp: incoming_def outgoing_def)
qed

text \<open>One segment at the client: read, encoded and sent as a packet.\<close>

lemma pass_up_sends:
  assumes l: "linked c (mem w) cs g" and ok: "heap_ok (mem w)" and cid: "conns w (sc_info nh) = Some c" and m: "ot_mod ot = m"
    and s: "socks w fd = Some s" "next_read (rx s) = Some (data, es)" "data \<noteq> []"
    and hop: "sc_fd nh \<noteq> fd" "writable w (sc_fd nh)"
    and q: "destination_ip tmpl = ip" "destination_port tmpl = port" "length ip = 16"
  shows "\<exists>w' wire. pass_up e ot fd nh tmpl w = (Ok True, w') \<and> encoding_of c cs g ip port data wire \<and>
    outgoing w' (sc_fd nh) = outgoing w (sc_fd nh) @ packet_wire wire \<and> linked c (mem w') cs g \<and> heap_ok (mem w') \<and>
    conns w' (sc_info nh) = Some c \<and> socks w' fd = Some (s\<lparr>rx := es\<rparr>) \<and> writable w' (sc_fd nh)"
proof -
  let ?p = "brk (mem w)" and ?n = "length data"
  note n = next_read_stream(2)[OF s(2)]
  from readall_next[OF ok s] obtain rest w1 where w1: "readall fd NULL 0 w = (Ok (Some ?n, ?p), w1)"
      "w1 = w\<lparr>socks := (socks w)(fd \<mapsto> s\<lparr>rx := es\<rparr>),
        mem := (mem w)\<lparr>blocks := (blocks (mem w))(?p \<mapsto> data @ rest), brk := Suc ?p\<rparr>\<rparr>" by blast
  let ?bss = "\<lparr>null_terminated = False, bss_length = of_nat ?n, bss_str = ?p\<rparr>"
  let ?q = "tmpl\<lparr>payload := ?bss\<rparr>"
  have b1: "blocks (mem w1) = (blocks (mem w))(?p \<mapsto> data @ rest)" "brk (mem w1) = Suc ?p" by (simp_all add: w1(2))
  have ok1: "heap_ok (mem w1)" using ok by (simp add: w1(2) heap_ok_def)
  have np: "\<not> private_block c ?p" using up.linked_private(1)[OF l] ok by fastforce
  have un: "unat (of_nat ?n :: u32) = ?n" using n by (simp add: unat_of_nat)
  then have nz: "(of_nat ?n :: u32) \<noteq> 0" using s(3) by auto
  have l1: "linked c (mem w1) cs g" using l by (rule up.linked_frame) (use np b1 in auto)
  have q1: "query_ok (mem w1) ?q" "query_view (mem w1) ?q = Some (ip, port, data)"
    using q n un nz b1 heap_ok_fresh[OF ok] by (auto simp: query_ok_def query_view_def bss_bytes_def load_def)
  have np1: "\<not> private_block c (bss_str (payload ?q))" using np by simp
  from up.encode_spec[OF l1 ok1 q1(1) np1] obtain b h1 wire
    where e: "f_client_encode m c ?q (mem w1) = Some (b, c, h1)" "bss_bytes h1 b = Some wire"
      "unat (bss_length b) = length wire" "length wire \<le> ?n + 1024" "brk (mem w1) \<le> bss_str b" "heap_ok h1"
      "blocks h1 = (blocks (mem w1))(bss_str b \<mapsto> wire, ?p := None)"
    using un by auto
  have enc: "encoding_of c cs g ip port data wire"
    using l1 ok1 q1 np1 e(1,2,4) n unfolding encoding_of_def packet_fits_def by (intro conjI) (blast, simp)
  define w2 where "w2 = w1\<lparr>mem := h1, conns := (conns w1)(sc_info nh \<mapsto> c)\<rparr>"
  have c2: "call_mod (sc_info nh) (\<lambda>c. client_impl_encode (ot_mod ot) ?bss c tmpl) w1 = (Ok b, w2)"
    using cid nz e(1) by (simp add: call_mod_def client_impl_encode_def m w1(2) w2_def)
  have len: "bss_length b = of_nat (length wire)" by (simp flip: e(3))
  have wr2: "writable w2 (sc_fd nh)" using hop by (simp add: w2_def w1(2) writable_def)
  let ?l = "mem_of_word e 4 (hton e 4 (bss_length b))"
  from sendn_ex_ok[OF wr2, of True ?l] obtain w3
    where w3: "sendn_ex True (sc_fd nh) ?l w2 = (Ok (), w3)" "same_but (sc_fd nh) w2 w3" "writable w3 (sc_fd nh)"
      "outgoing w3 (sc_fd nh) = outgoing w2 (sc_fd nh) @ ?l" by blast
  have ld: "load_n (bss_str b) (unat (bss_length b)) w3 = (Ok wire, w3)"
    using e(2) same_but_simps(1)[OF w3(2)]
    by (auto simp: load_n_def bss_bytes_def load_ex_def on_heap_def w2_def ret_def unat_eq_zero split: if_splits)
  from sendn_ex_ok[OF w3(3), of True wire] obtain w4
    where w4: "sendn_ex True (sc_fd nh) wire w3 = (Ok (), w4)" "same_but (sc_fd nh) w3 w4" "writable w4 (sc_fd nh)"
      "outgoing w4 (sc_fd nh) = outgoing w3 (sc_fd nh) @ wire" by blast
  have m4: "mem w4 = h1" using same_but_simps(1)[OF w3(2)] same_but_simps(1)[OF w4(2)] by (simp add: w2_def)
  have fb: "bss_str b \<noteq> 0" "blocks h1 (bss_str b) = Some wire" using e(5,7) b1(2) by auto
  define w5 where "w5 = w4\<lparr>mem := h1\<lparr>blocks := (blocks h1)(bss_str b := None)\<rparr>\<rparr>"
  have fr: "free_ex (bss_str b) w4 = (Ok (), w5)"
    using free_Some[OF fb] by (simp add: free_ex_def on_heap_def m4 w5_def)
  have "pass_up e ot fd nh tmpl w = (Ok True, w5)"
    using w1(1) c2 w3(1) ld w4(1) fr s(3)
    by (simp add: pass_up_def bnd_def deferring_def ret_def sc_sendn_def)
  moreover have "\<not> private_block c (bss_str b)" using up.fresh_not_private(1)[OF l1 ok1 e(5)] .
  then have "linked c (mem w5) cs g"
    by (intro up.linked_frame[OF l1]) (use np e(5,7) b1 in \<open>auto simp: w5_def\<close>)
  moreover have "heap_ok (mem w5)" using e(6) by (simp add: w5_def heap_ok_def)
  moreover have "outgoing w5 (sc_fd nh) = outgoing w (sc_fd nh) @ packet_wire wire"
    using w3(4) w4(4) hop(1) len by (simp add: w5_def outgoing_def w2_def w1(2) packet_wire_def mem_of_hton)
  moreover have "conns w5 (sc_info nh) = Some c" "socks w5 fd = Some (s\<lparr>rx := es\<rparr>)" "writable w5 (sc_fd nh)"
    using w4(3) same_but_simps[OF w3(2)] same_but_simps[OF w4(2)] hop(1)
    by (simp_all add: w5_def w2_def w1(2) writable_def)
  ultimately show ?thesis using enc by blast
qed

text \<open>A stream of packets at the server, and a stream of segments at the client.\<close>

lemma serve_loop_forwards:
  assumes "list_all2 (encoding_of c cs g ip port) datas wires"
    "\<forall>p. private_block cs p \<longrightarrow> blocks (mem w) p = blocks g p"
    "heap_ok (mem w)" "conns w cid = Some cs" "it_mod it = m"
    "socks w fd \<noteq> None" "incoming w fd = concat (map packet_wire wires) @ rest"
    "hop \<noteq> fd" "hop \<noteq> -1" "writable w hop" "ip \<noteq> replicate 16 0"
  shows "\<exists>w'. serve_loop e resolve it cid fd hop (replicate (length datas) (Sel_Ready [fd]) @ sels) w =
      serve_loop e resolve it cid fd hop sels w' \<and>
    heap_ok (mem w') \<and> conns w' cid = Some cs \<and> incoming w' fd = rest \<and> outgoing w' hop = outgoing w hop @ concat datas \<and>
    outgoing w' fd = outgoing w fd"
  using assms
proof (induction datas wires arbitrary: w rule: list_all2_induct)
  case Nil
  then show ?case by auto
next
  case (Cons data datas wire wires)
  note s = Cons.prems
  have enc: "encoding_of c cs (mem w) ip port data wire" using Cons.hyps(1) s(1) by (rule encoding_of_frame)
  have inc: "incoming w fd = packet_wire wire @ (concat (map packet_wire wires) @ rest)" using s(6) by simp
  from serve_client_forwards[OF enc s(2,3,4,5) inc s(7,8,9,10)] obtain w1
    where w1: "serve_client e resolve it cid fd hop w = (Ok hop, w1)" "heap_ok (mem w1)" "conns w1 cid = Some cs"
      "socks w1 fd \<noteq> None" "incoming w1 fd = concat (map packet_wire wires) @ rest" "writable w1 hop"
      "outgoing w1 hop = outgoing w hop @ data" "outgoing w1 fd = outgoing w fd" "\<forall>p. private_block cs p \<longrightarrow> blocks (mem w1) p = blocks (mem w) p"
    by blast
  have fr: "\<forall>p. private_block cs p \<longrightarrow> blocks (mem w1) p = blocks g p" using w1(9) s(1) by simp
  from Cons.IH[OF fr w1(2,3) s(4) w1(4,5) s(7,8) w1(6) s(10)] obtain w2
    where w2: "serve_loop e resolve it cid fd hop (replicate (length datas) (Sel_Ready [fd]) @ sels) w1 =
        serve_loop e resolve it cid fd hop sels w2" "heap_ok (mem w2)" "conns w2 cid = Some cs" "incoming w2 fd = rest"
      "outgoing w2 hop = outgoing w1 hop @ concat datas" "outgoing w2 fd = outgoing w1 fd" by blast
  have "serve_loop e resolve it cid fd hop (replicate (length (data # datas)) (Sel_Ready [fd]) @ sels) w =
      serve_loop e resolve it cid fd hop (replicate (length datas) (Sel_Ready [fd]) @ sels) w1"
    using w1(1) s(7) by (simp add: bnd_def catch_def ret_def)
  with w2 w1(7,8) show ?case by auto
qed

lemma pass_loop_sends:
  assumes "linked c (mem w) cs g" "heap_ok (mem w)" "conns w (sc_info nh) = Some c" "ot_mod ot = m"
    "socks w fd = Some s" "pieces (rx s) = Some ps"
    "sc_fd nh \<noteq> fd" "writable w (sc_fd nh)"
    "destination_ip tmpl = ip" "destination_port tmpl = port" "length ip = 16"
  shows "\<exists>w' wires. pass_loop e ot fd nh tmpl (replicate (length ps) (Sel_Ready [fd]) @ sels) w =
      pass_loop e ot fd nh tmpl sels w' \<and>
    list_all2 (encoding_of c cs g ip port) ps wires \<and>
    outgoing w' (sc_fd nh) = outgoing w (sc_fd nh) @ concat (map packet_wire wires) \<and>
    linked c (mem w') cs g \<and> heap_ok (mem w') \<and> conns w' (sc_info nh) = Some c"
  using assms
proof (induction ps arbitrary: w s)
  case Nil
  then show ?case by (intro exI[of _ w] exI[of _ "[]"]) simp
next
  case (Cons data ps)
  note s = Cons.prems
  obtain es where d: "next_read (rx s) = Some (data, es)" "data \<noteq> []" "pieces es = Some ps" using s(6) by (rule pieces_ConsE)
  from pass_up_sends[OF s(1,2,3,4,5) d(1,2) s(7,8,9,10,11), of e] obtain w1 wire
    where w1: "pass_up e ot fd nh tmpl w = (Ok True, w1)" "encoding_of c cs g ip port data wire"
      "outgoing w1 (sc_fd nh) = outgoing w (sc_fd nh) @ packet_wire wire" "linked c (mem w1) cs g" "heap_ok (mem w1)"
      "conns w1 (sc_info nh) = Some c" "socks w1 fd = Some (s\<lparr>rx := es\<rparr>)" "writable w1 (sc_fd nh)" by blast
  have rx: "pieces (rx (s\<lparr>rx := es\<rparr>)) = Some ps" using d(3) by simp
  from Cons.IH[OF w1(4,5,6) s(4) w1(7) rx s(7) w1(8) s(9,10,11)] obtain w2 wires
    where w2: "pass_loop e ot fd nh tmpl (replicate (length ps) (Sel_Ready [fd]) @ sels) w1 = pass_loop e ot fd nh tmpl sels w2"
      "list_all2 (encoding_of c cs g ip port) ps wires"
      "outgoing w2 (sc_fd nh) = outgoing w1 (sc_fd nh) @ concat (map packet_wire wires)"
      "linked c (mem w2) cs g" "heap_ok (mem w2)" "conns w2 (sc_info nh) = Some c" by blast
  have "pass_loop e ot fd nh tmpl (replicate (length (data # ps)) (Sel_Ready [fd]) @ sels) w =
      pass_loop e ot fd nh tmpl (replicate (length ps) (Sel_Ready [fd]) @ sels) w1"
    using w1(1) s(7) by (simp add: bnd_def ret_def)
  with w2 w1(2,3) show ?case by (intro exI[of _ w2] exI[of _ "wire # wires"]) simp
qed

text \<open>The way back: \<open>w\<close> is what the server's end makes of data for a client whose heap is \<open>g\<close>.\<close>

definition reply_encoding_of :: "connect_info \<Rightarrow> connect_info \<Rightarrow> heap \<Rightarrow> bytes \<Rightarrow> bytes \<Rightarrow> bool" where
  "reply_encoding_of cs c g data w \<longleftrightarrow>
     (\<exists>h q b h1 ip port. linked c g cs h \<and> heap_ok h \<and> query_ok h q \<and> \<not> private_block cs (bss_str (payload q)) \<and>
        query_view h q = Some (ip, port, data) \<and> f_server_encode m cs q h = Some (b, cs, h1) \<and>
        bss_bytes h1 b = Some w) \<and> packet_fits w \<and> w \<noteq> []"

lemma pass_down_delivers:
  assumes enc: "reply_encoding_of cs c (mem w) data wire" and data: "data \<noteq> []" and ok: "heap_ok (mem w)"
    and cid: "conns w (sc_info nh) = Some c" and m: "ot_mod ot = m"
    and s: "socks w (sc_fd nh) \<noteq> None" "incoming w (sc_fd nh) = packet_wire wire @ rest"
    and fd: "fd \<noteq> sc_fd nh" "writable w fd"
  shows "\<exists>w'. pass_down e ot fd nh w = (Ok True, w') \<and> heap_ok (mem w') \<and> conns w' (sc_info nh) = Some c \<and>
    incoming w' (sc_fd nh) = rest \<and> writable w' fd \<and> outgoing w' fd = outgoing w fd @ data \<and>
    (\<forall>p. p < brk (mem w) \<longrightarrow> blocks (mem w') p = blocks (mem w) p)"
proof -
  from enc obtain h q b h1 ip port where e: "linked c (mem w) cs h" "heap_ok h" "query_ok h q"
      "\<not> private_block cs (bss_str (payload q))" "query_view h q = Some (ip, port, data)"
      "f_server_encode m cs q h = Some (b, cs, h1)" "bss_bytes h1 b = Some wire" "packet_fits wire" "wire \<noteq> []"
    unfolding reply_encoding_of_def by blast
  let ?p = "brk (mem w)" and ?f = "sc_fd nh" and ?len = "of_nat (length wire) :: u32"
  have inc: "incoming w ?f = mem_of_word Big_Endian 4 ?len @ (wire @ rest)" using s(2) by (simp add: packet_wire_def)
  obtain w1 where w1: "recvn_ex ?f 4 4 w = (Ok (mem_of_word Big_Endian 4 ?len), w1)" "same_but ?f w w1"
      "incoming w1 ?f = wire @ rest" "socks w1 ?f \<noteq> None"
    using recvn_ex_next[OF s(1) inc length_mem_of_word order.refl] by blast
  have n: "hton e 4 (word_of_mem e (mem_of_word Big_Endian 4 ?len)) = ?len"
    using hton_hton[of 4 e ?len] by (simp add: hton_def)
  note u = packet_len(1)[OF e(8)]
  have nz: "?len \<noteq> 0" using u e(9) by auto
  define w2 where "w2 = w1\<lparr>mem := snd (c_malloc (length wire) (mem w))\<rparr>"
  have m1: "mem w1 = mem w" using w1(2) by (rule same_but_simps(1))
  have w2: "malloc_ex (length wire) w1 = (Ok ?p, w2)" "incoming w2 ?f = wire @ rest" "socks w2 ?f \<noteq> None"
    using w1 by (simp_all add: malloc_ex_apply m1 w2_def incoming_def)
  obtain w3 where w3: "recvn_ex ?f (length wire) (length wire) w2 = (Ok wire, w3)" "same_but ?f w2 w3" "incoming w3 ?f = rest"
    using recvn_ex_next[OF w2(3,2) refl order.refl] by blast
  then have r3: "recvn ?f (length wire) (length wire) w2 = (Ok (Some wire), w3)"
    by (auto simp: recvn_ex_def bnd_def throw_def ret_def split: prod.splits outcome.splits option.splits)
  have m3: "mem w3 = snd (c_malloc (length wire) (mem w))" using same_but_simps(1)[OF w3(2)] by (simp add: w2_def)
  define w4 where "w4 = w3\<lparr>mem := (mem w3)\<lparr>blocks := (blocks (mem w))(?p \<mapsto> wire)\<rparr>\<rparr>"
  have w4: "recvn_and_free_on_err nh ?p (length wire) w2 = (Ok (), w4)"
    using r3 by (simp add: recvn_and_free_on_err_def bnd_def store_ex_def on_heap_def store_def m3 c_malloc_def w4_def)
  have b4: "blocks (mem w4) = (blocks (mem w))(?p \<mapsto> wire)" "brk (mem w4) = Suc ?p" by (simp_all add: w4_def m3 c_malloc_def)
  have ok4: "heap_ok (mem w4)" using ok by (simp add: w4_def m3 c_malloc_def heap_ok_def)
  have np: "\<not> private_block c ?p" using up.linked_private(1)[OF e(1)] ok by fastforce
  have l4: "linked c (mem w4) cs h" using e(1) by (rule up.linked_frame) (use np b4 in auto)
  let ?b = "\<lparr>null_terminated = False, bss_length = ?len, bss_str = ?p\<rparr>"
  have d: "blocks (mem w4) (bss_str ?b) = Some wire" "unat (bss_length ?b) = length wire" "\<not> private_block c (bss_str ?b)"
    using b4 u np by simp_all
  from down.decode_spec[OF l4 e(2,3,4,6,7) ok4 d] obtain q' h2
    where q': "f_client_decode m c ?b (mem w4) = Some (q', c, h2)" "query_view h2 q' = query_view h q" "heap_ok h2"
      "bss_str (payload q') = 0 \<or> brk (mem w4) \<le> bss_str (payload q') \<and> blocks h2 (bss_str (payload q')) \<noteq> None"
      "\<forall>p. p < brk (mem w4) \<longrightarrow> p \<noteq> bss_str ?b \<longrightarrow> blocks h2 p = blocks (mem w4) p" by blast
  define w5 where "w5 = w4\<lparr>mem := h2, conns := (conns w4)(sc_info nh \<mapsto> c)\<rparr>"
  have sk4: "socks w4 = socks w3" "conns w4 = conns w" "\<forall>f. f \<noteq> ?f \<longrightarrow> socks w3 f = socks w f"
    using same_but_simps[OF w1(2)] same_but_simps[OF w3(2)] by (simp_all add: w4_def w2_def)
  have c5: "call_mod (sc_info nh) (\<lambda>c. client_impl_decode (ot_mod ot) ?b c) w4 = (Ok q', w5)"
    using cid sk4(2) q'(1) by (simp add: call_mod_def client_impl_decode_def m w5_def)
  let ?s = "bss_str (payload q')"
  have pv: "bss_bytes h2 (payload q') = Some data" using q'(2) e(5) by (auto simp: query_view_def)
  then have ld: "load_n ?s (unat (bss_length (payload q'))) w5 = (Ok data, w5)"
    by (auto simp: load_n_def bss_bytes_def load_ex_def on_heap_def w5_def ret_def unat_eq_zero split: if_splits)
  from pv data have "blocks h2 ?s \<noteq> None" by (auto simp: bss_bytes_def load_def split: if_splits option.splits)
  then have s0: "?s \<noteq> 0" "brk (mem w4) \<le> ?s" and "\<exists>bb. blocks h2 ?s = Some bb" using q'(3,4) b4(2) by (auto simp: heap_ok_def)
  then obtain bb where bb: "blocks h2 ?s = Some bb" by blast
  have wr: "writable w5 fd" using fd sk4 by (simp add: w5_def writable_def)
  from sendn_ex_ok[OF wr, of True data] obtain w6
    where w6: "sendn_ex True fd data w5 = (Ok (), w6)" "same_but fd w5 w6" "writable w6 fd"
      "outgoing w6 fd = outgoing w5 fd @ data" by blast
  have m6: "mem w6 = h2" using same_but_simps(1)[OF w6(2)] by (simp add: w5_def)
  define w7 where "w7 = w6\<lparr>mem := h2\<lparr>blocks := (blocks h2)(?s := None)\<rparr>\<rparr>"
  have f7: "free_ex ?s w6 = (Ok (), w7)" using free_Some[OF s0(1) bb] by (simp add: free_ex_def on_heap_def m6 w7_def)
  have "pass_down e ot fd nh w = (Ok True, w7)"
    using w1(1) n nz w2(1) w4 c5 ld w6(1) f7 u by (simp add: pass_down_def sc_recvn_def bnd_def deferring_def ret_def Let_def)
  moreover have "heap_ok (mem w7)" using q'(3) by (simp add: w7_def heap_ok_def)
  moreover have "p < ?p \<Longrightarrow> blocks (mem w7) p = blocks (mem w) p" for p
    using q'(5) b4 s0(2) by (auto simp: w7_def)
  moreover have "outgoing w5 fd = outgoing w fd" using fd(1) sk4 by (simp add: w5_def outgoing_def)
  moreover have "socks w6 ?f = socks w3 ?f" "conns w6 = conns w5" using same_but_simps[OF w6(2)] fd(1) sk4(1) by (simp_all add: w5_def)
  moreover have "conns w5 (sc_info nh) = Some c" by (simp add: w5_def)
  ultimately show ?thesis
    using w6(3,4) w3(3) by (intro exI[of _ w7]) (simp add: w7_def incoming_def writable_def outgoing_def)
qed

lemma serve_next_hop_sends:
  assumes l: "linked c g cs (mem w)" and ok: "heap_ok (mem w)" and cid: "conns w cid = Some cs" and m: "it_mod it = m"
    and s: "socks w hop = Some s" "next_read (rx s) = Some (data, es)" "data \<noteq> []"
    and fd: "hop \<noteq> fd" "writable w fd"
    and nonempty: "\<And>q h b h1. linked c g cs h \<Longrightarrow> heap_ok h \<Longrightarrow> query_ok h q \<Longrightarrow>
      f_server_encode m cs q h = Some (b, cs, h1) \<Longrightarrow> bss_bytes h1 b \<noteq> Some []"
  shows "\<exists>w' wire. serve_next_hop e it cid fd hop w = (Ok True, w') \<and> reply_encoding_of cs c g data wire \<and>
    outgoing w' fd = outgoing w fd @ packet_wire wire \<and> heap_ok (mem w') \<and> conns w' cid = Some cs \<and>
    socks w' hop = Some (s\<lparr>rx := es\<rparr>) \<and> writable w' fd \<and> linked c g cs (mem w')"
proof -
  let ?w1 = "w\<lparr>socks := (socks w)(hop \<mapsto> s\<lparr>rx := es\<rparr>), mem := (mem w)\<lparr>brk := Suc (brk (mem w))\<rparr>\<rparr>"
  have r1: "quick_recvall hop w = (Ok data, ?w1)" by (rule quick_recvall_next[OF ok s])
  note n = next_read_stream(2)[OF s(2)]
  have ok1: "heap_ok (mem ?w1)" using ok by (simp add: heap_ok_def)
  have "length data < 2 ^ 32" using n by simp
  from make_binary_safe_string_of_bytes[OF ok1 this] obtain pb h0
    where pb: "make_binary_safe_string_of data (mem ?w1) = Some (pb, h0)" "bss_bytes h0 pb = Some data"
      "unat (bss_length pb) = length data" "bss_str pb = brk (mem ?w1)" "blocks h0 = (blocks (mem ?w1))(brk (mem ?w1) \<mapsto> data)"
      "brk h0 = Suc (brk (mem ?w1))" "heap_ok h0" by blast
  let ?q = "\<lparr>destination_ip = replicate 16 0, destination_port = bindPort it, payload = pb\<rparr>"
  have np: "\<not> private_block cs (brk (mem ?w1))" using up.linked_private(2)[OF l] ok1 by fastforce
  have l0: "linked c g cs h0" using l by (rule up.linked_frame) (use np pb(5) in auto)
  have q: "query_ok h0 ?q" "query_view h0 ?q = Some (replicate 16 0, bindPort it, data)" "\<not> private_block cs (bss_str (payload ?q))"
    using pb n np by (auto simp: query_ok_def query_view_def)
  from down.encode_spec[OF l0 pb(7) q(1,3)] obtain b h1 wire
    where e: "f_server_encode m cs ?q h0 = Some (b, cs, h1)" "bss_bytes h1 b = Some wire" "unat (bss_length b) = length wire"
      "length wire \<le> length data + 1024" "brk h0 \<le> bss_str b" "heap_ok h1"
      "blocks h1 = (blocks h0)(bss_str b \<mapsto> wire, bss_str pb := None)"
    using pb(3) by auto
  have fits: "packet_fits wire" using e(4) n by (simp add: packet_fits_def)
  have ne: "wire \<noteq> []" using nonempty[OF l0 pb(7) q(1) e(1)] e(2) by auto
  have enc: "reply_encoding_of cs c g data wire"
    unfolding reply_encoding_of_def using l0 pb(7) q e(1,2) fits ne by blast
  define w2 where "w2 = ?w1\<lparr>mem := h1, conns := (conns w)(cid \<mapsto> cs)\<rparr>"
  have c2: "call_mod cid (\<lambda>c. server_impl_encode (it_mod it) c ?q) (?w1\<lparr>mem := h0\<rparr>) = (Ok b, w2)"
    using cid e(1) by (simp add: call_mod_def server_impl_encode_def m w2_def)
  have len: "bss_length b = of_nat (length wire)" by (simp flip: e(3))
  have bb: "wire = [] \<or> blocks (mem w2) (bss_str b) = Some wire" using e(5,7) pb(4,6) by (simp add: w2_def)
  have wr: "writable w2 fd" using fd by (simp add: w2_def writable_def)
  from send_length_and_packet_spec[OF fits wr len bb, of e] obtain w3
    where w3: "send_length_and_packet e fd (bss_str b) (bss_length b) w2 = (Ok (), w3)" "same_but fd w2 w3" "writable w3 fd"
      "outgoing w3 fd = outgoing w2 fd @ packet_wire wire" by blast
  have "serve_next_hop e it cid fd hop w = (Ok True, w3)"
    using r1 s(3) pb(1) c2 w3(1) by (simp add: serve_next_hop_def bnd_def on_heap_def ret_def Let_def)
  moreover have "\<not> private_block cs (bss_str b)" using up.fresh_not_private(2)[OF l0 pb(7) e(5)] .
  then have "linked c g cs h1" by (intro up.linked_frame[OF l0]) (use np e(7) pb(4) in auto)
  moreover have "outgoing w2 fd = outgoing w fd" "mem w2 = h1" "conns w2 cid = Some cs" "socks w2 hop = Some (s\<lparr>rx := es\<rparr>)"
    using fd(1) by (simp_all add: w2_def outgoing_def)
  ultimately show ?thesis
    using enc w3(3,4) e(6) same_but_simps[OF w3(2)] fd(1) by (intro exI[of _ w3] exI[of _ wire]) simp
qed

text \<open>The two directions end to end, for any module that satisfies the contract.\<close>

lemma stream_carried:
  assumes client: "heap_ok (mem wc)" "conns wc (sc_info nh) = Some c" "ot_mod ot = m"
      "socks wc fd = Some s" "pieces (rx s) = Some ps"
      "sc_fd nh \<noteq> fd" "writable wc (sc_fd nh)" "outgoing wc (sc_fd nh) = []"
      "destination_ip tmpl = ip" "length ip = 16" "ip \<noteq> replicate 16 0"
    and server: "heap_ok (mem ws)" "conns ws cid = Some cs" "it_mod it = m"
      "socks ws cfd \<noteq> None" "hop \<noteq> cfd" "hop \<noteq> -1" "writable ws hop"
    and session: "linked c (mem wc) cs (mem ws)"
    and arrives: "\<And>wc'. pass_loop e ot fd nh tmpl (replicate (length ps) (Sel_Ready [fd])) wc = (Blocked, wc') \<Longrightarrow>
      incoming ws cfd = outgoing wc' (sc_fd nh)"
  shows "\<exists>wc' ws'.
    pass_loop e ot fd nh tmpl (replicate (length ps) (Sel_Ready [fd])) wc = (Blocked, wc') \<and>
    serve_loop e resolve it cid cfd hop (replicate (length ps) (Sel_Ready [cfd])) ws = (Blocked, ws') \<and>
    outgoing ws' hop = outgoing ws hop @ rx_stream (rx s)"
proof -
  from pass_loop_sends[OF session client(1,2,3,4,5,6,7,9) refl client(10), of e "[]"] obtain wc' wires
    where c: "pass_loop e ot fd nh tmpl (replicate (length ps) (Sel_Ready [fd])) wc = (Blocked, wc')"
      "list_all2 (encoding_of c cs (mem ws) ip (destination_port tmpl)) ps wires"
      "outgoing wc' (sc_fd nh) = concat (map packet_wire wires)"
    using client(8) by auto
  have inc: "incoming ws cfd = concat (map packet_wire wires) @ []" using arrives[OF c(1)] c(3) by simp
  from serve_loop_forwards[OF c(2) _ server(1,2,3,4) inc server(5,6,7) client(11), of e resolve "[]"] c(1)
  show ?thesis using pieces_stream[OF client(5)] by auto
qed

lemma reply_carried:
  assumes server: "heap_ok (mem ws)" "conns ws cid = Some cs" "it_mod it = m"
      "socks ws hop = Some s" "next_read (rx s) = Some (data, es)" "data \<noteq> []"
      "hop \<noteq> cfd" "writable ws cfd" "outgoing ws cfd = []"
    and client: "heap_ok (mem wc)" "conns wc (sc_info nh) = Some c" "ot_mod ot = m"
      "socks wc (sc_fd nh) \<noteq> None" "fd \<noteq> sc_fd nh" "writable wc fd"
    and session: "linked c (mem wc) cs (mem ws)"
    and arrives: "\<And>ws'. serve_next_hop e it cid cfd hop ws = (Ok True, ws') \<Longrightarrow> incoming wc (sc_fd nh) = outgoing ws' cfd"
    and nonempty: "\<And>q h b h1. linked c (mem wc) cs h \<Longrightarrow> heap_ok h \<Longrightarrow> query_ok h q \<Longrightarrow>
      f_server_encode m cs q h = Some (b, cs, h1) \<Longrightarrow> bss_bytes h1 b \<noteq> Some []"
  shows "\<exists>ws' wc'. serve_next_hop e it cid cfd hop ws = (Ok True, ws') \<and>
    pass_down e ot fd nh wc = (Ok True, wc') \<and> outgoing wc' fd = outgoing wc fd @ data"
proof -
  have "\<exists>w' wire. serve_next_hop e it cid cfd hop ws = (Ok True, w') \<and> reply_encoding_of cs c (mem wc) data wire \<and>
    outgoing w' cfd = outgoing ws cfd @ packet_wire wire \<and> heap_ok (mem w') \<and> conns w' cid = Some cs \<and>
    socks w' hop = Some (s\<lparr>rx := es\<rparr>) \<and> writable w' cfd \<and> linked c (mem wc) cs (mem w')"
    by (rule serve_next_hop_sends[OF session server(1,2,3,4,5,6,7,8)]) (rule nonempty)
  then obtain ws' wire
    where w: "serve_next_hop e it cid cfd hop ws = (Ok True, ws')" "reply_encoding_of cs c (mem wc) data wire"
      "outgoing ws' cfd = packet_wire wire"
    using server(9) by auto
  have inc: "incoming wc (sc_fd nh) = packet_wire wire @ []" using arrives[OF w(1)] w(3) by simp
  from pass_down_delivers[OF w(2) server(6) client(1,2,3,4) inc client(5,6), of e] w(1) show ?thesis by blast
qed

end

section \<open>The tunnel with the two modules\<close>

lemma sp_linked_sym: "(\<lambda>s hs c hc. sp_linked c hc s hs) = sp_linked"
  by (auto simp: sp_linked_def fun_eq_iff)

interpretation spm: tunnel_module "simple_proxy e" sp_linked sp_private for e
  unfolding tunnel_module_def sp_linked_sym
  by (simp add: simple_proxy_def sp_up.message_codec_axioms sp_down.message_codec_axioms)

lemma sp_encoding_nonempty:
  assumes "sp_linked c g cs h" "heap_ok h" "query_ok h q" "f_server_encode (simple_proxy e) cs q h = Some (b, cs, h1)"
  shows "bss_bytes h1 b \<noteq> Some []"
proof -
  from assms(1) obtain pw where "bss_bytes h (passphrase cs) = Some pw" by (auto simp: sp_linked_def)
  from sp_encode_obtain[OF assms(2,3) this, of e] obtain b' h' pl pad w where
    w: "sp_client_encode e cs q h = Some (b', cs, h')" "bss_bytes h' b' = Some w"
    "w = map (\<lambda>x. x XOR simple_hash pw) (struct_bytes e (destination_ip q) (destination_port q) pl pad)"
    "length pad = 5" "length (destination_ip q) = 16" by metis
  have "length w \<noteq> 0" using w(3,4,5) by simp
  then show ?thesis using w(1,2) assms(4) by (simp add: simple_proxy_def sp_server_encode_eq)
qed

lemma se_linked_sym: "(\<lambda>s hs c hc. se_linked e c hc s hs) = se_linked e"
  by (auto simp: se_linked_def fun_eq_iff)

interpretation sem: tunnel_module "se_proxy e rnd" "se_linked e" se_private for e rnd
  unfolding tunnel_module_def se_linked_sym
  by (simp add: se_proxy_def se_up.message_codec_axioms se_down.message_codec_axioms)

text \<open>
  A client and a server that have shared a passphrase: descriptor 3 is the connection
  to the local peer (the SOCKS5 client, or the next hop), 4 the tunnel.
\<close>

definition idle_sock :: sock where
  "idle_sock = \<lparr>rx = [], tx = [], sent = []\<rparr>"

definition demo_end :: "sock \<Rightarrow> sock \<Rightarrow> world" where
  "demo_end local remote = \<lparr>mem = start_heap [1, 2], socks = [3 \<mapsto> local, 4 \<mapsto> remote], next_fd = 5, addrinfos = 0,
     net = demo_net, conns = [0 \<mapsto> start_conn [1, 2]], next_conn = 1, tasks = []\<rparr>"

definition demo_outbound :: outbound_tunnel where
  "demo_outbound = \<lparr>ot_mod = simple_proxy Little_Endian, serverAddr = [], serverPort = 0, ot_passphrase = [1, 2], nx_retry = True,
     conv_serverAddr = replicate 16 0, conv_passphrase = passphrase (start_conn [1, 2])\<rparr>"

definition demo_inbound :: inbound_tunnel where
  "demo_inbound = \<lparr>it_mod = simple_proxy Little_Endian, bindAddr = [], bindPort = 0, it_passphrase = [1, 2]\<rparr>"

definition demo_template :: client_query where
  "demo_template = \<lparr>destination_ip = replicate 16 7, destination_port = 80,
     payload = \<lparr>null_terminated = False, bss_length = 0, bss_str = NULL\<rparr>\<rparr>"

lemma demo_pieces: "pieces [Rx_Data [104, 105], Rx_Data (replicate 600 33)] = Some [[104, 105], replicate 600 33]"
  by (simp add: pieces.simps[of "_ # _"] next_read_short next_read_long)

lemma demo_end_facts:
  "heap_ok (mem (demo_end l r))" "conns (demo_end l r) 0 = Some (start_conn [1, 2])"
  "socks (demo_end l r) 3 = Some l" "socks (demo_end l r) 4 = Some r"
  "sp_linked (start_conn [1, 2]) (mem (demo_end l r)) (start_conn [1, 2]) (mem (demo_end l' r'))"
  "incoming (demo_end l \<lparr>rx = [Rx_Data bs], tx = [], sent = []\<rparr>) 4 = bs"
  by (simp_all add: demo_end_def heap_ok_def start_heap_def sp_linked_def start_conn_def bss_bytes_def load_def incoming_def)

section \<open>Properties\<close>

text \<open>
  C7: a stream through the tunnel. The bytes of any number of segments of any length that arrive from the SOCKS5 client are relayed by
  \<open>passData\<close>, and when the bytes it sent have arrived at the server, in whatever segments, the loop of
  \<open>dealConnectionImpl\<close> passes exactly the same bytes on to the next hop: nothing is lost, repeated or reordered, on hosts of
  either byte order. The hypothesis \<open>pieces (rx s) = Some ps\<close> says that the reads of \<open>readall\<close> cut what arrives
  into the pieces \<open>ps\<close> and none of them fails or is left waiting: it excludes the script that ends right after a first read of
  512 bytes, at which the relay stalls. The session between the two ends is given.
\<close>

theorem tunnel_carries_stream:
  assumes client: "heap_ok (mem wc)" "conns wc (sc_info nh) = Some c" "ot_mod ot = simple_proxy e"
      "socks wc fd = Some s" "pieces (rx s) = Some ps"
      "sc_fd nh \<noteq> fd" "writable wc (sc_fd nh)" "outgoing wc (sc_fd nh) = []"
      "destination_ip tmpl = ip" "length ip = 16" "ip \<noteq> replicate 16 0"
    and server: "heap_ok (mem ws)" "conns ws cid = Some cs" "it_mod it = simple_proxy e"
      "socks ws cfd \<noteq> None" "hop \<noteq> cfd" "hop \<noteq> -1" "writable ws hop"
    and session: "sp_linked c (mem wc) cs (mem ws)"
    and arrives: "\<And>wc'. pass_loop e ot fd nh tmpl (replicate (length ps) (Sel_Ready [fd])) wc = (Blocked, wc') \<Longrightarrow>
      incoming ws cfd = outgoing wc' (sc_fd nh)"
  shows "\<exists>wc' ws'.
    pass_loop e ot fd nh tmpl (replicate (length ps) (Sel_Ready [fd])) wc = (Blocked, wc') \<and>
    serve_loop e resolve it cid cfd hop (replicate (length ps) (Sel_Ready [cfd])) ws = (Blocked, ws') \<and>
    outgoing ws' hop = outgoing ws hop @ rx_stream (rx s)"
  using assms by (rule spm.stream_carried)

theorem tunnel_carries_stream_witness:
  "\<exists>wc' ws'.
    pass_loop Little_Endian demo_outbound 3 \<lparr>sc_info = 0, sc_fd = 4\<rparr> demo_template [Sel_Ready [3], Sel_Ready [3]]
      (demo_end \<lparr>rx = [Rx_Data [104, 105], Rx_Data (replicate 600 33)], tx = [], sent = []\<rparr> idle_sock) = (Blocked, wc') \<and>
    serve_loop Little_Endian (\<lambda>_. Inr []) demo_inbound 0 4 3 [Sel_Ready [4], Sel_Ready [4]]
      (demo_end idle_sock \<lparr>rx = [Rx_Data (outgoing wc' 4)], tx = [], sent = []\<rparr>) = (Blocked, ws') \<and>
    outgoing ws' 3 = [104, 105] @ replicate 600 33"
proof -
  let ?s = "\<lparr>rx = [Rx_Data [104, 105], Rx_Data (replicate 600 33)], tx = [], sent = []\<rparr>"
  let ?wc = "demo_end \<lparr>rx = [Rx_Data [104, 105], Rx_Data (replicate 600 33)], tx = [], sent = []\<rparr> idle_sock"
  let ?nh = "\<lparr>sc_info = 0, sc_fd = 4\<rparr>"
  define r where "r = pass_loop Little_Endian demo_outbound 3 ?nh demo_template (replicate (length [[104, 105], replicate 600 (33 :: 8 word)]) (Sel_Ready [3])) ?wc"
  let ?ws = "demo_end idle_sock \<lparr>rx = [Rx_Data (outgoing (snd r) 4)], tx = [], sent = []\<rparr>"
  have "\<exists>wc' ws'. r = (Blocked, wc') \<and>
    serve_loop Little_Endian (\<lambda>_. Inr []) demo_inbound 0 4 3 (replicate (length [[104, 105], replicate 600 (33 :: 8 word)]) (Sel_Ready [4])) ?ws = (Blocked, ws') \<and>
    outgoing ws' 3 = outgoing ?ws 3 @ rx_stream (rx ?s)"
    unfolding r_def
    by (rule tunnel_carries_stream[where ip = "replicate 16 7" and c = "start_conn [1, 2]" and cs = "start_conn [1, 2]" and ps = "[[104, 105], replicate 600 33]"
      and s = ?s])
      (simp_all add: demo_pieces demo_end_facts demo_outbound_def demo_inbound_def demo_template_def writable_def outgoing_def idle_sock_def
        flip: r_def)
  moreover have "outgoing ?ws 3 = []" by (simp add: outgoing_def demo_end_facts idle_sock_def)
  ultimately obtain wc' ws' where "r = (Blocked, wc')"
      "serve_loop Little_Endian (\<lambda>_. Inr []) demo_inbound 0 4 3 [Sel_Ready [4], Sel_Ready [4]] ?ws = (Blocked, ws')"
      "outgoing ws' 3 = [104, 105] @ replicate 600 33"
    by (auto simp del: serve_loop.simps)
  then show ?thesis by (intro exI[of _ wc'] exI[of _ ws']) (simp add: r_def del: serve_loop.simps pass_loop.simps)
qed

text \<open>
  The same for \<open>se_proxy\<close>, once the two ends hold the same session key.
\<close>

theorem se_tunnel_carries_stream:
  assumes client: "heap_ok (mem wc)" "conns wc (sc_info nh) = Some c" "ot_mod ot = se_proxy e rnd"
      "socks wc fd = Some s" "pieces (rx s) = Some ps"
      "sc_fd nh \<noteq> fd" "writable wc (sc_fd nh)" "outgoing wc (sc_fd nh) = []"
      "destination_ip tmpl = ip" "length ip = 16" "ip \<noteq> replicate 16 0"
    and server: "heap_ok (mem ws)" "conns ws cid = Some cs" "it_mod it = se_proxy e rnd"
      "socks ws cfd \<noteq> None" "hop \<noteq> cfd" "hop \<noteq> -1" "writable ws hop"
    and session: "se_linked e c (mem wc) cs (mem ws)"
    and arrives: "\<And>wc'. pass_loop e ot fd nh tmpl (replicate (length ps) (Sel_Ready [fd])) wc = (Blocked, wc') \<Longrightarrow>
      incoming ws cfd = outgoing wc' (sc_fd nh)"
  shows "\<exists>wc' ws'.
    pass_loop e ot fd nh tmpl (replicate (length ps) (Sel_Ready [fd])) wc = (Blocked, wc') \<and>
    serve_loop e resolve it cid cfd hop (replicate (length ps) (Sel_Ready [cfd])) ws = (Blocked, ws') \<and>
    outgoing ws' hop = outgoing ws hop @ rx_stream (rx s)"
  using assms by (rule sem.stream_carried)

text \<open>Both ends with the session key \<open>_7\<close> in the block 1.\<close>

definition demo_key_conn :: connect_info where
  "demo_key_conn = (start_conn [])\<lparr>additional_info := 1\<rparr>"

definition demo_key_end :: "sock \<Rightarrow> sock \<Rightarrow> world" where
  "demo_key_end local remote = (demo_end local remote)\<lparr>mem := start_heap [2, 0, 0, 0, 0, 0, 0, 0, 95, 55], conns := [0 \<mapsto> demo_key_conn]\<rparr>"

lemma demo_key_end_facts:
  "heap_ok (mem (demo_key_end l r))" "conns (demo_key_end l r) 0 = Some demo_key_conn"
  "socks (demo_key_end l r) 3 = Some l" "socks (demo_key_end l r) 4 = Some r"
  "se_linked Little_Endian demo_key_conn (mem (demo_key_end l r)) demo_key_conn (mem (demo_key_end l' r'))"
  "incoming (demo_key_end l \<lparr>rx = [Rx_Data bs], tx = [], sent = []\<rparr>) 4 = bs"
proof -
  have "mem_of_word Little_Endian 8 (of_nat (length [95, 55 :: byte]) :: u64) = [2, 0, 0, 0, 0, 0, 0, 0]" by code_simp
  then have "has_session_key Little_Endian (mem (demo_key_end l r)) demo_key_conn [95, 55]" for l r
    by (intro has_session_key_intro[where b = "[2, 0, 0, 0, 0, 0, 0, 0, 95, 55]"])
      (simp_all add: demo_key_end_def demo_key_conn_def start_heap_def)
  then show "se_linked Little_Endian demo_key_conn (mem (demo_key_end l r)) demo_key_conn (mem (demo_key_end l' r'))"
    by (auto simp: se_linked_def)
qed (simp_all add: demo_key_end_def demo_end_def heap_ok_def start_heap_def incoming_def)

theorem se_tunnel_carries_stream_witness:
  "\<exists>wc' ws'.
    pass_loop Little_Endian (demo_outbound\<lparr>ot_mod := se_proxy Little_Endian 7\<rparr>) 3 \<lparr>sc_info = 0, sc_fd = 4\<rparr> demo_template [Sel_Ready [3], Sel_Ready [3]]
      (demo_key_end \<lparr>rx = [Rx_Data [104, 105], Rx_Data (replicate 600 33)], tx = [], sent = []\<rparr> idle_sock) = (Blocked, wc') \<and>
    serve_loop Little_Endian (\<lambda>_. Inr []) (demo_inbound\<lparr>it_mod := se_proxy Little_Endian 7\<rparr>) 0 4 3 [Sel_Ready [4], Sel_Ready [4]]
      (demo_key_end idle_sock \<lparr>rx = [Rx_Data (outgoing wc' 4)], tx = [], sent = []\<rparr>) = (Blocked, ws') \<and>
    outgoing ws' 3 = [104, 105] @ replicate 600 33"
proof -
  let ?s = "\<lparr>rx = [Rx_Data [104, 105], Rx_Data (replicate 600 33)], tx = [], sent = []\<rparr>"
  let ?wc = "demo_key_end \<lparr>rx = [Rx_Data [104, 105], Rx_Data (replicate 600 33)], tx = [], sent = []\<rparr> idle_sock"
  let ?nh = "\<lparr>sc_info = 0, sc_fd = 4\<rparr>" and ?ot = "demo_outbound\<lparr>ot_mod := se_proxy Little_Endian 7\<rparr>"
    and ?it = "demo_inbound\<lparr>it_mod := se_proxy Little_Endian 7\<rparr>"
  define r where "r = pass_loop Little_Endian ?ot 3 ?nh demo_template (replicate (length [[104, 105], replicate 600 (33 :: 8 word)]) (Sel_Ready [3])) ?wc"
  let ?ws = "demo_key_end idle_sock \<lparr>rx = [Rx_Data (outgoing (snd r) 4)], tx = [], sent = []\<rparr>"
  have "\<exists>wc' ws'. r = (Blocked, wc') \<and>
    serve_loop Little_Endian (\<lambda>_. Inr []) ?it 0 4 3 (replicate (length [[104, 105], replicate 600 (33 :: 8 word)]) (Sel_Ready [4])) ?ws = (Blocked, ws') \<and>
    outgoing ws' 3 = outgoing ?ws 3 @ rx_stream (rx ?s)"
    unfolding r_def
    by (rule se_tunnel_carries_stream[where ip = "replicate 16 7" and c = demo_key_conn and cs = demo_key_conn and ps = "[[104, 105], replicate 600 33]" and rnd = 7
      and s = ?s])
      (simp_all add: demo_pieces demo_key_end_facts demo_template_def writable_def outgoing_def idle_sock_def flip: r_def)
  moreover have "outgoing ?ws 3 = []" by (simp add: outgoing_def demo_key_end_facts idle_sock_def)
  ultimately obtain wc' ws' where "r = (Blocked, wc')"
      "serve_loop Little_Endian (\<lambda>_. Inr []) ?it 0 4 3 [Sel_Ready [4], Sel_Ready [4]] ?ws = (Blocked, ws')"
      "outgoing ws' 3 = [104, 105] @ replicate 600 33"
    by (auto simp del: serve_loop.simps)
  then show ?thesis by (intro exI[of _ wc'] exI[of _ ws']) (simp add: r_def del: serve_loop.simps pass_loop.simps)
qed

text \<open>
  C20: the way back. What one call of \<open>recvall\<close> reads from the next hop (a segment, or a part or the beginning of the
  next one when segments are long: up to 1024 bytes, provided that the call is not left waiting after a
  first read of exactly 512) is encoded by the server and sent to the client's end, which passes exactly these bytes
  on to the SOCKS5 client. The session between the two ends is given.
\<close>

theorem tunnel_carries_replies:
  assumes server: "heap_ok (mem ws)" "conns ws cid = Some cs" "it_mod it = simple_proxy e"
      "socks ws hop = Some s" "next_read (rx s) = Some (data, es)" "data \<noteq> []"
      "hop \<noteq> cfd" "writable ws cfd" "outgoing ws cfd = []"
    and client: "heap_ok (mem wc)" "conns wc (sc_info nh) = Some c" "ot_mod ot = simple_proxy e"
      "socks wc (sc_fd nh) \<noteq> None" "fd \<noteq> sc_fd nh" "writable wc fd"
    and session: "sp_linked c (mem wc) cs (mem ws)"
    and arrives: "\<And>ws'. serve_next_hop e it cid cfd hop ws = (Ok True, ws') \<Longrightarrow> incoming wc (sc_fd nh) = outgoing ws' cfd"
  shows "\<exists>ws' wc'. serve_next_hop e it cid cfd hop ws = (Ok True, ws') \<and>
    pass_down e ot fd nh wc = (Ok True, wc') \<and> outgoing wc' fd = outgoing wc fd @ data"
  using assms sp_encoding_nonempty by (rule spm.reply_carried)

theorem tunnel_carries_replies_witness:
  "\<exists>ws' wc'.
    serve_next_hop Little_Endian demo_inbound 0 4 3
      (demo_end \<lparr>rx = [Rx_Data [111, 107]], tx = [], sent = []\<rparr> idle_sock) = (Ok True, ws') \<and>
    pass_down Little_Endian demo_outbound 3 \<lparr>sc_info = 0, sc_fd = 4\<rparr>
      (demo_end idle_sock \<lparr>rx = [Rx_Data (outgoing ws' 4)], tx = [], sent = []\<rparr>) = (Ok True, wc') \<and>
    outgoing wc' 3 = [111, 107]"
proof -
  let ?ws = "demo_end \<lparr>rx = [Rx_Data [111, 107]], tx = [], sent = []\<rparr> idle_sock"
  let ?nh = "\<lparr>sc_info = 0, sc_fd = 4\<rparr>"
  define r where "r = serve_next_hop Little_Endian demo_inbound 0 4 3 ?ws"
  let ?wc = "demo_end idle_sock \<lparr>rx = [Rx_Data (outgoing (snd r) 4)], tx = [], sent = []\<rparr>"
  have "\<exists>ws' wc'. r = (Ok True, ws') \<and> pass_down Little_Endian demo_outbound 3 ?nh ?wc = (Ok True, wc') \<and>
    outgoing wc' 3 = outgoing ?wc 3 @ [111, 107]"
    unfolding r_def
    by (rule tunnel_carries_replies[where c = "start_conn [1, 2]" and cs = "start_conn [1, 2]" and es = "[]"
      and s = "\<lparr>rx = [Rx_Data [111, 107]], tx = [], sent = []\<rparr>"])
      (simp_all add: demo_end_facts demo_outbound_def demo_inbound_def writable_def outgoing_def idle_sock_def next_read_short flip: r_def)
  moreover have "outgoing ?wc 3 = []" by (simp add: outgoing_def demo_end_facts idle_sock_def)
  ultimately show ?thesis by (auto simp: r_def)
qed

end
