(* ===== verification/Session_Path.thy ===== *)
theory Session_Path
  imports Data_Path
begin

text \<open>
  Authentication over a connection. The locale \<open>authenticating_module\<close> adds to \<open>tunnel_module\<close> what a module promises of its
  authentication functions; inside it the two functions \<open>doAuth\<close> are shown to succeed with each other's messages and to leave
  the two ends with a common secret. It is interpreted for both modules. The lemmas fix the heap before the world, so that
  what one side sends is known before anything has arrived at the other.
\<close>

lemma deferring_from: "m w = m' w' \<Longrightarrow> deferring d m w = deferring d m' w'"
  by (simp add: deferring_def)

text \<open>The second half of \<open>doAuth\<close>: the server's reply.\<close>

definition reply_phase :: "endian \<Rightarrow> outbound_tunnel \<Rightarrow> nat \<Rightarrow> fd \<Rightarrow> bool prog" where
  "reply_phase e ot cid connfd =
       bnd (recvn_ex connfd 4 4) (\<lambda>n.
       let replyLen = hton e 4 (word_of_mem e n) in
       bnd (if packet_limit < replyLen then die ''authReply is too long(incorrect)'' else ret ()) (\<lambda>_.
       bnd (malloc_ex (unat replyLen)) (\<lambda>rbuf.
       deferring (free_ex rbuf)
        (bnd (recvn_ex connfd (unat replyLen) (unat replyLen)) (\<lambda>bs.
         bnd (store_ex rbuf 0 bs) (\<lambda>_.
         call_mod cid (onAuthReply (ot_mod ot) rbuf (unat replyLen))))))))"

lemma passphrase_block:
  "bss_bytes h b = Some pw \<Longrightarrow> heap_ok h \<Longrightarrow> bss_length b \<noteq> 0 \<Longrightarrow> bss_str b < brk h"
  by (auto simp: bss_bytes_def load_def split: option.splits)

lemma passphrase_kept:
  "bss_bytes h b = Some pw \<Longrightarrow> heap_ok h \<Longrightarrow> (\<forall>p < brk h. blocks g p = blocks h p) \<Longrightarrow> bss_bytes g b = Some pw"
  using passphrase_block[of h b pw] by (auto simp: bss_bytes_def load_def split: if_splits option.splits)

section \<open>The contract of the authentication\<close>

locale authenticating_module = tunnel_module m linked private_block
  for m :: snake_module and linked :: "connect_info \<Rightarrow> heap \<Rightarrow> connect_info \<Rightarrow> heap \<Rightarrow> bool"
    and private_block :: "connect_info \<Rightarrow> ptr \<Rightarrow> bool" +
  fixes is_query :: "bytes \<Rightarrow> bytes \<Rightarrow> bool" and is_reply :: "bytes \<Rightarrow> bytes \<Rightarrow> bytes \<Rightarrow> bool"
    and holds :: "connect_info \<Rightarrow> heap \<Rightarrow> bytes \<Rightarrow> bool"
  assumes holds_frame: "holds c h k \<Longrightarrow> \<forall>p. private_block c p \<longrightarrow> blocks g p = blocks h p \<Longrightarrow> holds c g k"
    and holds_linked: "holds c h k \<Longrightarrow> holds c' h' k \<Longrightarrow> linked c h c' h'"
    and query_spec: "heap_ok h \<Longrightarrow> bss_bytes h (passphrase c) = Some pw \<Longrightarrow>
      \<exists>b c1 w. f_client_make_auth_query m c h = Some (b, c1, h\<lparr>blocks := (blocks h)(brk h \<mapsto> w), brk := Suc (brk h)\<rparr>) \<and>
        bss_str b = brk h \<and> bss_length b = of_nat (length w) \<and> length w \<le> length pw + 1024 \<and> is_query pw w \<and>
        passphrase c1 = passphrase c"
    and reply_spec: "heap_ok h \<Longrightarrow> bss_bytes h (passphrase c) = Some pw \<Longrightarrow> blocks h (bss_str b) = Some w \<Longrightarrow>
      unat (bss_length b) = length w \<Longrightarrow> is_query pw w \<Longrightarrow> (bss_length (passphrase c) \<noteq> 0 \<Longrightarrow> bss_str b \<noteq> bss_str (passphrase c)) \<Longrightarrow>
      \<exists>r c1 h1 w' k. f_server_make_auth_reply m c b h = Some (r, False, c1, h1) \<and> is_reply pw k w' \<and> length w' \<le> 1024 \<and>
        brk h \<le> bss_str r \<and> blocks h1 (bss_str r) = Some w' \<and> bss_length r = of_nat (length w') \<and> heap_ok h1 \<and>
        holds c1 h1 k \<and> \<not> private_block c1 (bss_str r)"
    and deal_spec: "heap_ok h \<Longrightarrow> bss_bytes h (passphrase c) = Some pw \<Longrightarrow> blocks h (bss_str b) = Some w \<Longrightarrow>
      unat (bss_length b) = length w \<Longrightarrow> is_reply pw k w \<Longrightarrow>
      \<exists>c1 h1. f_client_deal_auth_reply m c b h = Some (True, c1, h1) \<and> heap_ok h1 \<and> holds c1 h1 k \<and>
        (\<forall>p < brk h. blocks h1 p = blocks h p) \<and>
        (\<forall>p. private_block c1 p \<longrightarrow> brk h \<le> p \<or> bss_length (passphrase c) \<noteq> 0 \<and> p = bss_str (passphrase c))"
begin

text \<open>The server's half.\<close>

lemma server_authenticates:
  assumes ok: "heap_ok h" and pw: "bss_bytes h (passphrase c) = Some pw" and q: "is_query pw q" "packet_fits q"
  obtains r k c' h' where "is_reply pw k r" "packet_fits r" "holds c' h' k" "heap_ok h'"
    "\<And>w cid fd rest e it. mem w = h \<Longrightarrow> conns w cid = Some c \<Longrightarrow> connect_fd c = fd \<Longrightarrow> it_mod it = m \<Longrightarrow> writable w fd \<Longrightarrow>
      incoming w fd = packet_wire q @ rest \<Longrightarrow>
      \<exists>w'. inbound_doAuth e it cid w = (Ok True, w') \<and> mem w' = h' \<and> conns w' = (conns w)(cid \<mapsto> c') \<and>
        outgoing w' fd = outgoing w fd @ packet_wire r \<and> incoming w' fd = rest \<and> writable w' fd \<and> net w' = net w \<and>
        next_fd w' = next_fd w \<and> (\<forall>f. f \<noteq> fd \<longrightarrow> socks w' f = socks w f)"
proof -
  let ?p = "brk h" and ?h = "h\<lparr>blocks := (blocks h)(brk h \<mapsto> q), brk := Suc (brk h)\<rparr>"
  let ?b = "\<lparr>null_terminated = False, bss_length = of_nat (length q), bss_str = ?p\<rparr>"
  have "heap_ok ?h" using ok by (simp add: heap_ok_def)
  moreover have "bss_bytes ?h (passphrase c) = Some pw" by (rule passphrase_kept[OF pw(1) ok]) simp
  moreover have "blocks ?h (bss_str ?b) = Some q" "unat (bss_length ?b) = length q" using packet_len(1)[OF q(2)] by simp_all
  moreover have "bss_str ?b \<noteq> bss_str (passphrase c)" if "bss_length (passphrase c) \<noteq> 0" using passphrase_block[OF pw(1) ok that] by simp
  ultimately obtain r c1 h1 w' k where r: "f_server_make_auth_reply m c ?b ?h = Some (r, False, c1, h1)" "is_reply pw k w'"
      "length w' \<le> 1024" "brk ?h \<le> bss_str r" "blocks h1 (bss_str r) = Some w'" "bss_length r = of_nat (length w')" "heap_ok h1"
      "holds c1 h1 k" "\<not> private_block c1 (bss_str r)"
    using reply_spec[OF _ _ _ _ q(1)] by blast
  have fits: "packet_fits w'" using r(3) by (simp add: packet_fits_def)
  let ?h' = "h1\<lparr>blocks := (blocks h1)(bss_str r := None)\<rparr>"
  have hold: "holds c1 ?h' k" by (rule holds_frame[OF r(8)]) (use r(9) in auto)
  have okh: "heap_ok ?h'" using r(7) by (simp add: heap_ok_def)
  show thesis
  proof (rule that[OF r(2) fits hold okh])
    fix w :: world and cid fd rest e and it :: inbound_tunnel
    assume w: "mem w = h" and cid: "conns w cid = Some c" "connect_fd c = fd" and m: "it_mod it = m"
      and s: "writable w fd" "incoming w fd = packet_wire q @ rest"
    have okw: "heap_ok (mem w)" and sk: "socks w fd \<noteq> None" using ok w s(1) by (auto simp: writable_def split: option.splits)
    from recv_length_and_packet_spec[OF q(2) okw s(2) sk, of e] obtain w1
      where w1: "recv_length_and_packet e fd w = (Ok (?p, of_nat (length q)), w1)" "incoming w1 fd = rest" "outgoing w1 fd = outgoing w fd"
        "writable w1 fd = writable w fd" "conns w1 = conns w" "net w1 = net w" "\<forall>f. f \<noteq> fd \<longrightarrow> socks w1 f = socks w f"
        "next_fd w1 = next_fd w" "mem w1 = ?h" unfolding w by blast
    define w2 where "w2 = w1\<lparr>mem := h1, conns := (conns w1)(cid \<mapsto> c1)\<rparr>"
    have c2: "call_mod cid (\<lambda>c h. map_option (\<lambda>(r, failed, c, h). ((r, failed), c, h)) (makeAuthReply (it_mod it) c ?b h)) w1 = (Ok (r, False), w2)"
      using cid r(1) w1(5,9) by (simp add: call_mod_def makeAuthReply_def m w2_def)
    have wr: "writable w2 fd" using s(1) w1(4) by (simp add: w2_def writable_def)
    have bb: "w' = [] \<or> blocks (mem w2) (bss_str r) = Some w'" using r(5) by (simp add: w2_def)
    from send_length_and_packet_spec[OF fits wr r(6) bb, of e] obtain w3
      where w3: "send_length_and_packet e fd (bss_str r) (bss_length r) w2 = (Ok (), w3)" "same_but fd w2 w3" "writable w3 fd"
        "outgoing w3 fd = outgoing w2 fd @ packet_wire w'" "incoming w3 fd = incoming w2 fd" by blast
    have m3: "mem w3 = h1" using same_but_simps(1)[OF w3(2)] by (simp add: w2_def)
    define w4 where "w4 = w3\<lparr>mem := h1\<lparr>blocks := (blocks h1)(bss_str r := None)\<rparr>\<rparr>"
    have "bss_str r \<noteq> 0" using r(5,7) by auto
    from free_Some[OF this r(5)] have fr: "free_ex (bss_str r) w3 = (Ok (), w4)" by (simp add: free_ex_def on_heap_def m3 w4_def)
    have run: "inbound_doAuth e it cid w = (Ok True, w4)"
      using cid w1(1) c2 w3(1) fr by (simp add: inbound_doAuth_def bnd_def get_conn_def deferring_def ret_def)
    have "mem w4 = ?h'" by (simp add: w4_def)
    moreover have "conns w4 = (conns w)(cid \<mapsto> c1)" "net w4 = net w" "next_fd w4 = next_fd w" "\<forall>f. f \<noteq> fd \<longrightarrow> socks w4 f = socks w f"
      using same_but_simps[OF w3(2)] w1(5-8) by (simp_all add: w4_def w2_def)
    moreover have "outgoing w4 fd = outgoing w fd @ packet_wire w'" "incoming w4 fd = rest" "writable w4 fd"
      using w3(3,4,5) w1(2,3) by (simp_all add: w4_def w2_def outgoing_def incoming_def writable_def)
    ultimately show "\<exists>v. inbound_doAuth e it cid w = (Ok True, v) \<and> mem v = ?h' \<and> conns v = (conns w)(cid \<mapsto> c1) \<and>
        outgoing v fd = outgoing w fd @ packet_wire w' \<and> incoming v fd = rest \<and> writable v fd \<and> net v = net w \<and>
        next_fd v = next_fd w \<and> (\<forall>f. f \<noteq> fd \<longrightarrow> socks v f = socks w f)"
      using run by blast
  qed
qed

text \<open>The client's half, in two phases.\<close>

lemma client_sends_query:
  assumes ok: "heap_ok h" and pw: "bss_bytes h (passphrase c) = Some pw" "length pw \<le> 1024 * 1024"
  obtains q c1 where "is_query pw q" "packet_fits q" "passphrase c1 = passphrase c"
    "\<And>w cid fd e ot. mem w = h \<Longrightarrow> conns w cid = Some c \<Longrightarrow> connect_fd c = fd \<Longrightarrow> ot_mod ot = m \<Longrightarrow> writable w fd \<Longrightarrow>
      \<exists>w3. outbound_doAuth e ot cid w = deferring (free_ex (brk h)) (reply_phase e ot cid fd) w3 \<and>
        outgoing w3 fd = outgoing w fd @ packet_wire q \<and> incoming w3 fd = incoming w fd \<and> writable w3 fd \<and>
        mem w3 = h\<lparr>blocks := (blocks h)(brk h \<mapsto> q), brk := Suc (brk h)\<rparr> \<and>
        conns w3 = (conns w)(cid \<mapsto> c1) \<and> net w3 = net w \<and> (\<forall>f. f \<noteq> fd \<longrightarrow> socks w3 f = socks w f)"
proof -
  let ?h1 = "\<lambda>q. h\<lparr>blocks := (blocks h)(brk h \<mapsto> q), brk := Suc (brk h)\<rparr>"
  from query_spec[OF ok pw(1)] obtain b c1 q where q: "f_client_make_auth_query m c h = Some (b, c1, ?h1 q)"
      "bss_str b = brk h" "bss_length b = of_nat (length q)" "length q \<le> length pw + 1024" "is_query pw q" "passphrase c1 = passphrase c"
    by blast
  have fits: "packet_fits q" using q(4) pw(2) by (simp add: packet_fits_def)
  note len = packet_len[OF fits]
  show thesis
  proof (rule that[OF q(5) fits q(6)])
    fix w :: world and cid fd e and ot :: outbound_tunnel
    assume w: "mem w = h" and cid: "conns w cid = Some c" "connect_fd c = fd" and m: "ot_mod ot = m" and wr: "writable w fd"
    define w1 where "w1 = w\<lparr>mem := ?h1 q, conns := (conns w)(cid \<mapsto> c1)\<rparr>"
    have c1: "call_mod cid (makeAuthQuery (ot_mod ot)) w = (Ok b, w1)"
      using cid(1) q(1) by (simp add: call_mod_def makeAuthQuery_def m w1_def w)
    have wr1: "writable w1 fd" using wr by (simp add: w1_def writable_def)
    let ?n = "mem_of_word e 4 (hton e 4 (bss_length b))"
    from sendn_ex_ok[OF wr1, of False ?n] obtain w2
      where w2: "sendn_ex False fd ?n w1 = (Ok (), w2)" "same_but fd w1 w2" "writable w2 fd"
        "outgoing w2 fd = outgoing w1 fd @ ?n" "incoming w2 fd = incoming w1 fd" by blast
    have ld: "load_n (bss_str b) (unat (bss_length b)) w2 = (Ok q, w2)"
      using q(2,3) len same_but_simps(1)[OF w2(2)]
      by (cases "q = []") (auto simp: load_n_def load_ex_def on_heap_def load_def ret_def w1_def)
    from sendn_ex_ok[OF w2(3), of False q] obtain w3
      where w3: "sendn_ex False fd q w2 = (Ok (), w3)" "same_but fd w2 w3" "writable w3 fd"
        "outgoing w3 fd = outgoing w2 fd @ q" "incoming w3 fd = incoming w2 fd" by blast
    have small: "\<not> packet_limit < bss_length b" using len(2) q(3) by simp
    have "outbound_doAuth e ot cid w = deferring (free_ex (bss_str b)) (bnd (ret ()) (\<lambda>_.
         bnd (sendn_ex False fd ?n) (\<lambda>_. bnd (load_n (bss_str b) (unat (bss_length b))) (\<lambda>bs.
         bnd (sendn_ex False fd bs) (\<lambda>_. reply_phase e ot cid fd))))) w1"
      using cid small by (simp add: outbound_doAuth_def get_conn_def bnd_Ok[where m = "call_mod cid (makeAuthQuery (ot_mod ot))" and w = w, OF c1]
          bnd_def[of "get_conn cid"] reply_phase_def Let_def)
    also have "\<dots> = deferring (free_ex (bss_str b)) (reply_phase e ot cid fd) w3"
      by (rule deferring_from) (simp add: bnd_Ok[where m = "sendn_ex _ _ _", OF w2(1)] bnd_Ok[where m = "load_n _ _", OF ld] bnd_Ok[where m = "sendn_ex _ _ _", OF w3(1)])
    finally have run: "outbound_doAuth e ot cid w = deferring (free_ex (brk h)) (reply_phase e ot cid fd) w3" by (simp add: q(2))
    have "outgoing w3 fd = outgoing w fd @ packet_wire q" "incoming w3 fd = incoming w fd"
      using w2(4,5) w3(4,5) q(3) by (simp_all add: w1_def outgoing_def incoming_def packet_wire_def mem_of_hton)
    moreover have "mem w3 = ?h1 q" "conns w3 = (conns w)(cid \<mapsto> c1)" "net w3 = net w" "\<forall>f. f \<noteq> fd \<longrightarrow> socks w3 f = socks w f"
      using same_but_simps[OF w2(2)] same_but_simps[OF w3(2)] by (simp_all add: w1_def)
    ultimately show "\<exists>w3. outbound_doAuth e ot cid w = deferring (free_ex (brk h)) (reply_phase e ot cid fd) w3 \<and>
        outgoing w3 fd = outgoing w fd @ packet_wire q \<and> incoming w3 fd = incoming w fd \<and> writable w3 fd \<and>
        mem w3 = h\<lparr>blocks := (blocks h)(brk h \<mapsto> q), brk := Suc (brk h)\<rparr> \<and>
        conns w3 = (conns w)(cid \<mapsto> c1) \<and> net w3 = net w \<and> (\<forall>f. f \<noteq> fd \<longrightarrow> socks w3 f = socks w f)"
      using run w3(3) by blast
  qed
qed

lemma reply_phase_accepts:
  assumes ok: "heap_ok (mem w)" and cid: "conns w cid = Some c" and m: "ot_mod ot = m"
    and pw: "bss_bytes (mem w) (passphrase c) = Some pw" and s: "socks w fd \<noteq> None" "incoming w fd = packet_wire r @ rest"
    and r: "is_reply pw k r" "packet_fits r"
  shows "\<exists>w' c'. reply_phase e ot cid fd w = (Ok True, w') \<and> holds c' (mem w') k \<and> heap_ok (mem w') \<and>
    (\<forall>p < brk (mem w). blocks (mem w') p = blocks (mem w) p) \<and>
    (\<forall>p. private_block c' p \<longrightarrow> brk (mem w) < p \<or> bss_length (passphrase c) \<noteq> 0 \<and> p = bss_str (passphrase c)) \<and>
    conns w' = (conns w)(cid \<mapsto> c') \<and> outgoing w' fd = outgoing w fd \<and> incoming w' fd = rest \<and> writable w' fd = writable w fd \<and>
    net w' = net w \<and> (\<forall>f. f \<noteq> fd \<longrightarrow> socks w' f = socks w f)"
proof -
  let ?p = "brk (mem w)" and ?len = "of_nat (length r) :: u32"
  note len = packet_len[OF r(2)]
  have inc: "incoming w fd = mem_of_word Big_Endian 4 ?len @ (r @ rest)" using s(2) by (simp add: packet_wire_def)
  obtain w1 where w1: "recvn_ex fd 4 4 w = (Ok (mem_of_word Big_Endian 4 ?len), w1)" "same_but fd w w1" "incoming w1 fd = r @ rest"
      "outgoing w1 fd = outgoing w fd" "writable w1 fd = writable w fd" "socks w1 fd \<noteq> None"
    using recvn_ex_next[OF s(1) inc length_mem_of_word order.refl] by blast
  have n: "hton e 4 (word_of_mem e (mem_of_word Big_Endian 4 ?len)) = ?len" using hton_hton[of 4 e ?len] by (simp add: hton_def)
  have m1: "mem w1 = mem w" using w1(2) by (rule same_but_simps(1))
  define w2 where "w2 = w1\<lparr>mem := snd (c_malloc (length r) (mem w))\<rparr>"
  have w2: "malloc_ex (length r) w1 = (Ok ?p, w2)" "incoming w2 fd = r @ rest" "socks w2 fd \<noteq> None"
    using w1 by (simp_all add: malloc_ex_apply m1 w2_def incoming_def)
  obtain w3 where w3: "recvn_ex fd (length r) (length r) w2 = (Ok r, w3)" "same_but fd w2 w3" "incoming w3 fd = rest"
      "outgoing w3 fd = outgoing w2 fd" "writable w3 fd = writable w2 fd"
    using recvn_ex_next[OF w2(3,2) refl order.refl] by blast
  define w4 where "w4 = w3\<lparr>mem := (mem w)\<lparr>blocks := (blocks (mem w))(?p \<mapsto> r), brk := Suc ?p\<rparr>\<rparr>"
  have m3: "mem w3 = snd (c_malloc (length r) (mem w))" using same_but_simps(1)[OF w3(2)] by (simp add: w2_def)
  have w4: "store_ex ?p 0 r w3 = (Ok (), w4)" by (simp add: store_ex_def on_heap_def store_def m3 c_malloc_def w4_def)
  have ok4: "heap_ok (mem w4)" using ok by (simp add: w4_def heap_ok_def)
  have pw4: "bss_bytes (mem w4) (passphrase c) = Some pw" by (rule passphrase_kept[OF pw(1) ok]) (simp add: w4_def)
  let ?b = "\<lparr>null_terminated = False, bss_length = of_nat (length r), bss_str = ?p\<rparr>"
  have b: "blocks (mem w4) (bss_str ?b) = Some r" "unat (bss_length ?b) = length r" using len by (simp_all add: w4_def)
  from deal_spec[OF ok4 pw4 b r(1)] obtain c' h1 where d: "f_client_deal_auth_reply m c ?b (mem w4) = Some (True, c', h1)"
      "heap_ok h1" "holds c' h1 k" "\<forall>p < brk (mem w4). blocks h1 p = blocks (mem w4) p"
      "\<forall>p. private_block c' p \<longrightarrow> brk (mem w4) \<le> p \<or> bss_length (passphrase c) \<noteq> 0 \<and> p = bss_str (passphrase c)" by blast
  define w5 where "w5 = w4\<lparr>mem := h1, conns := (conns w4)(cid \<mapsto> c')\<rparr>"
  have co: "conns w4 = conns w" using same_but_simps[OF w1(2)] same_but_simps[OF w3(2)] by (simp add: w4_def w2_def)
  have c5: "call_mod cid (onAuthReply (ot_mod ot) ?p (length r)) w4 = (Ok True, w5)"
    using cid d(1) by (simp add: call_mod_def onAuthReply_def m w5_def co)
  have b4: "brk (mem w4) = Suc ?p" by (simp add: w4_def)
  have p1: "blocks h1 ?p = Some r" "?p \<noteq> 0" using d(4) ok b4 by (simp_all add: w4_def)
  define w6 where "w6 = w5\<lparr>mem := h1\<lparr>blocks := (blocks h1)(?p := None)\<rparr>\<rparr>"
  have f6: "free_ex ?p w5 = (Ok (), w6)" using free_Some[OF p1(2,1)] by (simp add: free_ex_def on_heap_def w5_def w6_def)
  have "reply_phase e ot cid fd w = (Ok True, w6)"
    using w1(1) n len w2(1) w3(1) w4 c5 f6 by (simp add: reply_phase_def bnd_def deferring_def ret_def)
  moreover have np: "\<not> private_block c' ?p" using d(5) b4 passphrase_block[OF pw(1) ok] by fastforce
  then have "holds c' (mem w6) k" by (intro holds_frame[OF d(3)]) (auto simp: w6_def)
  moreover have "heap_ok (mem w6)" using d(2) by (simp add: w6_def heap_ok_def)
  moreover have "\<forall>p < ?p. blocks (mem w6) p = blocks (mem w) p" using d(4) b4 by (simp add: w6_def w4_def)
  moreover have "\<forall>p. private_block c' p \<longrightarrow> ?p < p \<or> bss_length (passphrase c) \<noteq> 0 \<and> p = bss_str (passphrase c)"
    using d(5) b4 by (simp add: Suc_le_eq)
  moreover have "conns w6 = (conns w)(cid \<mapsto> c')" "net w6 = net w" "\<forall>f. f \<noteq> fd \<longrightarrow> socks w6 f = socks w f"
    using same_but_simps[OF w1(2)] same_but_simps[OF w3(2)] by (simp_all add: w6_def w5_def w4_def w2_def)
  moreover have "outgoing w6 fd = outgoing w fd" "incoming w6 fd = rest" "writable w6 fd = writable w fd"
    using w1(4,5) w3(3,4,5) by (simp_all add: w6_def w5_def w4_def w2_def outgoing_def incoming_def writable_def)
  ultimately show ?thesis by blast
qed

lemma client_authenticates:
  assumes ok: "heap_ok h" and pw: "bss_bytes h (passphrase c) = Some pw" "length pw \<le> 1024 * 1024"
  obtains q where "is_query pw q" "packet_fits q"
    "\<And>w cid fd r k rest e ot. mem w = h \<Longrightarrow> conns w cid = Some c \<Longrightarrow> connect_fd c = fd \<Longrightarrow> ot_mod ot = m \<Longrightarrow> writable w fd \<Longrightarrow>
      incoming w fd = packet_wire r @ rest \<Longrightarrow> is_reply pw k r \<Longrightarrow> packet_fits r \<Longrightarrow>
      \<exists>w' c'. outbound_doAuth e ot cid w = (Ok True, w') \<and> holds c' (mem w') k \<and> heap_ok (mem w') \<and> conns w' = (conns w)(cid \<mapsto> c') \<and>
        outgoing w' fd = outgoing w fd @ packet_wire q \<and> incoming w' fd = rest \<and> writable w' fd \<and> net w' = net w \<and>
        (\<forall>f. f \<noteq> fd \<longrightarrow> socks w' f = socks w f)"
proof -
  obtain q c1 where q: "is_query pw q" "packet_fits q" "passphrase c1 = passphrase c" and
    sends: "\<And>w cid fd e ot. mem w = h \<Longrightarrow> conns w cid = Some c \<Longrightarrow> connect_fd c = fd \<Longrightarrow> ot_mod ot = m \<Longrightarrow> writable w fd \<Longrightarrow>
      \<exists>w3. outbound_doAuth e ot cid w = deferring (free_ex (brk h)) (reply_phase e ot cid fd) w3 \<and>
        outgoing w3 fd = outgoing w fd @ packet_wire q \<and> incoming w3 fd = incoming w fd \<and> writable w3 fd \<and>
        mem w3 = h\<lparr>blocks := (blocks h)(brk h \<mapsto> q), brk := Suc (brk h)\<rparr> \<and>
        conns w3 = (conns w)(cid \<mapsto> c1) \<and> net w3 = net w \<and> (\<forall>f. f \<noteq> fd \<longrightarrow> socks w3 f = socks w f)"
    by (rule client_sends_query[OF ok pw]) blast
  show thesis
  proof (rule that[OF q(1,2)])
    fix w :: world and cid fd r k rest e and ot :: outbound_tunnel
    assume a: "mem w = h" "conns w cid = Some c" "connect_fd c = fd" "ot_mod ot = m" "writable w fd"
      and r: "incoming w fd = packet_wire r @ rest" "is_reply pw k r" "packet_fits r"
    from sends[OF a, of e] obtain w3 where w3: "outbound_doAuth e ot cid w = deferring (free_ex (brk h)) (reply_phase e ot cid fd) w3"
        "outgoing w3 fd = outgoing w fd @ packet_wire q" "incoming w3 fd = incoming w fd" "writable w3 fd"
        "mem w3 = h\<lparr>blocks := (blocks h)(brk h \<mapsto> q), brk := Suc (brk h)\<rparr>"
        "conns w3 = (conns w)(cid \<mapsto> c1)" "net w3 = net w" "\<forall>f. f \<noteq> fd \<longrightarrow> socks w3 f = socks w f" by blast
    have ok3: "heap_ok (mem w3)" using ok w3(5) by (simp add: heap_ok_def)
    have b3: "brk (mem w3) = Suc (brk h)" "blocks (mem w3) (brk h) = Some q" using w3(5) by simp_all
    have pw3: "bss_bytes (mem w3) (passphrase c1) = Some pw"
      unfolding q(3) by (rule passphrase_kept[OF pw(1) ok]) (simp add: w3(5))
    have c3: "conns w3 cid = Some c1" "socks w3 fd \<noteq> None" "incoming w3 fd = packet_wire r @ rest"
      using w3(3,4,6) r(1) by (auto simp: writable_def split: option.splits)
    from reply_phase_accepts[OF ok3 c3(1) a(4) pw3 c3(2,3) r(2,3), of e] obtain w' c' where d: "reply_phase e ot cid fd w3 = (Ok True, w')"
        "holds c' (mem w') k" "heap_ok (mem w')" "\<forall>p < brk (mem w3). blocks (mem w') p = blocks (mem w3) p"
        "\<forall>p. private_block c' p \<longrightarrow> brk (mem w3) < p \<or> bss_length (passphrase c1) \<noteq> 0 \<and> p = bss_str (passphrase c1)"
        "conns w' = (conns w3)(cid \<mapsto> c')" "outgoing w' fd = outgoing w3 fd" "incoming w' fd = rest" "writable w' fd = writable w3 fd"
        "net w' = net w3" "\<forall>f. f \<noteq> fd \<longrightarrow> socks w' f = socks w3 f" by blast
    define w4 where "w4 = w'\<lparr>mem := (mem w')\<lparr>blocks := (blocks (mem w'))(brk h := None)\<rparr>\<rparr>"
    have "blocks (mem w') (brk h) = Some q" "brk h \<noteq> 0" using d(4) b3 ok by simp_all
    then have fr: "free_ex (brk h) w' = (Ok (), w4)" by (simp add: free_ex_def on_heap_def free_Some w4_def)
    have run: "outbound_doAuth e ot cid w = (Ok True, w4)" using w3(1) d(1) fr by (simp add: deferring_def bnd_def ret_def)
    have "\<not> private_block c' (brk h)" using d(5) b3 q(3) passphrase_block[OF pw(1) ok] by fastforce
    then have "holds c' (mem w4) k" by (intro holds_frame[OF d(2)]) (auto simp: w4_def)
    moreover have "heap_ok (mem w4)" using d(3) by (simp add: w4_def heap_ok_def)
    moreover have "conns w4 = (conns w)(cid \<mapsto> c')" using d(6) w3(6) by (simp add: w4_def)
    moreover have "outgoing w4 fd = outgoing w fd @ packet_wire q" "incoming w4 fd = rest" "writable w4 fd" "net w4 = net w"
        "\<forall>f. f \<noteq> fd \<longrightarrow> socks w4 f = socks w f"
      using d(7-11) w3(2,4,7,8) by (simp_all add: w4_def outgoing_def incoming_def writable_def)
    ultimately show "\<exists>w' c'. outbound_doAuth e ot cid w = (Ok True, w') \<and> holds c' (mem w') k \<and> heap_ok (mem w') \<and> conns w' = (conns w)(cid \<mapsto> c') \<and>
        outgoing w' fd = outgoing w fd @ packet_wire q \<and> incoming w' fd = rest \<and> writable w' fd \<and> net w' = net w \<and>
        (\<forall>f. f \<noteq> fd \<longrightarrow> socks w' f = socks w f)"
      using run by blast
  qed
qed

end

section \<open>The two modules\<close>

lemma unat_of_length: "unat n = k \<Longrightarrow> n = of_nat k"
  by auto

lemma sp_make_auth_query:
  assumes "heap_ok h" "bss_bytes h (passphrase c) = Some pw"
  shows "sp_client_make_auth_query c h = Some (\<lparr>null_terminated = False, bss_length = of_nat (length pw), bss_str = brk h\<rparr>, c,
    h\<lparr>blocks := (blocks h)(brk h \<mapsto> pw), brk := Suc (brk h)\<rparr>)"
proof (cases "bss_length (passphrase c) = 0")
  case True
  then show ?thesis using assms by (simp add: sp_client_make_auth_query_def c_malloc_def Let_def c_memcpy_def)
next
  case False
  then obtain b where b: "blocks h (bss_str (passphrase c)) = Some b" "unat (bss_length (passphrase c)) \<le> length b"
      "pw = take (unat (bss_length (passphrase c))) b"
    using assms(2) by (auto simp: bss_bytes_def load_def split: option.splits if_splits)
  have "bss_str (passphrase c) < brk h" using assms(1) b(1) by auto
  then show ?thesis using b
    by (simp add: sp_client_make_auth_query_def c_malloc_def Let_def c_memcpy_def load_def store_def)
qed

interpretation spa: authenticating_module "simple_proxy e" sp_linked sp_private "\<lambda>pw w. w = pw" "\<lambda>pw k w. w = [1] \<and> k = pw"
  "\<lambda>c h k. bss_bytes h (passphrase c) = Some k" for e
proof
  show "bss_bytes h (passphrase c) = Some k \<Longrightarrow> \<forall>p. sp_private c p \<longrightarrow> blocks g p = blocks h p \<Longrightarrow> bss_bytes g (passphrase c) = Some k" for c h k g
    by (metis bss_bytes_passphrase_frame)
  show "bss_bytes h (passphrase c) = Some k \<Longrightarrow> bss_bytes h' (passphrase c') = Some k \<Longrightarrow> sp_linked c h c' h'" for c h k c' h'
    by (auto simp: sp_linked_def)
  show "\<exists>b c1 w. f_client_make_auth_query (simple_proxy e) c h = Some (b, c1, h\<lparr>blocks := (blocks h)(brk h \<mapsto> w), brk := Suc (brk h)\<rparr>) \<and>
      bss_str b = brk h \<and> bss_length b = of_nat (length w) \<and> length w \<le> length pw + 1024 \<and> w = pw \<and> passphrase c1 = passphrase c"
    if "heap_ok h" "bss_bytes h (passphrase c) = Some pw" for h c pw
    using sp_make_auth_query[OF that] by (simp add: simple_proxy_def)
  show "\<exists>r c1 h1 w' k. f_server_make_auth_reply (simple_proxy e) c b h = Some (r, False, c1, h1) \<and> (w' = [1] \<and> k = pw) \<and> length w' \<le> 1024 \<and>
      brk h \<le> bss_str r \<and> blocks h1 (bss_str r) = Some w' \<and> bss_length r = of_nat (length w') \<and> heap_ok h1 \<and>
      bss_bytes h1 (passphrase c1) = Some k \<and> \<not> sp_private c1 (bss_str r)"
    if a: "heap_ok h" "bss_bytes h (passphrase c) = Some pw" "blocks h (bss_str b) = Some w"
      "bss_length (passphrase c) \<noteq> 0 \<Longrightarrow> bss_str b \<noteq> bss_str (passphrase c)" for h c pw b w
  proof -
    define h1 where "h1 = h\<lparr>blocks := (blocks h)(brk h \<mapsto> [1], bss_str b := None), brk := Suc (brk h)\<rparr>"
    have p: "bss_str b < brk h" "bss_str b \<noteq> 0" using a(1,3) by auto
    have "sp_server_make_auth_reply c b h = Some (\<lparr>null_terminated = False, bss_length = 1, bss_str = brk h\<rparr>, False, c, h1)"
      using p a(3) by (simp add: sp_server_make_auth_reply_def c_malloc_def Let_def store_def c_free_def h1_def)
    moreover have "bss_bytes h1 (passphrase c) = bss_bytes h (passphrase c)"
      using a(1,2,4) by (auto simp: bss_bytes_def load_def h1_def split: option.splits)
    moreover have "heap_ok h1" using a(1) by (simp add: heap_ok_def h1_def)
    moreover have "\<not> sp_private c (brk h)" using passphrase_block[OF a(2,1)] by (auto simp: sp_private_def)
    ultimately show ?thesis using p a(2) by (simp add: simple_proxy_def h1_def)
  qed
  show "\<exists>c1 h1. f_client_deal_auth_reply (simple_proxy e) c b h = Some (True, c1, h1) \<and> heap_ok h1 \<and> bss_bytes h1 (passphrase c1) = Some k \<and>
      (\<forall>p < brk h. blocks h1 p = blocks h p) \<and>
      (\<forall>p. sp_private c1 p \<longrightarrow> brk h \<le> p \<or> bss_length (passphrase c) \<noteq> 0 \<and> p = bss_str (passphrase c))"
    if "heap_ok h" "bss_bytes h (passphrase c) = Some pw" "blocks h (bss_str b) = Some w" "w = [1] \<and> k = pw" for h c pw b w k
    using that by (simp add: simple_proxy_def sp_client_deal_auth_reply_def load_def sp_private_def)
qed

text \<open>\<open>rand()\<close> gives a number of 31 bits.\<close>

lemma se_authenticating:
  assumes rnd: "0 \<le> rnd" "rnd < 2 ^ 31"
  shows "authenticating_module (se_proxy e rnd) (se_linked e) se_private (\<lambda>pw w. fill_cipher pw AUTH_STR w)
    (\<lambda>pw k w. fill_cipher pw (MAGIC_STR @ k) w \<and> 0 < length k \<and> length k < 2 ^ 16) (\<lambda>c h k. has_session_key e h c k)"
proof (rule authenticating_module.intro[OF sem.tunnel_module_axioms], unfold_locales)
  show "has_session_key e h c k \<Longrightarrow> \<forall>p. se_private c p \<longrightarrow> blocks g p = blocks h p \<Longrightarrow> has_session_key e g c k" for c h k g
    by (metis has_session_key_frame se_private_def)
  show "has_session_key e h c k \<Longrightarrow> has_session_key e h' c' k \<Longrightarrow> se_linked e c h c' h'" for c h k c' h'
    by (auto simp: se_linked_def)
  show "\<exists>b c1 w. f_client_make_auth_query (se_proxy e rnd) c h = Some (b, c1, h\<lparr>blocks := (blocks h)(brk h \<mapsto> w), brk := Suc (brk h)\<rparr>) \<and>
      bss_str b = brk h \<and> bss_length b = of_nat (length w) \<and> length w \<le> length pw + 1024 \<and> fill_cipher pw AUTH_STR w \<and> passphrase c1 = passphrase c"
    if "heap_ok h" "bss_bytes h (passphrase c) = Some pw" for h c pw
  proof -
    from se_auth_query[OF that] obtain w where w: "fill_cipher pw AUTH_STR w" "se_client_make_auth_query c h =
      Some (\<lparr>null_terminated = False, bss_length = of_nat (length w), bss_str = brk h\<rparr>, c\<lparr>additional_info := NULL\<rparr>,
        h\<lparr>blocks := (blocks h)(brk h \<mapsto> w), brk := Suc (brk h)\<rparr>)" by blast
    have "length w = 16" using w(1) by (simp add: fill_cipher_def round_up_def)
    with w show ?thesis by (intro exI[of _ w] exI) (auto simp: se_proxy_def)
  qed
  show "\<exists>r c1 h1 w' k. f_server_make_auth_reply (se_proxy e rnd) c b h = Some (r, False, c1, h1) \<and>
      (fill_cipher pw (MAGIC_STR @ k) w' \<and> 0 < length k \<and> length k < 2 ^ 16) \<and> length w' \<le> 1024 \<and>
      brk h \<le> bss_str r \<and> blocks h1 (bss_str r) = Some w' \<and> bss_length r = of_nat (length w') \<and> heap_ok h1 \<and>
      has_session_key e h1 c1 k \<and> \<not> se_private c1 (bss_str r)"
    if a: "heap_ok h" "bss_bytes h (passphrase c) = Some pw" "blocks h (bss_str b) = Some w" "unat (bss_length b) = length w"
      "fill_cipher pw AUTH_STR w" for h c pw b w
  proof -
    from se_auth_reply[OF a rnd, of e] obtain r c1 h1 w' where r: "se_server_make_auth_reply e rnd c b h = Some (r, False, c1, h1)"
        "fill_cipher pw (MAGIC_STR @ rnd_text rnd) w'" "heap_ok h1" "has_session_key e h1 c1 (rnd_text rnd)" "brk h \<le> bss_str r"
        "blocks h1 (bss_str r) = Some w'" "bss_length r = of_nat (length w')" "length w' \<le> 36" "additional_info c1 \<noteq> bss_str r" by blast
    show ?thesis
      by (intro exI[of _ r] exI[of _ c1] exI[of _ h1] exI[of _ w'] exI[of _ "rnd_text rnd"])
        (use r length_rnd_text[OF rnd] in \<open>auto simp: se_proxy_def se_private_def\<close>)
  qed
  show "\<exists>c1 h1. f_client_deal_auth_reply (se_proxy e rnd) c b h = Some (True, c1, h1) \<and> heap_ok h1 \<and> has_session_key e h1 c1 k \<and>
      (\<forall>p < brk h. blocks h1 p = blocks h p) \<and>
      (\<forall>p. se_private c1 p \<longrightarrow> brk h \<le> p \<or> bss_length (passphrase c) \<noteq> 0 \<and> p = bss_str (passphrase c))"
    if "heap_ok h" "bss_bytes h (passphrase c) = Some pw" "blocks h (bss_str b) = Some w" "unat (bss_length b) = length w"
      "fill_cipher pw (MAGIC_STR @ k) w \<and> 0 < length k \<and> length k < 2 ^ 16" for h c pw b w k
    using se_auth_done[OF that(1-4), of k e] that(5) by (auto simp: se_proxy_def se_private_def)
qed

lemma uint_31: "0 \<le> uint (r :: 31 word)" "uint (r :: 31 word) < 2 ^ 31"
  using uint_bounded[of r] by simp_all

interpretation sea: authenticating_module "se_proxy e (uint (r :: 31 word))" "se_linked e" se_private "\<lambda>pw w. fill_cipher pw AUTH_STR w"
  "\<lambda>pw k w. fill_cipher pw (MAGIC_STR @ k) w \<and> 0 < length k \<and> length k < 2 ^ 16" "\<lambda>c h k. has_session_key e h c k" for e r
  by (rule se_authenticating[OF uint_31])

end
