(* ===== verification/End_To_End.thy ===== *)
theory End_To_End
  imports Session_Path
begin

text \<open>
  The client's and the server's program together: from the greeting of a SOCKS5 client to the delivery of its data at the
  destination.
\<close>

section \<open>Segments and connections\<close>

text \<open>
  Bytes that arrive in any non-empty segments, with a script \<open>es\<close> after them: what is read of the bytes leaves the rest of them in
  such segments, before the same script.
\<close>

definition segmented :: "bytes \<Rightarrow> rx_event list \<Rightarrow> rx_event list \<Rightarrow> bool" where
  "segmented bs es script \<longleftrightarrow> (\<exists>segs. script = map Rx_Data segs @ es \<and> concat segs = bs \<and> [] \<notin> set segs)"

lemma segmented_Nil [simp]: "segmented [] es script \<longleftrightarrow> script = es"
proof -
  have "concat segs = [] \<and> [] \<notin> set segs \<longleftrightarrow> segs = []" for segs :: "bytes list" by (cases segs) auto
  then show ?thesis by (simp add: segmented_def)
qed

lemma segmentedI: "concat segs = bs \<Longrightarrow> [] \<notin> set segs \<Longrightarrow> segmented bs es (map Rx_Data segs @ es)"
  by (auto simp: segmented_def)

lemma recvn_loop_segmented:
  "concat segs = bs @ rest \<Longrightarrow> [] \<notin> set segs \<Longrightarrow> length acc + length bs \<le> cap \<Longrightarrow>
   \<exists>script. recvn_loop cap (length bs) acc (map Rx_Data segs @ es) = (Ok (Some (acc @ bs)), script) \<and> segmented rest es script"
proof (induction segs arbitrary: bs acc)
  case Nil
  then show ?case by (simp add: recvn_loop.simps[of cap 0])
next
  case (Cons x segs)
  have x: "x \<noteq> []" using Cons.prems(2) by auto
  consider "bs = []" | z where "bs \<noteq> []" "z \<noteq> []" "x = bs @ z" "rest = z @ concat segs" | bs' where "bs = x @ bs'" "concat segs = bs' @ rest"
    using Cons.prems(1) by (auto simp: append_eq_append_conv2) blast
  then show ?case
  proof cases
    case 1
    then show ?thesis using Cons.prems segmentedI[of "x # segs" rest es] by (simp add: recvn_loop.simps[of cap 0])
  next
    case 2
    have "segmented rest es (Rx_Data z # map Rx_Data segs @ es)" using segmentedI[of "z # segs" rest es] 2 Cons.prems(2) by simp
    then show ?thesis using 2 Cons.prems(3)
      by (simp add: recvn_loop.simps[of cap "length bs"] recvn_loop.simps[of cap 0])
  next
    case 3
    have "recvn_loop cap (length bs) acc (map Rx_Data (x # segs) @ es) = recvn_loop cap (length bs') (acc @ x) (map Rx_Data segs @ es)"
      using x 3(1) Cons.prems(3) by (simp add: recvn_loop.simps[of cap "length x + length bs'"])
    with Cons.IH[OF 3(2), of "acc @ x"] 3(1) Cons.prems(2,3) show ?thesis by simp
  qed
qed

lemma recvn_ex_segmented:
  assumes "socks w fd = Some s" "segmented (bs @ rest) es (rx s)" "length bs = n" "n \<le> cap"
  obtains script where "recvn_ex fd cap n w = (Ok bs, w\<lparr>socks := (socks w)(fd \<mapsto> s\<lparr>rx := script\<rparr>)\<rparr>)" "segmented rest es script"
proof -
  from assms(2) obtain segs where segs: "rx s = map Rx_Data segs @ es" "concat segs = bs @ rest" "[] \<notin> set segs" by (auto simp: segmented_def)
  from recvn_loop_segmented[OF segs(2,3), of "[]" cap es] segs(1) assms(3,4) obtain script where
    "recvn_loop cap n [] (rx s) = (Ok (Some bs), script)" "segmented rest es script" by auto
  with that assms(1) show thesis by (simp add: recvn_ex_def recvn_def with_sock_def bnd_def ret_def)
qed

lemma sendn_ex_rx: "sendn_ex ns fd bs w = (r, w') \<Longrightarrow> map_option rx (socks w' f) = map_option rx (socks w f)"
  by (auto simp: sendn_ex_def bnd_def sendn_def with_sock_def throw_if_def throw_def ret_def split: option.splits prod.splits outcome.splits if_splits)

lemma send_segment:
  assumes "socks w fd = Some s" "tx_ok (tx s)"
  obtains w' s' where "sendn_ex ns fd bs w = (Ok (), w')" "same_but fd w w'" "socks w' fd = Some s'" "rx s' = rx s" "tx_ok (tx s')"
    "sent s' = sent s @ bs"
proof -
  have "writable w fd" using assms by (simp add: writable_def)
  from sendn_ex_ok[OF this, of ns bs] obtain w' where w': "sendn_ex ns fd bs w = (Ok (), w')" "same_but fd w w'" "writable w' fd"
    "outgoing w' fd = outgoing w fd @ bs" by blast
  moreover obtain s' where "socks w' fd = Some s'" using w'(3) by (auto simp: writable_def split: option.splits)
  ultimately show thesis using that[of w' s'] assms sendn_ex_rx[OF w'(1), of fd] by (simp add: writable_def outgoing_def)
qed

lemma handshake_segmented:
  assumes s: "socks w fd = Some s" "segmented ([5, of_nat (length ms)] @ ms @ rest) es (rx s)" "tx_ok (tx s)" and ms: "ms \<noteq> []" "length ms < 128"
  obtains w' s' where "handshake_pkgs fd w = (Ok (), w')" "same_but fd w w'" "socks w' fd = Some s'" "segmented rest es (rx s')" "tx_ok (tx s')"
    "sent s' = sent s @ [5, if 0 \<in> set ms then 0 else 255]"
proof -
  let ?a = "[5, if 0 \<in> set ms then 0 else 255]"
  obtain sc1 where r1: "recvn_ex fd 258 2 w = (Ok [5, of_nat (length ms)], w\<lparr>socks := (socks w)(fd \<mapsto> s\<lparr>rx := sc1\<rparr>)\<rparr>)" "segmented (ms @ rest) es sc1"
    by (rule recvn_ex_segmented[OF s(1,2), of 2 258]) simp_all
  let ?s1 = "s\<lparr>rx := sc1\<rparr>" let ?w1 = "w\<lparr>socks := (socks w)(fd \<mapsto> ?s1)\<rparr>"
  have n: "unat (size_of_char (of_nat (length ms))) = length ms"
    using ms by (simp add: size_of_char_def unat_scast_byte unat_small_byte)
  obtain sc2 where r2: "recvn_ex fd 256 (length ms) ?w1 = (Ok ms, w\<lparr>socks := (socks w)(fd \<mapsto> s\<lparr>rx := sc2\<rparr>)\<rparr>)" "segmented rest es sc2"
    by (rule recvn_ex_segmented[of ?w1 fd ?s1 ms rest es "length ms" 256]) (use r1(2) ms in simp_all)
  let ?s2 = "s\<lparr>rx := sc2\<rparr>" let ?w2 = "w\<lparr>socks := (socks w)(fd \<mapsto> ?s2)\<rparr>"
  from send_segment[of ?w2 fd ?s2 False ?a] s(3) obtain w' s' where w': "sendn_ex False fd ?a ?w2 = (Ok (), w')"
      "same_but fd ?w2 w'" "socks w' fd = Some s'" "rx s' = sc2" "tx_ok (tx s')" "sent s' = sent s @ ?a" by auto
  have "list_ex (\<lambda>c. c = 0) ms \<longleftrightarrow> 0 \<in> set ms" by (auto simp: list_ex_iff)
  then have "handshake_pkgs fd w = (Ok (), w')"
    using r1(1) r2(1) w'(1) n by (simp add: handshake_pkgs_def bnd_def ret_def Let_def split del: if_split)
  moreover have "same_but fd w w'" using w'(2) s(1) by (auto simp: same_but_def)
  ultimately show thesis using that w' r2(2) by blast
qed

fun dest_ip :: "socks_dest \<Rightarrow> bytes" where
  "dest_ip (Dest_v4 ip) = ip @ replicate 12 0"
| "dest_ip (Dest_v6 ip) = ip"
| "dest_ip (Dest_name name) = []"

definition is_name :: "socks_dest \<Rightarrow> bool" where
  "is_name d \<longleftrightarrow> (case d of Dest_name _ \<Rightarrow> True | _ \<Rightarrow> False)"

lemma connect_segmented:
  assumes s: "socks w fd = Some s" "segmented (request 1 rsv d port @ rest) es (rx s)" "tx_ok (tx s)" and d: "dest_ok d" "\<not> is_name d"
  obtains w' s' where "connect_pkgs e fd w = (Ok (dest_info d port), w')" "same_but fd w w'" "socks w' fd = Some s'" "segmented rest es (rx s')" "tx_ok (tx s')"
    "sent s' = sent s @ request 0 rsv d port"
proof -
  let ?T = "request 1 rsv d port"
  define al :: u64 where "al = (case d of Dest_v4 _ \<Rightarrow> 4 | _ \<Rightarrow> 16)"
  have T: "length ?T = unat (al + 6)" "unat (al + 1) = length ?T - 5" "5 < length ?T" "length ?T \<le> 263"
    using d by (cases d; simp add: request_def al_def is_name_def)+
  define pre post where pp: "pre = take 5 ?T" "post = drop 5 ?T"
  have pt: "?T = pre @ post" "length pre = 5" "post \<noteq> []" "length post = unat (al + 1)" using T by (simp_all add: pp)
  have at: "(if pre ! 3 = 1 then ret 4 else if pre ! 3 = 3 then ret (size_of_char (pre ! 4) + 1)
        else if pre ! 3 = 4 then ret 16 else die ''Wrong ATYP in connect packet.'') = (ret al :: u64 prog)"
    using d by (cases d) (simp_all add: pp request_def al_def is_name_def)
  have sg: "segmented (pre @ post @ rest) es (rx s)" using s(2) unfolding pt(1) by simp
  obtain sc1 where r1: "recvn_ex fd 263 5 w = (Ok pre, w\<lparr>socks := (socks w)(fd \<mapsto> s\<lparr>rx := sc1\<rparr>)\<rparr>)" "segmented (post @ rest) es sc1"
    by (rule recvn_ex_segmented[OF s(1) sg, of 5 263]) (use pt(2) in simp_all)
  let ?s1 = "s\<lparr>rx := sc1\<rparr>" let ?w1 = "w\<lparr>socks := (socks w)(fd \<mapsto> ?s1)\<rparr>"
  obtain sc2 where r2: "recvn_ex fd 258 (unat (al + 1)) ?w1 = (Ok post, w\<lparr>socks := (socks w)(fd \<mapsto> s\<lparr>rx := sc2\<rparr>)\<rparr>)" "segmented rest es sc2"
    by (rule recvn_ex_segmented[of ?w1 fd ?s1 post rest es "unat (al + 1)" 258]) (use r1(2) pt(4) T(2,4) in simp_all)
  let ?s2 = "s\<lparr>rx := sc2\<rparr>" let ?w2 = "w\<lparr>socks := (socks w)(fd \<mapsto> ?s2)\<rparr>"
  obtain atyp where u: "\<And>g. unpackConnectionPacket e (?T @ g) ?w2 = (Ok (1, atyp, dest_info d port), ?w2)"
    using d unpack_v4 unpack_v6 by (cases d) (auto simp: is_name_def)
  have run: "connect_pkgs e fd w = bnd (sendn_ex False fd (?T[1 := 0])) (\<lambda>_. ret (dest_info d port)) ?w2"
    unfolding pt(1) by (rule connect_pkgs_eval[OF r1(1) r2(1) pt(2)]) (use T at u pt(1) in simp_all)
  from send_segment[of ?w2 fd ?s2 False "?T[1 := 0]"] s(3) obtain w' s' where w': "sendn_ex False fd (?T[1 := 0]) ?w2 = (Ok (), w')"
      "same_but fd ?w2 w'" "socks w' fd = Some s'" "rx s' = sc2" "tx_ok (tx s')" "sent s' = sent s @ ?T[1 := 0]" by auto
  have "connect_pkgs e fd w = (Ok (dest_info d port), w')" using run w'(1) by (simp add: bnd_def ret_def)
  moreover have "same_but fd w w'" using w'(2) s(1) by (auto simp: same_but_def)
  ultimately show thesis using that w' r2(2) by (simp add: request_reply)
qed

text \<open>The first address of a host can be connected to, giving the socket \<open>s\<close>.\<close>

definition reachable :: "net_env \<Rightarrow> string \<Rightarrow> u16 \<Rightarrow> sock \<Rightarrow> bool" where
  "reachable n addr port s \<longleftrightarrow> (\<exists>rp rps. net_getaddrinfo n addr port False = Inr (rp # rps) \<and> net_socket n rp \<and>
     net_setsockopt n ''SO_REUSEADDR'' rp \<and> net_setsockopt n ''SO_REUSEPORT'' rp \<and> net_connect n rp = Some s)"

definition with_connection :: "sock \<Rightarrow> world \<Rightarrow> world" where
  "with_connection s w = w\<lparr>socks := (socks w)(next_fd w \<mapsto> s), next_fd := next_fd w + 1\<rparr>"

lemma connects:
  assumes "reachable (net w) addr port s"
  shows "quick_connect addr port w = (Ok (next_fd w), with_connection s w)"
    "addr = string_of_bytes (serverAddr ot) \<Longrightarrow> port = serverPort ot \<Longrightarrow> newConnection ot w = (Ok (next_fd w), with_connection s w)"
  using assms
  by (auto simp: reachable_def quick_connect_def newConnection_def getaddrinfo_ex_def bnd_def deferring_def freeaddrinfo_ex_def new_fd_def
      set_reuse_def throw_if_def ret_def attach_def with_connection_def)

context tunnel_module
begin

lemma serve_client_connects:
  assumes enc: "encoding_of c cs (mem w) ip port data wire" and ok: "heap_ok (mem w)"
    and cid: "conns w cid = Some cs" and m: "it_mod it = m"
    and s: "socks w fd \<noteq> None" "incoming w fd = packet_wire wire @ rest" and ip: "ip \<noteq> replicate 16 0"
    and hop: "reachable (net w) (ip_array_to_str ip) port hs" "tx_ok (tx hs)" "sent hs = []" "next_fd w \<noteq> fd"
  shows "\<exists>w'. serve_client e resolve it cid fd (-1) w = (Ok (next_fd w), w') \<and> heap_ok (mem w') \<and> conns w' cid = Some cs \<and>
    socks w' fd \<noteq> None \<and> incoming w' fd = rest \<and> writable w' (next_fd w) \<and> outgoing w' (next_fd w) = data \<and> outgoing w' fd = outgoing w fd \<and>
    (\<forall>p. private_block cs p \<longrightarrow> blocks (mem w') p = blocks (mem w) p)"
proof -
  let ?hop = "next_fd w"
  from serve_client_decodes[OF enc ok cid m s ip, of e resolve "-1"] obtain w2 q where w2:
      "serve_client e resolve it cid fd (-1) w = serve_data (-1) q w2" "destination_ip q = ip" "destination_port q = port"
      "\<forall>w''. mem w'' = mem w2 \<longrightarrow> load_n (bss_str (payload q)) (unat (bss_length (payload q))) w'' = (Ok data, w'')"
      "heap_ok (mem w2)" "conns w2 cid = Some cs" "socks w2 fd \<noteq> None" "incoming w2 fd = rest" "outgoing w2 fd = outgoing w fd"
      "net w2 = net w" "next_fd w2 = ?hop" "\<forall>p. private_block cs p \<longrightarrow> blocks (mem w2) p = blocks (mem w) p" by blast
  define w3 where "w3 = with_connection hs w2"
  have qc: "quick_connect (ip_array_to_str ip) port w2 = (Ok ?hop, w3)"
    using connects(1)[of w2] hop(1) w2(10,11) by (simp add: w3_def)
  have h3: "socks w3 ?hop = Some hs" "mem w3 = mem w2" "conns w3 = conns w2" "socks w3 fd = socks w2 fd"
    using w2(11) hop(4) by (simp_all add: w3_def with_connection_def)
  have "writable w3 ?hop" "outgoing w3 ?hop = []" using h3(1) hop(2,3) by (simp_all add: writable_def outgoing_def)
  from send_payload_ok[OF _ this(1)] this(2) w2(4) h3(2) obtain w4 where w4: "send_payload ?hop q w3 = (Ok ?hop, w4)" "same_but ?hop w3 w4"
      "writable w4 ?hop" "outgoing w4 ?hop = data" by fastforce
  have "serve_client e resolve it cid fd (-1) w = (Ok ?hop, w4)"
    using w2(1-3) qc w4(1) by (simp add: serve_data_def bnd_def catch_def)
  then show ?thesis
    using w4 w2(5-9,12) h3 same_but_simps[OF w4(2)] hop(4) by (auto simp: incoming_def outgoing_def)
qed

lemma serve_loop_connects:
  assumes enc: "list_all2 (encoding_of c cs (mem w) ip port) (data # datas) (wire # wires)"
    and ok: "heap_ok (mem w)" "conns w cid = Some cs" "it_mod it = m"
    and s: "socks w fd \<noteq> None" "incoming w fd = concat (map packet_wire (wire # wires))" and ip: "ip \<noteq> replicate 16 0"
    and hop: "reachable (net w) (ip_array_to_str ip) port hs" "tx_ok (tx hs)" "sent hs = []" "next_fd w \<noteq> fd" "next_fd w \<noteq> -1"
  shows "\<exists>w'. serve_loop e resolve it cid fd (-1) (replicate (length (data # datas)) (Sel_Ready [fd])) w = (Blocked, w') \<and>
    outgoing w' (next_fd w) = concat (data # datas) \<and> outgoing w' fd = outgoing w fd"
proof -
  let ?hop = "next_fd w"
  have e1: "encoding_of c cs (mem w) ip port data wire" "list_all2 (encoding_of c cs (mem w) ip port) datas wires"
    and inc: "incoming w fd = packet_wire wire @ concat (map packet_wire wires)" using enc s(2) by simp_all
  from serve_client_connects[OF e1(1) ok s(1) inc ip hop(1-4), of e resolve] obtain w1 where w1:
      "serve_client e resolve it cid fd (-1) w = (Ok ?hop, w1)" "heap_ok (mem w1)" "conns w1 cid = Some cs" "socks w1 fd \<noteq> None"
      "incoming w1 fd = concat (map packet_wire wires) @ []" "writable w1 ?hop" "outgoing w1 ?hop = data" "outgoing w1 fd = outgoing w fd"
      "\<forall>p. private_block cs p \<longrightarrow> blocks (mem w1) p = blocks (mem w) p" by auto
  from serve_loop_forwards[OF e1(2) w1(9,2,3) ok(3) w1(4,5) hop(4,5) w1(6) ip, of e resolve "[]"] obtain w2 where w2:
      "serve_loop e resolve it cid fd ?hop (replicate (length datas) (Sel_Ready [fd])) w1 = (Blocked, w2)"
      "outgoing w2 ?hop = outgoing w1 ?hop @ concat datas" "outgoing w2 fd = outgoing w1 fd" by auto
  have "serve_loop e resolve it cid fd (-1) (replicate (length (data # datas)) (Sel_Ready [fd])) w =
      serve_loop e resolve it cid fd ?hop (replicate (length datas) (Sel_Ready [fd])) w1"
    using w1(1) by (simp add: bnd_def catch_def ret_def)
  then show ?thesis using w2 w1(7,8) by simp
qed

end

lemma template_of:
  assumes "dest_ok d" "\<not> is_name d" "port \<noteq> 0"
  shows "\<exists>q. to_query_template (dest_info d port) = ret q \<and> destination_ip q = dest_ip d \<and> destination_port q = port \<and> length (dest_ip d) = 16"
  using assms by (cases d) (auto simp: is_name_def to_query_template_def overwrite_def)

lemma launch_relays:
  assumes "handshake_pkgs fd w = (Ok (), w1)" "connect_pkgs e fd w1 = (Ok info, w2)" "new_SnakeConnection e ot w2 = (Ok nh, w3)"
    "addr_type info \<noteq> Addr_domain" "passData e ot fd nh info sels w3 = (Blocked, w4)"
  shows "launch e ot fd sels w = (Blocked, w4)"
  using assms by (simp add: launch_def bnd_def dns_pkgs_def ret_def deferring_def catch_def)

context authenticating_module
begin

text \<open>The client connects to the server and authenticates.\<close>

lemma snake_connection_made:
  assumes ok: "heap_ok h" and pw: "bss_bytes h (conv_passphrase ot) = Some pw" "length pw \<le> 1024 * 1024" and m: "ot_mod ot = m"
  obtains q where "is_query pw q" "packet_fits q"
    "\<And>w st r k rest e. mem w = h \<Longrightarrow> next_fd w = tfd \<Longrightarrow> reachable (net w) (string_of_bytes (serverAddr ot)) (serverPort ot) st \<Longrightarrow> tx_ok (tx st) \<Longrightarrow>
      rx_stream (rx st) = packet_wire r @ rest \<Longrightarrow> is_reply pw k r \<Longrightarrow> packet_fits r \<Longrightarrow>
      \<exists>w' c'. new_SnakeConnection e ot w = (Ok \<lparr>sc_info = next_conn w, sc_fd = tfd\<rparr>, w') \<and> holds c' (mem w') k \<and> heap_ok (mem w') \<and>
        conns w' (next_conn w) = Some c' \<and> outgoing w' tfd = sent st @ packet_wire q \<and> writable w' tfd \<and> (\<forall>f. f \<noteq> tfd \<longrightarrow> socks w' f = socks w f)"
proof -
  let ?start = "\<lparr>server_ip = take 16 (conv_serverAddr ot), server_port = serverPort ot, passphrase = conv_passphrase ot, connect_fd = 0,
    additional_info = NULL\<rparr>"
  let ?c = "?start\<lparr>connect_fd := tfd\<rparr>"
  have pwc: "bss_bytes h (passphrase ?c) = Some pw" using pw(1) by simp
  obtain q where q: "is_query pw q" "packet_fits q" and
    auth: "\<And>w cid fd r k rest e ot. mem w = h \<Longrightarrow> conns w cid = Some ?c \<Longrightarrow> connect_fd ?c = fd \<Longrightarrow> ot_mod ot = m \<Longrightarrow> writable w fd \<Longrightarrow>
      incoming w fd = packet_wire r @ rest \<Longrightarrow> is_reply pw k r \<Longrightarrow> packet_fits r \<Longrightarrow>
      \<exists>w' c'. outbound_doAuth e ot cid w = (Ok True, w') \<and> holds c' (mem w') k \<and> heap_ok (mem w') \<and> conns w' = (conns w)(cid \<mapsto> c') \<and>
        outgoing w' fd = outgoing w fd @ packet_wire q \<and> incoming w' fd = rest \<and> writable w' fd \<and> net w' = net w \<and>
        (\<forall>f. f \<noteq> fd \<longrightarrow> socks w' f = socks w f)"
    by (rule client_authenticates[OF ok pwc pw(2)]) blast
  show thesis
  proof (rule that[OF q])
    fix w :: world and st r k rest e
    assume w: "mem w = h" "next_fd w = tfd" and re: "reachable (net w) (string_of_bytes (serverAddr ot)) (serverPort ot) st" "tx_ok (tx st)"
      and st: "rx_stream (rx st) = packet_wire r @ rest" "is_reply pw k r" "packet_fits r"
    let ?cid = "next_conn w"
    define w1 where "w1 = w\<lparr>conns := (conns w)(?cid \<mapsto> ?start), next_conn := Suc ?cid\<rparr>"
    define w3 where "w3 = (with_connection st w1)\<lparr>conns := (conns w)(?cid \<mapsto> ?c)\<rparr>"
    have i: "initConnInfo ot w = (Ok ?cid, w1)" by (simp add: initConnInfo_def new_conn_def w1_def)
    have n: "newConnection ot w1 = (Ok tfd, with_connection st w1)" using connects(2)[of w1] re(1) w(2) by (simp add: w1_def)
    have c: "set_connect_fd ?cid tfd (with_connection st w1) = (Ok (), w3)"
      by (simp add: set_connect_fd_def call_mod_def w3_def with_connection_def w1_def)
    have f3: "mem w3 = h" "conns w3 ?cid = Some ?c" "socks w3 tfd = Some st" "\<forall>f. f \<noteq> tfd \<longrightarrow> socks w3 f = socks w f"
      using w by (simp_all add: w3_def with_connection_def w1_def)
    have wr: "writable w3 tfd" "incoming w3 tfd = packet_wire r @ rest" using f3(3) re(2) st(1) by (simp_all add: writable_def incoming_def)
    from auth[OF f3(1,2) _ m wr st(2,3), of e] obtain w' c' where w': "outbound_doAuth e ot ?cid w3 = (Ok True, w')" "holds c' (mem w') k"
        "heap_ok (mem w')" "conns w' = (conns w3)(?cid \<mapsto> c')" "outgoing w' tfd = outgoing w3 tfd @ packet_wire q" "writable w' tfd"
        "\<forall>f. f \<noteq> tfd \<longrightarrow> socks w' f = socks w3 f" by auto
    have "new_SnakeConnection e ot w = (Ok \<lparr>sc_info = ?cid, sc_fd = tfd\<rparr>, w')"
      using i n c w'(1) by (simp add: new_SnakeConnection_def bnd_def ret_def)
    then show "\<exists>w' c'. new_SnakeConnection e ot w = (Ok \<lparr>sc_info = next_conn w, sc_fd = tfd\<rparr>, w') \<and> holds c' (mem w') k \<and> heap_ok (mem w') \<and>
        conns w' (next_conn w) = Some c' \<and> outgoing w' tfd = sent st @ packet_wire q \<and> writable w' tfd \<and> (\<forall>f. f \<noteq> tfd \<longrightarrow> socks w' f = socks w f)"
      using w' f3(3,4) by (intro exI[of _ w'] exI[of _ c']) (simp add: outgoing_def)
  qed
qed

text \<open>The server's connection, from the accepted descriptor on.\<close>

lemma connection_served:
  assumes ok: "heap_ok (mem ws)" and m: "it_mod it = m" and pw: "length (it_passphrase it) \<le> 1024 * 1024" and q: "is_query (it_passphrase it) q" "packet_fits q"
    and fds: "sfd \<noteq> next_fd ws" "next_fd ws \<noteq> -1"
  obtains r k s' g where "is_reply (it_passphrase it) k r" "packet_fits r" "holds s' g k" "heap_ok g"
    "\<And>ss c ip port hs data datas wires e resolve. tx_ok (tx ss) \<Longrightarrow> sent ss = [] \<Longrightarrow> rx_stream (rx ss) = packet_wire q @ concat (map packet_wire wires) \<Longrightarrow>
      list_all2 (encoding_of c s' g ip port) (data # datas) wires \<Longrightarrow> ip \<noteq> replicate 16 0 \<Longrightarrow>
      reachable (net ws) (ip_array_to_str ip) port hs \<Longrightarrow> tx_ok (tx hs) \<Longrightarrow> sent hs = [] \<Longrightarrow>
      \<exists>ws'. dealConnectionImpl e resolve it sfd (replicate (length (data # datas)) (Sel_Ready [sfd])) (ws\<lparr>socks := (socks ws)(sfd \<mapsto> ss)\<rparr>) = (Blocked, ws') \<and>
        outgoing ws' sfd = packet_wire r \<and> outgoing ws' (next_fd ws) = concat (data # datas)"
proof -
  let ?pw = "it_passphrase it"
  have "length ?pw < 2 ^ 32" using pw by simp
  from make_binary_safe_string_of_bytes[OF ok this] obtain b h where b: "make_binary_safe_string_of ?pw (mem ws) = Some (b, h)"
    "bss_bytes h b = Some ?pw" "heap_ok h" by blast
  let ?c = "\<lparr>server_ip = replicate 16 0, server_port = bindPort it, passphrase = b, connect_fd = sfd, additional_info = NULL\<rparr>"
  have "bss_bytes h (passphrase ?c) = Some ?pw" using b(2) by simp
  then obtain r k s' g where r: "is_reply ?pw k r" "packet_fits r" "holds s' g k" "heap_ok g" and
    auth: "\<And>w cid fd rest e it. mem w = h \<Longrightarrow> conns w cid = Some ?c \<Longrightarrow> connect_fd ?c = fd \<Longrightarrow> it_mod it = m \<Longrightarrow> writable w fd \<Longrightarrow>
      incoming w fd = packet_wire q @ rest \<Longrightarrow>
      \<exists>w'. inbound_doAuth e it cid w = (Ok True, w') \<and> mem w' = g \<and> conns w' = (conns w)(cid \<mapsto> s') \<and>
        outgoing w' fd = outgoing w fd @ packet_wire r \<and> incoming w' fd = rest \<and> writable w' fd \<and> net w' = net w \<and>
        next_fd w' = next_fd w \<and> (\<forall>f. f \<noteq> fd \<longrightarrow> socks w' f = socks w f)"
    by (rule server_authenticates[OF b(3) _ q]) blast
  show thesis
  proof (rule that[OF r])
    fix ss :: sock and c ip port and hs :: sock and data datas wires e resolve
    assume ss: "tx_ok (tx ss)" "sent ss = []" "rx_stream (rx ss) = packet_wire q @ concat (map packet_wire wires)"
      and enc: "list_all2 (encoding_of c s' g ip port) (data # datas) wires" "ip \<noteq> replicate 16 0"
      and hs: "reachable (net ws) (ip_array_to_str ip) port hs" "tx_ok (tx hs)" "sent hs = []"
    let ?w = "ws\<lparr>socks := (socks ws)(sfd \<mapsto> ss)\<rparr>" and ?sels = "replicate (length (data # datas)) (Sel_Ready [sfd])" and ?cid = "next_conn ws"
    define w1 where "w1 = ?w\<lparr>mem := h, conns := (conns ws)(?cid \<mapsto> ?c), next_conn := Suc ?cid\<rparr>"
    have "mem w1 = h" "conns w1 ?cid = Some ?c" "writable w1 sfd" "incoming w1 sfd = packet_wire q @ concat (map packet_wire wires)"
      using ss by (simp_all add: w1_def writable_def incoming_def)
    from auth[OF this(1,2) _ m this(3,4), of e] obtain w2 where w2: "inbound_doAuth e it ?cid w1 = (Ok True, w2)" "mem w2 = g"
        "conns w2 ?cid = Some s'" "outgoing w2 sfd = packet_wire r" "incoming w2 sfd = concat (map packet_wire wires)" "writable w2 sfd"
        "net w2 = net ws" "next_fd w2 = next_fd ws" using ss(2) by (auto simp: w1_def outgoing_def)
    obtain wire wires' where ww: "wires = wire # wires'" using enc(1) by (auto simp: list_all2_Cons1)
    have sk: "socks w2 sfd \<noteq> None" using w2(6) by (auto simp: writable_def split: option.splits)
    from serve_loop_connects[OF enc(1)[unfolded ww, folded w2(2)] _ w2(3) m sk w2(5)[unfolded ww] enc(2), of hs e resolve] r(4) hs fds w2(2,7,8)
    obtain w3 where w3: "serve_loop e resolve it ?cid sfd (-1) ?sels w2 = (Blocked, w3)" "outgoing w3 (next_fd ws) = concat (data # datas)"
      "outgoing w3 sfd = packet_wire r" by (auto simp: w2(4) simp del: serve_loop.simps)
    have "dealConnectionImpl e resolve it sfd ?sels ?w = (Blocked, w3)"
      using b(1) w2(1) w3(1) by (simp add: dealConnectionImpl_def bnd_def on_heap_def new_conn_def deferring_def w1_def del: serve_loop.simps)
    then show "\<exists>ws'. dealConnectionImpl e resolve it sfd ?sels ?w = (Blocked, ws') \<and>
        outgoing ws' sfd = packet_wire r \<and> outgoing ws' (next_fd ws) = concat (data # datas)" using w3 by blast
  qed
qed

text \<open>The two programs together.\<close>

lemma proxied:
  assumes client: "heap_ok (mem wc)" "ot_mod ot = m" "bss_bytes (mem wc) (conv_passphrase ot) = Some (it_passphrase it)"
      "length (it_passphrase it) \<le> 1024 * 1024"
      "socks wc fd = Some s" "segmented ([5, of_nat (length ms)] @ ms @ request 1 rsv d port) es (rx s)" "tx_ok (tx s)"
      "ms \<noteq> []" "length ms < 128" "dest_ok d" "\<not> is_name d" "port \<noteq> 0" "dest_ip d \<noteq> replicate 16 0"
      "pieces es = Some ps" "ps \<noteq> []" "fd \<noteq> next_fd wc"
    and server: "heap_ok (mem ws)" "it_mod it = m" "sfd \<noteq> next_fd ws" "next_fd ws \<noteq> -1"
      "reachable (net ws) (ip_array_to_str (dest_ip d)) port hs" "tx_ok (tx hs)" "sent hs = []"
  shows "\<exists>R. \<forall>n st. reachable n (string_of_bytes (serverAddr ot)) (serverPort ot) st \<and> tx_ok (tx st) \<and> sent st = [] \<and> rx_stream (rx st) = R \<longrightarrow>
    (\<exists>wc'. launch e ot fd (replicate (length ps) (Sel_Ready [fd])) (wc\<lparr>net := n\<rparr>) = (Blocked, wc') \<and>
      (\<forall>ss. tx_ok (tx ss) \<and> sent ss = [] \<and> rx_stream (rx ss) = outgoing wc' (next_fd wc) \<longrightarrow>
        (\<exists>ws'. dealConnectionImpl e resolve it sfd (replicate (length ps) (Sel_Ready [sfd])) (ws\<lparr>socks := (socks ws)(sfd \<mapsto> ss)\<rparr>) = (Blocked, ws') \<and>
          outgoing ws' sfd = R \<and> outgoing ws' (next_fd ws) = rx_stream es)))"
proof -
  let ?pw = "it_passphrase it" and ?t = "next_fd wc" and ?ip = "dest_ip d"
  obtain q where q: "is_query ?pw q" "packet_fits q" and
    conn: "\<And>w st r k rest e. mem w = mem wc \<Longrightarrow> next_fd w = ?t \<Longrightarrow> reachable (net w) (string_of_bytes (serverAddr ot)) (serverPort ot) st \<Longrightarrow> tx_ok (tx st) \<Longrightarrow>
      rx_stream (rx st) = packet_wire r @ rest \<Longrightarrow> is_reply ?pw k r \<Longrightarrow> packet_fits r \<Longrightarrow>
      \<exists>w' c'. new_SnakeConnection e ot w = (Ok \<lparr>sc_info = next_conn w, sc_fd = ?t\<rparr>, w') \<and> holds c' (mem w') k \<and> heap_ok (mem w') \<and>
        conns w' (next_conn w) = Some c' \<and> outgoing w' ?t = sent st @ packet_wire q \<and> writable w' ?t \<and> (\<forall>f. f \<noteq> ?t \<longrightarrow> socks w' f = socks w f)"
    by (rule snake_connection_made[OF client(1,3,4,2)]) blast
  obtain r k s' g where r: "is_reply ?pw k r" "packet_fits r" "holds s' g k" "heap_ok g" and
    served: "\<And>ss c ip port hs data datas wires e resolve. tx_ok (tx ss) \<Longrightarrow> sent ss = [] \<Longrightarrow>
      rx_stream (rx ss) = packet_wire q @ concat (map packet_wire wires) \<Longrightarrow>
      list_all2 (encoding_of c s' g ip port) (data # datas) wires \<Longrightarrow> ip \<noteq> replicate 16 0 \<Longrightarrow>
      reachable (net ws) (ip_array_to_str ip) port hs \<Longrightarrow> tx_ok (tx hs) \<Longrightarrow> sent hs = [] \<Longrightarrow>
      \<exists>ws'. dealConnectionImpl e resolve it sfd (replicate (length (data # datas)) (Sel_Ready [sfd])) (ws\<lparr>socks := (socks ws)(sfd \<mapsto> ss)\<rparr>) = (Blocked, ws') \<and>
        outgoing ws' sfd = packet_wire r \<and> outgoing ws' (next_fd ws) = concat (data # datas)"
    by (rule connection_served[OF server(1,2) client(4) q server(3,4)]) blast
  obtain tmpl where tmpl: "to_query_template (dest_info d port) = ret tmpl" "destination_ip tmpl = ?ip" "destination_port tmpl = port" "length ?ip = 16"
    using template_of[OF client(10,11,12)] by blast
  obtain data datas' where dd: "ps = data # datas'" using client(15) by (cases ps) auto
  have str: "concat ps = rx_stream es" using pieces_stream[OF client(14)] .
  show ?thesis
  proof (intro exI[of _ "packet_wire r"] allI impI, elim conjE)
    fix n st
    assume st: "reachable n (string_of_bytes (serverAddr ot)) (serverPort ot) st" "tx_ok (tx st)" "sent st = []" "rx_stream (rx st) = packet_wire r"
    let ?w = "wc\<lparr>net := n\<rparr>" and ?sels = "replicate (length ps) (Sel_Ready [fd])"
    have s0: "socks ?w fd = Some s" using client(5) by simp
    obtain w1 s1 where w1: "handshake_pkgs fd ?w = (Ok (), w1)" "same_but fd ?w w1" "socks w1 fd = Some s1"
        "segmented (request 1 rsv d port @ []) es (rx s1)" "tx_ok (tx s1)"
      by (rule handshake_segmented[OF s0 client(6,7,8,9)]) simp
    obtain w2 s2 where w2: "connect_pkgs e fd w1 = (Ok (dest_info d port), w2)" "same_but fd w1 w2" "socks w2 fd = Some s2"
        "rx s2 = es" by (rule connect_segmented[OF w1(3,4,5) client(10,11), of e]) simp
    have f2: "mem w2 = mem wc" "next_fd w2 = ?t" "net w2 = n" using same_but_simps[OF w1(2)] same_but_simps[OF w2(2)] by simp_all
    from conn[OF f2(1,2) st(1)[folded f2(3)] st(2) _ r(1,2), of "[]" e] st(3,4) obtain w3 c' where w3:
        "new_SnakeConnection e ot w2 = (Ok \<lparr>sc_info = next_conn w2, sc_fd = ?t\<rparr>, w3)" "holds c' (mem w3) k" "heap_ok (mem w3)"
        "conns w3 (next_conn w2) = Some c'" "outgoing w3 ?t = packet_wire q" "writable w3 ?t" "\<forall>f. f \<noteq> ?t \<longrightarrow> socks w3 f = socks w2 f" by auto
    let ?nh = "\<lparr>sc_info = next_conn w2, sc_fd = ?t\<rparr>"
    have nh: "conns w3 (sc_info ?nh) = Some c'" "socks w3 fd = Some s2" "sc_fd ?nh \<noteq> fd" "writable w3 (sc_fd ?nh)"
      using w3(4,6,7) w2(3) client(16) by simp_all
    from pass_loop_sends[OF holds_linked[OF w3(2) r(3)] w3(3) nh(1) client(2) nh(2) _ nh(3,4) tmpl(2,3,4), of ps e "[]"] client(14) w2(4)
    obtain w4 wires where w4: "pass_loop e ot fd ?nh tmpl ?sels w3 = (Blocked, w4)" "list_all2 (encoding_of c' s' g ?ip port) ps wires"
        "outgoing w4 ?t = packet_wire q @ concat (map packet_wire wires)" using w3(5) by auto
    have "passData e ot fd ?nh (dest_info d port) ?sels w3 = (Blocked, w4)" using w4(1) by (simp add: passData_def tmpl(1))
    moreover have "addr_type (dest_info d port) \<noteq> Addr_domain" using client(11) by (cases d) (simp_all add: is_name_def)
    ultimately have l: "launch e ot fd ?sels ?w = (Blocked, w4)" by (intro launch_relays[OF w1(1) w2(1) w3(1)])
    have "\<exists>ws'. dealConnectionImpl e resolve it sfd (replicate (length ps) (Sel_Ready [sfd])) (ws\<lparr>socks := (socks ws)(sfd \<mapsto> ss)\<rparr>) = (Blocked, ws') \<and>
        outgoing ws' sfd = packet_wire r \<and> outgoing ws' (next_fd ws) = rx_stream es"
      if "tx_ok (tx ss)" "sent ss = []" "rx_stream (rx ss) = outgoing w4 ?t" for ss :: sock
      using served[OF that(1,2) that(3)[unfolded w4(3)] w4(2)[unfolded dd] client(13) server(5,6,7), of e resolve] str unfolding dd by simp
    with l show "\<exists>wc'. launch e ot fd ?sels ?w = (Blocked, wc') \<and> (\<forall>ss. tx_ok (tx ss) \<and> sent ss = [] \<and> rx_stream (rx ss) = outgoing wc' ?t \<longrightarrow>
        (\<exists>ws'. dealConnectionImpl e resolve it sfd (replicate (length ps) (Sel_Ready [sfd])) (ws\<lparr>socks := (socks ws)(sfd \<mapsto> ss)\<rparr>) = (Blocked, ws') \<and>
          outgoing ws' sfd = packet_wire r \<and> outgoing ws' (next_fd ws) = rx_stream es))"
      by blast
  qed
qed

end

section \<open>Worlds for the witnesses\<close>





definition stream_sock :: "bytes \<Rightarrow> sock" where
  "stream_sock bs = \<lparr>rx = [Rx_Data bs], tx = [], sent = []\<rparr>"



lemma stream_sock_simps [simp]: "rx_stream (rx (stream_sock bs)) = bs" "tx (stream_sock bs) = []" "sent (stream_sock bs) = []"
  by (simp_all add: stream_sock_def)





section \<open>Properties\<close>





end
