(* ===== verification/Dns_Path.thy ===== *)
theory Dns_Path
  imports End_To_End
begin

text \<open>
  Names resolved through the tunnel: \<open>dns_pkgs\<close> of the client against \<open>serve_dns\<close> of the server, for any module that satisfies
  \<open>tunnel_module\<close>.
\<close>

text \<open>The part of \<open>dns_pkgs\<close> after the query was sent.\<close>

definition answer_phase :: "endian \<Rightarrow> outbound_tunnel \<Rightarrow> snake_connection \<Rightarrow> u16 \<Rightarrow> addr_info prog" where
  "answer_phase e ot nextHop port =
          bnd (sc_recvn nextHop 4 4) (\<lambda>n.
          let len = hton e 4 (word_of_mem e n) in
          bnd (malloc_ex (unat len)) (\<lambda>str.
          bnd (sc_recvn nextHop (unat len) (unat len)) (\<lambda>bs.
          bnd (store_ex str 0 bs) (\<lambda>_.
          bnd (call_mod (sc_info nextHop) (\<lambda>c. client_impl_decode (ot_mod ot)
                 \<lparr>null_terminated = False, bss_length = len, bss_str = str\<rparr> c)) (\<lambda>dnsResponse.
          let goodaddr = setport port (set_v6 (destination_ip dnsResponse) (addr_info_null 0)) in
          bnd (if addr_not goodaddr then die ''Can not resolve address `{}`'' else ret ()) (\<lambda>_.
          try_6to4 goodaddr))))))"

text \<open>What an address of sixteen bytes becomes.\<close>

definition answer_info :: "bytes \<Rightarrow> u16 \<Rightarrow> addr_info" where
  "answer_info ip port =
     (if list_all (\<lambda>c. c = 0) (drop 4 ip) then \<lparr>addr_type = Addr_ipv4, addr_data = take 4 ip, addr_port = port\<rparr>
      else \<lparr>addr_type = Addr_ipv6, addr_data = ip, addr_port = port\<rparr>)"

lemma try_6to4_answer: "try_6to4 (setport port (set_v6 ip a)) = ret (answer_info ip port)"
  by (cases a) (simp add: try_6to4_def setport_def set_v6_def answer_info_def)

context tunnel_module
begin

lemma name_query_sent:
  assumes l: "linked c h cs g" and ok: "heap_ok h" and name: "length name \<le> 1024 * 1024" and m: "ot_mod ot = m"
  obtains wire h1 and b :: binary_safe_string where "encoding_of c cs g (replicate 16 0) port (dns_head @ name @ [0]) wire" "heap_ok h1" "linked c h1 cs g"
    "brk h \<le> bss_str b" "bss_str b < brk h1" "blocks h1 (bss_str b) = Some wire"
    "\<And>w nh e. mem w = h \<Longrightarrow> conns w (sc_info nh) = Some c \<Longrightarrow> writable w (sc_fd nh) \<Longrightarrow>
      \<exists>w4. dns_pkgs e ot nh (dest_info (Dest_name name) port) w = deferring (free_ex (bss_str b)) (answer_phase e ot nh port) w4 \<and>
        mem w4 = h1 \<and> conns w4 (sc_info nh) = Some c \<and> outgoing w4 (sc_fd nh) = outgoing w (sc_fd nh) @ packet_wire wire \<and>
        incoming w4 (sc_fd nh) = incoming w (sc_fd nh) \<and> socks w4 (sc_fd nh) \<noteq> None"
proof -
  let ?p = "brk h" and ?n = "33 + length name" and ?pl = "dns_head @ name @ [0]"
  define h0 where "h0 = h\<lparr>blocks := (blocks h)(?p \<mapsto> ?pl), brk := Suc ?p\<rparr>"
  let ?q = "\<lparr>destination_ip = replicate 16 0, destination_port = port,
    payload = \<lparr>null_terminated = True, bss_length = of_nat ?n, bss_str = ?p\<rparr>\<rparr>"
  have un: "unat (of_nat ?n :: u32) = ?n" using name by (simp only: unat_of_nat) simp
  then have nz: "(of_nat ?n :: u32) \<noteq> 0" by force
  have ok0: "heap_ok h0" using ok by (simp add: h0_def heap_ok_def)
  have np: "\<not> private_block c ?p" using up.linked_private(1)[OF l] ok by fastforce
  have l0: "linked c h0 cs g" using l by (rule up.linked_frame) (use np in \<open>auto simp: h0_def\<close>)
  have q0: "query_ok h0 ?q" "query_view h0 ?q = Some (replicate 16 0, port, ?pl)"
    using un nz name ok by (auto simp: query_ok_def query_view_def bss_bytes_def load_def h0_def simp del: of_nat_add)
  have np0: "\<not> private_block c (bss_str (payload ?q))" using np by simp
  from up.encode_spec[OF l0 ok0 q0(1) np0] obtain b h1 wire
    where e0: "f_client_encode m c ?q h0 = Some (b, c, h1)" "bss_bytes h1 b = Some wire" "unat (bss_length b) = length wire"
      "length wire \<le> unat (bss_length (payload ?q)) + 1024" "brk h0 \<le> bss_str b" "heap_ok h1"
      "blocks h1 = (blocks h0)(bss_str b \<mapsto> wire, bss_str (payload ?q) := None)" by blast
  have "unat (bss_length (payload ?q)) = ?n" "bss_str (payload ?q) = ?p" by (simp_all only: client_query.simps binary_safe_string.simps un)
  note e = e0(1-3) e0(4)[unfolded this] e0(5,6) e0(7)[unfolded this(2)]
  have fits: "packet_fits wire" using e(4) name by (simp add: packet_fits_def)
  have enc: "encoding_of c cs g (replicate 16 0) port ?pl wire"
    using l0 ok0 q0 np0 e(1,2) fits unfolding encoding_of_def by blast
  have sb3: "?p < bss_str b" using e(5) by (simp add: h0_def)
  then have sb1: "blocks h1 (bss_str b) = Some wire" using e(7) by simp
  have sb2: "bss_str b < brk h1" using e(6) sb1 by auto
  note sb = sb1 sb2 sb3
  have "\<not> private_block c (bss_str b)" using up.fresh_not_private(1)[OF l0 ok0 e(5)] .
  then have l1: "linked c h1 cs g" by (intro up.linked_frame[OF l0]) (use np e(7) in auto)
  show thesis
  proof (rule that[OF enc e(6) l1 _ sb(2,1)])
    show "?p \<le> bss_str b" using sb(3) by simp
    fix w :: world and nh :: snake_connection and e'
    assume w: "mem w = h" "conns w (sc_info nh) = Some c" "writable w (sc_fd nh)"
    let ?f = "sc_fd nh"
    have "length name + 33 < 2 ^ 32" using name by simp
    define Q where "Q = ?q"
    from assemble_dns_query_value[OF \<open>length name + 33 < 2 ^ 32\<close>, of w]
    have a: "make_dns_query_body \<lparr>addr_type = Addr_domain, addr_data = name, addr_port = port\<rparr> w = (Ok Q, w\<lparr>mem := h0\<rparr>)"
      by (auto simp: make_dns_query_body_def bnd_def ret_def w(1) h0_def Q_def)
    define w2 where "w2 = w\<lparr>mem := h1, conns := (conns w)(sc_info nh \<mapsto> c)\<rparr>"
    have c2: "call_mod (sc_info nh) (\<lambda>c. client_impl_encode (ot_mod ot) (payload Q) c Q) (w\<lparr>mem := h0\<rparr>) = (Ok b, w2)"
      using w(2) e(1) by (simp add: call_mod_def client_impl_encode_same m w2_def Q_def del: of_nat_add)
    have len: "bss_length b = of_nat (length wire)" by (simp flip: e(3))
    have wr2: "writable w2 ?f" using w(3) by (simp add: w2_def writable_def)
    let ?l = "mem_of_word e' 4 (hton e' 4 (bss_length b))"
    from sendn_ex_ok[OF wr2, of True ?l] obtain w3 where w3: "sendn_ex True ?f ?l w2 = (Ok (), w3)" "same_but ?f w2 w3" "writable w3 ?f"
      "outgoing w3 ?f = outgoing w2 ?f @ ?l" "incoming w3 ?f = incoming w2 ?f" by blast
    have ld: "load_n (bss_str b) (unat (bss_length b)) w3 = (Ok wire, w3)"
      using e(2) same_but_simps(1)[OF w3(2)]
      by (auto simp: load_n_def bss_bytes_def load_ex_def on_heap_def w2_def ret_def unat_eq_zero split: if_splits)
    from sendn_ex_ok[OF w3(3), of True wire] obtain w4 where w4: "sendn_ex True ?f wire w3 = (Ok (), w4)" "same_but ?f w3 w4" "writable w4 ?f"
      "outgoing w4 ?f = outgoing w3 ?f @ wire" "incoming w4 ?f = incoming w3 ?f" by blast
    have "dns_pkgs e' ot nh (dest_info (Dest_name name) port) w = deferring (free_ex (bss_str b)) (answer_phase e' ot nh port) w4"
    proof -
      let ?K = "bnd (sc_sendn nh ?l) (\<lambda>_. bnd (load_n (bss_str b) (unat (bss_length b))) (\<lambda>bs. bnd (sc_sendn nh bs) (\<lambda>_. answer_phase e' ot nh port)))"
      have "dns_pkgs e' ot nh (dest_info (Dest_name name) port) w = deferring (free_ex (bss_str b)) ?K w2"
        using c2 by (simp add: dns_pkgs_def bnd_Ok[where m = "make_dns_query_body _" and w = w, OF a] bnd_def[of "call_mod _ _"] answer_phase_def
            getport_def Let_def)
      also have "?K w2 = answer_phase e' ot nh port w4"
        by (simp add: sc_sendn_def bnd_Ok[where m = "sendn_ex _ _ _", OF w3(1)] bnd_Ok[where m = "load_n _ _", OF ld] bnd_Ok[where m = "sendn_ex _ _ _", OF w4(1)])
      then have "deferring (free_ex (bss_str b)) ?K w2 = deferring (free_ex (bss_str b)) (answer_phase e' ot nh port) w4" by (rule deferring_from)
      finally show ?thesis .
    qed
    moreover have "mem w4 = h1" "conns w4 (sc_info nh) = Some c" using same_but_simps[OF w3(2)] same_but_simps[OF w4(2)] by (simp_all add: w2_def)
    moreover have "outgoing w4 ?f = outgoing w ?f @ packet_wire wire" "incoming w4 ?f = incoming w ?f"
      using w3(4,5) w4(4,5) len by (simp_all add: w2_def outgoing_def incoming_def packet_wire_def mem_of_hton)
    moreover have "socks w4 ?f \<noteq> None" using w4(3) by (auto simp: writable_def split: option.splits)
    ultimately show "\<exists>w4. dns_pkgs e' ot nh (dest_info (Dest_name name) port) w = deferring (free_ex (bss_str b)) (answer_phase e' ot nh port) w4 \<and>
        mem w4 = h1 \<and> conns w4 (sc_info nh) = Some c \<and> outgoing w4 ?f = outgoing w ?f @ packet_wire wire \<and>
        incoming w4 ?f = incoming w ?f \<and> socks w4 ?f \<noteq> None" by blast
  qed
qed

lemma name_query_served:
  assumes enc: "encoding_of c cs g (replicate 16 0) port (dns_head @ name @ [0]) wire" and ok: "heap_ok g" and m: "it_mod it = m"
    and name: "0 \<notin> set name" "length name \<le> 1024 * 1024"
    and res: "resolve name = Inr (a # as)" "length (put_ip (replicate 16 0) a) = 16"
  obtains r qr hs hr and br :: binary_safe_string where "\<forall>p. private_block cs p \<longrightarrow> blocks hs p = blocks g p" "heap_ok hs" "query_ok hs qr"
    "\<not> private_block cs (bss_str (payload qr))" "query_view hs qr = Some (put_ip (replicate 16 0) a, port, [])"
    "f_server_encode m cs qr hs = Some (br, cs, hr)" "bss_bytes hr br = Some r" "packet_fits r"
    "\<And>w sid sfd hop rest e. mem w = g \<Longrightarrow> conns w sid = Some cs \<Longrightarrow> writable w sfd \<Longrightarrow> incoming w sfd = packet_wire wire @ rest \<Longrightarrow>
      \<exists>w'. serve_client e resolve it sid sfd hop w = (Ok hop, w') \<and> outgoing w' sfd = outgoing w sfd @ packet_wire r"
proof -
  from enc obtain h q b h1 where e: "linked c h cs g" "heap_ok h" "query_ok h q"
      "\<not> private_block c (bss_str (payload q))" "query_view h q = Some (replicate 16 0, port, dns_head @ name @ [0])"
      "f_client_encode m c q h = Some (b, c, h1)" "bss_bytes h1 b = Some wire" "packet_fits wire"
    unfolding encoding_of_def by blast
  let ?p = "brk g" and ?ip = "put_ip (replicate 16 0) a"
  define g1 where "g1 = g\<lparr>blocks := (blocks g)(?p \<mapsto> wire), brk := Suc ?p\<rparr>"
  have ok1: "heap_ok g1" using ok by (simp add: g1_def heap_ok_def)
  have np: "\<not> private_block cs ?p" using up.linked_private(2)[OF e(1)] ok by fastforce
  have l1: "linked c h cs g1" using e(1) by (rule up.linked_frame) (use np in \<open>auto simp: g1_def\<close>)
  let ?b = "\<lparr>null_terminated = False, bss_length = of_nat (length wire), bss_str = ?p\<rparr>"
  have d: "blocks g1 (bss_str ?b) = Some wire" "unat (bss_length ?b) = length wire" "\<not> private_block cs (bss_str ?b)"
    using packet_len(1)[OF e(8)] np by (simp_all add: g1_def)
  from up.decode_spec[OF l1 e(2,3,4,6,7) ok1 d] obtain q' hs
    where q': "f_server_decode m cs ?b g1 = Some (q', cs, hs)" "query_view hs q' = query_view h q" "heap_ok hs"
      "\<forall>p. p < brk g1 \<longrightarrow> p \<noteq> bss_str ?b \<longrightarrow> blocks hs p = blocks g1 p" by blast
  have qf: "destination_ip q' = replicate 16 0" "destination_port q' = port" "bss_bytes hs (payload q') = Some (dns_head @ name @ [0])"
    using q'(2) e(5) by (auto simp: query_view_def)
  have fr: "\<forall>p. private_block cs p \<longrightarrow> blocks hs p = blocks g p"
  proof (intro allI impI)
    fix p assume "private_block cs p"
    then have "p < ?p" using up.linked_private(2)[OF e(1)] ok by fastforce
    then show "blocks hs p = blocks g p" using q'(4) by (simp add: g1_def)
  qed
  have ls: "linked c h cs hs" using e(1) by (rule up.linked_frame) (use fr in simp_all)
  let ?qr = "\<lparr>destination_ip = ?ip, destination_port = port, payload = \<lparr>null_terminated = False, bss_length = 0, bss_str = NULL\<rparr>\<rparr>"
  have qr: "query_ok hs ?qr" "query_view hs ?qr = Some (?ip, port, [])" using res(2) by (simp_all add: query_ok_def query_view_def)
  have n0: "\<not> private_block cs (bss_str (payload ?qr))" using up.linked_private(2)[OF ls, of 0] q'(3) by (auto simp: heap_ok_def)
  from down.encode_spec[OF ls q'(3) qr(1) n0] obtain br hr r
    where r: "f_server_encode m cs ?qr hs = Some (br, cs, hr)" "bss_bytes hr br = Some r" "unat (bss_length br) = length r"
      "length r \<le> 1024" "brk hs \<le> bss_str br" "heap_ok hr" "blocks hr = (blocks hs)(bss_str br \<mapsto> r, 0 := None)" by auto
  have fits: "packet_fits r" using r(4) by (simp add: packet_fits_def)
  have len: "bss_length br = of_nat (length r)" by (simp flip: r(3))
  have b0: "bss_str br \<noteq> 0" using r(5) q'(3) by (auto simp: heap_ok_def)
  then have bb: "blocks hr (bss_str br) = Some r" using r(7) by simp
  obtain pl where pl: "blocks hs (bss_str (payload q')) = Some (dns_head @ name @ 0 # pl)" "\<not> bss_length (payload q') \<le> 32"
  proof -
    let ?n = "unat (bss_length (payload q'))"
    have nz: "bss_length (payload q') \<noteq> 0" using qf(3) by (auto simp: bss_bytes_def split: if_splits)
    then obtain bl where bl: "blocks hs (bss_str (payload q')) = Some bl" "?n \<le> length bl" "take ?n bl = dns_head @ name @ [0]"
      using qf(3) by (auto simp: bss_bytes_def load_def split: option.splits if_splits)
    have "?n = 33 + length name" using arg_cong[OF bl(3), of length] bl(2) by simp
    then have "\<not> bss_length (payload q') \<le> 32" by (simp add: word_le_nat_alt)
    moreover have "bl = dns_head @ name @ 0 # drop ?n bl" using append_take_drop_id[of ?n bl] by (simp only: bl(3)) simp
    ultimately show thesis using that bl(1) by metis
  qed
  show thesis
  proof (rule that[OF fr q'(3) qr(1) n0 qr(2) r(1,2) fits])
    fix w :: world and sid sfd hop rest e'
    assume w: "mem w = g" "conns w sid = Some cs" "writable w sfd" "incoming w sfd = packet_wire wire @ rest"
    have sk: "socks w sfd \<noteq> None" and okw: "heap_ok (mem w)" using w(1,3) ok by (auto simp: writable_def split: option.splits)
    from recv_length_and_packet_spec[OF e(8) okw w(4) sk, of e'] obtain w1
      where w1: "recv_length_and_packet e' sfd w = (Ok (?p, of_nat (length wire)), w1)" "outgoing w1 sfd = outgoing w sfd"
        "writable w1 sfd = writable w sfd" "conns w1 = conns w" "mem w1 = g1" unfolding w(1) g1_def by blast
    define w2 where "w2 = w1\<lparr>mem := hs, conns := (conns w1)(sid \<mapsto> cs)\<rparr>"
    have c2: "call_mod sid (\<lambda>c. server_impl_decode (it_mod it) c ?b) w1 = (Ok q', w2)"
      using w(2) w1(4,5) q'(1) by (simp add: call_mod_def server_impl_decode_def m w2_def)
    have dn: "is_dns_query q'" using qf(1) by (simp add: is_dns_query_def list_all_iff)
    have gd: "get_domain_from_dns_query q' w2 = (Ok name, w2)"
      using pl takeWhile_append_stop[OF name(1)] by (simp add: get_domain_from_dns_query_def on_heap_def w2_def c_string_def)
    have rs: "resolveDomainOnce_any resolve name w2 = (Ok a, w2)" using res(1) by (simp add: resolveDomainOnce_any_def resolveDomainOnce_def ret_def)
    define w3 where "w3 = w2\<lparr>mem := hr, conns := (conns w2)(sid \<mapsto> cs)\<rparr>"
    have c3: "call_mod sid (\<lambda>c. server_impl_encode (it_mod it) c ?qr) w2 = (Ok br, w3)"
      using r(1) by (simp add: call_mod_def server_impl_encode_def m w3_def w2_def)
    have wr: "writable w3 sfd" using w(3) w1(3) by (simp add: w3_def w2_def writable_def)
    have b3: "r = [] \<or> blocks (mem w3) (bss_str br) = Some r" using bb by (simp add: w3_def)
    from send_length_and_packet_spec[OF fits wr len b3, of e'] obtain w4
      where w4: "send_length_and_packet e' sfd (bss_str br) (bss_length br) w3 = (Ok (), w4)" "same_but sfd w3 w4"
        "outgoing w4 sfd = outgoing w3 sfd @ packet_wire r" by blast
    have "mem w4 = hr" using same_but_simps(1)[OF w4(2)] by (simp add: w3_def)
    then have f: "free_ex (bss_str br) w4 = (Ok (), w4\<lparr>mem := hr\<lparr>blocks := (blocks hr)(bss_str br := None)\<rparr>\<rparr>)"
      using free_Some[OF b0 bb] by (simp add: free_ex_def on_heap_def)
    have "serve_dns e' resolve it sid sfd q' w2 = (Ok (), w4\<lparr>mem := hr\<lparr>blocks := (blocks hr)(bss_str br := None)\<rparr>\<rparr>)"
      using gd rs c3 w4(1) f qf(2) by (simp add: serve_dns_def bnd_def deferring_def ret_def)
    then have "serve_client e' resolve it sid sfd hop w = (Ok hop, w4\<lparr>mem := hr\<lparr>blocks := (blocks hr)(bss_str br := None)\<rparr>\<rparr>)"
      using w1(1) c2 dn by (simp add: serve_client_def bnd_def ret_def)
    moreover have "outgoing w4 sfd = outgoing w sfd @ packet_wire r" using w4(3) w1(2) by (simp add: w3_def w2_def outgoing_def)
    ultimately show "\<exists>w'. serve_client e' resolve it sid sfd hop w = (Ok hop, w') \<and> outgoing w' sfd = outgoing w sfd @ packet_wire r"
      by (intro exI) (auto simp: outgoing_def)
  qed
qed

lemma answer_understood:
  assumes l: "linked c (mem w) cs hs" and ok: "heap_ok (mem w)" "heap_ok hs" and q: "query_ok hs qr" "\<not> private_block cs (bss_str (payload qr))"
      "query_view hs qr = Some (ip, port', [])" "f_server_encode m cs qr hs = Some (br, cs, hr)" "bss_bytes hr br = Some r" "packet_fits r"
    and cid: "conns w (sc_info nh) = Some c" and m: "ot_mod ot = m"
    and s: "socks w (sc_fd nh) \<noteq> None" "incoming w (sc_fd nh) = packet_wire r @ rest"
    and good: "\<not> addr_not (set_v6 ip a)"
  shows "\<exists>w'. answer_phase e ot nh port w = (Ok (answer_info ip port), w') \<and> incoming w' (sc_fd nh) = rest \<and>
    outgoing w' (sc_fd nh) = outgoing w (sc_fd nh) \<and> (\<forall>p < brk (mem w). blocks (mem w') p = blocks (mem w) p)"
proof -
  let ?f = "sc_fd nh" and ?p = "brk (mem w)" and ?len = "of_nat (length r) :: u32"
  note len = packet_len[OF q(6)]
  have inc: "incoming w ?f = mem_of_word Big_Endian 4 ?len @ (r @ rest)" using s(2) by (simp add: packet_wire_def)
  obtain w1 where w1: "recvn_ex ?f 4 4 w = (Ok (mem_of_word Big_Endian 4 ?len), w1)" "same_but ?f w w1" "incoming w1 ?f = r @ rest"
      "outgoing w1 ?f = outgoing w ?f" "socks w1 ?f \<noteq> None"
    using recvn_ex_next[OF s(1) inc length_mem_of_word order.refl] by blast
  have n: "hton e 4 (word_of_mem e (mem_of_word Big_Endian 4 ?len)) = ?len" using hton_hton[of 4 e ?len] by (simp add: hton_def)
  have m1: "mem w1 = mem w" using w1(2) by (rule same_but_simps(1))
  define w2 where "w2 = w1\<lparr>mem := snd (c_malloc (length r) (mem w))\<rparr>"
  have w2: "malloc_ex (length r) w1 = (Ok ?p, w2)" "incoming w2 ?f = r @ rest" "socks w2 ?f \<noteq> None"
    using w1 by (simp_all add: malloc_ex_apply m1 w2_def incoming_def)
  obtain w3 where w3: "recvn_ex ?f (length r) (length r) w2 = (Ok r, w3)" "same_but ?f w2 w3" "incoming w3 ?f = rest" "outgoing w3 ?f = outgoing w2 ?f"
    using recvn_ex_next[OF w2(3,2) refl order.refl] by blast
  define w4 where "w4 = w3\<lparr>mem := (mem w)\<lparr>blocks := (blocks (mem w))(?p \<mapsto> r), brk := Suc ?p\<rparr>\<rparr>"
  have m3: "mem w3 = snd (c_malloc (length r) (mem w))" using same_but_simps(1)[OF w3(2)] by (simp add: w2_def)
  have w4: "store_ex ?p 0 r w3 = (Ok (), w4)" by (simp add: store_ex_def on_heap_def store_def m3 c_malloc_def w4_def)
  have ok4: "heap_ok (mem w4)" using ok(1) by (simp add: w4_def heap_ok_def)
  have np: "\<not> private_block c ?p" using up.linked_private(1)[OF l] ok(1) by fastforce
  have l4: "linked c (mem w4) cs hs" using l by (rule up.linked_frame) (use np in \<open>auto simp: w4_def\<close>)
  let ?b = "\<lparr>null_terminated = False, bss_length = ?len, bss_str = ?p\<rparr>"
  have d: "blocks (mem w4) (bss_str ?b) = Some r" "unat (bss_length ?b) = length r" "\<not> private_block c (bss_str ?b)"
    using len np by (simp_all add: w4_def)
  from down.decode_spec[OF l4 ok(2) q(1,2,4,5) ok4 d] obtain q' h2 where q': "f_client_decode m c ?b (mem w4) = Some (q', c, h2)"
      "query_view h2 q' = query_view hs qr" "\<forall>p. p < brk (mem w4) \<longrightarrow> p \<noteq> bss_str ?b \<longrightarrow> blocks h2 p = blocks (mem w4) p" by blast
  have ip: "destination_ip q' = ip" using q'(2) q(3) by (auto simp: query_view_def)
  have co: "conns w4 = conns w" using same_but_simps[OF w1(2)] same_but_simps[OF w3(2)] by (simp add: w4_def w2_def)
  define w5 where "w5 = w4\<lparr>mem := h2, conns := (conns w4)(sc_info nh \<mapsto> c)\<rparr>"
  have c5: "call_mod (sc_info nh) (\<lambda>c. client_impl_decode (ot_mod ot) ?b c) w4 = (Ok q', w5)"
    using cid q'(1) by (simp add: call_mod_def client_impl_decode_def m w5_def co)
  have g: "\<not> addr_not (setport port (set_v6 ip (addr_info_null 0)))" using good by (simp add: addr_not_def setport_def set_v6_def)
  have "answer_phase e ot nh port w = (Ok (answer_info ip port), w5)"
    using w1(1) n len w2(1) w3(1) w4 c5 g by (simp add: answer_phase_def sc_recvn_def bnd_def ret_def ip Let_def try_6to4_answer)
  moreover have "incoming w5 ?f = rest" "outgoing w5 ?f = outgoing w ?f" using w3(3,4) w1(4) by (simp_all add: w5_def w4_def w2_def incoming_def outgoing_def)
  moreover have "\<forall>p < ?p. blocks (mem w5) p = blocks (mem w) p" using q'(3) by (simp add: w5_def w4_def)
  ultimately show ?thesis by blast
qed

text \<open>Both ends together.\<close>

lemma name_resolved:
  assumes client: "heap_ok (mem wc)" "conns wc (sc_info nh) = Some c" "ot_mod ot = m"
    and server: "heap_ok (mem ws)" "conns ws sid = Some cs" "it_mod it = m"
    and session: "linked c (mem wc) cs (mem ws)"
    and name: "0 \<notin> set name" "length name \<le> 1024 * 1024"
    and res: "resolve name = Inr (a # as)" "ip = put_ip (replicate 16 0) a" "length ip = 16" "\<not> addr_not (set_v6 ip info)"
  shows "\<exists>R. \<forall>st. tx_ok (tx st) \<and> sent st = [] \<and> rx_stream (rx st) = R \<longrightarrow>
    (\<exists>wc'. dns_pkgs e ot nh (dest_info (Dest_name name) port) (wc\<lparr>socks := (socks wc)(sc_fd nh \<mapsto> st)\<rparr>) = (Ok (answer_info ip port), wc') \<and>
      (\<forall>ss. tx_ok (tx ss) \<and> sent ss = [] \<and> rx_stream (rx ss) = outgoing wc' (sc_fd nh) \<longrightarrow>
        (\<exists>ws'. serve_client e resolve it sid sfd hop (ws\<lparr>socks := (socks ws)(sfd \<mapsto> ss)\<rparr>) = (Ok hop, ws') \<and> outgoing ws' sfd = R)))"
proof -
  obtain wire h1 and b :: binary_safe_string where q: "encoding_of c cs (mem ws) (replicate 16 0) port (dns_head @ name @ [0]) wire" "heap_ok h1"
      "linked c h1 cs (mem ws)" "bss_str b < brk h1" "blocks h1 (bss_str b) = Some wire" and
    sends: "\<And>w nh e. mem w = mem wc \<Longrightarrow> conns w (sc_info nh) = Some c \<Longrightarrow> writable w (sc_fd nh) \<Longrightarrow>
      \<exists>w4. dns_pkgs e ot nh (dest_info (Dest_name name) port) w = deferring (free_ex (bss_str b)) (answer_phase e ot nh port) w4 \<and>
        mem w4 = h1 \<and> conns w4 (sc_info nh) = Some c \<and> outgoing w4 (sc_fd nh) = outgoing w (sc_fd nh) @ packet_wire wire \<and>
        incoming w4 (sc_fd nh) = incoming w (sc_fd nh) \<and> socks w4 (sc_fd nh) \<noteq> None"
    by (rule name_query_sent[OF session client(1) name(2) client(3)]) blast
  obtain r qr hs hr and br :: binary_safe_string where r: "\<forall>p. private_block cs p \<longrightarrow> blocks hs p = blocks (mem ws) p" "heap_ok hs" "query_ok hs qr"
      "\<not> private_block cs (bss_str (payload qr))" "query_view hs qr = Some (ip, port, [])"
      "f_server_encode m cs qr hs = Some (br, cs, hr)" "bss_bytes hr br = Some r" "packet_fits r" and
    serves: "\<And>w sid sfd hop rest e. mem w = mem ws \<Longrightarrow> conns w sid = Some cs \<Longrightarrow> writable w sfd \<Longrightarrow> incoming w sfd = packet_wire wire @ rest \<Longrightarrow>
      \<exists>w'. serve_client e resolve it sid sfd hop w = (Ok hop, w') \<and> outgoing w' sfd = outgoing w sfd @ packet_wire r"
    unfolding res(2) by (rule name_query_served[where resolve = resolve and name = name, OF q(1) server(1,3) name res(1) res(3)[unfolded res(2)]]) blast
  have ls: "linked c h1 cs hs" using q(3) by (rule up.linked_frame) (use r(1) in simp_all)
  show ?thesis
  proof (intro exI[of _ "packet_wire r"] allI impI, elim conjE)
    fix st :: sock
    assume st: "tx_ok (tx st)" "sent st = []" "rx_stream (rx st) = packet_wire r"
    let ?w = "wc\<lparr>socks := (socks wc)(sc_fd nh \<mapsto> st)\<rparr>" and ?f = "sc_fd nh"
    have "mem ?w = mem wc" "conns ?w (sc_info nh) = Some c" "writable ?w ?f" using client(2) st(1) by (simp_all add: writable_def)
    from sends[OF this, of e] obtain w4 where w4: "dns_pkgs e ot nh (dest_info (Dest_name name) port) ?w =
        deferring (free_ex (bss_str b)) (answer_phase e ot nh port) w4" "mem w4 = h1" "conns w4 (sc_info nh) = Some c"
        "outgoing w4 ?f = packet_wire wire" "incoming w4 ?f = packet_wire r @ []" "socks w4 ?f \<noteq> None"
      using st(2,3) by (auto simp: outgoing_def incoming_def)
    from answer_understood[OF ls[folded w4(2)] q(2)[folded w4(2)] r(2-8) w4(3) client(3) w4(6,5) res(4), of e port]
    obtain w5 where w5: "answer_phase e ot nh port w4 = (Ok (answer_info ip port), w5)" "outgoing w5 ?f = packet_wire wire"
      "\<forall>p < brk h1. blocks (mem w5) p = blocks h1 p" using w4(2,4) by auto
    have "bss_str b \<noteq> 0" "blocks (mem w5) (bss_str b) = Some wire" using q(2,4,5) w5(3) by auto
    then obtain w6 where w6: "free_ex (bss_str b) w5 = (Ok (), w6)" "socks w6 = socks w5" by (simp add: free_ex_def on_heap_def free_Some)
    have run: "dns_pkgs e ot nh (dest_info (Dest_name name) port) ?w = (Ok (answer_info ip port), w6)"
      using w4(1) w5(1) w6(1) by (simp add: deferring_def bnd_def ret_def)
    have "\<exists>ws'. serve_client e resolve it sid sfd hop (ws\<lparr>socks := (socks ws)(sfd \<mapsto> ss)\<rparr>) = (Ok hop, ws') \<and> outgoing ws' sfd = packet_wire r"
      if "tx_ok (tx ss)" "sent ss = []" "rx_stream (rx ss) = outgoing w6 ?f" for ss
    proof -
      let ?s = "ws\<lparr>socks := (socks ws)(sfd \<mapsto> ss)\<rparr>"
      have "outgoing w6 ?f = packet_wire wire" using w5(2) w6(2) by (simp add: outgoing_def)
      then have "writable ?s sfd" "incoming ?s sfd = packet_wire wire @ []" "outgoing ?s sfd = []" using that by (simp_all add: writable_def incoming_def outgoing_def)
      from serves[OF _ _ this(1,2), of sid e hop] this(3) server(2) show ?thesis by auto
    qed
    with run show "\<exists>wc'. dns_pkgs e ot nh (dest_info (Dest_name name) port) ?w = (Ok (answer_info ip port), wc') \<and>
      (\<forall>ss. tx_ok (tx ss) \<and> sent ss = [] \<and> rx_stream (rx ss) = outgoing wc' ?f \<longrightarrow>
        (\<exists>ws'. serve_client e resolve it sid sfd hop (ws\<lparr>socks := (socks ws)(sfd \<mapsto> ss)\<rparr>) = (Ok hop, ws') \<and> outgoing ws' sfd = packet_wire r))"
      by blast
  qed
qed

end

section \<open>Properties\<close>

text \<open>
  C3: host names are resolved at the server. For a request with a name \<open>dns_pkgs\<close> sends one packet through the tunnel; the server
  takes the name out of it, asks its resolver and sends the first address back, and \<open>dns_pkgs\<close> turns that into the
  address of the request: an IPv4 address when only its first four bytes are set. The two sides are closed as a loop: the
  client gets exactly what the server sends on receiving what the client sends. The address must not be one that \<open>operator!\<close>
  takes for missing.
\<close>

theorem names_resolved_at_server:
  assumes client: "heap_ok (mem wc)" "conns wc (sc_info nh) = Some c" "ot_mod ot = simple_proxy e"
    and server: "heap_ok (mem ws)" "conns ws sid = Some cs" "it_mod it = simple_proxy e"
    and session: "sp_linked c (mem wc) cs (mem ws)"
    and name: "0 \<notin> set name" "length name \<le> 1024 * 1024"
    and res: "resolve name = Inr (a # as)" "ip = put_ip (replicate 16 0) a" "length ip = 16" "\<not> addr_not (set_v6 ip info)"
  shows "\<exists>R. \<forall>st. tx_ok (tx st) \<and> sent st = [] \<and> rx_stream (rx st) = R \<longrightarrow>
    (\<exists>wc'. dns_pkgs e ot nh (dest_info (Dest_name name) port) (wc\<lparr>socks := (socks wc)(sc_fd nh \<mapsto> st)\<rparr>) = (Ok (answer_info ip port), wc') \<and>
      (\<forall>ss. tx_ok (tx ss) \<and> sent ss = [] \<and> rx_stream (rx ss) = outgoing wc' (sc_fd nh) \<longrightarrow>
        (\<exists>ws'. serve_client e resolve it sid sfd hop (ws\<lparr>socks := (socks ws)(sfd \<mapsto> ss)\<rparr>) = (Ok hop, ws') \<and> outgoing ws' sfd = R)))"
  using assms by (rule spm.name_resolved)

lemma demo_end_sock: "(demo_end l r)\<lparr>socks := (socks (demo_end l r))(4 \<mapsto> s)\<rparr> = demo_end l s"
  by (simp add: demo_end_def fun_upd_twist)

theorem names_resolved_at_server_witness:
  "\<exists>R wc' ws'. dns_pkgs Little_Endian demo_outbound \<lparr>sc_info = 0, sc_fd = 4\<rparr> (dest_info (Dest_name [97, 46, 98]) 80) (demo_end idle_sock (stream_sock R)) =
      (Ok \<lparr>addr_type = Addr_ipv4, addr_data = [10, 0, 0, 1], addr_port = 80\<rparr>, wc') \<and>
    serve_client Little_Endian (\<lambda>_. Inr [Ip_V4 [10, 0, 0, 1]]) demo_inbound 0 4 (-1) (demo_end idle_sock (stream_sock (outgoing wc' 4))) = (Ok (-1), ws') \<and>
    outgoing ws' 4 = R"
proof -
  let ?resolve = "\<lambda>_. Inr [Ip_V4 [10, 0, 0, 1]]" and ?ip = "10 # 0 # 0 # 1 # replicate 12 (0 :: byte)" and ?nh = "\<lparr>sc_info = 0, sc_fd = 4\<rparr>"
  have ip: "?ip = put_ip (replicate 16 0) (Ip_V4 [10, 0, 0, 1])" "length ?ip = 16" "\<not> addr_not (set_v6 ?ip (addr_info_null 0))"
    "answer_info ?ip 80 = \<lparr>addr_type = Addr_ipv4, addr_data = [10, 0, 0, 1], addr_port = 80\<rparr>"
    by (simp_all add: put_ip_def overwrite_def addr_not_def set_v6_def foldl_plus sum_list_replicate answer_info_def addr_info_null_def list_all_iff)
  have "\<exists>R. \<forall>st. tx_ok (tx st) \<and> sent st = [] \<and> rx_stream (rx st) = R \<longrightarrow>
    (\<exists>wc'. dns_pkgs Little_Endian demo_outbound ?nh (dest_info (Dest_name [97, 46, 98]) 80)
        ((demo_end idle_sock idle_sock)\<lparr>socks := (socks (demo_end idle_sock idle_sock))(sc_fd ?nh \<mapsto> st)\<rparr>) = (Ok (answer_info ?ip 80), wc') \<and>
      (\<forall>ss. tx_ok (tx ss) \<and> sent ss = [] \<and> rx_stream (rx ss) = outgoing wc' (sc_fd ?nh) \<longrightarrow>
        (\<exists>ws'. serve_client Little_Endian ?resolve demo_inbound 0 4 (-1) ((demo_end idle_sock idle_sock)\<lparr>socks := (socks (demo_end idle_sock idle_sock))(4 \<mapsto> ss)\<rparr>) = (Ok (-1), ws') \<and>
          outgoing ws' 4 = R)))"
    by (rule names_resolved_at_server[where c = "start_conn [1, 2]" and cs = "start_conn [1, 2]" and info = "addr_info_null 0", OF _ _ _ _ _ _ _ _ _ _ ip(1,2,3)])
      (simp_all add: demo_end_facts demo_outbound_def demo_inbound_def)
  then obtain R where R: "\<And>st. tx_ok (tx st) \<Longrightarrow> sent st = [] \<Longrightarrow> rx_stream (rx st) = R \<Longrightarrow>
    \<exists>wc'. dns_pkgs Little_Endian demo_outbound ?nh (dest_info (Dest_name [97, 46, 98]) 80) (demo_end idle_sock st) = (Ok (answer_info ?ip 80), wc') \<and>
      (\<forall>ss. tx_ok (tx ss) \<and> sent ss = [] \<and> rx_stream (rx ss) = outgoing wc' 4 \<longrightarrow>
        (\<exists>ws'. serve_client Little_Endian ?resolve demo_inbound 0 4 (-1) (demo_end idle_sock ss) = (Ok (-1), ws') \<and> outgoing ws' 4 = R))"
    unfolding snake_connection.simps demo_end_sock by blast
  from R[of "stream_sock R"] obtain wc' where wc': "dns_pkgs Little_Endian demo_outbound ?nh (dest_info (Dest_name [97, 46, 98]) 80) (demo_end idle_sock (stream_sock R)) =
      (Ok (answer_info ?ip 80), wc')"
    "\<And>ss. tx_ok (tx ss) \<Longrightarrow> sent ss = [] \<Longrightarrow> rx_stream (rx ss) = outgoing wc' 4 \<Longrightarrow>
        \<exists>ws'. serve_client Little_Endian ?resolve demo_inbound 0 4 (-1) (demo_end idle_sock ss) = (Ok (-1), ws') \<and> outgoing ws' 4 = R" by auto
  from wc'(2)[of "stream_sock (outgoing wc' 4)"] wc'(1) show ?thesis unfolding ip(4) by auto
qed

end
