(* ===== verification/Descriptors.thy ===== *)
theory Descriptors
  imports End_To_End
begin

text \<open>
  The sockets a connection takes and gives back. The set of open descriptors is followed
  through the functions of \<open>sio.hpp\<close>, \<open>tunnel.cc\<close> and \<open>socks5.cc\<close>: a program is \<open>steady\<close> when it leaves
  that set as it was if it returns or throws, and \<open>steady_intros\<close> collects one rule per operation
  that does. The functions that open or close sockets have rules of their own. Modules are
  arbitrary here: they work on the heap and on the connection objects.
\<close>

section \<open>Programs that keep the open descriptors\<close>

text \<open>
  Descriptors from \<open>next_fd\<close> on are free, none is negative, and 0 is not given out (the programs
  run with their standard streams open). Setting socket options succeeds: when it does not,
  \<open>quick_connect\<close> and \<open>newConnection\<close> leave the new socket open, as \<open>quick_connect_resources\<close> shows.
\<close>

definition fds_fine :: "world \<Rightarrow> bool" where
  "fds_fine w \<longleftrightarrow> fds_ok w \<and> 0 < next_fd w \<and> (\<forall>fd < 0. socks w fd = None) \<and>
     (\<forall>opt rp. net_setsockopt (net w) opt rp)"

definition open_fds :: "world \<Rightarrow> fd set" where
  "open_fds w = dom (socks w)"

text \<open>What holds of the open descriptors when a program returns or throws.\<close>

definition fd_spec :: "fd set \<Rightarrow> 'a prog \<Rightarrow> ('a \<Rightarrow> fd set \<Rightarrow> bool) \<Rightarrow> (fd set \<Rightarrow> bool) \<Rightarrow> bool" where
  "fd_spec D m P Q \<longleftrightarrow>
     (\<forall>w. fds_fine w \<and> open_fds w = D \<longrightarrow>
        (case m w of
           (Ok x, w') \<Rightarrow> fds_fine w' \<and> P x (open_fds w')
         | (Throw err, w') \<Rightarrow> fds_fine w' \<and> Q (open_fds w')
         | _ \<Rightarrow> True))"

definition steady :: "'a prog \<Rightarrow> bool" where
  "steady m \<longleftrightarrow> (\<forall>D. fd_spec D m (\<lambda>_ D'. D' = D) (\<lambda>D'. D' = D))"

named_theorems steady_intros \<open>programs that keep the set of open descriptors\<close>

lemma steadyI:
  assumes "\<And>w. fds_fine w \<Longrightarrow> case m w of (Ok x, w') \<Rightarrow> fds_fine w' \<and> open_fds w' = open_fds w
      | (Throw err, w') \<Rightarrow> fds_fine w' \<and> open_fds w' = open_fds w | _ \<Rightarrow> True"
  shows "steady m"
  using assms by (fastforce simp: steady_def fd_spec_def split: prod.splits outcome.splits)

lemma steadyD:
  assumes "steady m" "fds_fine w"
  shows "case m w of (Ok x, w') \<Rightarrow> fds_fine w' \<and> open_fds w' = open_fds w
      | (Throw err, w') \<Rightarrow> fds_fine w' \<and> open_fds w' = open_fds w | _ \<Rightarrow> True"
  using assms by (fastforce simp: steady_def fd_spec_def)

lemma fd_spec_bnd:
  assumes "fd_spec D m P Q" "\<And>x D'. P x D' \<Longrightarrow> fd_spec D' (f x) P' Q"
  shows "fd_spec D (bnd m f) P' Q"
  using assms unfolding fd_spec_def bnd_def by (fastforce split: prod.splits outcome.splits)

lemma fd_spec_catch:
  assumes "fd_spec D m P Q" "\<And>err D'. Q D' \<Longrightarrow> fd_spec D' (h err) P Q'"
  shows "fd_spec D (catch m h) P Q'"
  using assms unfolding fd_spec_def catch_def by (fastforce split: prod.splits outcome.splits)

lemma fd_spec_deferring:
  assumes m: "fd_spec D m P Q" and d: "\<And>x D'. P x D' \<Longrightarrow> fd_spec D' d (\<lambda>_. P' x) Q'"
    "\<And>D'. Q D' \<Longrightarrow> fd_spec D' d (\<lambda>_. Q') Q'"
  shows "fd_spec D (deferring d m) P' Q'"
  unfolding fd_spec_def
proof (intro allI impI)
  fix w assume w: "fds_fine w \<and> open_fds w = D"
  obtain r w1 where r: "m w = (r, w1)" by fastforce
  obtain r' w2 where r': "d w1 = (r', w2)" by fastforce
  show "case deferring d m w of (Ok x, w') \<Rightarrow> fds_fine w' \<and> P' x (open_fds w')
      | (Throw err, w') \<Rightarrow> fds_fine w' \<and> Q' (open_fds w') | _ \<Rightarrow> True"
  proof (cases r)
    case (Ok x)
    then have "fds_fine w1" "P x (open_fds w1)" using m w r by (auto simp: fd_spec_def)
    with d(1) r' have "case r' of Ok _ \<Rightarrow> fds_fine w2 \<and> P' x (open_fds w2) | Throw err \<Rightarrow> fds_fine w2 \<and> Q' (open_fds w2) | _ \<Rightarrow> True"
      by (fastforce simp: fd_spec_def)
    then show ?thesis using r r' Ok by (cases r') (simp_all add: deferring_def bnd_def ret_def)
  next
    case (Throw err)
    then have "fds_fine w1" "Q (open_fds w1)" using m w r by (auto simp: fd_spec_def)
    with d(2) r' have "case r' of Ok _ \<Rightarrow> fds_fine w2 \<and> Q' (open_fds w2) | Throw err \<Rightarrow> fds_fine w2 \<and> Q' (open_fds w2) | _ \<Rightarrow> True"
      by (fastforce simp: fd_spec_def)
    then show ?thesis using r r' Throw by (cases r') (simp_all add: deferring_def bnd_def throw_def)
  qed (use r in \<open>simp_all add: deferring_def\<close>)
qed

lemma fd_spec_mono: "fd_spec D m P Q \<Longrightarrow> (\<And>x D'. P x D' \<Longrightarrow> P' x D') \<Longrightarrow> (\<And>D'. Q D' \<Longrightarrow> Q' D') \<Longrightarrow> fd_spec D m P' Q'"
  unfolding fd_spec_def by (fastforce split: prod.splits outcome.splits)

lemma steady_spec: "steady m \<Longrightarrow> fd_spec D m (\<lambda>_ D'. D' = D) (\<lambda>D'. D' = D)"
  by (simp add: steady_def)

lemma fd_spec_steady: "steady m \<Longrightarrow> (\<And>x. P x D) \<Longrightarrow> Q D \<Longrightarrow> fd_spec D m P Q"
  by (rule fd_spec_mono[OF steady_spec]) auto

text \<open>After a steady step the rest starts from the same descriptors.\<close>

lemma fd_spec_after:
  assumes "steady m" "\<And>x. fd_spec D (f x) P Q" "Q D"
  shows "fd_spec D (bnd m f) P Q"
  by (rule fd_spec_bnd[where P = "\<lambda>_ D'. D' = D"]) (use assms in \<open>auto intro: fd_spec_steady\<close>)

lemma fd_spec_ret: "P x D \<Longrightarrow> fd_spec D (ret x) P Q"
  by (simp add: fd_spec_def ret_def)

lemma fd_spec_throw: "Q D \<Longrightarrow> fd_spec D (throw err) P Q"
  by (simp add: fd_spec_def throw_def)

lemma fd_spec_close: "P () (D - {fd}) \<Longrightarrow> fd_spec D (close_ex fd) P Q"
  by (auto simp: fd_spec_def close_ex_def fds_fine_def fds_ok_def open_fds_def)

lemma fd_spec_freeaddrinfo: "P () D \<Longrightarrow> fd_spec D freeaddrinfo_ex P Q"
  by (auto simp: fd_spec_def freeaddrinfo_ex_def fds_fine_def fds_ok_def open_fds_def)

lemma fd_spec_if: "(b \<Longrightarrow> fd_spec D m P Q) \<Longrightarrow> (\<not> b \<Longrightarrow> fd_spec D m' P Q) \<Longrightarrow> fd_spec D (if b then m else m') P Q"
  by simp

lemma steady_bnd [steady_intros]: "steady m \<Longrightarrow> (\<And>x. steady (f x)) \<Longrightarrow> steady (bnd m f)"
  unfolding steady_def by (auto intro!: fd_spec_bnd[where P = "\<lambda>_ D'. D' = _"])

lemma steady_catch [steady_intros]: "steady m \<Longrightarrow> (\<And>err. steady (h err)) \<Longrightarrow> steady (catch m h)"
  unfolding steady_def by (auto intro!: fd_spec_catch)

lemma steady_deferring [steady_intros]: "steady d \<Longrightarrow> steady m \<Longrightarrow> steady (deferring d m)"
  unfolding steady_def by (auto intro!: fd_spec_deferring[where P = "\<lambda>_ D'. D' = _" and Q = "\<lambda>D'. D' = _"])

lemma steady_simple [steady_intros]:
  "steady (ret x)" "steady (throw err)" "steady (die s)" "steady (sysdie s)" "steady (throw_if b err)"
  "steady (on_heap f)" "steady (get_conn cid)" "steady (new_conn c)" "steady (delete_conn cid)" "steady (call_mod cid g)"
  "steady (getaddrinfo_ex host port passive msg)" "steady freeaddrinfo_ex" "steady (report_exception err)"
  by (auto intro!: steadyI simp: ret_def throw_def die_def sysdie_def throw_if_def on_heap_def get_conn_def new_conn_def
      delete_conn_def call_mod_def getaddrinfo_ex_def freeaddrinfo_ex_def report_exception_def
      split: option.splits sum.splits)
     (auto simp: fds_fine_def fds_ok_def open_fds_def)

lemma steady_read_buf [steady_intros]: "steady (read_buf buf i n)"
  by (rule steadyI) (simp add: read_buf_def)

lemma steady_if [steady_intros]: "steady m \<Longrightarrow> steady m' \<Longrightarrow> steady (if b then m else m')"
  by simp

lemma steady_case [steady_intros]:
  "steady m \<Longrightarrow> (\<And>x. steady (f x)) \<Longrightarrow> steady (case r of None \<Rightarrow> m | Some x \<Rightarrow> f x)"
  "(\<And>x y. steady (g x y)) \<Longrightarrow> steady (case p of (x, y) \<Rightarrow> g x y)"
  "(\<And>x. steady (k x)) \<Longrightarrow> (\<And>y. steady (l y)) \<Longrightarrow> steady (case s of Inl x \<Rightarrow> k x | Inr y \<Rightarrow> l y)"
  "steady (n t) \<Longrightarrow> steady (let x = t in n x)"
  by (simp_all split: option.splits prod.splits sum.splits)

lemma steady_heap_ops [steady_intros]:
  "steady (malloc_ex n)" "steady (free_ex p)" "steady (load_ex p off n)" "steady (store_ex p off bs)" "steady (load_n p n)"
  unfolding malloc_ex_def free_ex_def load_ex_def store_ex_def load_n_def by (intro steady_intros)+

lemma steady_with_sock: "steady (with_sock fd bad f)"
  by (rule steadyI) (auto simp: with_sock_def fds_fine_def fds_ok_def open_fds_def split: option.splits prod.splits outcome.splits)

lemma steady_io [steady_intros]:
  "steady (recvn fd cap n)" "steady (sendn ns fd bs)" "steady (recv_some fd k)" "steady (readn fd cap n)" "steady (writen fd bs)"
  unfolding recvn_def sendn_def recv_some_def readn_def writen_def by (rule steady_with_sock)+

lemma steady_io_ex [steady_intros]: "steady (recvn_ex fd cap n)" "steady (sendn_ex ns fd bs)"
  unfolding recvn_ex_def sendn_ex_def by (intro steady_intros)+

lemma steady_all [steady_intros]:
  "steady (recvall fd p k)" "steady (readall fd p k)" "steady (recvall_ex fd p k)" "steady (quick_recvall fd)"
proof -
  show r: "steady (recvall fd p k)" for fd p k unfolding recvall_def by (intro steady_intros)
  show "steady (readall fd p k)" unfolding readall_def by (intro steady_intros)
  show x: "steady (recvall_ex fd p k)" for fd p k unfolding recvall_ex_def by (intro steady_intros r)
  show "steady (quick_recvall fd)" unfolding quick_recvall_def by (intro steady_intros x)
qed

lemma steady_packets [steady_intros]: "steady (send_length_and_packet e fd p n)" "steady (recv_length_and_packet e fd)"
  unfolding send_length_and_packet_def recv_length_and_packet_def by (intro steady_intros)+

section \<open>Connecting\<close>

lemma net_new_fd_close: "fds_fine w \<Longrightarrow> set_reuse rp w = (Ok (), w)"
  by (simp add: fds_fine_def set_reuse_def bnd_def throw_if_def ret_def)

lemma fd_spec_connect_any:
  "fd_spec D (connect_any as) (\<lambda>r D'. case r of None \<Rightarrow> D' = D | Some fd \<Rightarrow> 0 < fd \<and> fd \<notin> D \<and> D' = insert fd D) (\<lambda>D'. False)"
proof (induction as)
  case Nil
  then show ?case by (simp add: fd_spec_def)
next
  case (Cons rp rps)
  show ?case
    unfolding fd_spec_def
  proof (intro allI impI)
    fix w assume w: "fds_fine w \<and> open_fds w = D"
    let ?w = "w\<lparr>socks := (socks w)(next_fd w \<mapsto> fresh_sock), next_fd := next_fd w + 1\<rparr>"
    let ?c = "?w\<lparr>socks := (socks ?w)(next_fd w := None)\<rparr>"
    have fr: "socks w (next_fd w) = None" using w by (simp add: fds_fine_def fds_ok_def)
    have f: "fds_fine ?w" "fds_fine ?c" "open_fds ?c = D" "next_fd w \<notin> D" "0 < next_fd w"
      using w by (auto simp: fds_fine_def fds_ok_def open_fds_def)
    have "fds_fine (?w\<lparr>socks := (socks ?w)(next_fd w \<mapsto> s)\<rparr>)" "open_fds (?w\<lparr>socks := (socks ?w)(next_fd w \<mapsto> s)\<rparr>) = insert (next_fd w) D" for s
      using w by (auto simp: fds_fine_def fds_ok_def open_fds_def)
    with f Cons.IH[unfolded fd_spec_def, rule_format, of w] Cons.IH[unfolded fd_spec_def, rule_format, of ?c] w
    show "case connect_any (rp # rps) w of
        (Ok r, w') \<Rightarrow> fds_fine w' \<and> (case r of None \<Rightarrow> open_fds w' = D | Some fd \<Rightarrow> 0 < fd \<and> fd \<notin> D \<and> open_fds w' = insert fd D)
      | (Throw err, w') \<Rightarrow> fds_fine w' \<and> False | _ \<Rightarrow> True"
      by (cases "net_connect (net w) rp") (simp_all add: bnd_def new_fd_def net_new_fd_close attach_def ret_def close_ex_def)
  qed
qed

text \<open>\<open>quick_connect\<close> and \<open>newConnection\<close>: one new descriptor, or an exception and none.\<close>

lemma fd_spec_quick_connect:
  "fd_spec D (quick_connect a p) (\<lambda>fd D'. 0 < fd \<and> fd \<notin> D \<and> D' = insert fd D) (\<lambda>D'. D' = D)"
  "fd_spec D (newConnection ot) (\<lambda>fd D'. 0 < fd \<and> fd \<notin> D \<and> D' = insert fd D) (\<lambda>D'. D' = D)"
proof -
  have "fd_spec D (bnd (getaddrinfo_ex a p False err) (\<lambda>as. deferring freeaddrinfo_ex (bnd (connect_any as) (\<lambda>r. case r of None \<Rightarrow> x | Some fd \<Rightarrow> ret fd))))
      (\<lambda>fd D'. 0 < fd \<and> fd \<notin> D \<and> D' = insert fd D) (\<lambda>D'. D' = D)" if "x = throw err'" for a p err err' and x :: "fd prog"
  proof (rule fd_spec_after)
    fix as
    show "fd_spec D (deferring freeaddrinfo_ex (bnd (connect_any as) (\<lambda>r. case r of None \<Rightarrow> x | Some fd \<Rightarrow> ret fd)))
      (\<lambda>fd D'. 0 < fd \<and> fd \<notin> D \<and> D' = insert fd D) (\<lambda>D'. D' = D)"
    proof (rule fd_spec_deferring)
      show "fd_spec D (bnd (connect_any as) (\<lambda>r. case r of None \<Rightarrow> x | Some fd \<Rightarrow> ret fd))
          (\<lambda>fd D'. 0 < fd \<and> fd \<notin> D \<and> D' = insert fd D) (\<lambda>D'. D' = D)"
        by (rule fd_spec_bnd[OF fd_spec_mono[OF fd_spec_connect_any]])
           (auto simp: that intro: fd_spec_ret fd_spec_throw split: option.splits)
    qed (simp_all add: fd_spec_freeaddrinfo)
  qed (auto intro: steady_intros)
  from this[OF refl]
  show "fd_spec D (quick_connect a p) (\<lambda>fd D'. 0 < fd \<and> fd \<notin> D \<and> D' = insert fd D) (\<lambda>D'. D' = D)"
    "fd_spec D (newConnection ot) (\<lambda>fd D'. 0 < fd \<and> fd \<notin> D \<and> D' = insert fd D) (\<lambda>D'. D' = D)"
    unfolding quick_connect_def newConnection_def sysdie_def by this+
qed

section \<open>The server\<close>

lemma steady_server_calls [steady_intros]:
  "steady (inbound_doAuth e it cid)" "steady (serve_dns e resolve it cid fd q)" "steady (serve_next_hop e it cid fd hop)"
  "steady (send_payload hop q)" "steady (close_conn_mod f cid)"
  unfolding inbound_doAuth_def serve_dns_def get_domain_from_dns_query_def resolveDomainOnce_any_def resolveDomainOnce_def
    serve_next_hop_def send_payload_def close_conn_mod_def
  by (intro steady_intros)+

text \<open>The next hop is -1 or a descriptor the connection has opened.\<close>

definition held :: "fd \<Rightarrow> fd set" where
  "held hop = (if hop = -1 then {} else {hop})"

definition next_hop_after :: "fd set \<Rightarrow> fd \<Rightarrow> fd \<Rightarrow> fd set \<Rightarrow> bool" where
  "next_hop_after D hop hop' D' \<longleftrightarrow> hop' = hop \<and> D' = D \<or> hop = -1 \<and> 0 < hop' \<and> hop' \<notin> D \<and> D' = insert hop' D"

lemma fd_spec_serve_data: "fd_spec D (serve_data hop q) (next_hop_after D hop) (\<lambda>D'. D' = D)"
proof (cases "hop = -1")
  case True
  have "fd_spec D' (catch (send_payload fd q) (\<lambda>err. bnd (close_ex fd) (\<lambda>_. throw err))) (next_hop_after D (-1)) (\<lambda>D'. D' = D)"
    if "0 < fd \<and> fd \<notin> D \<and> D' = insert fd D" for fd D'
  proof (rule fd_spec_catch)
    show "fd_spec D' (send_payload fd q) (next_hop_after D (-1)) (\<lambda>E. E = D')"
      unfolding send_payload_def
      by (intro fd_spec_after fd_spec_ret steady_intros) (use that in \<open>auto simp: next_hop_after_def\<close>)
    show "fd_spec E (bnd (close_ex fd) (\<lambda>_. throw err)) (next_hop_after D (-1)) (\<lambda>D'. D' = D)" if "E = D'" for err E
      by (rule fd_spec_bnd[OF fd_spec_close[where P = "\<lambda>_ D'. D' = D"]])
         (use \<open>0 < fd \<and> fd \<notin> D \<and> D' = insert fd D\<close> that in \<open>auto intro: fd_spec_throw\<close>)
  qed
  with True show ?thesis by (auto simp: serve_data_def intro!: fd_spec_bnd[OF fd_spec_quick_connect(1)])
next
  case False
  then show ?thesis
    unfolding serve_data_def send_payload_def
    by (simp add: fd_spec_after fd_spec_ret steady_intros next_hop_after_def)
qed

lemma fd_spec_serve_client: "fd_spec D (serve_client e resolve it cid fd hop) (next_hop_after D hop) (\<lambda>D'. D' = D)"
  unfolding serve_client_def split_beta
  by (intro fd_spec_after fd_spec_if fd_spec_serve_data fd_spec_ret steady_intros) (simp_all add: next_hop_after_def)

lemma fd_spec_close_next_hop:
  "hop \<notin> D \<Longrightarrow> fd_spec (D \<union> held hop) (close_next_hop hop) (\<lambda>_ D'. D' = D) Q"
  by (auto simp: close_next_hop_def held_def intro: fd_spec_ret fd_spec_close)

text \<open>However the loop is left, the next hop has been closed.\<close>

lemma fd_spec_close_and_throw:
  "hop \<notin> D \<Longrightarrow> fd_spec (D \<union> held hop) (bnd (close_next_hop hop) (\<lambda>_. throw err)) P (\<lambda>D'. D' = D)"
  by (rule fd_spec_bnd[OF fd_spec_close_next_hop]) (auto intro: fd_spec_throw)

lemma fd_spec_serve_loop:
  "hop \<notin> D \<Longrightarrow> -1 \<notin> D \<Longrightarrow> fd_spec (D \<union> held hop) (serve_loop e resolve it cid fd hop sels) (\<lambda>_ D'. D' = D) (\<lambda>D'. D' = D)"
proof (induction sels arbitrary: hop)
  case Nil
  then show ?case by (simp add: fd_spec_def)
next
  case (Cons s sels)
  show ?case
  proof (cases s)
    case Sel_Error
    then show ?thesis
      using fd_spec_close_and_throw[OF Cons.prems(1)] by (simp add: fd_spec_def sysdie_def)
  next
    case (Sel_Ready r)
    let ?m1 = "catch (if fd \<in> set r then serve_client e resolve it cid fd hop else ret hop)
        (\<lambda>err. bnd (close_next_hop hop) (\<lambda>_. throw err))"
    let ?m2 = "\<lambda>hop'. catch (if hop \<noteq> -1 \<and> hop \<in> set r then serve_next_hop e it cid fd hop else ret True)
        (\<lambda>err. bnd (close_next_hop hop') (\<lambda>_. throw err))"
    have m1: "fd_spec (D \<union> held hop) ?m1 (\<lambda>hop' D'. hop' \<notin> D \<and> D' = D \<union> held hop') (\<lambda>D'. D' = D)"
    proof (rule fd_spec_catch)
      show "fd_spec (D \<union> held hop) (if fd \<in> set r then serve_client e resolve it cid fd hop else ret hop)
          (\<lambda>hop' D'. hop' \<notin> D \<and> D' = D \<union> held hop') (\<lambda>D'. D' = D \<union> held hop)"
        using Cons.prems by (intro fd_spec_if fd_spec_mono[OF fd_spec_serve_client] fd_spec_ret)
          (auto simp: next_hop_after_def held_def)
    qed (use Cons.prems fd_spec_close_and_throw in auto)
    have m2: "fd_spec (D \<union> held hop') (?m2 hop') (\<lambda>_ D'. D' = D \<union> held hop') (\<lambda>D'. D' = D)" if "hop' \<notin> D" for hop'
      by (rule fd_spec_catch[where Q = "\<lambda>D'. D' = D \<union> held hop'"])
         (use that fd_spec_close_and_throw in \<open>auto intro: fd_spec_steady steady_intros\<close>)
    have "fd_spec (D \<union> held hop) (bnd ?m1 (\<lambda>hop'. bnd (?m2 hop') (\<lambda>goes_on.
        if goes_on then serve_loop e resolve it cid fd hop' sels else close_next_hop hop'))) (\<lambda>_ D'. D' = D) (\<lambda>D'. D' = D)"
    proof (rule fd_spec_bnd[OF m1])
      fix hop' D' assume "hop' \<notin> D \<and> D' = D \<union> held hop'"
      then have h: "hop' \<notin> D" "D' = D \<union> held hop'" by auto
      show "fd_spec D' (bnd (?m2 hop') (\<lambda>goes_on. if goes_on then serve_loop e resolve it cid fd hop' sels else close_next_hop hop'))
          (\<lambda>_ D'. D' = D) (\<lambda>D'. D' = D)"
        unfolding h(2) by (rule fd_spec_bnd[OF m2[OF h(1)]])
          (use Cons.IH[OF h(1) Cons.prems(2)] fd_spec_close_next_hop[OF h(1)] in simp)
    qed
    then show ?thesis by (simp add: fd_spec_def Sel_Ready)
  qed
qed

lemma steady_dealConnectionImpl [steady_intros]: "steady (dealConnectionImpl e resolve it fd sels)"
proof -
  have "fd_spec D (serve_loop e resolve it cid fd (-1) sels) (\<lambda>_ D'. D' = D) (\<lambda>D'. D' = D)" for D cid
  proof (cases "-1 \<in> D")
    case True
    then show ?thesis by (auto simp: fd_spec_def fds_fine_def open_fds_def)
  next
    case False
    then show ?thesis using fd_spec_serve_loop[of "-1" D] by (simp add: held_def)
  qed
  then have "steady (serve_loop e resolve it cid fd (-1) sels)" for cid by (simp add: steady_def)
  then show ?thesis unfolding dealConnectionImpl_def by (intro steady_intros)
qed

section \<open>The client\<close>

lemma steady_client_calls [steady_intros]:
  "steady (handshake_pkgs fd)" "steady (outbound_doAuth e ot cid)" "steady (dns_pkgs e ot nh a)"
  "steady (pass_up e ot fd nh q)" "steady (pass_down e ot fd nh)" "steady (initConnInfo ot)" "steady (set_connect_fd cid fd)"
  unfolding handshake_pkgs_def outbound_doAuth_def dns_pkgs_def pass_up_def pass_down_def initConnInfo_def set_connect_fd_def
    sc_sendn_def sc_recvn_def recvn_and_free_on_err_def make_dns_query_body_def assemble_dns_query_def try_6to4_def
  by (intro steady_intros)+

lemma steady_connect_pkgs [steady_intros]: "steady (connect_pkgs e fd)"
proof -
  have u: "steady (unpackConnectionPacket e buf)" for buf
  proof (rule steadyI)
    fix w assume "fds_fine w"
    define r where "r = addr_info_null (word_of_mem e (map (stack_bytes (mem w)) [0..<2]))"
    show "case unpackConnectionPacket e buf w of (Ok x, w') \<Rightarrow> fds_fine w' \<and> open_fds w' = open_fds w
      | (Throw err, w') \<Rightarrow> fds_fine w' \<and> open_fds w' = open_fds w | _ \<Rightarrow> True"
      unfolding unpackConnectionPacket_def r_def[symmetric] Let_def
      by (rule steadyD[OF _ \<open>fds_fine w\<close>]) (intro steady_intros)
  qed
  show ?thesis
    unfolding connect_pkgs_def Let_def
    by (intro steady_intros; rule steadyI; rule steadyD; assumption?; intro steady_intros u)
qed

lemma steady_passData [steady_intros]: "steady (passData e ot fd nh a sels)"
proof -
  have "steady (pass_loop e ot fd nh q sels)" for q
  proof (induction sels)
    case (Cons s sels)
    show ?case
    proof (cases s)
      case (Sel_Ready r)
      have "steady (bnd (if fd \<in> set r then pass_up e ot fd nh q else ret True) (\<lambda>up. if \<not> up then ret () else
        bnd (if sc_fd nh \<in> set r then pass_down e ot fd nh else ret True) (\<lambda>down. if \<not> down then ret ()
          else pass_loop e ot fd nh q sels)))"
        by (intro steady_intros Cons)
      then show ?thesis by (simp add: steady_def fd_spec_def Sel_Ready)
    qed (simp add: steady_def fd_spec_def sysdie_def throw_def)
  qed (simp add: steady_def fd_spec_def)
  then show ?thesis unfolding passData_def to_query_template_def by (intro steady_intros)
qed

lemma fd_spec_delete_SnakeConnection:
  assumes "0 < sc_fd sc" "sc_fd sc \<notin> D"
  shows "fd_spec (insert (sc_fd sc) D) (delete_SnakeConnection ot sc) (\<lambda>_ D'. D' = D) Q"
proof -
  have m: "P () E \<Longrightarrow> fd_spec E (close_conn_mod f cid) P Q'" for P E f cid Q'
    by (auto simp: fd_spec_def close_conn_mod_def call_mod_def fds_fine_def fds_ok_def open_fds_def split: option.splits)
  have d: "P () E \<Longrightarrow> fd_spec E (delete_conn cid) P Q'" for P E cid Q'
    by (auto simp: fd_spec_def delete_conn_def fds_fine_def fds_ok_def open_fds_def)
  show ?thesis
    unfolding delete_SnakeConnection_def
    by (intro fd_spec_bnd[OF m[where P = "\<lambda>_ D'. D' = insert (sc_fd sc) D"]] fd_spec_bnd[OF d[where P = "\<lambda>_ D'. D' = insert (sc_fd sc) D"]])
       (use assms in \<open>auto intro!: fd_spec_close\<close>)
qed

text \<open>
  The descriptor a failing constructor of \<open>SnakeConnection\<close> leaves behind: the tunnel has been
  connected, but the authentication was refused or failed, and an object whose constructor throws
  has no destructor.
\<close>

definition left_by_constructor :: "endian \<Rightarrow> outbound_tunnel \<Rightarrow> world \<Rightarrow> fd set" where
  "left_by_constructor e ot w =
     (case bnd (initConnInfo ot) (\<lambda>cid. bnd (newConnection ot) (\<lambda>connfd. ret (cid, connfd))) w of
        (Ok (cid, connfd), w1) \<Rightarrow>
          (case bnd (set_connect_fd cid connfd) (\<lambda>_. outbound_doAuth e ot cid) w1 of
             (Ok True, _) \<Rightarrow> {} | _ \<Rightarrow> {connfd})
      | _ \<Rightarrow> {})"

definition left_by_task :: "endian \<Rightarrow> outbound_tunnel \<Rightarrow> fd \<Rightarrow> world \<Rightarrow> fd set" where
  "left_by_task e ot m_fd w =
     (case bnd (handshake_pkgs m_fd) (\<lambda>_. connect_pkgs e m_fd) w of
        (Ok rawAddr, w1) \<Rightarrow> left_by_constructor e ot w1
      | _ \<Rightarrow> {})"

lemma fd_specD:
  assumes "fd_spec (open_fds w) m P Q" "fds_fine w"
  shows "m w = (Ok x, w') \<Longrightarrow> fds_fine w' \<and> P x (open_fds w')" "m w = (Throw err, w') \<Longrightarrow> fds_fine w' \<and> Q (open_fds w')"
  using assms by (fastforce simp: fd_spec_def)+

lemmas steady_run = fd_specD[OF steady_spec]

text \<open>What the constructor leaves open when it throws, and what it hands over when it returns.\<close>

lemma new_SnakeConnection_fds:
  assumes "fds_fine w"
  shows "new_SnakeConnection e ot w = (Ok sc, w') \<Longrightarrow>
      fds_fine w' \<and> 0 < sc_fd sc \<and> sc_fd sc \<notin> open_fds w \<and> open_fds w' = insert (sc_fd sc) (open_fds w) \<and> left_by_constructor e ot w = {}"
    and "new_SnakeConnection e ot w = (Throw err, w') \<Longrightarrow>
      fds_fine w' \<and> open_fds w' = open_fds w \<union> left_by_constructor e ot w \<and> left_by_constructor e ot w \<inter> open_fds w = {}"
proof -
  obtain cid w1 where i: "initConnInfo ot w = (Ok cid, w1)" by (simp add: initConnInfo_def new_conn_def)
  have w1: "fds_fine w1" "open_fds w1 = open_fds w" using steady_run(1)[OF steady_client_calls(6) assms i] by auto
  obtain r w2 where c: "newConnection ot w1 = (r, w2)" by fastforce
  have auth: "steady (bnd (set_connect_fd cid t) (\<lambda>_. outbound_doAuth e ot cid))" for t by (intro steady_intros)
  { assume "new_SnakeConnection e ot w = (Ok sc, w')"
    then obtain t where t: "r = Ok t" "bnd (set_connect_fd cid t) (\<lambda>_. outbound_doAuth e ot cid) w2 = (Ok True, w')" "sc_fd sc = t"
      using i c by (auto simp: new_SnakeConnection_def bnd_def die_def ret_def throw_def split: outcome.splits prod.splits if_splits)
    have w2: "fds_fine w2" "0 < t \<and> t \<notin> open_fds w \<and> open_fds w2 = insert t (open_fds w)"
      using fd_specD(1)[OF fd_spec_quick_connect(2) w1(1), of ot t w2] c t(1) w1(2) by auto
    show "fds_fine w' \<and> 0 < sc_fd sc \<and> sc_fd sc \<notin> open_fds w \<and> open_fds w' = insert (sc_fd sc) (open_fds w) \<and> left_by_constructor e ot w = {}"
      using steady_run(1)[OF auth w2(1) t(2)] w2(2) t i c by (simp add: left_by_constructor_def bnd_def ret_def) }
  assume thr: "new_SnakeConnection e ot w = (Throw err, w')"
  show "fds_fine w' \<and> open_fds w' = open_fds w \<union> left_by_constructor e ot w \<and> left_by_constructor e ot w \<inter> open_fds w = {}"
  proof (cases r)
    case (Ok t)
    have w2: "fds_fine w2" "0 < t \<and> t \<notin> open_fds w \<and> open_fds w2 = insert t (open_fds w)"
      using fd_specD(1)[OF fd_spec_quick_connect(2) w1(1), of ot t w2] c Ok w1(2) by auto
    obtain q w3 where q: "bnd (set_connect_fd cid t) (\<lambda>_. outbound_doAuth e ot cid) w2 = (q, w3)" by fastforce
    from thr i c Ok q have q': "q \<noteq> Ok True" "w' = w3" "q = Ok False \<or> q = Throw err"
      by (auto simp: new_SnakeConnection_def bnd_def die_def ret_def throw_def split: outcome.splits prod.splits if_splits)
    then have "fds_fine w' \<and> open_fds w' = open_fds w2"
      using steady_run[OF auth w2(1), of t] q by blast
    moreover have "left_by_constructor e ot w = {t}"
      using i c Ok q q' by (auto simp: left_by_constructor_def bnd_def[of "initConnInfo ot"] bnd_def[of "newConnection ot"] ret_def split: outcome.splits)
    ultimately show ?thesis using w2(2) by auto
  next
    case (Throw err')
    then have "w' = w2" "left_by_constructor e ot w = {}" using thr i c
      by (auto simp: new_SnakeConnection_def left_by_constructor_def bnd_def)
    then show ?thesis using fd_specD(2)[OF fd_spec_quick_connect(2) w1(1), of ot err' w2] c Throw w1(2) by auto
  qed (use thr i c in \<open>auto simp: new_SnakeConnection_def bnd_def\<close>)
qed

lemma catch_report:
  assumes "catch m report_exception w = (Ok x, w')"
  shows "m w = (Ok x, w') \<or> (\<exists>err. m w = (Throw err, w'))"
  using assms by (auto simp: catch_def report_exception_def split: prod.splits outcome.splits option.splits)

lemma launch_fds:
  assumes "fds_fine w" "launch e ot fd sels w = (Ok (), w')"
  shows "open_fds w' = open_fds w \<union> left_by_task e ot fd w \<and> left_by_task e ot fd w \<inter> open_fds w = {}"
proof -
  let ?pre = "bnd (handshake_pkgs fd) (\<lambda>_. connect_pkgs e fd)"
  let ?use = "\<lambda>rawAddr nextHop. bnd (dns_pkgs e ot nextHop rawAddr) (\<lambda>resolvedAddr. passData e ot fd nextHop resolvedAddr sels)"
  let ?rest = "\<lambda>rawAddr. bnd (new_SnakeConnection e ot) (\<lambda>nextHop. deferring (delete_SnakeConnection ot nextHop) (?use rawAddr nextHop))"
  have assoc: "bnd (handshake_pkgs fd) (\<lambda>_. bnd (connect_pkgs e fd) ?rest) = bnd ?pre ?rest"
    by (auto simp: fun_eq_iff bnd_def split: prod.splits outcome.splits)
  obtain r where run: "bnd ?pre ?rest w = (r, w')" and r: "r = Ok () \<or> (\<exists>err. r = Throw err)"
    using catch_report[OF assms(2)[unfolded launch_def assoc]] by blast
  obtain q w1 where q: "?pre w = (q, w1)" by fastforce
  have pre: "steady ?pre" by (intro steady_intros)
  show ?thesis
  proof (cases q)
    case (Ok a)
    have w1: "fds_fine w1" "open_fds w1 = open_fds w" using steady_run(1)[OF pre assms(1)] q Ok by auto
    have left: "left_by_task e ot fd w = left_by_constructor e ot w1" using q Ok by (simp add: left_by_task_def)
    obtain p w2 where p: "new_SnakeConnection e ot w1 = (p, w2)" by fastforce
    have rest: "?rest a w1 = (r, w')" using run q Ok by (simp add: bnd_def)
    show ?thesis
    proof (cases p)
      case (Ok sc)
      note n = new_SnakeConnection_fds(1)[OF w1(1) p[unfolded Ok]]
      have "steady (?use a sc)" by (intro steady_intros)
      then have "fd_spec (insert (sc_fd sc) (open_fds w1)) (deferring (delete_SnakeConnection ot sc) (?use a sc))
          (\<lambda>_ D'. D' = open_fds w1) (\<lambda>D'. D' = open_fds w1)"
        using n by (intro fd_spec_deferring[OF steady_spec]) (auto intro!: fd_spec_delete_SnakeConnection)
      moreover have "deferring (delete_SnakeConnection ot sc) (?use a sc) w2 = (r, w')" using rest p Ok by (simp add: bnd_def)
      ultimately have "open_fds w' = open_fds w1" using n r fd_specD(1)[of w2 _ _ _ "()" w'] fd_specD(2)[of w2 _ _ _ _ w'] by fastforce
      then show ?thesis using n w1(2) left by simp
    next
      case (Throw err)
      with rest p have "w' = w2" by (simp add: bnd_def)
      then show ?thesis using new_SnakeConnection_fds(2)[OF w1(1) p[unfolded Throw]] w1(2) left by auto
    qed (use rest p r in \<open>auto simp: bnd_def\<close>)
  next
    case (Throw err)
    then have "w' = w1" "left_by_task e ot fd w = {}" using run q by (simp_all add: bnd_def[of ?pre] left_by_task_def)
    then show ?thesis using steady_run(2)[OF pre assms(1)] q Throw by auto
  qed (use run q r in \<open>auto simp: bnd_def[of ?pre]\<close>)
qed

section \<open>Worlds for the witnesses\<close>

definition demo_task :: "sock \<Rightarrow> rx_event list \<Rightarrow> world" where
  "demo_task s peer = \<lparr>mem = (start_heap [1, 2])\<lparr>stack_bytes := (\<lambda>_. 0), fresh_bytes := (\<lambda>_ _. 0)\<rparr>, socks = [3 \<mapsto> s],
     next_fd = 4, addrinfos = 0, net = demo_net\<lparr>net_connect := (\<lambda>_. Some \<lparr>rx = peer, tx = [], sent = []\<rparr>)\<rparr>,
     conns = Map.empty, next_conn = 0, tasks = []\<rparr>"

lemma demo_task_fine: "fds_fine (demo_task s peer)" "open_fds (demo_task s peer) = {3}"
  by (auto simp: demo_task_def fds_fine_def fds_ok_def demo_net_def open_fds_def)

text \<open>A server that closes the connection instead of answering the authentication.\<close>

lemma demo_constructor_fails:
  "left_by_constructor Little_Endian demo_outbound (demo_task s [Rx_Data []]) = {4}"
  "fst (new_SnakeConnection Little_Endian demo_outbound (demo_task s [Rx_Data []])) = Throw (Runtime_error ''recvn failed. {}'')"
  "handler_log_throws (net (snd (new_SnakeConnection Little_Endian demo_outbound (demo_task s [Rx_Data []])))) (Runtime_error ''recvn failed. {}'') = None"
  by code_simp+

lemma same_but_demo_task:
  assumes "same_but 3 (demo_task s peer) w" "socks w 3 \<noteq> None"
  shows "\<exists>s'. w = demo_task s' peer"
  using assms by (cases w) (auto simp: same_but_def demo_task_def)

lemma launch_constructor_fails:
  assumes "bnd (handshake_pkgs fd) (\<lambda>_. connect_pkgs e fd) w = (Ok a, w2)" "new_SnakeConnection e ot w2 = (Throw err, w3)"
    "handler_log_throws (net w3) err = None"
  shows "launch e ot fd sels w = (Ok (), w3)"
proof -
  obtain r w1 where r: "handshake_pkgs fd w = (r, w1)" by fastforce
  with assms(1) have "r = Ok ()" "connect_pkgs e fd w1 = (Ok a, w2)" by (cases r; simp add: bnd_def)+
  with r assms(2,3) show ?thesis by (simp add: launch_def bnd_def catch_def report_exception_def)
qed

lemma demo_requests:
  obtains w a where "bnd (handshake_pkgs 3) (\<lambda>_. connect_pkgs Little_Endian 3)
      (demo_task \<lparr>rx = map Rx_Data [[5, 1, 0], request 1 0 (Dest_v4 [10, 0, 0, 1]) 80], tx = [], sent = []\<rparr> peer) = (Ok a, w)"
    "same_but 3 (demo_task \<lparr>rx = map Rx_Data [[5, 1, 0], request 1 0 (Dest_v4 [10, 0, 0, 1]) 80], tx = [], sent = []\<rparr> peer) w" "socks w 3 \<noteq> None"
proof -
  let ?s = "\<lparr>rx = map Rx_Data [[5, 1, 0], request 1 0 (Dest_v4 [10, 0, 0, 1]) 80], tx = [], sent = []\<rparr>"
  let ?w = "demo_task ?s peer"
  have "request 1 0 (Dest_v4 [10, 0, 0, 1]) 80 \<noteq> []" by (simp add: request_def)
  then have sg: "segmented ([5, of_nat (length [0 :: byte])] @ [0] @ request 1 0 (Dest_v4 [10, 0, 0, 1]) 80) [] (rx ?s)"
    using segmentedI[of "[[5, 1, 0], request 1 0 (Dest_v4 [10, 0, 0, 1]) 80]" _ "[]"] by simp
  obtain w1 s1 where w1: "handshake_pkgs 3 ?w = (Ok (), w1)" "same_but 3 ?w w1" "socks w1 3 = Some s1"
      "segmented (request 1 0 (Dest_v4 [10, 0, 0, 1]) 80 @ []) [] (rx s1)" "tx_ok (tx s1)"
    by (rule handshake_segmented[OF _ sg, of ?w 3]) (simp_all add: demo_task_def)
  obtain w2 s2 where w2: "connect_pkgs Little_Endian 3 w1 = (Ok (dest_info (Dest_v4 [10, 0, 0, 1]) 80), w2)" "same_but 3 w1 w2" "socks w2 3 = Some s2"
    by (rule connect_segmented[OF w1(3,4,5)]) (auto simp: is_name_def)
  show thesis using that[of _ w2] w1 w2 same_but_trans[OF w1(2) w2(2)] by (simp add: bnd_def)
qed

section \<open>Properties\<close>

text \<open>
  C4: the server gives back every descriptor. Whatever the client sends, whatever the module, the
  resolver and the next hop do, and whichever call fails, a tunnel connection that ends leaves open
  exactly the descriptors that were open before, except the connection's own, which it has closed: the
  connection to the next hop is closed on every path out of the loop, and on the one where the first
  packet for it cannot be sent. (Setting the options of a new socket is assumed to succeed.)
\<close>

theorem server_task_closes_descriptors:
  assumes "fds_fine w" "inbound_dealConnection e resolve it connfd sels w = (Ok (), w')"
  shows "open_fds w' = open_fds w - {connfd}"
proof -
  have "fd_spec (open_fds w) (inbound_dealConnection e resolve it connfd sels) (\<lambda>_ D'. D' = open_fds w - {connfd}) (\<lambda>D'. True)"
    unfolding inbound_dealConnection_def by (intro fd_spec_after fd_spec_close steady_intros) simp_all
  from fd_specD(1)[OF this assms] show ?thesis by simp
qed

theorem server_task_closes_descriptors_witness:
  "open_fds (snd (inbound_dealConnection Little_Endian (\<lambda>_. Inr []) demo_inbound 3 [Sel_Ready [3]]
     (demo_task \<lparr>rx = [Rx_Data [0, 0, 0, 2, 7, 7], Rx_Data []], tx = [], sent = []\<rparr> []))) = {}"
proof -
  let ?w = "demo_task \<lparr>rx = [Rx_Data [0, 0, 0, 2, 7, 7], Rx_Data []], tx = [], sent = []\<rparr> []"
  let ?run = "inbound_dealConnection Little_Endian (\<lambda>_. Inr []) demo_inbound 3 [Sel_Ready [3]] ?w"
  have "fst ?run = Ok ()" by code_simp
  then have "?run = (Ok (), snd ?run)" by (metis prod.collapse)
  from server_task_closes_descriptors[OF demo_task_fine(1) this] show ?thesis by (simp add: demo_task_fine)
qed

text \<open>
  C5: what a client connection leaves open. When the task of a SOCKS5 connection ends, the open
  descriptors are those from before without the connection's own, and with the tunnel's descriptor
  added if the tunnel had been connected and its authentication then failed or was refused:
  \<open>SnakeConnection\<close>'s constructor throws without closing it, so each such connection costs the client
  a descriptor for good. In every other case nothing is left open. (Setting the options of a new socket
  is assumed to succeed.)
\<close>

theorem client_task_leaves_descriptors:
  assumes "fds_fine w" "connfd \<in> open_fds w" "socks5_dealConnection e ot connfd sels w = (Ok (), w')"
  shows "open_fds w' = open_fds w - {connfd} \<union> left_by_task e ot connfd w \<and> left_by_task e ot connfd w \<inter> open_fds w = {}"
proof -
  obtain w0 where l: "launch e ot connfd sels w = (Ok (), w0)" and w': "w' = w0\<lparr>socks := (socks w0)(connfd := None)\<rparr>"
    using assms(3) by (cases "launch e ot connfd sels w")
      (auto simp: socks5_dealConnection_def bnd_def close_ex_def split: outcome.splits)
  have "open_fds w' = open_fds w0 - {connfd}" by (auto simp: w' open_fds_def)
  then show ?thesis using launch_fds[OF assms(1) l] assms(2) by auto
qed

theorem client_task_leaves_descriptors_witness:
  "\<exists>w'. socks5_dealConnection Little_Endian demo_outbound 3 []
      (demo_task \<lparr>rx = map Rx_Data [[5, 1, 0], request 1 0 (Dest_v4 [10, 0, 0, 1]) 80], tx = [], sent = []\<rparr> [Rx_Data []]) = (Ok (), w') \<and>
    open_fds w' = {4}"
proof -
  let ?s = "\<lparr>rx = map Rx_Data [[5, 1, 0], request 1 0 (Dest_v4 [10, 0, 0, 1]) 80], tx = [], sent = []\<rparr>"
  let ?w = "demo_task ?s [Rx_Data []]"
  obtain w2 a where w2: "bnd (handshake_pkgs 3) (\<lambda>_. connect_pkgs Little_Endian 3) ?w = (Ok a, w2)" "same_but 3 ?w w2" "socks w2 3 \<noteq> None"
    by (rule demo_requests)
  then obtain s' where "w2 = demo_task s' [Rx_Data []]" using same_but_demo_task by blast
  note c = demo_constructor_fails[of s', folded this]
  then obtain w3 where w3: "new_SnakeConnection Little_Endian demo_outbound w2 = (Throw (Runtime_error ''recvn failed. {}''), w3)"
    by (cases "new_SnakeConnection Little_Endian demo_outbound w2") simp
  have "launch Little_Endian demo_outbound 3 [] ?w = (Ok (), w3)"
    using launch_constructor_fails[OF w2(1) w3] c(3) w3 by simp
  then obtain w' where run: "socks5_dealConnection Little_Endian demo_outbound 3 [] ?w = (Ok (), w')"
    by (auto simp: socks5_dealConnection_def bnd_def close_ex_def)
  have "left_by_task Little_Endian demo_outbound 3 ?w = {4}" using w2(1) c(1) by (simp add: left_by_task_def)
  with client_task_leaves_descriptors[OF demo_task_fine(1) _ run] show ?thesis using run by (simp add: demo_task_fine)
qed

end
