(* ===== verification/Relay_Limits.thy ===== *)
theory Relay_Limits
  imports Data_Path
begin

text \<open>
  A limit of the relay that comes from \<open>recvall\<close> and \<open>readall\<close> in \<open>lib/rlib/sys/sio.hpp\<close>: both read a second time when
  the first read filled half of their buffer.
\<close>

lemma recv_some_stalls:
  assumes "socks w fd = Some s" "rx s = [Rx_Data bs]" "length bs = 512"
  shows "recv_some fd 1024 w = (Blocked, w\<lparr>socks := (socks w)(fd \<mapsto> s\<lparr>rx := []\<rparr>)\<rparr>)"
proof -
  have "bs \<noteq> []" using assms(3) by auto
  then show ?thesis using assms by (simp add: recv_some_def with_sock_def recvall_loop_once)
qed

lemma recvall_stalls:
  assumes "socks w fd = Some s" "rx s = [Rx_Data bs]" "length bs = 512"
  shows "\<exists>w'. recvall fd NULL 0 w = (Blocked, w') \<and> (\<forall>x. outgoing w' x = outgoing w x) \<and> incoming w' fd = []"
proof -
  let ?w = "w\<lparr>mem := snd (c_malloc 1024 (mem w))\<rparr>"
  have "malloc_ex 1024 w = (Ok (brk (mem w)), ?w)" by (simp add: malloc_ex_apply)
  then have "recvall fd NULL 0 w = (Blocked, ?w\<lparr>socks := (socks ?w)(fd \<mapsto> s\<lparr>rx := []\<rparr>)\<rparr>)"
    using recv_some_stalls[of ?w fd s bs] assms by (simp add: recvall_def bnd_def)
  then show ?thesis using assms(1) by (auto simp: outgoing_def incoming_def)
qed

text \<open>
  C6: a segment of exactly 512 bytes is held back. \<open>recvall\<close> fills the first half of its buffer with it and
  then reads again, which blocks until the sender sends more: neither \<open>passData\<close> nor the loop of the
  server passes the segment on, nothing is sent on any connection, and the data has left the
  socket, so \<open>select\<close> is not reached again.
\<close>

theorem relay_stalls_at_half_buffer:
  assumes "socks w fd = Some s" "rx s = [Rx_Data bs]" "length bs = 512"
  shows "(\<exists>w'. pass_up e ot fd nextHop q w = (Blocked, w') \<and> (\<forall>x. outgoing w' x = outgoing w x) \<and> incoming w' fd = []) \<and>
    (\<exists>w'. serve_next_hop e it cid connfd fd w = (Blocked, w') \<and> (\<forall>x. outgoing w' x = outgoing w x) \<and> incoming w' fd = [])"
proof -
  obtain w' where w': "recvall fd NULL 0 w = (Blocked, w')" "\<forall>x. outgoing w' x = outgoing w x" "incoming w' fd = []"
    using recvall_stalls[OF assms] by blast
  have "pass_up e ot fd nextHop q w = (Blocked, w')" "serve_next_hop e it cid connfd fd w = (Blocked, w')"
    using w'(1) by (simp_all add: pass_up_def serve_next_hop_def readall_eq quick_recvall_def recvall_ex_def bnd_def)
  then show ?thesis using w' by blast
qed

theorem relay_stalls_at_half_buffer_witness:
  "\<exists>w'. pass_up Little_Endian demo_outbound 3 \<lparr>sc_info = 0, sc_fd = 4\<rparr>
      \<lparr>destination_ip = replicate 16 1, destination_port = 80, payload = \<lparr>null_terminated = False, bss_length = 0, bss_str = NULL\<rparr>\<rparr>
      (demo_end \<lparr>rx = [Rx_Data (replicate 512 65)], tx = [], sent = []\<rparr> idle_sock) = (Blocked, w') \<and> outgoing w' 4 = []"
proof -
  let ?s = "\<lparr>rx = [Rx_Data (replicate 512 65)], tx = [], sent = []\<rparr>"
  have "outgoing (demo_end ?s idle_sock) 4 = []" by (simp add: outgoing_def demo_end_facts idle_sock_def)
  moreover have "socks (demo_end ?s idle_sock) 3 = Some ?s" "rx ?s = [Rx_Data (replicate 512 65)]" "length (replicate 512 (65 :: byte)) = 512"
    by (simp_all add: demo_end_facts)
  ultimately show ?thesis using relay_stalls_at_half_buffer by metis
qed

end
