(* ===== verification/Traceable_List.thy ===== *)
theory Traceable_List
  imports Cxx_Exec
begin

text \<open>
  The doubly linked list of \<open>src/src/native/src/lib/rlib/impl/traceable_list.hpp\<close>, whose nodes begin with
  the element so that an iterator can be made from a pointer to an element. Nodes live at
  addresses; a null pointer is \<open>None\<close>. Dereferencing a null pointer or the address of a
  deleted node is \<open>Undefined\<close>; \<open>new\<close> takes an address that was never used before.

  The lemmas show that the pointer operations implement insertion into and deletion from a
  list: \<open>tl_ok l as\<close> says that the nodes of \<open>l\<close>, in order, are at the addresses \<open>as\<close>, and \<open>contents\<close>
  reads the elements with their extra information.
\<close>

section \<open>Definitions\<close>

type_synonym node_ptr = "nat option"

record ('a, 'e) tnode =
  data :: 'a
  prev :: node_ptr
  nxt :: node_ptr
  extra_info :: 'e
  magic :: u32

record ('a, 'e) tlist =
  nodes :: "nat \<rightharpoonup> ('a, 'e) tnode"
  next_node :: nat
  head :: node_ptr
  tail :: node_ptr
  m_size :: nat

record titer =
  it_ptr :: node_ptr
  it_tail :: node_ptr

definition node_magic :: u32 where "node_magic = 0x19980427"

definition empty_tlist :: "('a, 'e) tlist" where
  "empty_tlist = \<lparr>nodes = Map.empty, next_node = 0, head = None, tail = None, m_size = 0\<rparr>"

subsection \<open>Iterators\<close>

definition iterator_of_node :: "node_ptr \<Rightarrow> titer" where
  "iterator_of_node p = \<lparr>it_ptr = p, it_tail = None\<rparr>"

definition deref :: "('a, 'e) tlist \<Rightarrow> node_ptr \<Rightarrow> ('a, 'e) tnode outcome" where
  "deref l p = (case Option.bind p (nodes l) of None \<Rightarrow> Undefined | Some nd \<Rightarrow> Ok nd)"

definition iterator_of_data :: "('a, 'e) tlist \<Rightarrow> nat \<Rightarrow> titer outcome" where
  "iterator_of_data l p =
     (case deref l (Some p) of
        Ok nd \<Rightarrow>
          if magic nd \<noteq> node_magic
          then Throw (Invalid_argument ''magic_num verification failed. invalid data_pointer passed or ruined memory?'')
          else Ok (iterator_of_node (Some p))
      | _ \<Rightarrow> Undefined)"

definition iter_data :: "('a, 'e) tlist \<Rightarrow> titer \<Rightarrow> 'a outcome" where
  "iter_data l it = (case deref l (it_ptr it) of Ok nd \<Rightarrow> Ok (data nd) | _ \<Rightarrow> Undefined)"

definition iter_data_ptr :: "titer \<Rightarrow> nat outcome" where
  "iter_data_ptr it = (case it_ptr it of None \<Rightarrow> Undefined | Some p \<Rightarrow> Ok p)"

definition get_extra_info :: "('a, 'e) tlist \<Rightarrow> titer \<Rightarrow> 'e outcome" where
  "get_extra_info l it = (case deref l (it_ptr it) of Ok nd \<Rightarrow> Ok (extra_info nd) | _ \<Rightarrow> Undefined)"

definition set_extra_info :: "titer \<Rightarrow> 'e \<Rightarrow> ('a, 'e) tlist \<Rightarrow> ('a, 'e) tlist outcome" where
  "set_extra_info it e l =
     (case it_ptr it of
        None \<Rightarrow> Undefined
      | Some p \<Rightarrow>
          (case nodes l p of
             None \<Rightarrow> Undefined
           | Some nd \<Rightarrow> Ok (l\<lparr>nodes := (nodes l)(p \<mapsto> nd\<lparr>extra_info := e\<rparr>)\<rparr>)))"

definition iter_incr :: "('a, 'e) tlist \<Rightarrow> titer \<Rightarrow> titer outcome" where
  "iter_incr l it = (case deref l (it_ptr it) of Ok nd \<Rightarrow> Ok (it\<lparr>it_ptr := nxt nd\<rparr>) | _ \<Rightarrow> Undefined)"

definition iter_postincr :: "('a, 'e) tlist \<Rightarrow> titer \<Rightarrow> (titer \<times> titer) outcome" where
  "iter_postincr l it = (case iter_incr l it of Ok it' \<Rightarrow> Ok (iterator_of_node (it_ptr it), it') | _ \<Rightarrow> Undefined)"

definition iter_decr :: "('a, 'e) tlist \<Rightarrow> titer \<Rightarrow> titer outcome" where
  "iter_decr l it =
     (if it_ptr it = None \<and> it_tail it \<noteq> None then Ok (it\<lparr>it_ptr := it_tail it\<rparr>)
      else case deref l (it_ptr it) of Ok nd \<Rightarrow> Ok (it\<lparr>it_ptr := prev nd\<rparr>) | _ \<Rightarrow> Undefined)"

definition iter_postdecr :: "('a, 'e) tlist \<Rightarrow> titer \<Rightarrow> (titer \<times> titer) outcome" where
  "iter_postdecr l it = (case iter_decr l it of Ok it' \<Rightarrow> Ok (iterator_of_node (it_ptr it), it') | _ \<Rightarrow> Undefined)"

definition iter_eq :: "titer \<Rightarrow> titer \<Rightarrow> bool" where
  "iter_eq a b \<longleftrightarrow> it_ptr a = it_ptr b"

definition tl_begin :: "('a, 'e) tlist \<Rightarrow> titer" where
  "tl_begin l = \<lparr>it_ptr = head l, it_tail = tail l\<rparr>"

definition tl_end :: "('a, 'e) tlist \<Rightarrow> titer" where
  "tl_end l = \<lparr>it_ptr = None, it_tail = tail l\<rparr>"

subsection \<open>Operations\<close>

definition set_prev :: "nat \<Rightarrow> node_ptr \<Rightarrow> (nat \<rightharpoonup> ('a, 'e) tnode) \<Rightarrow> (nat \<rightharpoonup> ('a, 'e) tnode) option" where
  "set_prev a p h = map_option (\<lambda>nd. h(a \<mapsto> nd\<lparr>prev := p\<rparr>)) (h a)"

definition set_next :: "nat \<Rightarrow> node_ptr \<Rightarrow> (nat \<rightharpoonup> ('a, 'e) tnode) \<Rightarrow> (nat \<rightharpoonup> ('a, 'e) tnode) option" where
  "set_next a p h = map_option (\<lambda>nd. h(a \<mapsto> nd\<lparr>nxt := p\<rparr>)) (h a)"

definition when_ptr :: "node_ptr \<Rightarrow> (nat \<Rightarrow> 'h \<Rightarrow> 'h option) \<Rightarrow> 'h \<Rightarrow> 'h option" where
  "when_ptr p f h = (case p of None \<Rightarrow> Some h | Some a \<Rightarrow> f a h)"

definition emplace_one :: "titer \<Rightarrow> 'e \<Rightarrow> 'a \<Rightarrow> ('a, 'e) tlist \<Rightarrow> ('a, 'e) tlist outcome" where
  "emplace_one here e x l =
     (let n = next_node l;
          h = (nodes l)(n \<mapsto> \<lparr>data = x, prev = None, nxt = it_ptr here, extra_info = e, magic = node_magic\<rparr>);
          l = l\<lparr>nodes := h, next_node := Suc n, m_size := m_size l + 1\<rparr> in
      if head l = None then Ok (l\<lparr>head := Some n, tail := Some n\<rparr>)
      else case it_ptr here of
        None \<Rightarrow>
          (case tail l of
             None \<Rightarrow> Undefined
           | Some t \<Rightarrow>
               (case Option.bind (set_next t (Some n) h) (set_prev n (Some t)) of
                  None \<Rightarrow> Undefined
                | Some h \<Rightarrow> Ok (l\<lparr>nodes := h, tail := Some n\<rparr>)))
      | Some p \<Rightarrow>
          (case h p of
             None \<Rightarrow> Undefined
           | Some right \<Rightarrow>
               (case Option.bind (Option.bind (set_prev n (prev right) h)
                       (when_ptr (prev right) (\<lambda>left. set_next left (Some n)))) (set_prev p (Some n)) of
                  None \<Rightarrow> Undefined
                | Some h \<Rightarrow> Ok (l\<lparr>nodes := h, head := if head l = Some p then Some n else head l\<rparr>))))"

definition push_one :: "titer \<Rightarrow> 'a \<Rightarrow> 'e \<Rightarrow> ('a, 'e) tlist \<Rightarrow> ('a, 'e) tlist outcome" where
  "push_one here x e l = emplace_one here e x l"

definition push_back :: "'a \<Rightarrow> 'e \<Rightarrow> ('a, 'e) tlist \<Rightarrow> ('a, 'e) tlist outcome" where
  "push_back x e l = push_one (tl_end l) x e l"

definition push_front :: "'a \<Rightarrow> 'e \<Rightarrow> ('a, 'e) tlist \<Rightarrow> ('a, 'e) tlist outcome" where
  "push_front x e l = push_one (tl_begin l) x e l"

definition pop_one :: "titer \<Rightarrow> ('a, 'e) tlist \<Rightarrow> ('a, 'e) tlist outcome" where
  "pop_one which l =
     (if head l = None then Throw (Invalid_argument ''nothing to pop.'')
      else case it_ptr which of
        None \<Rightarrow> Throw (Invalid_argument ''you may not pop end().'')
      | Some p \<Rightarrow>
          (case nodes l p of
             None \<Rightarrow> Undefined
           | Some nd \<Rightarrow>
               (case Option.bind (when_ptr (prev nd) (\<lambda>left. set_next left (nxt nd)) (nodes l))
                       (when_ptr (nxt nd) (\<lambda>right. set_prev right (prev nd))) of
                  None \<Rightarrow> Undefined
                | Some h \<Rightarrow>
                    Ok (l\<lparr>nodes := h(p := None),
                          head := if head l = Some p then nxt nd else head l,
                          tail := if tail l = Some p then prev nd else tail l,
                          m_size := m_size l - 1\<rparr>))))"

definition pop_front :: "('a, 'e) tlist \<Rightarrow> ('a, 'e) tlist outcome" where
  "pop_front l = pop_one (tl_begin l) l"

definition pop_back :: "('a, 'e) tlist \<Rightarrow> ('a, 'e) tlist outcome" where
  "pop_back l = (case iter_decr l (tl_end l) of Ok it \<Rightarrow> pop_one it l | _ \<Rightarrow> Undefined)"

text \<open>The loop of \<open>pop_some\<close>; \<open>None\<close> when it does not end.\<close>

partial_function (option) pop_some :: "titer \<Rightarrow> titer \<Rightarrow> ('a, 'e) tlist \<Rightarrow> ('a, 'e) tlist outcome option" where
  "pop_some iter to l =
     (if iter_eq iter to then Some (Ok l)
      else case iter_postincr l iter of
        Ok (to_pop, iter) \<Rightarrow>
          (case pop_one to_pop l of Ok l \<Rightarrow> pop_some iter to l | r \<Rightarrow> Some r)
      | _ \<Rightarrow> Some Undefined)"

definition tl_size :: "('a, 'e) tlist \<Rightarrow> nat" where
  "tl_size l = m_size l"

text \<open>The destructor deletes the nodes one after the other.\<close>

partial_function (option) destroy_loop :: "titer \<Rightarrow> ('a, 'e) tlist \<Rightarrow> ('a, 'e) tlist outcome option" where
  "destroy_loop iter l =
     (if iter_eq iter (tl_end l) then Some (Ok l)
      else case iter_postincr l iter of
        Ok (to_release, iter) \<Rightarrow>
          (case it_ptr to_release of
             None \<Rightarrow> Some Undefined
           | Some p \<Rightarrow> destroy_loop iter (l\<lparr>nodes := (nodes l)(p := None)\<rparr>))
      | _ \<Rightarrow> Some Undefined)"

definition delete_tlist :: "('a, 'e) tlist \<Rightarrow> ('a, 'e) tlist outcome option" where
  "delete_tlist l = destroy_loop (tl_begin l) l"

section \<open>Chains of nodes\<close>

text \<open>\<open>dseg h p as q\<close>: the nodes at \<open>as\<close> are linked in this order; the first is preceded by \<open>p\<close>, the last followed by \<open>q\<close>.\<close>

definition first_ptr :: "nat list \<Rightarrow> node_ptr \<Rightarrow> node_ptr" where
  "first_ptr as q = (case as of [] \<Rightarrow> q | a # _ \<Rightarrow> Some a)"

definition last_ptr :: "node_ptr \<Rightarrow> nat list \<Rightarrow> node_ptr" where
  "last_ptr p as = (if as = [] then p else Some (last as))"

fun dseg :: "(nat \<rightharpoonup> ('a, 'e) tnode) \<Rightarrow> node_ptr \<Rightarrow> nat list \<Rightarrow> node_ptr \<Rightarrow> bool" where
  "dseg h p [] q \<longleftrightarrow> True"
| "dseg h p (a # as) q \<longleftrightarrow>
     (\<exists>nd. h a = Some nd \<and> prev nd = p \<and> nxt nd = first_ptr as q) \<and> dseg h (Some a) as q"

lemma ptr_simps [simp]:
  "first_ptr [] q = q" "first_ptr (a # as) q = Some a" "last_ptr p [] = p" "last_ptr p (as @ [a]) = Some a"
  "last_ptr p [a] = Some a"
  by (simp_all add: first_ptr_def last_ptr_def)

lemma first_ptr_nonempty: "xs \<noteq> [] \<Longrightarrow> first_ptr xs q = Some (hd xs)"
  by (cases xs) simp_all

lemma last_ptr_Cons: "last_ptr p (a # as) = last_ptr (Some a) as"
  by (simp add: last_ptr_def)

lemma first_ptr_append: "first_ptr (as @ bs) q = first_ptr as (first_ptr bs q)"
  by (cases as) simp_all

lemma dseg_append: "dseg h p (as @ bs) q \<longleftrightarrow> dseg h p as (first_ptr bs q) \<and> dseg h (last_ptr p as) bs q"
  by (induction as arbitrary: p) (auto simp: first_ptr_append last_ptr_Cons)

lemma dseg_other: "a \<notin> set as \<Longrightarrow> dseg (h(a := v)) p as q = dseg h p as q"
  by (induction as arbitrary: p) auto

lemma dseg_live: "dseg h p as q \<Longrightarrow> a \<in> set as \<Longrightarrow> h a \<noteq> None"
  by (induction as arbitrary: p) auto

lemma dseg_set_prev:
  assumes "dseg h p (a # as) q" "a \<notin> set as"
  shows "\<exists>nd. h a = Some nd \<and> set_prev a p' h = Some (h(a \<mapsto> nd\<lparr>prev := p'\<rparr>)) \<and>
    dseg (h(a \<mapsto> nd\<lparr>prev := p'\<rparr>)) p' (a # as) q"
  using assms by (auto simp: set_prev_def dseg_other)

lemma dseg_set_next:
  assumes "dseg h p (as @ [a]) q" "a \<notin> set as"
  shows "\<exists>nd. h a = Some nd \<and> set_next a q' h = Some (h(a \<mapsto> nd\<lparr>nxt := q'\<rparr>)) \<and>
    dseg (h(a \<mapsto> nd\<lparr>nxt := q'\<rparr>)) p (as @ [a]) q'"
  using assms by (auto simp: set_next_def dseg_append dseg_other)

text \<open>Redirecting the last node before a gap, and the first node behind it, when there are such nodes.\<close>

definition same_items :: "(nat \<rightharpoonup> ('a, 'e) tnode) \<Rightarrow> (nat \<rightharpoonup> ('a, 'e) tnode) \<Rightarrow> bool" where
  "same_items h h' \<longleftrightarrow>
     (\<forall>a. map_option (\<lambda>nd. (data nd, extra_info nd, magic nd)) (h' a) =
          map_option (\<lambda>nd. (data nd, extra_info nd, magic nd)) (h a))"

lemma same_items_refl [simp]: "same_items h h"
  by (simp add: same_items_def)

lemma same_items_trans: "same_items h h' \<Longrightarrow> same_items h' h'' \<Longrightarrow> same_items h h''"
  by (simp add: same_items_def)

lemma same_items_dom: "same_items h h' \<Longrightarrow> dom h' = dom h"
  unfolding same_items_def dom_def by (metis (no_types, lifting) map_option_is_None)

lemma when_prev_next:
  assumes "dseg h p as q" "distinct as" "last_ptr None as = l" "p = None"
  shows "\<exists>h'. when_ptr l (\<lambda>left. set_next left q') h = Some h' \<and> dseg h' p as q' \<and>
    same_items h h' \<and> (\<forall>a. a \<notin> set as \<longrightarrow> h' a = h a)"
proof (cases as rule: rev_cases)
  case Nil
  then show ?thesis using assms by (simp add: when_ptr_def)
next
  case (snoc bs b)
  with assms dseg_set_next[of h p bs b q q'] show ?thesis
    by (auto simp: when_ptr_def same_items_def)
qed

lemma when_next_prev:
  assumes "dseg h p as q" "distinct as" "first_ptr as None = f" "q = None"
  shows "\<exists>h'. when_ptr f (\<lambda>right. set_prev right p') h = Some h' \<and> dseg h' p' as q \<and>
    same_items h h' \<and> (\<forall>a. a \<notin> set as \<longrightarrow> h' a = h a)"
proof (cases as)
  case Nil
  then show ?thesis using assms by (simp add: when_ptr_def)
next
  case (Cons b bs)
  with assms dseg_set_prev[of h p b bs q p'] show ?thesis
    by (auto simp: when_ptr_def same_items_def simp del: dseg.simps)
qed

lemma dseg_cong: "\<forall>a\<in>set as. h' a = h a \<Longrightarrow> dseg h' p as q = dseg h p as q"
  by (induction as arbitrary: p) auto

section \<open>Well-formed lists\<close>

definition tl_ok :: "('a, 'e) tlist \<Rightarrow> nat list \<Rightarrow> bool" where
  "tl_ok l as \<longleftrightarrow>
     distinct as \<and> dom (nodes l) = set as \<and> dseg (nodes l) None as None \<and>
     head l = first_ptr as None \<and> tail l = last_ptr None as \<and> m_size l = length as \<and>
     (\<forall>a\<in>set as. a < next_node l \<and> (\<exists>nd. nodes l a = Some nd \<and> magic nd = node_magic))"

definition contents :: "('a, 'e) tlist \<Rightarrow> nat list \<Rightarrow> ('a \<times> 'e) list" where
  "contents l as = map (\<lambda>a. (data (the (nodes l a)), extra_info (the (nodes l a)))) as"

lemma tl_okD:
  assumes "tl_ok l as"
  shows "distinct as" "dom (nodes l) = set as" "dseg (nodes l) None as None" "head l = first_ptr as None"
    "tail l = last_ptr None as" "m_size l = length as" "a \<in> set as \<Longrightarrow> a < next_node l"
    "a \<in> set as \<Longrightarrow> \<exists>nd. nodes l a = Some nd \<and> magic nd = node_magic" "nodes l (next_node l) = None" "next_node l \<notin> set as"
  using assms by (auto simp: tl_ok_def)

lemma same_items_contents:
  assumes "same_items (nodes l) (nodes l')" "set as \<subseteq> dom (nodes l)"
  shows "contents l' as = contents l as"
proof -
  have "(data (the (nodes l' a)), extra_info (the (nodes l' a))) = (data (the (nodes l a)), extra_info (the (nodes l a)))"
    if "a \<in> set as" for a
  proof -
    obtain nd where nd: "nodes l a = Some nd" using assms(2) \<open>a \<in> set as\<close> by blast
    have "map_option (\<lambda>nd. (data nd, extra_info nd, magic nd)) (nodes l' a) = Some (data nd, extra_info nd, magic nd)"
      using assms(1) nd by (simp add: same_items_def)
    then show ?thesis using nd by auto
  qed
  then show ?thesis by (simp add: contents_def)
qed

lemma same_items_magic:
  assumes "same_items h h'" "h a = Some nd" "magic nd = node_magic"
  shows "\<exists>nd. h' a = Some nd \<and> magic nd = node_magic"
proof -
  have "map_option (\<lambda>nd. (data nd, extra_info nd, magic nd)) (h' a) = Some (data nd, extra_info nd, magic nd)"
    using assms(1,2) by (simp add: same_items_def)
  then show ?thesis using assms(3) by auto
qed

lemma empty_tlist_ok: "tl_ok empty_tlist []"
  by (simp add: tl_ok_def empty_tlist_def)

lemma tlist_upd_head:
  "v = head l \<Longrightarrow> l\<lparr>nodes := h, next_node := k, m_size := n, tail := q\<rparr> = l\<lparr>nodes := h, next_node := k, m_size := n, head := v, tail := q\<rparr>"
  by simp

lemma tlist_upd_tail:
  "tail l = v \<Longrightarrow> l\<lparr>nodes := h, next_node := k, m_size := n, head := q\<rparr> = l\<lparr>nodes := h, next_node := k, m_size := n, head := q, tail := v\<rparr>"
  by (drule sym) simp

lemma emplace_one_spec:
  assumes ok: "tl_ok l (xs @ ys)" and here: "it_ptr here = first_ptr ys None"
  shows "\<exists>l'. emplace_one here e x l = Ok l' \<and> tl_ok l' (xs @ next_node l # ys) \<and>
    contents l' (xs @ next_node l # ys) = contents l xs @ (x, e) # contents l ys"
proof -
  let ?n = "next_node l" and ?h0 = "nodes l"
  let ?new = "\<lparr>data = x, prev = None, nxt = it_ptr here, extra_info = e, magic = node_magic\<rparr>"
  let ?h = "?h0(?n \<mapsto> ?new)"
  note o = tl_okD[OF ok]
  have fin: ?thesis if r: "emplace_one here e x l = Ok (l\<lparr>nodes := h', next_node := Suc ?n, m_size := m_size l + 1,
      head := first_ptr xs (Some ?n), tail := last_ptr (Some ?n) ys\<rparr>)"
    and d: "dseg h' None (xs @ ?n # ys) None" and s: "same_items ?h h'" for h'
  proof -
    define l' where "l' = l\<lparr>nodes := h', next_node := Suc ?n, m_size := m_size l + 1, head := first_ptr xs (Some ?n), tail := last_ptr (Some ?n) ys\<rparr>"
    have dm: "dom h' = insert ?n (set (xs @ ys))" using same_items_dom[OF s] o(2) by simp
    have "magic nd = node_magic \<Longrightarrow> ?h a = Some nd \<Longrightarrow> \<exists>nd. h' a = Some nd \<and> magic nd = node_magic" for a nd
      using same_items_magic[OF s] by blast
    moreover have "\<exists>nd. ?h a = Some nd \<and> magic nd = node_magic" if "a = ?n \<or> a \<in> set (xs @ ys)" for a
      using that o(8)[of a] o(10) by auto
    ultimately have m: "\<exists>nd. h' a = Some nd \<and> magic nd = node_magic" if "a = ?n \<or> a \<in> set (xs @ ys)" for a
      using that by blast
    have "tl_ok l' (xs @ ?n # ys)"
      unfolding tl_ok_def l'_def
      using o(1,6,7,10) dm d m by (auto simp: first_ptr_append last_ptr_def less_Suc_eq)
    moreover have "contents l' (xs @ ?n # ys) = contents (l\<lparr>nodes := ?h\<rparr>) (xs @ ?n # ys)"
      by (rule same_items_contents) (use s o(2) in \<open>auto simp: l'_def\<close>)
    moreover have "\<forall>a\<in>set xs. a \<noteq> ?n" "\<forall>a\<in>set ys. a \<noteq> ?n" using o(10) by auto
    then have "contents (l\<lparr>nodes := ?h\<rparr>) (xs @ ?n # ys) = contents l xs @ (x, e) # contents l ys"
      by (simp add: contents_def)
    ultimately show ?thesis using r unfolding l'_def[symmetric] by (intro exI[of _ l']) simp
  qed
  have nx: "?n \<notin> set xs" "?n \<notin> set ys" "distinct xs" "distinct ys" "set xs \<inter> set ys = {}" using o(1,10) by auto
  have dx: "dseg ?h None xs (first_ptr ys None)" and dy: "dseg ?h (last_ptr None xs) ys None"
    using o(3) nx by (simp_all add: dseg_append dseg_other)
  show ?thesis
  proof (cases ys)
    case Nil
    show ?thesis
    proof (cases xs rule: rev_cases)
      case Nil2: Nil
      then show ?thesis using Nil o(4) here by (intro fin[of ?h]) (simp_all add: emplace_one_def Let_def)
    next
      case (snoc bs b)
      from dseg_set_next[of ?h None bs b None "Some ?n"] dx nx Nil snoc obtain nd
        where nd: "set_next b (Some ?n) ?h = Some (?h(b \<mapsto> nd\<lparr>nxt := Some ?n\<rparr>))" "?h b = Some nd"
          "dseg (?h(b \<mapsto> nd\<lparr>nxt := Some ?n\<rparr>)) None xs (Some ?n)" by auto
      let ?h2 = "?h(b \<mapsto> nd\<lparr>nxt := Some ?n\<rparr>, ?n \<mapsto> ?new\<lparr>prev := Some b\<rparr>)"
      have p: "set_prev ?n (Some b) (?h(b \<mapsto> nd\<lparr>nxt := Some ?n\<rparr>)) = Some ?h2"
        using nx snoc by (simp add: set_prev_def)
      have "dseg ?h2 None xs (Some ?n)" using nd(3) dseg_other[OF nx(1), of "?h(b \<mapsto> nd\<lparr>nxt := Some ?n\<rparr>)"] by blast
      then have "dseg ?h2 None (xs @ ?n # ys) None" using Nil snoc here by (simp add: dseg_append)
      moreover have "same_items ?h ?h2" using nd(2) by (auto simp: same_items_def)
      moreover have "xs \<noteq> []" using snoc by simp
      then have "first_ptr xs (Some ?n) = head l" "head l \<noteq> None" using o(4) Nil by (simp_all add: first_ptr_nonempty)
      moreover have "tail l = Some b" using o(5) Nil snoc by simp
      moreover have "emplace_one here e x l = Ok (l\<lparr>nodes := ?h2, next_node := Suc ?n, m_size := m_size l + 1, tail := Some ?n\<rparr>)"
        using calculation(3,4,5) Nil here nd(1) p by (auto simp: emplace_one_def Let_def simp del: fun_upd_apply)
      ultimately show ?thesis using Nil
        by (intro fin[of ?h2]) (simp_all only: last_ptr_def tlist_upd_head simp_thms if_True)
    qed
  next
    case (Cons p zs)
    then obtain right where right: "?h p = Some right" "prev right = last_ptr None xs" using dy by auto
    let ?h1 = "?h(?n \<mapsto> ?new\<lparr>prev := last_ptr None xs\<rparr>)"
    have s1: "set_prev ?n (last_ptr None xs) ?h = Some ?h1" by (simp add: set_prev_def)
    have "dseg ?h1 None xs (first_ptr ys None)" using dx nx(1) by (simp add: dseg_other del: fun_upd_upd)
    from when_prev_next[OF this nx(3) refl refl, of "Some ?n"] obtain h2
      where h2: "when_ptr (last_ptr None xs) (\<lambda>left. set_next left (Some ?n)) ?h1 = Some h2" "dseg h2 None xs (Some ?n)"
        "same_items ?h1 h2" "\<forall>a. a \<notin> set xs \<longrightarrow> h2 a = ?h1 a" by blast
    have "\<forall>a\<in>set ys. h2 a = ?h a" using h2(4) nx by auto
    then have "dseg h2 (last_ptr None xs) (p # zs) None" using dy Cons by (simp only: dseg_cong)
    from dseg_set_prev[OF this, of "Some ?n"] nx Cons obtain nd
      where nd: "h2 p = Some nd" "set_prev p (Some ?n) h2 = Some (h2(p \<mapsto> nd\<lparr>prev := Some ?n\<rparr>))"
        "dseg (h2(p \<mapsto> nd\<lparr>prev := Some ?n\<rparr>)) (Some ?n) ys None" by auto
    let ?h3 = "h2(p \<mapsto> nd\<lparr>prev := Some ?n\<rparr>)"
    have "dseg ?h3 None xs (Some ?n)" using h2(2) nx Cons by (simp add: dseg_other)
    moreover have "?h3 ?n = Some (?new\<lparr>prev := last_ptr None xs\<rparr>)" using h2(4) nx Cons by simp
    ultimately have d: "dseg ?h3 None (xs @ ?n # ys) None" using nd(3) here Cons by (simp add: dseg_append)
    have "same_items ?h ?h1" "same_items h2 ?h3" using nd(1) by (auto simp: same_items_def)
    then have s: "same_items ?h ?h3" using h2(3) same_items_trans by blast
    have hd: "(if head l = Some p then Some ?n else head l) = first_ptr xs (Some ?n)" "head l \<noteq> None"
      using o(4) nx(5) Cons by (cases xs; auto)+
    have tl: "tail l = last_ptr (Some ?n) ys" using o(5) Cons by (simp add: last_ptr_def)
    have "emplace_one here e x l = Ok (l\<lparr>nodes := ?h3, next_node := Suc ?n, m_size := m_size l + 1, head := first_ptr xs (Some ?n)\<rparr>)"
      using right h2(1) nd(2) s1 hd here Cons by (auto simp: emplace_one_def Let_def simp del: fun_upd_apply fun_upd_upd split: if_splits)
    then show ?thesis by (intro fin[OF _ d s]) (erule trans, rule arg_cong[where f = Ok], rule tlist_upd_tail[OF tl])
  qed
qed

lemma pop_one_spec:
  assumes ok: "tl_ok l (xs @ p # ys)" and which: "it_ptr which = Some p"
  shows "\<exists>l'. pop_one which l = Ok l' \<and> tl_ok l' (xs @ ys) \<and>
    contents l' (xs @ ys) = contents l xs @ contents l ys \<and> next_node l' = next_node l"
proof -
  let ?h = "nodes l"
  note o = tl_okD[OF ok]
  have nx: "p \<notin> set xs" "p \<notin> set ys" "distinct xs" "distinct ys" "set xs \<inter> set ys = {}" using o(1) by auto
  obtain nd where nd: "?h p = Some nd" "prev nd = last_ptr None xs" "nxt nd = first_ptr ys None"
    using o(3) by (auto simp: dseg_append)
  have dx: "dseg ?h None xs (Some p)" and dy: "dseg ?h (Some p) ys None" using o(3) by (simp_all add: dseg_append)
  from when_prev_next[OF dx nx(3) refl refl, of "first_ptr ys None"] obtain h1
    where h1: "when_ptr (last_ptr None xs) (\<lambda>left. set_next left (first_ptr ys None)) ?h = Some h1"
      "dseg h1 None xs (first_ptr ys None)" "same_items ?h h1" "\<forall>a. a \<notin> set xs \<longrightarrow> h1 a = ?h a" by blast
  have "\<forall>a\<in>set ys. h1 a = ?h a" using h1(4) nx(5) by auto
  then have "dseg h1 (Some p) ys None" using dy by (simp only: dseg_cong)
  from when_next_prev[OF this nx(4) refl refl, of "last_ptr None xs"] obtain h2
    where h2: "when_ptr (first_ptr ys None) (\<lambda>right. set_prev right (last_ptr None xs)) h1 = Some h2"
      "dseg h2 (last_ptr None xs) ys None" "same_items h1 h2" "\<forall>a. a \<notin> set ys \<longrightarrow> h2 a = h1 a" by blast
  have "\<forall>a\<in>set xs. h2 a = h1 a" using h2(4) nx(5) by auto
  then have "dseg h2 None xs (first_ptr ys None)" using h1(2) by (simp only: dseg_cong)
  then have d: "dseg (h2(p := None)) None (xs @ ys) None" using h2(2) nx by (simp add: dseg_append dseg_other)
  have s: "same_items ?h h2" using h1(3) h2(3) same_items_trans by blast
  define l' where "l' = l\<lparr>nodes := h2(p := None), head := if head l = Some p then nxt nd else head l,
      tail := if tail l = Some p then prev nd else tail l, m_size := m_size l - 1\<rparr>"
  have "head l \<noteq> None" using o(4) by (cases xs) auto
  then have r: "pop_one which l = Ok l'" using which nd h1(1) h2(1) by (simp add: pop_one_def l'_def)
  have hd: "(if head l = Some p then nxt nd else head l) = first_ptr (xs @ ys) None"
    using o(4) nd(3) nx(1) by (cases xs) auto
  have tl: "(if tail l = Some p then prev nd else tail l) = last_ptr None (xs @ ys)"
    using o(5) nd(2) nx(2) by (cases ys rule: rev_cases) (auto simp: last_ptr_def)
  have "\<exists>nd. (h2(p := None)) a = Some nd \<and> magic nd = node_magic" if "a \<in> set (xs @ ys)" for a
  proof -
    have "a \<noteq> p" using that nx by auto
    moreover have "a \<in> set (xs @ p # ys)" using that by auto
    then obtain m where "?h a = Some m" "magic m = node_magic" using o(8) by blast
    ultimately show ?thesis using same_items_magic[OF s] by simp
  qed
  moreover have "dom (h2(p := None)) = set (xs @ ys)" using same_items_dom[OF s] o(2) nx by auto
  ultimately have "tl_ok l' (xs @ ys)"
    unfolding tl_ok_def l'_def using o(1,6,7) d hd tl by simp
  moreover have "contents l' (xs @ ys) = contents (l\<lparr>nodes := h2\<rparr>) (xs @ ys)"
  proof -
    have "\<forall>a\<in>set (xs @ ys). a \<noteq> p" using nx by auto
    then show ?thesis by (simp add: contents_def l'_def)
  qed
  moreover have "contents (l\<lparr>nodes := h2\<rparr>) (xs @ ys) = contents l (xs @ ys)"
    by (rule same_items_contents) (use s o(2) in auto)
  ultimately show ?thesis using r by (intro exI[of _ l']) (simp add: contents_def l'_def)
qed

lemma iter_postincr_spec:
  "tl_ok l (xs @ p # ys) \<Longrightarrow> it_ptr it = Some p \<Longrightarrow>
   iter_postincr l it = Ok (iterator_of_node (Some p), it\<lparr>it_ptr := first_ptr ys None\<rparr>)"
  by (auto simp: iter_postincr_def iter_incr_def deref_def dseg_append dest!: tl_okD(3))

lemma pop_some_spec:
  assumes "tl_ok l (xs @ ms @ ys)" "it_ptr from = first_ptr (ms @ ys) None" "it_ptr to = first_ptr ys None"
  shows "\<exists>l'. pop_some from to l = Some (Ok l') \<and> tl_ok l' (xs @ ys) \<and> contents l' (xs @ ys) = contents l xs @ contents l ys"
  using assms
proof (induction ms arbitrary: l "from")
  case Nil
  then show ?case by (subst pop_some.simps) (simp add: iter_eq_def contents_def)
next
  case (Cons m ms)
  have ok: "tl_ok l (xs @ m # (ms @ ys))" using Cons.prems(1) by simp
  let ?it = "from\<lparr>it_ptr := first_ptr (ms @ ys) None\<rparr>"
  have inc: "iter_postincr l from = Ok (iterator_of_node (Some m), ?it)"
    using iter_postincr_spec[OF ok] Cons.prems(2) by simp
  from pop_one_spec[OF ok, of "iterator_of_node (Some m)"] obtain l1
    where l1: "pop_one (iterator_of_node (Some m)) l = Ok l1" "tl_ok l1 (xs @ ms @ ys)"
      "contents l1 (xs @ ms @ ys) = contents l xs @ contents l (ms @ ys)" by (auto simp: iterator_of_node_def)
  from Cons.IH[OF l1(2), of ?it] Cons.prems(3) obtain l2
    where l2: "pop_some ?it to l1 = Some (Ok l2)" "tl_ok l2 (xs @ ys)" "contents l2 (xs @ ys) = contents l1 xs @ contents l1 ys"
    by auto
  have "contents l1 xs = contents l xs" "contents l1 ys = contents l ys"
    using l1(3) by (simp_all add: contents_def)
  moreover have "\<not> iter_eq from to"
    using Cons.prems tl_okD(1)[OF Cons.prems(1)] by (cases ys) (auto simp: iter_eq_def)
  ultimately show ?case using inc l1(1) l2 by (subst pop_some.simps) simp
qed

lemma destroy_loop_spec:
  assumes "dseg (nodes l) p as None" "distinct as" "dom (nodes l) = set as" "it_ptr iter = first_ptr as None"
  shows "\<exists>l'. destroy_loop iter l = Some (Ok l') \<and> nodes l' = Map.empty"
  using assms
proof (induction as arbitrary: p l iter)
  case Nil
  then show ?case by (subst destroy_loop.simps) (simp add: iter_eq_def tl_end_def)
next
  case (Cons a as)
  let ?l = "l\<lparr>nodes := (nodes l)(a := None)\<rparr>" and ?it = "iter\<lparr>it_ptr := first_ptr as None\<rparr>"
  have "dseg (nodes ?l) (Some a) as None" using Cons.prems(1,2) by (simp add: dseg_other)
  moreover have "dom (nodes ?l) = set as" using Cons.prems(2,3) by auto
  ultimately obtain l' where "destroy_loop ?it ?l = Some (Ok l')" "nodes l' = Map.empty"
    using Cons.IH[of ?l "Some a" ?it] Cons.prems(2) by (auto simp del: fun_upd_apply)
  moreover have "iter_postincr l iter = Ok (iterator_of_node (Some a), ?it)"
    using Cons.prems(1,4) by (auto simp: iter_postincr_def iter_incr_def deref_def)
  moreover have "\<not> iter_eq iter (tl_end l)" using Cons.prems(4) by (simp add: iter_eq_def tl_end_def)
  ultimately show ?case by (subst destroy_loop.simps) (simp add: iterator_of_node_def)
qed

lemma last_iter: "tl_ok l (xs @ [p]) \<Longrightarrow> iter_decr l (tl_end l) = Ok \<lparr>it_ptr = Some p, it_tail = tail l\<rparr>"
  by (auto simp: iter_decr_def tl_end_def dest: tl_okD(5))

lemma last_iter_post:
  "tl_ok l (xs @ [p]) \<Longrightarrow> iter_postdecr l (tl_end l) = Ok (iterator_of_node None, \<lparr>it_ptr = Some p, it_tail = tail l\<rparr>)"
  by (simp add: iter_postdecr_def last_iter) (simp add: tl_end_def)

lemma tl_size_contents: "tl_ok l as \<Longrightarrow> tl_size l = length (contents l as)"
  by (simp add: tl_size_def contents_def tl_okD(6))

lemma set_extra_info_spec:
  assumes "tl_ok l as" "p \<in> set as"
  shows "\<exists>l'. set_extra_info (iterator_of_node (Some p)) e l = Ok l' \<and> tl_ok l' as \<and> next_node l' = next_node l \<and>
    get_extra_info l' (iterator_of_node (Some p)) = Ok e \<and>
    (\<forall>q\<in>set as. q \<noteq> p \<longrightarrow> get_extra_info l' (iterator_of_node (Some q)) = get_extra_info l (iterator_of_node (Some q)))"
proof -
  obtain nd where nd: "nodes l p = Some nd" "magic nd = node_magic" using tl_okD(8)[OF assms] by blast
  let ?h = "(nodes l)(p \<mapsto> nd\<lparr>extra_info := e\<rparr>)"
  have seg: "dseg ?h q bs r = dseg (nodes l) q bs r" for q bs r
    using nd(1) by (induction bs arbitrary: q) auto
  have "dom ?h = dom (nodes l)" using nd(1) by auto
  then have "tl_ok (l\<lparr>nodes := ?h\<rparr>) as"
    using assms(1) nd seg by (auto simp: tl_ok_def simp del: dom_fun_upd)
  then show ?thesis using nd(1)
    by (auto simp: set_extra_info_def get_extra_info_def iterator_of_node_def deref_def)
qed

lemma iterator_of_data_spec: "tl_ok l as \<Longrightarrow> p \<in> set as \<Longrightarrow> iterator_of_data l p = Ok (iterator_of_node (Some p))"
  using tl_okD(8)[of l as p] by (auto simp: iterator_of_data_def deref_def)

section \<open>Properties\<close>

text \<open>
  C18: the pointer operations implement the operations of a list. On a list whose nodes are
  \<open>xs @ ms @ ys\<close>, \<open>emplace_one\<close> before the first node of \<open>ms @ ys\<close> puts the new element there, \<open>pop_some\<close> over
  \<open>ms\<close> removes exactly these nodes, and the destructor ends and deletes every node once. All
  links, \<open>head\<close>, \<open>tail\<close> and \<open>m_size\<close> are again those of a well-formed list.
\<close>

theorem traceable_list_implements_list:
  assumes "tl_ok l (xs @ ms @ ys)" "it_ptr here = first_ptr (ms @ ys) None" "it_ptr to = first_ptr ys None"
  shows "(\<exists>l'. emplace_one here e x l = Ok l' \<and> tl_ok l' (xs @ next_node l # ms @ ys) \<and>
      contents l' (xs @ next_node l # ms @ ys) = contents l xs @ (x, e) # contents l (ms @ ys)) \<and>
    (\<exists>l'. pop_some here to l = Some (Ok l') \<and> tl_ok l' (xs @ ys) \<and> contents l' (xs @ ys) = contents l xs @ contents l ys) \<and>
    (\<exists>l'. delete_tlist l = Some (Ok l') \<and> nodes l' = Map.empty)"
proof (intro conjI)
  show "\<exists>l'. emplace_one here e x l = Ok l' \<and> tl_ok l' (xs @ next_node l # ms @ ys) \<and>
      contents l' (xs @ next_node l # ms @ ys) = contents l xs @ (x, e) # contents l (ms @ ys)"
    using emplace_one_spec[OF assms(1,2)] .
  show "\<exists>l'. pop_some here to l = Some (Ok l') \<and> tl_ok l' (xs @ ys) \<and> contents l' (xs @ ys) = contents l xs @ contents l ys"
    using pop_some_spec[OF assms] .
  show "\<exists>l'. delete_tlist l = Some (Ok l') \<and> nodes l' = Map.empty"
    unfolding delete_tlist_def
    using destroy_loop_spec[OF tl_okD(3,1,2)[OF assms(1)]] tl_okD(4)[OF assms(1)] by (simp add: tl_begin_def)
qed

theorem traceable_list_implements_list_witness:
  "\<exists>l'. emplace_one \<lparr>it_ptr = None, it_tail = None\<rparr> True (7 :: int) empty_tlist = Ok l' \<and> tl_ok l' [0] \<and> contents l' [0] = [(7, True)]"
proof -
  have "tl_ok (empty_tlist :: (int, bool) tlist) ([] @ [] @ [])" using empty_tlist_ok by simp
  from conjunct1[OF traceable_list_implements_list[OF this, of "\<lparr>it_ptr = None, it_tail = None\<rparr>" "\<lparr>it_ptr = None, it_tail = None\<rparr>" True 7]]
  show ?thesis by (simp add: empty_tlist_def contents_def)
qed

end
