(* ===== verification/Object_Pool.thy ===== *)
theory Object_Pool
  imports Traceable_List
begin

text \<open>
  The object pool of \<open>src/src/native/src/lib/rlib/pool.hpp\<close>. An object is identified by the address of its
  node in the buffer. The critical sections under \<open>buffer_mutex\<close> are atomic; between them the
  threads interleave freely, as the labelled step relation \<open>pool_step\<close> says: a thread that finds the pool
  exhausted goes to wait on \<open>borrow_cv\<close>, \<open>release_one\<close> marks the object free and then, after
  the mutex is released, wakes one sleeping thread, and a sleeping thread may also wake up spuriously. \<open>T_Error\<close> is
  a thread that ran into undefined behaviour or an exception.
\<close>

section \<open>Definitions\<close>

record 'a object_pool =
  buffer :: "('a, bool) tlist"
  bound_obj :: 'a
  max_size :: nat
  free_list :: "nat list"
  new_obj_ready :: bool

text \<open>\<open>bound_obj\<close> is the object the bound constructor arguments make.\<close>

definition new_pool :: "nat \<Rightarrow> 'a \<Rightarrow> 'a object_pool" where
  "new_pool n x = \<lparr>buffer = empty_tlist, bound_obj = x, max_size = n, free_list = [], new_obj_ready = False\<rparr>"

definition new_obj_to_buffer :: "'a object_pool \<Rightarrow> 'a object_pool outcome" where
  "new_obj_to_buffer p =
     (case emplace_one (tl_end (buffer p)) True (bound_obj p) (buffer p) of
        Ok b \<Rightarrow> Ok (p\<lparr>buffer := b\<rparr>)
      | _ \<Rightarrow> Undefined)"

definition last_object :: "'a object_pool \<Rightarrow> nat outcome" where
  "last_object p = (case iter_decr (buffer p) (tl_end (buffer p)) of Ok it \<Rightarrow> iter_data_ptr it | _ \<Rightarrow> Undefined)"

text \<open>A new object, put at the end of the free list.\<close>

definition add_free_object :: "'a object_pool \<Rightarrow> 'a object_pool outcome" where
  "add_free_object p =
     (case new_obj_to_buffer p of
        Ok p \<Rightarrow> (case last_object p of Ok q \<Rightarrow> Ok (p\<lparr>free_list := free_list p @ [q]\<rparr>) | _ \<Rightarrow> Undefined)
      | _ \<Rightarrow> Undefined)"

fun fill_loop :: "nat \<Rightarrow> 'a object_pool \<Rightarrow> 'a object_pool outcome" where
  "fill_loop 0 p = Ok p"
| "fill_loop (Suc n) p = (case add_free_object p of Ok p \<Rightarrow> fill_loop n p | _ \<Rightarrow> Undefined)"

definition fill_full :: "'a object_pool \<Rightarrow> 'a object_pool outcome" where
  "fill_full p = fill_loop (max_size p) p"

definition mark :: "bool \<Rightarrow> nat \<Rightarrow> 'a object_pool \<Rightarrow> 'a object_pool outcome" where
  "mark free which p =
     (case iterator_of_data (buffer p) which of
        Ok it \<Rightarrow> (case set_extra_info it free (buffer p) of Ok b \<Rightarrow> Ok (p\<lparr>buffer := b\<rparr>) | _ \<Rightarrow> Undefined)
      | Throw e \<Rightarrow> Throw e
      | _ \<Rightarrow> Undefined)"

definition take_free :: "nat \<Rightarrow> nat list \<Rightarrow> 'a object_pool \<Rightarrow> (nat option \<times> 'a object_pool) outcome" where
  "take_free result rest p =
     (case mark False result (p\<lparr>free_list := rest\<rparr>) of
        Ok p \<Rightarrow> Ok (Some result, p\<lparr>new_obj_ready := False\<rparr>)
      | Throw e \<Rightarrow> Throw e
      | _ \<Rightarrow> Undefined)"

text \<open>\<open>goto borrow_again\<close> is taken only after an object was put on the free list.\<close>

definition do_try_borrow_one :: "'a object_pool \<Rightarrow> (nat option \<times> 'a object_pool) outcome" where
  "do_try_borrow_one p =
     (case free_list p of
        q # qs \<Rightarrow> take_free q qs p
      | [] \<Rightarrow>
          if m_size (buffer p) < max_size p
          then case add_free_object p of
                 Ok p \<Rightarrow> (case free_list p of q # qs \<Rightarrow> take_free q qs p | [] \<Rightarrow> Undefined)
               | _ \<Rightarrow> Undefined
          else Ok (None, p))"

definition release_locked :: "nat \<Rightarrow> 'a object_pool \<Rightarrow> 'a object_pool outcome" where
  "release_locked which p =
     (case mark True which (p\<lparr>free_list := which # free_list p\<rparr>) of
        Ok p \<Rightarrow> Ok (p\<lparr>new_obj_ready := True\<rparr>)
      | Throw e \<Rightarrow> Throw e
      | _ \<Rightarrow> Undefined)"

text \<open>The element is destroyed and a new one made at its place.\<close>

definition reconstruct_one :: "nat \<Rightarrow> 'a object_pool \<Rightarrow> 'a object_pool outcome" where
  "reconstruct_one which p =
     (case nodes (buffer p) which of
        None \<Rightarrow> Undefined
      | Some nd \<Rightarrow> Ok (p\<lparr>buffer := (buffer p)\<lparr>nodes := (nodes (buffer p))(which \<mapsto> nd\<lparr>data := bound_obj p\<rparr>)\<rparr>\<rparr>))"

datatype tstate = T_Idle | T_Waiting | T_Asleep | T_Has nat | T_Notify | T_Error

record 'a pool_sys =
  pl :: "'a object_pool"
  th :: "nat \<Rightarrow> tstate"

definition goes_to :: "nat \<Rightarrow> tstate \<Rightarrow> 'a pool_sys \<Rightarrow> 'a object_pool \<Rightarrow> 'a pool_sys" where
  "goes_to t x s p = s\<lparr>pl := p, th := (th s)(t := x)\<rparr>"

inductive pool_step :: "nat \<Rightarrow> 'a pool_sys \<Rightarrow> 'a pool_sys \<Rightarrow> bool" where
  try_borrow: "th s t = T_Idle \<Longrightarrow> do_try_borrow_one (pl s) = Ok (Some q, p) \<Longrightarrow> pool_step t s (goes_to t (T_Has q) s p)"
| try_full: "th s t = T_Idle \<Longrightarrow> do_try_borrow_one (pl s) = Ok (None, p) \<Longrightarrow> pool_step t s (goes_to t T_Waiting s p)"
| try_bad: "th s t = T_Idle \<or> th s t = T_Waiting \<and> new_obj_ready (pl s) \<Longrightarrow>
    \<nexists>r. do_try_borrow_one (pl s) = Ok r \<Longrightarrow> pool_step t s (goes_to t T_Error s (pl s))"
| sleep: "th s t = T_Waiting \<Longrightarrow> \<not> new_obj_ready (pl s) \<Longrightarrow> pool_step t s (goes_to t T_Asleep s (pl s))"
| wake: "th s t = T_Asleep \<Longrightarrow> pool_step t s (goes_to t T_Waiting s (pl s))"
| wait_borrow: "th s t = T_Waiting \<Longrightarrow> new_obj_ready (pl s) \<Longrightarrow> do_try_borrow_one (pl s) = Ok (Some q, p) \<Longrightarrow>
    pool_step t s (goes_to t (T_Has q) s p)"
| par_error: "th s t = T_Waiting \<Longrightarrow> new_obj_ready (pl s) \<Longrightarrow> do_try_borrow_one (pl s) = Ok (None, p) \<Longrightarrow>
    pool_step t s (goes_to t T_Error s p)"
| release: "th s t = T_Has q \<Longrightarrow> release_locked q (pl s) = Ok p \<Longrightarrow> pool_step t s (goes_to t T_Notify s p)"
| release_bad: "th s t = T_Has q \<Longrightarrow> \<nexists>p. release_locked q (pl s) = Ok p \<Longrightarrow> pool_step t s (goes_to t T_Error s (pl s))"
| notify: "th s t = T_Notify \<Longrightarrow> th s u = T_Asleep \<Longrightarrow>
    pool_step t s (goes_to t T_Idle (goes_to u T_Waiting s (pl s)) (pl s))"
| notify_none: "th s t = T_Notify \<Longrightarrow> \<nexists>u. th s u = T_Asleep \<Longrightarrow> pool_step t s (goes_to t T_Idle s (pl s))"

definition pool_init :: "nat \<Rightarrow> 'a \<Rightarrow> 'a pool_sys" where
  "pool_init n x = \<lparr>pl = new_pool n x, th = (\<lambda>_. T_Idle)\<rparr>"

definition any_step :: "'a pool_sys \<Rightarrow> 'a pool_sys \<Rightarrow> bool" where
  "any_step s s' \<longleftrightarrow> (\<exists>t. pool_step t s s')"

section \<open>The invariant\<close>

definition pool_ok :: "'a object_pool \<Rightarrow> nat list \<Rightarrow> bool" where
  "pool_ok p as \<longleftrightarrow>
     tl_ok (buffer p) as \<and> length as \<le> max_size p \<and> distinct (free_list p) \<and> set (free_list p) \<subseteq> set as \<and>
     (new_obj_ready p \<longrightarrow> free_list p \<noteq> []) \<and>
     (\<forall>q\<in>set as. get_extra_info (buffer p) (iterator_of_node (Some q)) = Ok (q \<in> set (free_list p)))"

lemma mark_spec:
  assumes "tl_ok (buffer p) as" "q \<in> set as"
  shows "\<exists>b. mark free q p = Ok (p\<lparr>buffer := b\<rparr>) \<and> tl_ok b as \<and>
    (\<forall>r\<in>set as. get_extra_info b (iterator_of_node (Some r)) =
       (if r = q then Ok free else get_extra_info (buffer p) (iterator_of_node (Some r))))"
  using set_extra_info_spec[OF assms, of free] iterator_of_data_spec[OF assms] by (auto simp: mark_def)

lemma reconstruct_one_spec:
  assumes "tl_ok (buffer p) as" "q \<in> set as"
  shows "\<exists>b. reconstruct_one q p = Ok (p\<lparr>buffer := b\<rparr>) \<and> tl_ok b as \<and>
    contents b as = map (\<lambda>a. (if a = q then bound_obj p else data (the (nodes (buffer p) a)), extra_info (the (nodes (buffer p) a)))) as"
proof -
  let ?l = "buffer p"
  obtain nd where nd: "nodes ?l q = Some nd" "magic nd = node_magic" using tl_okD(8)[OF assms] by blast
  let ?h = "(nodes ?l)(q \<mapsto> nd\<lparr>data := bound_obj p\<rparr>)"
  have seg: "dseg ?h a bs r = dseg (nodes ?l) a bs r" for a bs r
    using nd(1) by (induction bs arbitrary: a) auto
  have "dom ?h = dom (nodes ?l)" using nd(1) by auto
  then have "tl_ok (?l\<lparr>nodes := ?h\<rparr>) as"
    using assms(1) nd seg by (auto simp: tl_ok_def simp del: dom_fun_upd)
  then show ?thesis using nd(1) by (auto simp: reconstruct_one_def contents_def)
qed

lemma take_free_spec:
  assumes "pool_ok p as" "free_list p = q # qs"
  shows "\<exists>p'. take_free q qs p = Ok (Some q, p') \<and> pool_ok p' as \<and> free_list p' = qs \<and> max_size p' = max_size p \<and> \<not> new_obj_ready p'"
proof -
  have "tl_ok (buffer (p\<lparr>free_list := qs\<rparr>)) as" "q \<in> set as" using assms by (auto simp: pool_ok_def)
  from mark_spec[OF this, of False] obtain b
    where b: "mark False q (p\<lparr>free_list := qs\<rparr>) = Ok (p\<lparr>free_list := qs, buffer := b\<rparr>)" "tl_ok b as"
      "\<forall>r\<in>set as. get_extra_info b (iterator_of_node (Some r)) =
         (if r = q then Ok False else get_extra_info (buffer p) (iterator_of_node (Some r)))" by auto
  let ?p = "p\<lparr>free_list := qs, buffer := b, new_obj_ready := False\<rparr>"
  have "pool_ok ?p as" using assms b(2,3) by (auto simp: pool_ok_def)
  then show ?thesis using b(1) by (intro exI[of _ ?p]) (simp add: take_free_def)
qed

lemma add_free_object_spec:
  assumes "pool_ok p as" "length as < max_size p"
  shows "\<exists>p'. add_free_object p = Ok p' \<and> pool_ok p' (as @ [next_node (buffer p)]) \<and> next_node (buffer p) \<notin> set as \<and>
    free_list p' = free_list p @ [next_node (buffer p)] \<and> max_size p' = max_size p"
proof -
  let ?l = "buffer p" and ?n = "next_node (buffer p)"
  have ok: "tl_ok ?l as" using assms(1) by (simp add: pool_ok_def)
  have "tl_ok ?l (as @ [])" using ok by simp
  from emplace_one_spec[OF this, of "tl_end ?l" True "bound_obj p"] obtain b
    where b: "emplace_one (tl_end ?l) True (bound_obj p) ?l = Ok b" "tl_ok b (as @ [?n])"
      "contents b (as @ [?n]) = contents ?l as @ [(bound_obj p, True)]"
    by (auto simp: tl_end_def contents_def)
  have fresh: "?n \<notin> set as" using tl_okD(10)[OF ok] .
  let ?p = "p\<lparr>buffer := b, free_list := free_list p @ [?n]\<rparr>"
  have x: "\<exists>nd. nodes l a = Some nd \<and> get_extra_info l (iterator_of_node (Some a)) = Ok (extra_info nd)"
    if "tl_ok l as" "a \<in> set as" for l :: "('a, bool) tlist" and as a
    using tl_okD(8)[OF that] by (auto simp: get_extra_info_def deref_def iterator_of_node_def)
  have "get_extra_info b (iterator_of_node (Some a)) = get_extra_info ?l (iterator_of_node (Some a))" if "a \<in> set as" for a
    using x[OF ok that] x[OF b(2), of a] b(3) that by (auto simp: contents_def)
  moreover have "get_extra_info b (iterator_of_node (Some ?n)) = Ok True"
    using x[OF b(2), of ?n] b(3) by (auto simp: contents_def)
  ultimately have "pool_ok ?p (as @ [?n])"
    using assms b(2) fresh by (auto simp: pool_ok_def)
  moreover have "add_free_object p = Ok ?p"
    using b(1) last_iter[OF b(2)] by (simp add: add_free_object_def new_obj_to_buffer_def last_object_def iter_data_ptr_def)
  ultimately show ?thesis using fresh by auto
qed

lemma do_try_borrow_one_spec:
  assumes "pool_ok p as"
  shows "do_try_borrow_one p = Ok (None, p) \<and> free_list p = [] \<and> length as = max_size p \<or>
    (\<exists>q p' as'. do_try_borrow_one p = Ok (Some q, p') \<and> pool_ok p' as' \<and> max_size p' = max_size p \<and>
       set as' = insert q (set as) \<and> (q \<in> set as \<longrightarrow> q \<in> set (free_list p)) \<and>
       set (free_list p') = set (free_list p) - {q} \<and> \<not> new_obj_ready p')"
proof (cases "free_list p")
  case (Cons q qs)
  from take_free_spec[OF assms Cons] obtain p' where
    "take_free q qs p = Ok (Some q, p')" "pool_ok p' as" "free_list p' = qs" "max_size p' = max_size p" "\<not> new_obj_ready p'"
    by blast
  moreover have "distinct (q # qs)" "q \<in> set as" using assms Cons by (auto simp: pool_ok_def)
  ultimately show ?thesis using Cons by (auto simp: do_try_borrow_one_def intro!: exI[of _ as])
next
  case Nil
  have sz: "m_size (buffer p) = length as" "length as \<le> max_size p" using assms tl_okD(6) by (auto simp: pool_ok_def)
  show ?thesis
  proof (cases "length as < max_size p")
    case False
    then show ?thesis using Nil sz by (simp add: do_try_borrow_one_def)
  next
    case True
    let ?n = "next_node (buffer p)"
    from add_free_object_spec[OF assms True] Nil obtain p1
      where p1: "add_free_object p = Ok p1" "pool_ok p1 (as @ [?n])" "?n \<notin> set as" "free_list p1 = [?n]" "max_size p1 = max_size p"
      by auto
    from take_free_spec[OF p1(2,4)] obtain p' where p': "take_free ?n [] p1 = Ok (Some ?n, p')" "pool_ok p' (as @ [?n])"
      "free_list p' = []" "max_size p' = max_size p1" "\<not> new_obj_ready p'" by blast
    have "do_try_borrow_one p = Ok (Some ?n, p')" using Nil sz(1) True p1(1,4) p'(1) by (simp add: do_try_borrow_one_def)
    with p' p1(3,5) Nil show ?thesis by (intro disjI2 exI[of _ ?n] exI[of _ p'] exI[of _ "as @ [?n]"]) simp
  qed
qed

lemma release_locked_spec:
  assumes "pool_ok p as" "q \<in> set as" "q \<notin> set (free_list p)"
  shows "\<exists>p'. release_locked q p = Ok p' \<and> pool_ok p' as \<and> max_size p' = max_size p \<and> free_list p' = q # free_list p"
proof -
  have "tl_ok (buffer (p\<lparr>free_list := q # free_list p\<rparr>)) as" using assms by (auto simp: pool_ok_def)
  from mark_spec[OF this assms(2), of True] obtain b
    where b: "mark True q (p\<lparr>free_list := q # free_list p\<rparr>) = Ok (p\<lparr>free_list := q # free_list p, buffer := b\<rparr>)" "tl_ok b as"
      "\<forall>r\<in>set as. get_extra_info b (iterator_of_node (Some r)) =
         (if r = q then Ok True else get_extra_info (buffer p) (iterator_of_node (Some r)))" by auto
  let ?p = "p\<lparr>free_list := q # free_list p, buffer := b, new_obj_ready := True\<rparr>"
  have "pool_ok ?p as" using assms b(2,3) by (auto simp: pool_ok_def)
  then show ?thesis using b(1) by (intro exI[of _ ?p]) (simp add: release_locked_def)
qed

text \<open>Every object is either free or held by exactly one thread, and no thread has failed.\<close>

definition sys_ok :: "nat \<Rightarrow> 'a pool_sys \<Rightarrow> bool" where
  "sys_ok n s \<longleftrightarrow>
     (\<exists>as. pool_ok (pl s) as \<and> max_size (pl s) = n \<and>
        (\<forall>q\<in>set as. q \<in> set (free_list (pl s)) \<or> (\<exists>t. th s t = T_Has q)) \<and>
        (\<forall>t q. th s t = T_Has q \<longrightarrow> q \<in> set as \<and> q \<notin> set (free_list (pl s))) \<and>
        (\<forall>t u q. th s t = T_Has q \<longrightarrow> th s u = T_Has q \<longrightarrow> t = u) \<and>
        (\<forall>t. th s t \<noteq> T_Error))"

lemma sys_ok_init: "sys_ok n (pool_init n x)"
  by (auto simp: sys_ok_def pool_init_def new_pool_def pool_ok_def empty_tlist_ok intro!: exI[of _ "[]"])

lemma sys_ok_borrow:
  assumes ok: "sys_ok n s" and t: "\<nexists>q. th s t = T_Has q" and b: "do_try_borrow_one (pl s) = Ok (Some q, p)"
  shows "sys_ok n (goes_to t (T_Has q) s p)"
proof -
  from ok obtain as where as: "pool_ok (pl s) as" "max_size (pl s) = n"
      "\<forall>q\<in>set as. q \<in> set (free_list (pl s)) \<or> (\<exists>t. th s t = T_Has q)"
      "\<forall>t q. th s t = T_Has q \<longrightarrow> q \<in> set as \<and> q \<notin> set (free_list (pl s))"
      "\<forall>t u q. th s t = T_Has q \<longrightarrow> th s u = T_Has q \<longrightarrow> t = u" "\<forall>t. th s t \<noteq> T_Error"
    unfolding sys_ok_def by blast
  from do_try_borrow_one_spec[OF as(1)] b obtain as'
    where p: "pool_ok p as'" "max_size p = n" "set as' = insert q (set as)" "q \<in> set as \<longrightarrow> q \<in> set (free_list (pl s))"
      "set (free_list p) = set (free_list (pl s)) - {q}" using as(2) by auto
  have new: "th s u \<noteq> T_Has q" for u using as(4) p(4) by blast
  show ?thesis
    unfolding sys_ok_def goes_to_def
  proof (intro exI[of _ as'] conjI)
    show "\<forall>r\<in>set as'. r \<in> set (free_list (pl (s\<lparr>pl := p, th := (th s)(t := T_Has q)\<rparr>))) \<or>
        (\<exists>u. th (s\<lparr>pl := p, th := (th s)(t := T_Has q)\<rparr>) u = T_Has r)"
      using as(3) p(3,5) t by simp (metis insert_iff)
    show "\<forall>u r. th (s\<lparr>pl := p, th := (th s)(t := T_Has q)\<rparr>) u = T_Has r \<longrightarrow>
        r \<in> set as' \<and> r \<notin> set (free_list (pl (s\<lparr>pl := p, th := (th s)(t := T_Has q)\<rparr>)))"
      using as(4) p(3,5) by simp
    show "\<forall>u v r. th (s\<lparr>pl := p, th := (th s)(t := T_Has q)\<rparr>) u = T_Has r \<longrightarrow>
        th (s\<lparr>pl := p, th := (th s)(t := T_Has q)\<rparr>) v = T_Has r \<longrightarrow> u = v"
      using as(5) new by (simp, blast)
  qed (use p as(6) in simp_all)
qed

text \<open>A thread without an object that changes state without getting one leaves the invariant alone.\<close>

lemma sys_ok_move:
  assumes "sys_ok n s" "\<nexists>q. th s t = T_Has q" "\<nexists>q. x = T_Has q" "x \<noteq> T_Error"
  shows "sys_ok n (goes_to t x s (pl s))"
proof -
  let ?th = "(th s)(t := x)"
  have a: "(\<exists>u. ?th u = T_Has q) = (\<exists>u. th s u = T_Has q)" for q
    using assms(2,3) by (metis fun_upd_apply)
  have b: "?th u = T_Has q \<Longrightarrow> th s u = T_Has q" for u q
    using assms(3) by (auto split: if_splits)
  have c: "(\<forall>u. ?th u \<noteq> T_Error)" if "\<forall>u. th s u \<noteq> T_Error" using that assms(4) by simp
  have d: "th (goes_to t x s (pl s)) = ?th" "pl (goes_to t x s (pl s)) = pl s" by (simp_all add: goes_to_def)
  from assms(1) obtain as where as: "pool_ok (pl s) as" "max_size (pl s) = n"
      "\<forall>q\<in>set as. q \<in> set (free_list (pl s)) \<or> (\<exists>t. th s t = T_Has q)"
      "\<forall>t q. th s t = T_Has q \<longrightarrow> q \<in> set as \<and> q \<notin> set (free_list (pl s))"
      "\<forall>t u q. th s t = T_Has q \<longrightarrow> th s u = T_Has q \<longrightarrow> t = u" "\<forall>t. th s t \<noteq> T_Error"
    unfolding sys_ok_def by blast
  have "\<forall>u q. ?th u = T_Has q \<longrightarrow> q \<in> set as \<and> q \<notin> set (free_list (pl s))" using as(4) b by blast
  moreover have "\<forall>u v q. ?th u = T_Has q \<longrightarrow> ?th v = T_Has q \<longrightarrow> u = v" using as(5) b by blast
  ultimately show ?thesis using as(1,2,3) c[OF as(6)] unfolding sys_ok_def d a by (intro exI[of _ as] conjI)
qed

lemma sys_ok_release:
  assumes ok: "sys_ok n s" and t: "th s t = T_Has q"
  shows "\<exists>p. release_locked q (pl s) = Ok p \<and> sys_ok n (goes_to t T_Notify s p)"
proof -
  from ok obtain as where as: "pool_ok (pl s) as" "max_size (pl s) = n"
      "\<forall>q\<in>set as. q \<in> set (free_list (pl s)) \<or> (\<exists>t. th s t = T_Has q)"
      "\<forall>t q. th s t = T_Has q \<longrightarrow> q \<in> set as \<and> q \<notin> set (free_list (pl s))"
      "\<forall>t u q. th s t = T_Has q \<longrightarrow> th s u = T_Has q \<longrightarrow> t = u" "\<forall>t. th s t \<noteq> T_Error"
    unfolding sys_ok_def by blast
  from release_locked_spec[OF as(1), of q] as(4) t obtain p
    where p: "release_locked q (pl s) = Ok p" "pool_ok p as" "max_size p = n" "free_list p = q # free_list (pl s)"
    using as(2) by auto
  have "sys_ok n (goes_to t T_Notify s p)"
    unfolding sys_ok_def goes_to_def
  proof (intro exI[of _ as] conjI)
    show "\<forall>r\<in>set as. r \<in> set (free_list (pl (s\<lparr>pl := p, th := (th s)(t := T_Notify)\<rparr>))) \<or>
        (\<exists>u. th (s\<lparr>pl := p, th := (th s)(t := T_Notify)\<rparr>) u = T_Has r)"
      using as(3) p(4) t by simp (metis tstate.inject)
    show "\<forall>u r. th (s\<lparr>pl := p, th := (th s)(t := T_Notify)\<rparr>) u = T_Has r \<longrightarrow>
        r \<in> set as \<and> r \<notin> set (free_list (pl (s\<lparr>pl := p, th := (th s)(t := T_Notify)\<rparr>)))"
      using as(4,5) p(4) t by (simp, blast)
    show "\<forall>u v r. th (s\<lparr>pl := p, th := (th s)(t := T_Notify)\<rparr>) u = T_Has r \<longrightarrow>
        th (s\<lparr>pl := p, th := (th s)(t := T_Notify)\<rparr>) v = T_Has r \<longrightarrow> u = v"
      using as(5) by simp
  qed (use p(2,3) as(6) in simp_all)
  with p(1) show ?thesis by blast
qed

lemma sys_ok_try:
  assumes "sys_ok n s"
  shows "do_try_borrow_one (pl s) = Ok (None, pl s) \<and> \<not> new_obj_ready (pl s) \<or> (\<exists>q p. do_try_borrow_one (pl s) = Ok (Some q, p))"
proof -
  from assms obtain as where "pool_ok (pl s) as" unfolding sys_ok_def by blast
  from do_try_borrow_one_spec[OF this] this show ?thesis by (auto simp: pool_ok_def)
qed

lemma sys_ok_step: "pool_step t s s' \<Longrightarrow> sys_ok n s \<Longrightarrow> sys_ok n s'"
proof (induction rule: pool_step.induct)
  case (try_borrow s t q p)
  then show ?case by (intro sys_ok_borrow) simp_all
next
  case (try_full s t p)
  then have "p = pl s" using sys_ok_try[of n s] by auto
  with try_full show ?case by (auto intro!: sys_ok_move)
next
  case (try_bad s t)
  then show ?case using sys_ok_try[of n s] by auto
next
  case (wait_borrow s t q p)
  then show ?case by (intro sys_ok_borrow) simp_all
next
  case (par_error s t p)
  then show ?case using sys_ok_try[of n s] by auto
next
  case (release s t q p)
  then show ?case using sys_ok_release[of n s t q] by auto
next
  case (release_bad s t q)
  then show ?case using sys_ok_release[of n s t q] by auto
next
  case (notify s t u)
  have "sys_ok n (goes_to u T_Waiting s (pl s))" using notify by (auto intro!: sys_ok_move)
  then have "sys_ok n (goes_to t T_Idle (goes_to u T_Waiting s (pl s)) (pl (goes_to u T_Waiting s (pl s))))"
    using notify by (intro sys_ok_move) (auto simp: goes_to_def)
  then show ?case by (simp add: goes_to_def)
qed (auto intro!: sys_ok_move)

lemma sys_ok_reach: "any_step\<^sup>*\<^sup>* (pool_init n x) s \<Longrightarrow> sys_ok n s"
  by (induction rule: rtranclp_induct) (auto simp: any_step_def intro: sys_ok_init sys_ok_step)

section \<open>A run with four threads\<close>

text \<open>Two objects, two threads that hold them and two that wait; the objects come back one after the other.\<close>

definition pair_pool :: "bool \<Rightarrow> bool \<Rightarrow> nat list \<Rightarrow> bool \<Rightarrow> 'a \<Rightarrow> 'a object_pool" where
  "pair_pool a b fl ready x =
     \<lparr>buffer = \<lparr>nodes = [0 \<mapsto> \<lparr>data = x, prev = None, nxt = Some 1, extra_info = a, magic = node_magic\<rparr>,
                        1 \<mapsto> \<lparr>data = x, prev = Some 0, nxt = None, extra_info = b, magic = node_magic\<rparr>],
               next_node = 2, head = Some 0, tail = Some 1, m_size = 2\<rparr>,
      bound_obj = x, max_size = 2, free_list = fl, new_obj_ready = ready\<rparr>"

definition run_state :: "tstate list \<Rightarrow> 'a object_pool \<Rightarrow> 'a pool_sys" where
  "run_state ts p = \<lparr>pl = p, th = (\<lambda>t. if t < length ts then ts ! t else T_Idle)\<rparr>"

definition single_pool :: "'a \<Rightarrow> 'a object_pool" where
  "single_pool x =
     \<lparr>buffer = \<lparr>nodes = [0 \<mapsto> \<lparr>data = x, prev = None, nxt = None, extra_info = False, magic = node_magic\<rparr>],
               next_node = 1, head = Some 0, tail = Some 0, m_size = 1\<rparr>,
      bound_obj = x, max_size = 2, free_list = [], new_obj_ready = False\<rparr>"

lemmas pool_eval = do_try_borrow_one_def take_free_def mark_def iterator_of_data_def deref_def set_extra_info_def
  add_free_object_def new_obj_to_buffer_def last_object_def emplace_one_def iter_decr_def iter_data_ptr_def tl_end_def
  iterator_of_node_def set_next_def set_prev_def release_locked_def

lemma run_borrow:
  "do_try_borrow_one (new_pool 2 x) = Ok (Some 0, single_pool x)"
  "do_try_borrow_one (single_pool x) = Ok (Some 1, pair_pool False False [] False x)"
  "do_try_borrow_one (pair_pool a b [] r x) = Ok (None, pair_pool a b [] r x)"
  "do_try_borrow_one (pair_pool a b (0 # qs) r x) = Ok (Some 0, pair_pool False b qs False x)"
  "do_try_borrow_one (pair_pool a b (1 # qs) r x) = Ok (Some 1, pair_pool a False qs False x)"
  by (auto simp: pool_eval new_pool_def single_pool_def pair_pool_def empty_tlist_def fun_eq_iff)

lemma run_release:
  "release_locked 0 (pair_pool a b qs r x) = Ok (pair_pool True b (0 # qs) True x)"
  "release_locked 1 (pair_pool a b qs r x) = Ok (pair_pool a True (1 # qs) True x)"
  by (auto simp: pool_eval pair_pool_def fun_eq_iff)

lemma goes_to_run:
  "t < length ts \<Longrightarrow> goes_to t x (run_state ts q) p = run_state (ts[t := x]) p"
  by (auto simp: goes_to_def run_state_def fun_eq_iff)

lemma run_state_simps [simp]:
  "pl (run_state ts p) = p" "t < length ts \<Longrightarrow> th (run_state ts p) t = ts ! t"
  by (simp_all add: run_state_def)

lemma run_step:
  "t < length ts \<Longrightarrow> ts ! t = T_Idle \<Longrightarrow> do_try_borrow_one p = Ok (Some q, p') \<Longrightarrow> any_step (run_state ts p) (run_state (ts[t := T_Has q]) p')"
  "t < length ts \<Longrightarrow> ts ! t = T_Idle \<Longrightarrow> do_try_borrow_one p = Ok (None, p') \<Longrightarrow> any_step (run_state ts p) (run_state (ts[t := T_Waiting]) p')"
  "t < length ts \<Longrightarrow> ts ! t = T_Waiting \<Longrightarrow> \<not> new_obj_ready p \<Longrightarrow> any_step (run_state ts p) (run_state (ts[t := T_Asleep]) p)"
  "t < length ts \<Longrightarrow> ts ! t = T_Has q \<Longrightarrow> release_locked q p = Ok p' \<Longrightarrow> any_step (run_state ts p) (run_state (ts[t := T_Notify]) p')"
  "t < length ts \<Longrightarrow> u < length ts \<Longrightarrow> ts ! t = T_Notify \<Longrightarrow> ts ! u = T_Asleep \<Longrightarrow>
     any_step (run_state ts p) (run_state (ts[u := T_Waiting, t := T_Idle]) p)"
  "t < length ts \<Longrightarrow> ts ! t = T_Waiting \<Longrightarrow> new_obj_ready p \<Longrightarrow> do_try_borrow_one p = Ok (Some q, p') \<Longrightarrow>
     any_step (run_state ts p) (run_state (ts[t := T_Has q]) p')"
  unfolding any_step_def
  using pool_step.try_borrow[of "run_state ts p" t q p'] pool_step.try_full[of "run_state ts p" t p'] pool_step.sleep[of "run_state ts p" t]
    pool_step.release[of "run_state ts p" t q p'] pool_step.notify[of "run_state ts p" t u] pool_step.wait_borrow[of "run_state ts p" t q p']
  by (auto simp: goes_to_run)

lemma run_all_waiting:
  "any_step\<^sup>*\<^sup>* (pool_init 2 x) (run_state [T_Has 0, T_Has 1, T_Asleep, T_Asleep] (pair_pool False False [] False x))"
proof -
  let ?p = "pair_pool False False [] False x"
  have "pool_init 2 x = run_state [T_Idle, T_Idle, T_Idle, T_Idle] (new_pool 2 x)"
    by (auto simp: pool_init_def run_state_def fun_eq_iff less_Suc_eq nth_Cons' numeral_eq_Suc)
  then have "any_step\<^sup>*\<^sup>* (pool_init 2 x) (run_state [T_Idle, T_Idle, T_Idle, T_Idle] (new_pool 2 x))" by simp
  also have "any_step \<dots> (run_state [T_Has 0, T_Idle, T_Idle, T_Idle] (single_pool x))"
    using run_step(1)[of 0 "[T_Idle, T_Idle, T_Idle, T_Idle]"] run_borrow(1)[of x] by simp
  also have "any_step \<dots> (run_state [T_Has 0, T_Has 1, T_Idle, T_Idle] ?p)"
    using run_step(1)[of 1 "[T_Has 0, T_Idle, T_Idle, T_Idle]"] run_borrow(2)[of x] by simp
  also have "any_step \<dots> (run_state [T_Has 0, T_Has 1, T_Waiting, T_Idle] ?p)"
    using run_step(2)[of 2 "[T_Has 0, T_Has 1, T_Idle, T_Idle]"] run_borrow(3)[of False False False x] by (simp add: numeral_eq_Suc)
  also have "any_step \<dots> (run_state [T_Has 0, T_Has 1, T_Waiting, T_Waiting] ?p)"
    using run_step(2)[of 3 "[T_Has 0, T_Has 1, T_Waiting, T_Idle]"] run_borrow(3)[of False False False x] by (simp add: numeral_eq_Suc)
  also have "any_step \<dots> (run_state [T_Has 0, T_Has 1, T_Asleep, T_Waiting] ?p)"
    using run_step(3)[of 2 "[T_Has 0, T_Has 1, T_Waiting, T_Waiting]" ?p] by (simp add: numeral_eq_Suc pair_pool_def)
  also have "any_step \<dots> (run_state [T_Has 0, T_Has 1, T_Asleep, T_Asleep] ?p)"
    using run_step(3)[of 3 "[T_Has 0, T_Has 1, T_Asleep, T_Waiting]" ?p] by (simp add: numeral_eq_Suc pair_pool_def)
  finally show ?thesis .
qed

lemma run_lost_wakeup:
  "any_step\<^sup>*\<^sup>* (pool_init 2 x) (run_state [T_Idle, T_Idle, T_Has 1, T_Asleep] (pair_pool True False [0] False x))"
proof -
  let ?p = "pair_pool True False [0] True x" and ?q = "pair_pool True True [1, 0] True x" and ?r = "pair_pool True False [0] False x"
  note run_all_waiting[of x]
  also have "any_step (run_state [T_Has 0, T_Has 1, T_Asleep, T_Asleep] (pair_pool False False [] False x))
      (run_state [T_Notify, T_Has 1, T_Asleep, T_Asleep] ?p)"
    using run_step(4)[of 0 "[T_Has 0, T_Has 1, T_Asleep, T_Asleep]" 0] run_release(1)[of False False "[]" False x] by simp
  also have "any_step \<dots> (run_state [T_Idle, T_Has 1, T_Waiting, T_Asleep] ?p)"
    using run_step(5)[of 0 "[T_Notify, T_Has 1, T_Asleep, T_Asleep]" 2 ?p] by (simp add: numeral_eq_Suc)
  also have "any_step \<dots> (run_state [T_Idle, T_Notify, T_Waiting, T_Asleep] ?q)"
    using run_step(4)[of 1 "[T_Idle, T_Has 1, T_Waiting, T_Asleep]" 1] run_release(2)[of True False "[0]" True x] by simp
  also have "any_step \<dots> (run_state [T_Idle, T_Idle, T_Waiting, T_Waiting] ?q)"
    using run_step(5)[of 1 "[T_Idle, T_Notify, T_Waiting, T_Asleep]" 3 ?q] by (simp add: numeral_eq_Suc)
  also have "any_step \<dots> (run_state [T_Idle, T_Idle, T_Has 1, T_Waiting] ?r)"
    using run_step(6)[of 2 "[T_Idle, T_Idle, T_Waiting, T_Waiting]" ?q 1 ?r] run_borrow(5)[of True True "[0]" True x]
    by (simp add: numeral_eq_Suc) (simp add: pair_pool_def)
  also have "any_step \<dots> (run_state [T_Idle, T_Idle, T_Has 1, T_Asleep] ?r)"
    using run_step(3)[of 3 "[T_Idle, T_Idle, T_Has 1, T_Waiting]" ?r] by (simp add: numeral_eq_Suc pair_pool_def)
  finally show ?thesis .
qed

lemma no_wakeup_alone:
  "(pool_step t)\<^sup>*\<^sup>* s s' \<Longrightarrow> \<not> new_obj_ready (pl s) \<Longrightarrow> th s t = T_Asleep \<or> th s t = T_Waiting \<Longrightarrow>
   \<not> new_obj_ready (pl s') \<and> (th s' t = T_Asleep \<or> th s' t = T_Waiting)"
  by (induction rule: rtranclp_induct) (auto elim!: pool_step.cases simp: goes_to_def)

section \<open>Properties\<close>

text \<open>
  C9: in every state any number of threads can reach by borrowing and releasing, no object
  is held by two threads or is free while it is held, at most \<open>max_size\<close> objects exist, and no thread
  has met the exception \<open>unknown par error\<close> or undefined behaviour.
\<close>

theorem pool_never_shares:
  assumes "any_step\<^sup>*\<^sup>* (pool_init n x) s"
  shows "m_size (buffer (pl s)) \<le> n \<and> th s t \<noteq> T_Error \<and>
    (th s t = T_Has q \<longrightarrow> q \<notin> set (free_list (pl s)) \<and> (\<forall>u. th s u = T_Has q \<longrightarrow> u = t))"
proof -
  from sys_ok_reach[OF assms] obtain as where as: "pool_ok (pl s) as" "max_size (pl s) = n"
      "\<forall>t q. th s t = T_Has q \<longrightarrow> q \<in> set as \<and> q \<notin> set (free_list (pl s))"
      "\<forall>t u q. th s t = T_Has q \<longrightarrow> th s u = T_Has q \<longrightarrow> t = u" "\<forall>t. th s t \<noteq> T_Error"
    unfolding sys_ok_def by blast
  have "m_size (buffer (pl s)) \<le> n" using as(1,2) tl_okD(6)[of "buffer (pl s)" as] by (simp add: pool_ok_def)
  with as(3,4,5) show ?thesis by blast
qed

theorem pool_never_shares_witness:
  "1 \<notin> set (free_list (pl (run_state [T_Idle, T_Idle, T_Has 1, T_Asleep] (pair_pool True False [0] False (7 :: int)))))"
  using pool_never_shares[OF run_lost_wakeup[of "7 :: int"], of 2 1] by (simp add: numeral_eq_Suc)

text \<open>
  C36: a thread can wait forever although an object is free. With two objects and two waiting
  threads, both objects are released before the first waiting thread takes one; taking it clears
  \<open>new_obj_ready\<close>, so that the second thread, although it was woken, goes back to sleep with an object left on
  the free list, and no step of its own, spurious wake-ups included, ever gets it the object.
\<close>

theorem pool_borrower_starves:
  "\<exists>s. any_step\<^sup>*\<^sup>* (pool_init 2 x) s \<and> th s 3 = T_Asleep \<and> free_list (pl s) = [0] \<and>
     th s 0 = T_Idle \<and> th s 1 = T_Idle \<and> th s 2 = T_Has 1 \<and>
     \<not> (\<exists>s' q. (pool_step 3)\<^sup>*\<^sup>* s s' \<and> th s' 3 = T_Has q)"
proof -
  let ?s = "run_state [T_Idle, T_Idle, T_Has 1, T_Asleep] (pair_pool True False [0] False x)"
  have s: "th ?s 3 = T_Asleep" "\<not> new_obj_ready (pl ?s)" "free_list (pl ?s) = [0]" "th ?s 0 = T_Idle" "th ?s 1 = T_Idle"
    "th ?s 2 = T_Has 1"
    by (simp_all add: pair_pool_def numeral_eq_Suc)
  have "\<not> (\<exists>s' q. (pool_step 3)\<^sup>*\<^sup>* ?s s' \<and> th s' 3 = T_Has q)" using no_wakeup_alone[of 3 ?s] s(1,2) by fastforce
  with s run_lost_wakeup[of x] show ?thesis by blast
qed

end
