(* ===== verification/Thread_Pool.thy ===== *)
theory Thread_Pool
  imports Snake_Prelude
begin

text \<open>
  The thread pool of \<open>src/src/native/src/lib/threadPool.hpp\<close>, to which both listeners hand their connections when
  \<open>___NO_THREAD_POOL\<close> is not defined; \<open>CMakeLists.txt\<close> and \<open>CMakeLists_win.txt\<close> define it, and the programs they build start a
  detached thread for each connection instead. The thread that calls \<open>addTask\<close> (only one does) and the workers are machines that take one step per access to
  the shared variables; a state records the position of each. The steps of different threads interleave
  in any order, each seeing the latest values.

  \<open>workingSymbol\<close> is a mutex that a worker locks twice and that the other thread unlocks: the standard leaves this
  undefined, and it is modelled as what the code counts on, a flag for which \<open>lock\<close> waits and which
  anyone may clear. Tasks are numbered in the order in which they are added. A task starts in one
  step and returns in a later one.
\<close>

section \<open>Definitions\<close>

datatype job = Task nat | Noop

datatype wpc = W_Start | W_Inited | W_Test | W_Lock1 | W_First | W_Set_Waiting | W_Lock2 | W_Clear_Waiting
  | W_Run | W_Busy | W_Unlock | W_Done | W_Bad_Call

record worker =
  isWaiting :: bool
  continueLoop :: bool
  initSymbol :: bool
  initSymbolInited :: bool
  workingSymbol :: bool
  firstLoop :: bool
  w_task :: "job option"
  w_pc :: wpc

text \<open>
  Where the thread that adds tasks stands: in \<open>addTask\<close>, \<open>try_shrink\<close>, \<open>joinAll\<close>, \<open>worker::join\<close>, \<open>newWorker\<close> or \<open>worker::go\<close>,
  with the job it carries and the index of the worker it looks at. \<open>worker::join\<close> is called by \<open>try_shrink\<close> and by \<open>joinAll\<close>.
\<close>

datatype joiner = Shrinking job | Joining_All

datatype mpc = M_Idle | M_Scan job nat | M_Shrink job | M_Shrink_Scan job nat | M_Stop_All nat | M_Join_All nat
  | M_Join_Stop joiner nat | M_Join_Test joiner nat | M_Join_Task joiner nat | M_Join_Try joiner nat | M_Join_Unlock joiner nat | M_Join_Wait joiner nat
  | M_New job | M_Spin job nat | M_Init_Lock job nat | M_Task job nat | M_Try nat | M_Unlock nat | M_Wait nat | M_Undefined

record thread_pool =
  usualSize :: nat
  currSize :: nat
  workers :: "worker list"
  m_pc :: mpc
  added :: nat
  served :: "job list"

definition new_worker :: worker where
  "new_worker = \<lparr>isWaiting = False, continueLoop = True, initSymbol = False, initSymbolInited = False,
     workingSymbol = False, firstLoop = True, w_task = None, w_pc = W_Start\<rparr>"

definition new_ThreadPool :: "nat \<Rightarrow> thread_pool" where
  "new_ThreadPool n = \<lparr>usualSize = n, currSize = 0, workers = [], m_pc = M_Idle, added = 0, served = []\<rparr>"

definition upd_worker :: "nat \<Rightarrow> (worker \<Rightarrow> worker) \<Rightarrow> thread_pool \<Rightarrow> thread_pool" where
  "upd_worker i f s = s\<lparr>workers := (workers s)[i := f (workers s ! i)]\<rparr>"

text \<open>One step of \<open>workerFunc\<close>; \<open>None\<close> when the thread waits or has ended.\<close>

definition workerFunc :: "nat \<Rightarrow> thread_pool \<Rightarrow> thread_pool option" where
  "workerFunc i s =
     (if i < length (workers s) then
        let w = workers s ! i; to = (\<lambda>pc f. Some (upd_worker i (\<lambda>w. (f w)\<lparr>w_pc := pc\<rparr>) s)) in
        case w_pc w of
          W_Start \<Rightarrow> to W_Inited (initSymbol_update (\<lambda>_. True))
        | W_Inited \<Rightarrow> to W_Test (initSymbolInited_update (\<lambda>_. True))
        | W_Test \<Rightarrow> to (if continueLoop w then W_Lock1 else W_Done) id
        | W_Lock1 \<Rightarrow> if workingSymbol w then None else to W_First (workingSymbol_update (\<lambda>_. True))
        | W_First \<Rightarrow> to W_Set_Waiting (if firstLoop w then \<lambda>w. w\<lparr>firstLoop := False, initSymbol := False\<rparr> else id)
        | W_Set_Waiting \<Rightarrow> to W_Lock2 (isWaiting_update (\<lambda>_. True))
        | W_Lock2 \<Rightarrow> if workingSymbol w then None else to W_Clear_Waiting (workingSymbol_update (\<lambda>_. True))
        | W_Clear_Waiting \<Rightarrow> to W_Run (isWaiting_update (\<lambda>_. False))
        | W_Run \<Rightarrow>
            (case w_task w of
               None \<Rightarrow> to W_Bad_Call id
             | Some t \<Rightarrow> Some ((upd_worker i (w_pc_update (\<lambda>_. W_Busy)) s)\<lparr>served := served s @ [t]\<rparr>))
        | W_Busy \<Rightarrow> to W_Unlock id
        | W_Unlock \<Rightarrow> to W_Test (workingSymbol_update (\<lambda>_. False))
        | W_Done \<Rightarrow> None
        | W_Bad_Call \<Rightarrow> None
      else None)"

text \<open>
  The thread that adds tasks, function by function; each definition gives the step at the positions inside that function.
  \<open>goto\<close> moves to another position, \<open>set_worker\<close> changes a worker and moves. A new worker enters the list when it is created:
  only this thread reads the list, and it does so after the worker is in it in the code as well.
\<close>

definition goto :: "mpc \<Rightarrow> thread_pool \<Rightarrow> thread_pool option" where
  "goto pc s = Some (s\<lparr>m_pc := pc\<rparr>)"

definition set_worker :: "nat \<Rightarrow> (worker \<Rightarrow> worker) \<Rightarrow> mpc \<Rightarrow> thread_pool \<Rightarrow> thread_pool option" where
  "set_worker i f pc s = Some ((upd_worker i f s)\<lparr>m_pc := pc\<rparr>)"

definition addTask :: "thread_pool \<Rightarrow> thread_pool option" where
  "addTask s =
     (case m_pc s of
        M_Idle \<Rightarrow> Some (s\<lparr>m_pc := M_Scan (Task (added s)) 0, added := Suc (added s)\<rparr>)
      | M_Scan f i \<Rightarrow>
          if i < length (workers s)
          then if \<not> isWaiting (workers s ! i) then goto (M_Scan f (Suc i)) s else goto (M_Task f i) s
          else goto (M_Shrink f) s
      | _ \<Rightarrow> None)"

definition joinAll_step :: "thread_pool \<Rightarrow> thread_pool option" where
  "joinAll_step s =
     (let n = length (workers s) in
      case m_pc s of
        M_Stop_All i \<Rightarrow> if i < n then set_worker i (continueLoop_update (\<lambda>_. False)) (M_Stop_All (Suc i)) s else goto (M_Join_All 0) s
      | M_Join_All i \<Rightarrow> if i < n then goto (M_Join_Stop Joining_All i) s else Some (s\<lparr>workers := [], currSize := 0, m_pc := M_Idle\<rparr>)
      | _ \<Rightarrow> None)"

definition newWorker :: "thread_pool \<Rightarrow> thread_pool option" where
  "newWorker s =
     (case m_pc s of
        M_New f \<Rightarrow> Some (s\<lparr>workers := workers s @ [new_worker], m_pc := M_Spin f (length (workers s))\<rparr>)
      | M_Spin f i \<Rightarrow>
          if initSymbolInited (workers s ! i) then Some (s\<lparr>currSize := Suc (currSize s), m_pc := M_Init_Lock f i\<rparr>) else None
      | M_Init_Lock f i \<Rightarrow> if initSymbol (workers s ! i) then None else set_worker i (initSymbol_update (\<lambda>_. True)) (M_Task f i) s
      | _ \<Rightarrow> None)"

text \<open>
  After \<open>join\<close>, \<open>workers.remove(pwk)\<close> destroys the node the loop of \<open>try_shrink\<close> stands on, and the increment that follows reads
  it: undefined behaviour.
\<close>

definition try_shrink :: "thread_pool \<Rightarrow> thread_pool option" where
  "try_shrink s =
     (case m_pc s of
        M_Shrink f \<Rightarrow> if currSize s \<le> usualSize s * 3 then goto (M_New f) s else goto (M_Shrink_Scan f 0) s
      | M_Shrink_Scan f i \<Rightarrow>
          if i < length (workers s) then
            if \<not> isWaiting (workers s ! i) then goto (M_Shrink_Scan f (Suc i)) s
            else if currSize s \<le> usualSize s then goto (M_New f) s
            else goto (M_Join_Stop (Shrinking f) i) s
          else goto (M_New f) s
      | _ \<Rightarrow> None)"

definition go :: "thread_pool \<Rightarrow> thread_pool option" where
  "go s =
     (case m_pc s of
        M_Task f i \<Rightarrow> set_worker i (w_task_update (\<lambda>_. Some f)) (M_Try i) s
      | M_Try i \<Rightarrow> set_worker i (workingSymbol_update (\<lambda>_. True)) (M_Unlock i) s
      | M_Unlock i \<Rightarrow> set_worker i (workingSymbol_update (\<lambda>_. False)) (M_Wait i) s
      | M_Wait i \<Rightarrow> if isWaiting (workers s ! i) then None else goto M_Idle s
      | _ \<Rightarrow> None)"

text \<open>The overload of \<open>go\<close> for a temporary, which \<open>join\<close> calls, returns without waiting.\<close>

definition go_temporary :: "thread_pool \<Rightarrow> thread_pool option" where
  "go_temporary s =
     (case m_pc s of
        M_Join_Task k i \<Rightarrow> set_worker i (w_task_update (\<lambda>_. Some Noop)) (M_Join_Try k i) s
      | M_Join_Try k i \<Rightarrow> set_worker i (workingSymbol_update (\<lambda>_. True)) (M_Join_Unlock k i) s
      | M_Join_Unlock k i \<Rightarrow> set_worker i (workingSymbol_update (\<lambda>_. False)) (M_Join_Wait k i) s
      | _ \<Rightarrow> None)"

definition worker_join :: "thread_pool \<Rightarrow> thread_pool option" where
  "worker_join s =
     (case m_pc s of
        M_Join_Stop k i \<Rightarrow> set_worker i (continueLoop_update (\<lambda>_. False)) (M_Join_Test k i) s
      | M_Join_Test k i \<Rightarrow> if isWaiting (workers s ! i) then goto (M_Join_Task k i) s else goto (M_Join_Wait k i) s
      | M_Join_Wait k i \<Rightarrow>
          if w_pc (workers s ! i) = W_Done
          then goto (case k of Shrinking f \<Rightarrow> M_Undefined | Joining_All \<Rightarrow> M_Join_All (Suc i)) s
          else None
      | _ \<Rightarrow> None)"

definition addTask_step :: "thread_pool \<Rightarrow> thread_pool option" where
  "addTask_step s =
     (case m_pc s of
        M_Idle \<Rightarrow> addTask s | M_Scan f i \<Rightarrow> addTask s
      | M_Shrink f \<Rightarrow> try_shrink s | M_Shrink_Scan f i \<Rightarrow> try_shrink s
      | M_Stop_All i \<Rightarrow> joinAll_step s | M_Join_All i \<Rightarrow> joinAll_step s
      | M_Join_Stop k i \<Rightarrow> worker_join s | M_Join_Test k i \<Rightarrow> worker_join s | M_Join_Wait k i \<Rightarrow> worker_join s
      | M_Join_Task k i \<Rightarrow> go_temporary s | M_Join_Try k i \<Rightarrow> go_temporary s | M_Join_Unlock k i \<Rightarrow> go_temporary s
      | M_New f \<Rightarrow> newWorker s | M_Spin f i \<Rightarrow> newWorker s | M_Init_Lock f i \<Rightarrow> newWorker s
      | M_Task f i \<Rightarrow> go s | M_Try i \<Rightarrow> go s | M_Unlock i \<Rightarrow> go s | M_Wait i \<Rightarrow> go s
      | M_Undefined \<Rightarrow> None)"

definition joinAll :: "thread_pool \<Rightarrow> thread_pool option" where
  "joinAll s = (if m_pc s = M_Idle then Some (s\<lparr>m_pc := M_Stop_All 0\<rparr>) else None)"

definition pool_size :: "thread_pool \<Rightarrow> nat" where
  "pool_size s = currSize s"

inductive tp_step :: "thread_pool \<Rightarrow> thread_pool \<Rightarrow> bool" where
  adder: "addTask_step s = Some s' \<Longrightarrow> tp_step s s'"
| join_all: "joinAll s = Some s' \<Longrightarrow> tp_step s s'"
| a_worker: "workerFunc i s = Some s' \<Longrightarrow> tp_step s s'"

inductive_cases tp_stepE: "tp_step s s'"

text \<open>A schedule names the thread of each step: \<open>None\<close> the one that adds tasks, \<open>Some i\<close> worker \<open>i\<close>.\<close>

fun run_schedule :: "nat option list \<Rightarrow> thread_pool \<Rightarrow> thread_pool option" where
  "run_schedule [] s = Some s"
| "run_schedule (c # cs) s =
     (case (case c of None \<Rightarrow> addTask_step s | Some i \<Rightarrow> workerFunc i s) of None \<Rightarrow> None | Some s' \<Rightarrow> run_schedule cs s')"

text \<open>The destructor deletes workers whose threads nobody joined, which ends the process unless there are none.\<close>

definition delete_ThreadPool_terminates :: "thread_pool \<Rightarrow> bool" where
  "delete_ThreadPool_terminates s \<longleftrightarrow> workers s \<noteq> []"

section \<open>Laws\<close>

lemmas adder_defs = addTask_step_def addTask_def try_shrink_def joinAll_step_def worker_join_def go_temporary_def newWorker_def go_def
  goto_def set_worker_def

lemma run_schedule_reaches: "run_schedule cs s = Some s' \<Longrightarrow> tp_step\<^sup>*\<^sup>* s s'"
proof (induction cs arbitrary: s)
  case (Cons c cs)
  then obtain s1 where "(case c of None \<Rightarrow> addTask_step s | Some i \<Rightarrow> workerFunc i s) = Some s1" "run_schedule cs s1 = Some s'"
    by (auto split: option.splits)
  then show ?case using Cons.IH by (auto intro: converse_rtranclp_into_rtranclp tp_step.intros split: option.splits)
qed simp

text \<open>The worker and the job the adding thread is concerned with at a position.\<close>

fun m_index :: "mpc \<Rightarrow> nat option" where
  "m_index (M_Join_Stop k i) = Some i" | "m_index (M_Join_Test k i) = Some i" | "m_index (M_Join_Task k i) = Some i"
| "m_index (M_Join_Try k i) = Some i" | "m_index (M_Join_Unlock k i) = Some i" | "m_index (M_Join_Wait k i) = Some i"
| "m_index (M_Spin f i) = Some i" | "m_index (M_Init_Lock f i) = Some i" | "m_index (M_Task f i) = Some i"
| "m_index (M_Try i) = Some i" | "m_index (M_Unlock i) = Some i" | "m_index (M_Wait i) = Some i" | "m_index _ = None"

fun joiner_job :: "joiner \<Rightarrow> job option" where
  "joiner_job (Shrinking f) = Some f" | "joiner_job Joining_All = None"

fun m_job :: "mpc \<Rightarrow> job option" where
  "m_job (M_Scan f i) = Some f" | "m_job (M_Shrink f) = Some f" | "m_job (M_Shrink_Scan f i) = Some f" | "m_job (M_Join_Stop k i) = joiner_job k"
| "m_job (M_Join_Test k i) = joiner_job k" | "m_job (M_Join_Task k i) = joiner_job k" | "m_job (M_Join_Try k i) = joiner_job k"
| "m_job (M_Join_Unlock k i) = joiner_job k" | "m_job (M_Join_Wait k i) = joiner_job k" | "m_job (M_New f) = Some f" | "m_job (M_Spin f i) = Some f"
| "m_job (M_Init_Lock f i) = Some f" | "m_job (M_Task f i) = Some f" | "m_job _ = None"

text \<open>Positions after a task has been written, and positions at which the job may still get a worker of its own.\<close>

fun m_wrote :: "mpc \<Rightarrow> bool" where
  "m_wrote (M_Try i) = True" | "m_wrote (M_Unlock i) = True" | "m_wrote (M_Wait i) = True" | "m_wrote (M_Join_Try k i) = True"
| "m_wrote (M_Join_Unlock k i) = True" | "m_wrote _ = False"

definition m_pending :: "mpc \<Rightarrow> nat" where
  "m_pending pc = (case pc of M_Spin f i \<Rightarrow> 0 | M_Init_Lock f i \<Rightarrow> 0 | M_Task f i \<Rightarrow> 0 | _ \<Rightarrow> if m_job pc = None then 0 else 1)"

definition job_ok :: "nat \<Rightarrow> job option \<Rightarrow> bool" where
  "job_ok n j = (case j of Some (Task t) \<Rightarrow> t < n | _ \<Rightarrow> True)"

definition worker_ok :: "nat \<Rightarrow> worker \<Rightarrow> bool" where
  "worker_ok n w \<longleftrightarrow> job_ok n (w_task w) \<and> w_pc w \<noteq> W_Bad_Call \<and>
     (w_pc w \<in> {W_Clear_Waiting, W_Run} \<or> w_pc w \<in> {W_First, W_Set_Waiting, W_Lock2} \<and> \<not> workingSymbol w \<longrightarrow> w_task w \<noteq> None)"

definition tp_ok :: "thread_pool \<Rightarrow> bool" where
  "tp_ok s \<longleftrightarrow> (\<forall>w\<in>set (workers s). worker_ok (added s) w) \<and> (\<forall>j\<in>set (served s). job_ok (added s) (Some j)) \<and>
     job_ok (added s) (m_job (m_pc s)) \<and> length (workers s) + m_pending (m_pc s) \<le> added s \<and>
     (\<forall>i. m_index (m_pc s) = Some i \<longrightarrow> i < length (workers s) \<and> (m_wrote (m_pc s) \<longrightarrow> w_task (workers s ! i) \<noteq> None))"

lemma ball_list_update: "\<forall>w\<in>set ws. P w \<Longrightarrow> P x \<Longrightarrow> \<forall>w\<in>set (ws[i := x]). P w"
  using set_update_subset_insert[of ws i x] by blast

lemma job_ok_simps [simp]: "job_ok n None" "job_ok n (Some (Task t)) \<longleftrightarrow> t < n" "job_ok n (Some Noop)"
  by (simp_all add: job_ok_def)

lemma job_ok_mono: "job_ok n j \<Longrightarrow> job_ok (Suc n) j"
  by (auto simp: job_ok_def split: option.splits job.splits)

lemma worker_ok_mono: "worker_ok n w \<Longrightarrow> worker_ok (Suc n) w"
  by (auto simp: worker_ok_def job_ok_mono)

lemma tp_ok_upd:
  assumes ok: "tp_ok s" and i: "i < length (workers s)" and w: "worker_ok (added s) (f (workers s ! i))"
    and t: "w_task (workers s ! i) \<noteq> None \<longrightarrow> w_task (f (workers s ! i)) \<noteq> None"
  shows "tp_ok (upd_worker i f s)"
proof -
  have "\<forall>w\<in>set ((workers s)[i := f (workers s ! i)]). worker_ok (added s) w"
    using ok w by (intro ball_list_update) (simp_all add: tp_ok_def)
  moreover have "w_task ((workers s)[i := f (workers s ! i)] ! j) \<noteq> None" if "w_task (workers s ! j) \<noteq> None" for j
    using that t i by (cases "i = j") simp_all
  ultimately show ?thesis using ok by (auto simp: tp_ok_def upd_worker_def)
qed

lemma worker_keeps:
  assumes ok: "tp_ok s" and step: "workerFunc i s = Some s'"
  shows "tp_ok s'"
proof -
  have i: "i < length (workers s)" using step by (auto simp: workerFunc_def split: if_splits)
  let ?w = "workers s ! i"
  have w: "worker_ok (added s) ?w" using ok i by (auto simp: tp_ok_def)
  show ?thesis
  proof (cases "w_pc ?w = W_Run")
    case True
    then obtain t where t: "w_task ?w = Some t" using w by (auto simp: worker_ok_def)
    have "tp_ok (upd_worker i (w_pc_update (\<lambda>_. W_Busy)) s)"
      using w by (intro tp_ok_upd[OF ok i]) (auto simp: worker_ok_def)
    moreover have "job_ok (added s) (Some t)" using w t by (simp add: worker_ok_def)
    ultimately show ?thesis using step i True t by (auto simp: workerFunc_def Let_def tp_ok_def upd_worker_def)
  next
    case False
    have "\<exists>f. s' = upd_worker i f s \<and> worker_ok (added s) (f ?w) \<and> w_task (f ?w) = w_task ?w"
      using step i False w unfolding workerFunc_def Let_def
      by (cases "w_pc ?w") (auto simp: worker_ok_def split: if_splits)
    then show ?thesis using tp_ok_upd[OF ok i] by auto
  qed
qed

lemma tp_ok_goto:
  assumes "tp_ok s" "job_ok (added s) (m_job pc)" "length (workers s) + m_pending pc \<le> added s"
    "\<And>i. m_index pc = Some i \<Longrightarrow> i < length (workers s) \<and> (m_wrote pc \<longrightarrow> w_task (workers s ! i) \<noteq> None)"
  shows "tp_ok (s\<lparr>m_pc := pc\<rparr>)"
  using assms by (simp add: tp_ok_def)

text \<open>A step that changes worker \<open>i\<close> and goes on to \<open>pc\<close>, still concerned with that worker.\<close>

lemma tp_ok_write:
  assumes "tp_ok s" "i < length (workers s)" "worker_ok (added s) (f (workers s ! i))"
    "w_task (workers s ! i) \<noteq> None \<longrightarrow> w_task (f (workers s ! i)) \<noteq> None"
    "job_ok (added s) (m_job pc)" "length (workers s) + m_pending pc \<le> added s"
    "m_index pc = Some i \<or> m_index pc = None" "m_wrote pc \<longrightarrow> w_task (f (workers s ! i)) \<noteq> None"
  shows "tp_ok ((upd_worker i f s)\<lparr>m_pc := pc\<rparr>)"
  using tp_ok_upd[of s i f, OF assms(1-4)] by (rule tp_ok_goto) (use assms(2,5-8) in \<open>auto simp: upd_worker_def\<close>)

lemma tp_ok_at:
  assumes "tp_ok s" "m_index (m_pc s) = Some i"
  shows "i < length (workers s)" "worker_ok (added s) (workers s ! i)" "m_wrote (m_pc s) \<Longrightarrow> w_task (workers s ! i) \<noteq> None"
  using assms by (auto simp: tp_ok_def)

lemma worker_ok_write:
  "worker_ok n w \<Longrightarrow> worker_ok n (w\<lparr>continueLoop := b\<rparr>)" "worker_ok n w \<Longrightarrow> worker_ok n (w\<lparr>initSymbol := b\<rparr>)"
  "worker_ok n w \<Longrightarrow> worker_ok n (w\<lparr>workingSymbol := True\<rparr>)"
  "worker_ok n w \<Longrightarrow> w_task w \<noteq> None \<Longrightarrow> worker_ok n (w\<lparr>workingSymbol := b\<rparr>)"
  "worker_ok n w \<Longrightarrow> job_ok n (Some j) \<Longrightarrow> worker_ok n (w\<lparr>w_task := Some j\<rparr>)"
  "worker_ok n new_worker"
  by (auto simp: worker_ok_def new_worker_def)

lemma tp_ok_job:
  assumes "tp_ok s"
  shows "job_ok (added s) (m_job (m_pc s))" "length (workers s) + m_pending (m_pc s) \<le> added s"
  using assms by (simp_all add: tp_ok_def)

lemma adder_keeps:
  assumes ok: "tp_ok s" and step: "addTask_step s = Some s'"
  shows "tp_ok s'"
proof -
  note at = tp_ok_at[OF ok] and job = tp_ok_job[OF ok]
  have nth: "i < length (workers s) \<Longrightarrow> worker_ok (added s) (workers s ! i)" for i using ok by (auto simp: tp_ok_def)
  show ?thesis
  proof (cases "m_pc s")
    case M_Idle
    then have "s' = s\<lparr>m_pc := M_Scan (Task (added s)) 0, added := Suc (added s)\<rparr>" using step by (simp add: adder_defs Let_def)
    then show ?thesis using ok M_Idle by (auto simp: tp_ok_def worker_ok_mono job_ok_mono m_pending_def)
  next
    case (M_New f)
    then have "s' = s\<lparr>workers := workers s @ [new_worker], m_pc := M_Spin f (length (workers s))\<rparr>" using step by (simp add: adder_defs Let_def)
    then show ?thesis using ok M_New by (auto simp: tp_ok_def worker_ok_write(6) m_pending_def)
  next
    case (M_Join_All i)
    then show ?thesis using ok step by (auto simp: adder_defs Let_def tp_ok_def m_pending_def split: if_splits)
  next
    case (M_Spin f i)
    then show ?thesis using ok step by (auto simp: adder_defs Let_def tp_ok_def m_pending_def split: if_splits)
  qed (use step at job nth in \<open>auto simp: adder_defs Let_def m_pending_def split: if_splits joiner.splits
        intro!: tp_ok_goto[OF ok] tp_ok_write[OF ok] worker_ok_write\<close>)
qed

lemma tp_ok_step: "tp_step s s' \<Longrightarrow> tp_ok s \<Longrightarrow> tp_ok s'"
proof (induction rule: tp_step.induct)
  case (join_all s s')
  then show ?case by (auto simp: joinAll_def m_pending_def tp_ok_def split: if_splits)
qed (auto intro: adder_keeps worker_keeps)

lemma tp_ok_reach: "tp_step\<^sup>*\<^sup>* (new_ThreadPool n) s \<Longrightarrow> tp_ok s"
proof (induction rule: rtranclp_induct)
  case base
  show ?case by (simp add: tp_ok_def new_ThreadPool_def m_pending_def)
qed (rule tp_ok_step)

text \<open>\<open>currSize\<close> counts the workers, except while a new one starts.\<close>

definition size_ok :: "thread_pool \<Rightarrow> bool" where
  "size_ok s \<longleftrightarrow> currSize s + (case m_pc s of M_Spin f i \<Rightarrow> 1 | _ \<Rightarrow> 0) = length (workers s)"

lemma size_ok_adder: "addTask_step s = Some s' \<Longrightarrow> size_ok s \<Longrightarrow> size_ok s'"
  by (cases "m_pc s") (auto simp: adder_defs upd_worker_def size_ok_def split: if_splits joiner.splits)

lemma size_ok_worker: "workerFunc i s = Some s' \<Longrightarrow> size_ok s \<Longrightarrow> size_ok s'"
  unfolding workerFunc_def Let_def
  by (cases "w_pc (workers s ! i)") (auto simp: upd_worker_def size_ok_def split: if_splits option.splits)

lemma size_ok_join_all: "joinAll s = Some s' \<Longrightarrow> size_ok s \<Longrightarrow> size_ok s'"
  by (auto simp: joinAll_def size_ok_def split: if_splits)

lemma size_ok_reach: "tp_step\<^sup>*\<^sup>* (new_ThreadPool n) s \<Longrightarrow> size_ok s"
proof (induction rule: rtranclp_induct)
  case base
  show ?case by (simp add: size_ok_def new_ThreadPool_def)
next
  case (step s s')
  from step(2,3) show ?case
    by (cases rule: tp_step.cases) (auto intro: size_ok_adder size_ok_worker size_ok_join_all)
qed

text \<open>
  A task is lost when it has been added and not run, and neither a worker nor the adding thread has it any
  more. No step brings it back.
\<close>

definition lost :: "nat \<Rightarrow> thread_pool \<Rightarrow> bool" where
  "lost t s \<longleftrightarrow> t < added s \<and> Task t \<notin> set (served s) \<and> (\<forall>w\<in>set (workers s). w_task w \<noteq> Some (Task t)) \<and> m_job (m_pc s) \<noteq> Some (Task t)"

lemma lost_write:
  assumes "lost t s" "i < length (workers s) \<Longrightarrow> w_task (f (workers s ! i)) \<noteq> Some (Task t)" "m_job pc \<noteq> Some (Task t)"
  shows "lost t ((upd_worker i f s)\<lparr>m_pc := pc\<rparr>)"
proof -
  have "\<forall>w\<in>set ((workers s)[i := f (workers s ! i)]). w_task w \<noteq> Some (Task t)"
  proof (cases "i < length (workers s)")
    case True
    then show ?thesis using assms(1,2) by (intro ball_list_update) (simp_all add: lost_def)
  next
    case False
    then show ?thesis using assms(1) by (simp add: lost_def list_update_beyond)
  qed
  then show ?thesis using assms(1,3) by (simp add: lost_def upd_worker_def)
qed

lemma lost_adder: "lost t s \<Longrightarrow> addTask_step s = Some s' \<Longrightarrow> lost t s'"
proof -
  assume l: "lost t s" and step: "addTask_step s = Some s'"
  have nth: "i < length (workers s) \<Longrightarrow> w_task (workers s ! i) \<noteq> Some (Task t)" for i using l by (auto simp: lost_def)
  have j: "m_job (m_pc s) \<noteq> Some (Task t)" "t < added s" using l by (simp_all add: lost_def)
  have goto: "m_job pc \<noteq> Some (Task t) \<Longrightarrow> lost t (s\<lparr>m_pc := pc\<rparr>)" for pc using l by (simp add: lost_def)
  show "lost t s'"
  proof (cases "m_pc s")
    case M_Idle
    then show ?thesis using l step by (auto simp: adder_defs Let_def lost_def)
  next
    case (M_New f)
    then show ?thesis using l step by (auto simp: adder_defs Let_def lost_def new_worker_def)
  next
    case (M_Join_All i)
    then show ?thesis using l step by (auto simp: adder_defs Let_def lost_def split: if_splits)
  next
    case (M_Spin f i)
    then show ?thesis using l step by (auto simp: adder_defs Let_def lost_def split: if_splits)
  qed (use step nth j in \<open>auto simp: adder_defs Let_def split: if_splits joiner.splits intro!: goto lost_write[OF l]\<close>)
qed

lemma lost_worker: "lost t s \<Longrightarrow> workerFunc i s = Some s' \<Longrightarrow> lost t s'"
proof -
  assume l: "lost t s" and step: "workerFunc i s = Some s'"
  have i: "i < length (workers s)" using step by (auto simp: workerFunc_def split: if_splits)
  let ?w = "workers s ! i"
  have n: "w_task ?w \<noteq> Some (Task t)" using l i by (auto simp: lost_def)
  have w: "lost t (upd_worker i f s)" if "w_task (f ?w) = w_task ?w" for f
    using lost_write[OF l, of i f "m_pc s"] that n l by (simp add: lost_def upd_worker_def)
  have "(\<exists>f. s' = upd_worker i f s \<and> w_task (f ?w) = w_task ?w) \<or>
    (\<exists>j f. w_task ?w = Some j \<and> s' = (upd_worker i f s)\<lparr>served := served s @ [j]\<rparr> \<and> w_task (f ?w) = w_task ?w)"
    using step i unfolding workerFunc_def Let_def
    by (cases "w_pc ?w") (fastforce split: if_splits option.splits)+
  then show "lost t s'" using w n by (auto simp: lost_def upd_worker_def)
qed

lemma lost_join_all: "lost t s \<Longrightarrow> joinAll s = Some s' \<Longrightarrow> lost t s'"
  by (auto simp: joinAll_def lost_def split: if_splits)

lemma lost_for_ever: "tp_step\<^sup>*\<^sup>* s s' \<Longrightarrow> lost t s \<Longrightarrow> lost t s'"
proof (induction rule: rtranclp_induct)
  case (step s1 s2)
  from step(2) step(3)[OF step(4)] show ?case
    by (cases rule: tp_step.cases) (auto intro: lost_adder lost_worker lost_join_all)
qed

definition lost_sched :: "nat option list" where
  "lost_sched = replicate 4 None @ [Some 0, Some 0, None, Some 0, Some 0, Some 0] @ replicate 5 None @ [Some 0] @
     replicate 5 None @ [Some 0, Some 0, Some 0, None]"

definition twice_sched :: "nat option list" where
  "twice_sched = replicate 4 None @ [Some 0, Some 0, None, Some 0, Some 0, Some 0] @ replicate 5 None @ [Some 0] @
     replicate 2 None @ [Some 0, None] @ replicate 8 (Some 0) @ replicate 2 None @ replicate 3 (Some 0)"

lemma lost_run:
  "\<exists>s. run_schedule lost_sched (new_ThreadPool 4) = Some s \<and> m_pc s = M_Idle \<and> added s = 2 \<and> served s = [Task 1] \<and> lost 0 s"
proof -
  have "(case run_schedule lost_sched (new_ThreadPool 4) of None \<Rightarrow> False
    | Some s \<Rightarrow> m_pc s = M_Idle \<and> added s = 2 \<and> served s = [Task 1] \<and> lost 0 s)"
    by code_simp
  then show ?thesis by (auto split: option.splits)
qed

lemma twice_run: "\<exists>s. run_schedule twice_sched (new_ThreadPool 4) = Some s \<and> added s = 2 \<and> served s = [Task 1, Task 1]"
proof -
  have "(case run_schedule twice_sched (new_ThreadPool 4) of None \<Rightarrow> False | Some s \<Rightarrow> added s = 2 \<and> served s = [Task 1, Task 1])"
    by code_simp
  then show ?thesis by (auto split: option.splits)
qed

section \<open>Properties\<close>

text \<open>
  C10: what the thread pool guarantees. In every interleaving, only tasks that were added are run, no worker ever calls an
  empty \<open>std::function\<close>, there are never more workers than added tasks, and between calls \<open>size\<close> is the number of workers.
\<close>

theorem thread_pool_runs_added_tasks:
  assumes "tp_step\<^sup>*\<^sup>* (new_ThreadPool n) s"
  shows "(\<forall>t. Task t \<in> set (served s) \<longrightarrow> t < added s) \<and> (\<forall>w\<in>set (workers s). w_pc w \<noteq> W_Bad_Call) \<and> length (workers s) \<le> added s \<and>
    (m_pc s = M_Idle \<longrightarrow> pool_size s = length (workers s))"
  using tp_ok_reach[OF assms] size_ok_reach[OF assms] by (auto simp: tp_ok_def worker_ok_def size_ok_def pool_size_def)

theorem thread_pool_runs_added_tasks_witness:
  "\<exists>s. run_schedule twice_sched (new_ThreadPool 4) = Some s \<and> length (workers s) \<le> 2 \<and> served s = [Task 1, Task 1]"
  using twice_run thread_pool_runs_added_tasks[OF run_schedule_reaches, of twice_sched 4] by fastforce

text \<open>
  C11: what it does not guarantee. \<open>newWorker\<close> hands its worker out before that worker has announced that it waits, so that \<open>go\<close> returns
  before the task is taken. The next \<open>addTask\<close> then finds the same worker waiting and overwrites the task. There are runs of two
  connections in which the first is never served, however the pool goes on, and runs in which the second is
  served twice.
\<close>

theorem thread_pool_loses_and_repeats_tasks:
  "(\<exists>s. tp_step\<^sup>*\<^sup>* (new_ThreadPool 4) s \<and> m_pc s = M_Idle \<and> added s = 2 \<and>
      \<not> (\<exists>s'. tp_step\<^sup>*\<^sup>* s s' \<and> Task 0 \<in> set (served s'))) \<and>
   (\<exists>s. tp_step\<^sup>*\<^sup>* (new_ThreadPool 4) s \<and> added s = 2 \<and> served s = [Task 1, Task 1])"
proof
  from lost_run obtain s where s: "run_schedule lost_sched (new_ThreadPool 4) = Some s" "m_pc s = M_Idle" "added s = 2" "lost 0 s" by blast
  have "\<not> (\<exists>s'. tp_step\<^sup>*\<^sup>* s s' \<and> Task 0 \<in> set (served s'))" using lost_for_ever[OF _ s(4)] by (auto simp: lost_def)
  with s show "\<exists>s. tp_step\<^sup>*\<^sup>* (new_ThreadPool 4) s \<and> m_pc s = M_Idle \<and> added s = 2 \<and> \<not> (\<exists>s'. tp_step\<^sup>*\<^sup>* s s' \<and> Task 0 \<in> set (served s'))"
    using run_schedule_reaches by blast
  show "\<exists>s. tp_step\<^sup>*\<^sup>* (new_ThreadPool 4) s \<and> added s = 2 \<and> served s = [Task 1, Task 1]"
    using twice_run run_schedule_reaches by blast
qed

end
