(* ===== verification/Rlib_String.thy ===== *)
theory Rlib_String
  imports Cxx_Exec
begin

text \<open>
  The string utilities of \<open>src/src/native/src/lib/rlib/string.hpp\<close>: \<open>split\<close>, \<open>join\<close>, \<open>strip\<close>,
  \<open>replace\<close>, the conversions \<open>as<T>\<close>, and the two formatters. A string is a list of characters; the
  members of \<open>std::string\<close> they use (\<open>find\<close>, \<open>erase\<close>, \<open>replace\<close>, \<open>find_first_not_of\<close>) and
  \<open>stoi\<close>, \<open>stoul\<close> are modelled after the C++ standard. A loop that need not end is a partial function
  whose value \<open>None\<close> says that it does not return.
\<close>

section \<open>Definitions\<close>

subsection \<open>The standard library\<close>

definition std_find :: "string \<Rightarrow> string \<Rightarrow> nat \<Rightarrow> nat option" where
  "std_find needle s pos = find (\<lambda>i. take (length needle) (drop i s) = needle) [pos..<Suc (length s)]"

definition std_erase :: "string \<Rightarrow> nat \<Rightarrow> nat \<Rightarrow> string" where
  "std_erase s pos n = take pos s @ drop (pos + n) s"

definition std_replace :: "string \<Rightarrow> nat \<Rightarrow> nat \<Rightarrow> string \<Rightarrow> string" where
  "std_replace s pos n to = take pos s @ to @ drop (pos + n) s"

definition find_first_not_of :: "string \<Rightarrow> string \<Rightarrow> nat option" where
  "find_first_not_of s cs = find (\<lambda>i. s ! i \<notin> set cs) [0..<length s]"

definition find_last_not_of :: "string \<Rightarrow> string \<Rightarrow> nat option" where
  "find_last_not_of s cs = find (\<lambda>i. s ! i \<notin> set cs) (rev [0..<length s])"

definition is_space :: "char \<Rightarrow> bool" where
  "is_space c \<longleftrightarrow> c \<in> set [CHR '' '', CHR 0x09, CHR 0x0A, CHR 0x0B, CHR 0x0C, CHR 0x0D]"

definition is_digit :: "char \<Rightarrow> bool" where
  "is_digit c \<longleftrightarrow> 48 \<le> (of_char c :: nat) \<and> (of_char c :: nat) \<le> 57"

definition digits_val :: "string \<Rightarrow> int" where
  "digits_val ds = foldl (\<lambda>n c. n * 10 + (of_char c - 48)) 0 ds"

text \<open>\<open>strtol\<close> and \<open>strtoul\<close>: white space, a sign, digits; the rest is ignored.\<close>

definition std_sign :: "string \<Rightarrow> bool \<times> string" where
  "std_sign s = (case s of c # cs \<Rightarrow> if c = CHR ''-'' then (True, cs) else if c = CHR ''+'' then (False, cs) else (False, s)
                 | [] \<Rightarrow> (False, []))"

definition std_scan :: "string \<Rightarrow> (bool \<times> int) option" where
  "std_scan s =
     (let (neg, r) = std_sign (dropWhile is_space s); ds = takeWhile is_digit r
      in if ds = [] then None else Some (neg, digits_val ds))"

definition stoi :: "string \<Rightarrow> exn + int" where
  "stoi s =
     (case std_scan s of
        None \<Rightarrow> Inl (Invalid_argument ''stoi'')
      | Some (neg, n) \<Rightarrow>
          let v = (if neg then - n else n) in
          if v < - (2 ^ 31) \<or> 2 ^ 31 \<le> v then Inl (Out_of_range ''stoi'') else Inr v)"

definition stoul :: "string \<Rightarrow> exn + u64" where
  "stoul s =
     (case std_scan s of
        None \<Rightarrow> Inl (Invalid_argument ''stoul'')
      | Some (neg, n) \<Rightarrow>
          if 2 ^ 64 \<le> n then Inl (Out_of_range ''stoul'')
          else Inr (if neg then - of_int n else of_int n))"

definition stoll :: "string \<Rightarrow> exn + int" where
  "stoll s =
     (case std_scan s of
        None \<Rightarrow> Inl (Invalid_argument ''stoll'')
      | Some (neg, n) \<Rightarrow>
          let v = (if neg then - n else n) in
          if v < - (2 ^ 63) \<or> 2 ^ 63 \<le> v then Inl (Out_of_range ''stoll'') else Inr v)"

subsection \<open>\<open>as<T>\<close>\<close>

text \<open>A class type is made from the string, an empty one without arguments; a C string is what comes before the first NUL.\<close>

definition as_object :: "'t \<Rightarrow> (string \<Rightarrow> exn + 't) \<Rightarrow> string \<Rightarrow> exn + 't" where
  "as_object dflt construct s = (if s = [] then Inr dflt else construct s)"

definition as_cstr :: "string \<Rightarrow> string" where
  "as_cstr s = takeWhile (\<lambda>c. c \<noteq> CHR 0x00) s"

definition as_string :: "string \<Rightarrow> string" where
  "as_string s = s"

definition as_char :: "string \<Rightarrow> exn + char" where
  "as_char s =
     (if length s > 1 then Inl (Invalid_argument ''Can not convert rlib::string to char: size() > 1.'')
      else Inr (if length s = 0 then CHR 0x00 else s ! 0))"

definition as_bool :: "string \<Rightarrow> exn + bool" where
  "as_bool s =
     (if s = ''true'' then Inr True
      else if s = ''false'' then Inr False
      else if s = ''1'' \<or> s = ''True'' \<or> s = ''TRUE'' then Inr True
      else if s = ''0'' \<or> s = ''False'' \<or> s = ''FALSE'' then Inr False
      else Inl (Invalid_argument ''Can not convert rlib::string to bool. Not matching any template.''))"

definition as_int :: "string \<Rightarrow> exn + int" where
  "as_int s = (if s = [] then Inr 0 else stoi s)"

definition as_ulong :: "string \<Rightarrow> exn + u64" where
  "as_ulong s = (if s = [] then Inr 0 else stoul s)"

definition as_ushort :: "string \<Rightarrow> exn + u16" where
  "as_ushort s = map_sum id ucast (as_ulong s)"

definition as_longlong :: "string \<Rightarrow> exn + int" where
  "as_longlong s = (if s = [] then Inr 0 else stoll s)"

definition as_uint :: "string \<Rightarrow> exn + u32" where
  "as_uint s = map_sum id ucast (as_ulong s)"

definition as_uint8 :: "string \<Rightarrow> exn + byte" where
  "as_uint8 s = map_sum id ucast (as_ulong s)"

definition as_int8 :: "string \<Rightarrow> exn + byte" where
  "as_int8 s = map_sum id of_int (as_int s)"

definition as_short :: "string \<Rightarrow> exn + u16" where
  "as_short s = map_sum id of_int (as_int s)"

subsection \<open>\<open>split\<close> and \<open>join\<close>\<close>

partial_function (option) split_loop ::
  "string \<Rightarrow> string \<Rightarrow> nat \<Rightarrow> nat \<Rightarrow> string list \<Rightarrow> string list option" where
  "split_loop divider s cur prev buf =
     (case std_find divider s cur of
        None \<Rightarrow> Some (buf @ [drop prev s])
      | Some i \<Rightarrow>
          split_loop divider s (i + length divider) (i + length divider) (buf @ [take (i - prev) (drop prev s)]))"

definition split_char :: "char \<Rightarrow> string \<Rightarrow> string list option" where
  "split_char divider s = split_loop [divider] s 0 0 []"

definition split_string :: "string \<Rightarrow> string \<Rightarrow> string list option" where
  "split_string divider s = split_loop divider s 0 0 []"

text \<open>\<open>split_as\<close> converts each piece as it is cut; the first conversion that throws ends the loop.\<close>

partial_function (option) split_as_loop ::
  "(string \<Rightarrow> exn + 'a) \<Rightarrow> string \<Rightarrow> string \<Rightarrow> nat \<Rightarrow> nat \<Rightarrow> 'a list \<Rightarrow> (exn + 'a list) option" where
  "split_as_loop conv divider s cur prev buf =
     (case std_find divider s cur of
        None \<Rightarrow> Some (map_sum id (\<lambda>x. buf @ [x]) (conv (drop prev s)))
      | Some i \<Rightarrow>
          (case conv (take (i - prev) (drop prev s)) of
             Inl e \<Rightarrow> Some (Inl e)
           | Inr x \<Rightarrow> split_as_loop conv divider s (i + length divider) (i + length divider) (buf @ [x])))"

definition split_as_char :: "(string \<Rightarrow> exn + 'a) \<Rightarrow> char \<Rightarrow> string \<Rightarrow> (exn + 'a list) option" where
  "split_as_char conv divider s = split_as_loop conv [divider] s 0 0 []"

definition split_as_string :: "(string \<Rightarrow> exn + 'a) \<Rightarrow> string \<Rightarrow> string \<Rightarrow> (exn + 'a list) option" where
  "split_as_string conv divider s = split_as_loop conv divider s 0 0 []"

definition rs_join :: "string \<Rightarrow> string list \<Rightarrow> string" where
  "rs_join toJoin buffer =
     snd (foldl (\<lambda>(first, result) x. (False, (if first then result else result @ toJoin) @ x)) (True, []) buffer)"

subsection \<open>\<open>strip\<close> and \<open>replace\<close>\<close>

definition rs_strip :: "string \<Rightarrow> string \<Rightarrow> string" where
  "rs_strip stripped s =
     (case find_first_not_of s stripped of
        None \<Rightarrow> []
      | Some begin \<Rightarrow>
          (case find_last_not_of s stripped of
             None \<Rightarrow> []
           | Some e \<Rightarrow> std_erase (std_erase s (e + 1) (length s - e - 1)) 0 begin))"

definition rs_strip_space :: "string \<Rightarrow> string" where
  "rs_strip_space s = rs_strip [CHR '' '', CHR 0x09, CHR 0x0D, CHR 0x0A] s"

partial_function (option) replace_loop ::
  "string \<Rightarrow> string \<Rightarrow> string \<Rightarrow> nat \<Rightarrow> nat \<Rightarrow> (string \<times> nat) option" where
  "replace_loop from to s start_pos n =
     (case std_find from s start_pos of
        None \<Rightarrow> Some (s, n)
      | Some i \<Rightarrow> replace_loop from to (std_replace s i (length from) to) (i + length to) (n + 1))"

text \<open>The string, and the value of \<open>out_times\<close> when it is assigned.\<close>

definition rs_replace :: "string \<Rightarrow> string \<Rightarrow> string \<Rightarrow> (string \<times> nat option) option" where
  "rs_replace from to s =
     (if from = [] then Some (s, None)
      else map_option (apsnd Some) (replace_loop from to s 0 0))"

definition rs_replace_once :: "string \<Rightarrow> string \<Rightarrow> string \<Rightarrow> string \<times> bool" where
  "rs_replace_once from to s =
     (case std_find from s 0 of
        None \<Rightarrow> (s, False)
      | Some start_pos \<Rightarrow> (std_replace s start_pos (length from) to, True))"

subsection \<open>\<open>format_string\<close>\<close>

text \<open>The arguments are given as \<open>to_string_by_sstream\<close> prints them.\<close>

definition placeholder :: string where "placeholder = ''{}''"

definition escaped_placeholder :: string where "escaped_placeholder = CHR 0x5C # ''{}''"

partial_function (option) unescape_loop :: "string \<Rightarrow> nat \<Rightarrow> string option" where
  "unescape_loop s pos =
     (case std_find escaped_placeholder s pos of
        None \<Rightarrow> Some s
      | Some i \<Rightarrow> unescape_loop (std_erase s i 1) (i + 2))"

definition not_enough_args :: "string \<Rightarrow> nat \<Rightarrow> nat \<Rightarrow> exn" where
  "not_enough_args fmt expecting got =
     Out_of_range (''format_string: not enough arguments for format string `'' @ fmt @ ''`. Expecting at least '' @
       to_string expecting @ '', got '' @ to_string got)"

definition too_many_args :: "string \<Rightarrow> nat \<Rightarrow> nat \<Rightarrow> exn" where
  "too_many_args fmt expecting got =
     Out_of_range (''format_string: too many arguments for format string `'' @ fmt @ ''`. Expecting '' @
       to_string expecting @ '', got '' @ to_string got)"

partial_function (option) format_loop ::
  "string \<Rightarrow> string list \<Rightarrow> nat \<Rightarrow> nat \<Rightarrow> nat \<Rightarrow> bool \<Rightarrow> string \<Rightarrow> (exn + string) option" where
  "format_loop fmt args pos prev_pos current_used_arg discovered_escape_char ss =
     (case std_find placeholder fmt pos of
        None \<Rightarrow>
          Some (if current_used_arg \<noteq> length args
                then Inl (too_many_args fmt current_used_arg (length args))
                else Inr (ss @ drop prev_pos fmt))
      | Some i \<Rightarrow>
          (if i \<noteq> 0 \<and> fmt ! (i - 1) = CHR 0x5C
           then format_loop fmt args (i + 2) prev_pos current_used_arg True ss
           else
             Option.bind (if discovered_escape_char then unescape_loop (take (i - prev_pos) (drop prev_pos fmt)) 0
                          else Some (take (i - prev_pos) (drop prev_pos fmt))) (\<lambda>cutted_tmp_str.
             if length args \<le> current_used_arg
             then Some (Inl (not_enough_args fmt (current_used_arg + 1) (length args)))
             else format_loop fmt args (i + 2) (i + 2) (current_used_arg + 1) discovered_escape_char
                    (ss @ cutted_tmp_str @ args ! current_used_arg))))"

definition format_string :: "string \<Rightarrow> string list \<Rightarrow> (exn + string) option" where
  "format_string fmt args = format_loop fmt args 0 0 0 False []"

subsection \<open>\<open>format_string_c\<close>\<close>

text \<open>
  \<open>out\<close> is the text \<open>vsnprintf\<close> makes of the arguments, \<open>None\<close> when it reports an error: it writes at most
  \<open>size - 1\<close> characters of it and returns its full length.
\<close>

definition vsnprintf :: "string option \<Rightarrow> nat \<Rightarrow> int \<times> string" where
  "vsnprintf out sz = (case out of None \<Rightarrow> (-1, []) | Some t \<Rightarrow> (int (length t), take (sz - 1) t))"

partial_function (option) cformat_loop :: "string option \<Rightarrow> nat \<Rightarrow> (exn + string) option" where
  "cformat_loop out sz =
     (let (n, p) = vsnprintf out sz in
      if n < 0 then Some (Inl (Runtime_error ''vsnprintf returns ''))
      else if n < int sz then Some (Inr p)
      else cformat_loop out (nat (n + 1)))"

definition format_string_c :: "string \<Rightarrow> string option \<Rightarrow> (exn + string) option" where
  "format_string_c fmt out =
     map_option (map_sum id (takeWhile (\<lambda>c. c \<noteq> CHR 0x00))) (cformat_loop out (length fmt))"

subsection \<open>Members and literals for formatting\<close>

text \<open>\<open>format\<close> and \<open>cformat\<close> replace the string by the result; \<open>_format\<close> takes its text as a C string.\<close>

definition rs_format :: "string \<Rightarrow> string list \<Rightarrow> (exn + string) option" where
  "rs_format self args = format_string self args"

definition rs_cformat :: "string \<Rightarrow> string option \<Rightarrow> (exn + string) option" where
  "rs_cformat self out = format_string_c self out"

record formatter =
  formatter_fmt :: string

definition new_formatter :: "string \<Rightarrow> formatter" where
  "new_formatter fmt = \<lparr>formatter_fmt = fmt\<rparr>"

definition formatter_call :: "formatter \<Rightarrow> string list \<Rightarrow> (exn + string) option" where
  "formatter_call f args = format_string (formatter_fmt f) args"

definition literal_format :: "string \<Rightarrow> formatter" where
  "literal_format str = new_formatter (takeWhile (\<lambda>c. c \<noteq> CHR 0x00) str)"

definition literal_rs :: "string \<Rightarrow> nat \<Rightarrow> string" where
  "literal_rs str len = take len str"

section \<open>Finding\<close>

lemma find_upt_Some:
  "find P [a..<b] = Some i \<longleftrightarrow> a \<le> i \<and> i < b \<and> P i \<and> (\<forall>j. a \<le> j \<and> j < i \<longrightarrow> \<not> P j)"
proof -
  have "find P [a..<b] = Some i \<longleftrightarrow> (\<exists>k. k < b - a \<and> P (a + k) \<and> i = a + k \<and> (\<forall>j<k. \<not> P (a + j)))"
    by (auto simp: find_Some_iff)
  also have "\<dots> \<longleftrightarrow> a \<le> i \<and> i < b \<and> P i \<and> (\<forall>j. a \<le> j \<and> j < i \<longrightarrow> \<not> P j)"
  proof
    assume r: "a \<le> i \<and> i < b \<and> P i \<and> (\<forall>j. a \<le> j \<and> j < i \<longrightarrow> \<not> P j)"
    then have "i - a < b - a \<and> P (a + (i - a)) \<and> i = a + (i - a) \<and> (\<forall>j<i - a. \<not> P (a + j))" by auto
    then show "\<exists>k. k < b - a \<and> P (a + k) \<and> i = a + k \<and> (\<forall>j<k. \<not> P (a + j))" by blast
  qed (auto, metis le_iff_add nat_add_left_cancel_less)
  finally show ?thesis .
qed

lemma find_upt_None: "find P [a..<b] = None \<longleftrightarrow> (\<forall>j. a \<le> j \<and> j < b \<longrightarrow> \<not> P j)"
  by (auto simp: find_None_iff)

lemma find_map_option: "find P (map f xs) = map_option f (find (\<lambda>x. P (f x)) xs)"
  by (induction xs) auto

lemma std_find_Some_iff:
  "std_find n s p = Some i \<longleftrightarrow> p \<le> i \<and> i \<le> length s \<and> take (length n) (drop i s) = n \<and>
    (\<forall>j. p \<le> j \<and> j < i \<longrightarrow> take (length n) (drop j s) \<noteq> n)"
  unfolding std_find_def find_upt_Some by auto

lemma std_find_None_iff:
  "std_find n s p = None \<longleftrightarrow> (\<forall>j. p \<le> j \<and> j \<le> length s \<longrightarrow> take (length n) (drop j s) \<noteq> n)"
  unfolding std_find_def find_upt_None by auto

lemma find_progress:
  "d \<noteq> [] \<Longrightarrow> p \<le> length s \<Longrightarrow> i + length d \<le> length (drop p s) \<Longrightarrow>
   length s - (p + i + length d) < length s - p \<and> p + i + length d \<le> length s"
  by (cases d) auto

lemma drop_shorter: "d \<noteq> [] \<Longrightarrow> i + length d \<le> length s \<Longrightarrow> length (drop (i + length d) s) < length s"
  by (cases d) auto

lemma std_find_SomeD:
  assumes "std_find n s p = Some i"
  shows "p \<le> i" "i + length n \<le> length s" "take (length n) (drop i s) = n" "s = take i s @ n @ drop (i + length n) s"
proof -
  show p: "p \<le> i" and n: "take (length n) (drop i s) = n" using assms by (auto simp: std_find_Some_iff)
  have i: "i \<le> length s" using assms by (auto simp: std_find_Some_iff)
  have "length (take (length n) (drop i s)) = length n" using n by simp
  then show "i + length n \<le> length s" using i by (auto simp: min_def split: if_splits)
  have "s = take i s @ take (length n) (drop i s) @ drop (length n) (drop i s)" by (simp only: append_take_drop_id)
  then show "s = take i s @ n @ drop (i + length n) s" using n by (simp add: add.commute)
qed

lemma std_find_shift:
  assumes "p \<le> length s"
  shows "std_find n s p = map_option ((+) p) (std_find n (drop p s) 0)"
proof -
  have "[p..<Suc (length s)] = map ((+) p) [0..<Suc (length s - p)]"
    using assms map_add_upt[of p "Suc (length s - p)"] by (simp add: add.commute[of _ p] del: upt_Suc)
  then show ?thesis by (simp add: std_find_def find_map_option add.commute del: upt_Suc)
qed

text \<open>In \<open>x @ n @ y\<close> the first occurrence of \<open>n\<close> is the one shown, or an earlier one.\<close>

lemma std_find_prefix_None:
  assumes "std_find n s 0 = Some i" shows "std_find n (take i s) 0 = None \<or> n = []"
proof (cases "n = []")
  case False
  have "take (length n) (drop j (take i s)) \<noteq> n" if "j \<le> i" for j
  proof
    assume m: "take (length n) (drop j (take i s)) = n"
    then have "length (take (length n) (drop j (take i s))) = length n" by simp
    then have l: "j + length n \<le> i" "j < i" using that False by (cases n; auto simp: min_def split: if_splits)+
    have "take (length n) (drop j s) = n" using m l by (simp add: drop_take min_absorb1)
    then show False using assms l False by (auto simp: std_find_Some_iff)
  qed
  then show ?thesis by (auto simp: std_find_None_iff)
qed simp

section \<open>\<open>split\<close>, \<open>join\<close> and \<open>replace\<close>\<close>

text \<open>The pieces between the occurrences of a divider.\<close>

function split_ref :: "string \<Rightarrow> string \<Rightarrow> string list" where
  "split_ref d s =
     (if d = [] then [s]
      else case std_find d s 0 of
             None \<Rightarrow> [s]
           | Some i \<Rightarrow> take i s # split_ref d (drop (i + length d) s))"
  by auto
termination
  by (relation "measure (\<lambda>(d, s). length s)") (auto dest!: std_find_SomeD(2) drop_shorter)

declare split_ref.simps [simp del]

lemma split_ref_nonempty [simp]: "split_ref d s \<noteq> []"
  by (subst split_ref.simps) (simp split: option.split)

lemma split_loop_ref:
  assumes "d \<noteq> []" "p \<le> length s"
  shows "split_loop d s p p buf = Some (buf @ split_ref d (drop p s))"
  using assms
proof (induction "length s - p" arbitrary: p buf rule: less_induct)
  case less
  show ?case
  proof (cases "std_find d (drop p s) 0")
    case None
    with less.prems show ?thesis
      by (subst split_loop.simps, subst split_ref.simps) (simp add: std_find_shift[OF less.prems(2)])
  next
    case (Some i)
    note i = std_find_SomeD(2)[OF Some]
    have "split_loop d s (p + i + length d) (p + i + length d) (buf @ [take i (drop p s)]) =
        Some ((buf @ [take i (drop p s)]) @ split_ref d (drop (p + i + length d) s))"
      using find_progress[OF less.prems i] less.prems(1) by (intro less.hyps) simp_all
    moreover have "std_find d s p = Some (p + i)" using Some by (simp add: std_find_shift[OF less.prems(2)])
    ultimately show ?thesis using less.prems Some
      by (subst split_loop.simps, subst split_ref.simps) (simp add: add.commute add.left_commute)
  qed
qed

lemma split_loop_empty: "split_loop [] s p q buf = Some r \<Longrightarrow> p \<le> length s \<Longrightarrow> False"
proof -
  assume ret: "split_loop [] s p q buf = Some r" and p: "p \<le> length s"
  have "d = [] \<longrightarrow> p \<le> length s \<longrightarrow> False" if "split_loop d s p q buf = Some r" for d
  proof (rule split_loop.raw_induct[OF _ that, where P = "\<lambda>d s p q buf r. d = [] \<longrightarrow> p \<le> length s \<longrightarrow> False"])
    fix f and d s :: string and p q :: nat and buf r
    assume IH: "\<And>d s p q buf r. f d s p q buf = Some r \<Longrightarrow> d = [] \<longrightarrow> p \<le> length s \<longrightarrow> False"
      and eq: "(case std_find d s p of None \<Rightarrow> Some (buf @ [drop q s])
        | Some i \<Rightarrow> f d s (i + length d) (i + length d) (buf @ [take (i - q) (drop q s)])) = Some r"
    show "d = [] \<longrightarrow> p \<le> length s \<longrightarrow> False"
    proof (intro impI)
      assume d: "d = []" and p: "p \<le> length s"
      have "std_find d s p = Some p" using d p by (simp add: std_find_Some_iff)
      then show False using IH[of d s p p] eq d p by simp
    qed
  qed
  then show False using ret p by blast
qed

lemma rs_join_fold:
  "snd (foldl (\<lambda>(first, result) x. (False, (if first then result else result @ sep) @ x)) (False, r) xs) =
   r @ concat (map (\<lambda>x. sep @ x) xs)"
  by (induction xs arbitrary: r) auto

lemma rs_join_simps [simp]:
  "rs_join sep [] = []" "rs_join sep [x] = x" "ys \<noteq> [] \<Longrightarrow> rs_join sep (x # ys) = x @ sep @ rs_join sep ys"
  by (simp_all add: rs_join_def rs_join_fold neq_Nil_conv) (auto simp: rs_join_fold)

lemma join_split_ref: "d \<noteq> [] \<Longrightarrow> rs_join d (split_ref d s) = s"
proof (induction "length s" arbitrary: s rule: less_induct)
  case less
  show ?case
  proof (cases "std_find d s 0")
    case None
    then show ?thesis by (subst split_ref.simps) simp
  next
    case (Some i)
    note i = std_find_SomeD[OF Some]
    have "rs_join d (split_ref d (drop (i + length d) s)) = drop (i + length d) s"
      by (rule less.hyps) (use drop_shorter[OF less.prems i(2)] less.prems in auto)
    then show ?thesis using Some less.prems i(4) by (subst split_ref.simps) simp
  qed
qed

lemma split_ref_pieces: "d \<noteq> [] \<Longrightarrow> x \<in> set (split_ref d s) \<Longrightarrow> std_find d x 0 = None"
proof (induction "length s" arbitrary: s rule: less_induct)
  case less
  show ?case
  proof (cases "std_find d s 0")
    case None
    then show ?thesis using less.prems by (subst (asm) split_ref.simps) simp
  next
    case (Some i)
    have "x = take i s \<or> x \<in> set (split_ref d (drop (i + length d) s))"
      using less.prems Some by (subst (asm) split_ref.simps) simp
    then show ?thesis
    proof
      assume "x = take i s"
      then show ?thesis using std_find_prefix_None[OF Some] less.prems(1) by simp
    next
      assume "x \<in> set (split_ref d (drop (i + length d) s))"
      then show ?thesis using drop_shorter[OF less.prems(1) std_find_SomeD(2)[OF Some]] less.prems(1) by (intro less.hyps)
    qed
  qed
qed

lemma replace_loop_ref:
  assumes "from \<noteq> []" "p \<le> length s"
  shows "replace_loop from to s p n =
    Some (take p s @ rs_join to (split_ref from (drop p s)), n + (length (split_ref from (drop p s)) - 1))"
  using assms
proof (induction "length s - p" arbitrary: s p n rule: less_induct)
  case less
  show ?case
  proof (cases "std_find from (drop p s) 0")
    case None
    with less.prems show ?thesis
      by (subst replace_loop.simps, subst (1 2) split_ref.simps) (simp add: std_find_shift[OF less.prems(2)])
  next
    case (Some i)
    note i = std_find_SomeD[OF Some]
    let ?s = "std_replace s (p + i) (length from) to" and ?p = "p + i + length to"
    have d: "drop ?p ?s = drop (p + i + length from) s" "take ?p ?s = take (p + i) s @ to"
      using i(2) less.prems by (auto simp: std_replace_def)
    have l: "length ?s - ?p = length s - (p + i + length from)"
      using arg_cong[OF d(1), of length] by simp
    have le: "?p \<le> length ?s" using i(2) less.prems by (simp add: std_replace_def)
    have "replace_loop from to ?s ?p (n + 1) =
      Some (take ?p ?s @ rs_join to (split_ref from (drop ?p ?s)), n + 1 + (length (split_ref from (drop ?p ?s)) - 1))"
      by (rule less.hyps[OF _ less.prems(1) le]) (use find_progress[OF less.prems i(2)] l in simp)
    moreover have "std_find from s p = Some (p + i)" using Some by (simp add: std_find_shift[OF less.prems(2)])
    moreover have "take (p + i) s = take p s @ take i (drop p s)" by (simp add: take_add)
    moreover have "split_ref from (drop p s) = take i (drop p s) # split_ref from (drop (p + i + length from) s)"
      using Some less.prems(1) by (subst split_ref.simps) (simp add: add.commute add.left_commute)
    ultimately show ?thesis by (subst replace_loop.simps) (simp add: d)
  qed
qed

section \<open>Formatting\<close>

text \<open>Format text and arguments in turn, for a format text given as the pieces between its placeholders.\<close>

fun interleave :: "string list \<Rightarrow> string list \<Rightarrow> string" where
  "interleave [] args = []"
| "interleave (p # ps) [] = p"
| "interleave (p # ps) (a # args) = p @ a @ interleave ps args"

text \<open>\<open>n\<close> arguments for the pieces of a format text.\<close>

definition format_ref :: "string \<Rightarrow> string list \<Rightarrow> string list \<Rightarrow> exn + string" where
  "format_ref fmt ps args =
     (if length args + 1 < length ps then Inl (not_enough_args fmt (length args + 1) (length args))
      else if length ps < length args + 1 then Inl (too_many_args fmt (length ps - 1) (length args))
      else Inr (interleave ps args))"

lemma escaped_before_placeholder:
  assumes "take 2 (drop i s) = placeholder" "i \<noteq> 0" "s ! (i - 1) = CHR 0x5C"
  shows "take 3 (drop (i - 1) s) = escaped_placeholder"
proof -
  have "drop i s \<noteq> []" using assms(1) by (auto simp: placeholder_def)
  then have "i < length s" by simp
  then have "drop (i - 1) s = s ! (i - 1) # drop i s" using assms(2) by (metis Cons_nth_drop_Suc Suc_pred' bot_nat_0.not_eq_extremum less_imp_diff_less)
  then show ?thesis using assms by (simp add: escaped_placeholder_def placeholder_def numeral_3_eq_3 numeral_2_eq_2)
qed

lemma format_loop_ref:
  assumes "std_find escaped_placeholder fmt 0 = None" "p \<le> length fmt" "k \<le> length args"
    "split_ref placeholder (drop p fmt) = ps"
  shows "format_loop fmt args p p k False ss =
    Some (if length args + 1 < length ps + k then Inl (not_enough_args fmt (length args + 1) (length args))
      else if length ps + k < length args + 1 then Inl (too_many_args fmt (length ps + k - 1) (length args))
      else Inr (ss @ interleave ps (drop k args)))"
  using assms(2-4)
proof (induction ps arbitrary: p k ss)
  case Nil
  then show ?case by simp
next
  case (Cons x ps)
  have ph: "placeholder \<noteq> []" "length placeholder = 2" by (simp_all add: placeholder_def)
  show ?case
  proof (cases "std_find placeholder (drop p fmt) 0")
    case None
    then have "x = drop p fmt" "ps = []" using Cons.prems(3) ph(1) by (simp_all add: split_ref.simps[of placeholder "drop p fmt"])
    then show ?thesis using None Cons.prems(2)
      by (subst format_loop.simps) (auto simp: std_find_shift[OF Cons.prems(1)])
  next
    case (Some i)
    note i = std_find_SomeD[OF Some]
    have f: "std_find placeholder fmt p = Some (p + i)" using Some by (simp add: std_find_shift[OF Cons.prems(1)])
    have ne: "\<not> (p + i \<noteq> 0 \<and> fmt ! (p + i - 1) = CHR 0x5C)"
    proof
      assume "p + i \<noteq> 0 \<and> fmt ! (p + i - 1) = CHR 0x5C"
      moreover have "take 2 (drop (p + i) fmt) = placeholder" using i(3) ph(2) by (simp add: add.commute)
      ultimately have "take 3 (drop (p + i - 1) fmt) = escaped_placeholder" by (intro escaped_before_placeholder) auto
      moreover have "p + i - 1 \<le> length fmt" using i(2) Cons.prems(1) by simp
      ultimately show False using assms(1) by (auto simp: std_find_None_iff escaped_placeholder_def numeral_3_eq_3)
    qed
    have sp: "x = take i (drop p fmt)" "split_ref placeholder (drop (p + i + 2) fmt) = ps"
      using Some Cons.prems(3) ph
      by (simp_all add: split_ref.simps[of placeholder "drop p fmt"] add.commute add.left_commute)
    then have "ps \<noteq> []" using split_ref_nonempty by auto
    show ?thesis
    proof (cases "k < length args")
      case False
      then have "k = length args" using Cons.prems(2) by simp
      then show ?thesis using ne \<open>ps \<noteq> []\<close> by (subst format_loop.simps) (auto simp: f)
    next
      case True
      then have d: "drop k args = args ! k # drop (k + 1) args" by (simp add: Cons_nth_drop_Suc)
      have "format_loop fmt args (p + i + 2) (p + i + 2) (k + 1) False (ss @ x @ args ! k) =
        Some (if length args + 1 < length ps + (k + 1) then Inl (not_enough_args fmt (length args + 1) (length args))
          else if length ps + (k + 1) < length args + 1 then Inl (too_many_args fmt (length ps + (k + 1) - 1) (length args))
          else Inr ((ss @ x @ args ! k) @ interleave ps (drop (k + 1) args)))"
        using find_progress[OF ph(1) Cons.prems(1) i(2)] ph(2) True sp(2) by (intro Cons.IH) simp_all
      moreover have "format_loop fmt args p p k False ss = format_loop fmt args (p + i + 2) (p + i + 2) (k + 1) False (ss @ x @ args ! k)"
        using True ne sp(1) by (subst format_loop.simps) (auto simp: f)
      ultimately show ?thesis using d by simp
    qed
  qed
qed

lemma dropWhile_from_first:
  "find_first_not_of s cs = Some b \<Longrightarrow> dropWhile (\<lambda>c. c \<in> set cs) s = drop b s"
  unfolding find_first_not_of_def find_upt_Some
  by (metis (no_types, lifting) dropWhile_eq_drop less_eq_nat.simps(1) takeWhile_eq_take_P_nth length_take min.absorb4)

lemma rev_dropWhile_rev: "\<forall>c\<in>set ys. P c \<Longrightarrow> \<not> P x \<Longrightarrow> rev (dropWhile P (rev (xs @ x # ys))) = xs @ [x]"
  using dropWhile_append2[of "rev ys" P "x # rev xs"] by simp

text \<open>\<open>strip\<close> removes the longest run of the given characters at both ends, and nothing else.\<close>

lemma rs_strip_eq:
  "rs_strip cs s = rev (dropWhile (\<lambda>c. c \<in> set cs) (rev (dropWhile (\<lambda>c. c \<in> set cs) s)))"
proof (cases "find_first_not_of s cs")
  case None
  then have "\<forall>c\<in>set s. c \<in> set cs" by (auto simp: find_first_not_of_def find_None_iff in_set_conv_nth)
  then show ?thesis by (auto simp: rs_strip_def None dest: set_dropWhileD)
next
  case (Some b)
  then have b: "b < length s" "s ! b \<notin> set cs" by (auto simp: find_first_not_of_def find_upt_Some)
  then have "find_last_not_of s cs \<noteq> None" by (auto simp: find_last_not_of_def find_None_iff)
  then obtain e where e: "find_last_not_of s cs = Some e" by blast
  have e': "e < length s" "s ! e \<notin> set cs" "\<forall>j. e < j \<and> j < length s \<longrightarrow> s ! j \<in> set cs"
  proof -
    from e obtain k where k: "k < length s" "s ! (rev [0..<length s] ! k) \<notin> set cs" "e = rev [0..<length s] ! k"
        "\<forall>j<k. s ! (rev [0..<length s] ! j) \<in> set cs"
      by (auto simp: find_last_not_of_def find_Some_iff)
    have r: "rev [0..<length s] ! j = length s - Suc j" if "j < length s" for j using that by (simp add: rev_nth)
    show "e < length s" "s ! e \<notin> set cs" using k r[of k] by auto
    show "\<forall>j. e < j \<and> j < length s \<longrightarrow> s ! j \<in> set cs"
    proof (intro allI impI)
      fix j assume j: "e < j \<and> j < length s"
      then have "length s - Suc j < k" using k(1,3) r[of k] by (simp; linarith)
      moreover have "rev [0..<length s] ! (length s - Suc j) = j" using j r[of "length s - Suc j"] by auto
      ultimately show "s ! j \<in> set cs" using k(4) by fastforce
    qed
  qed
  have be: "b \<le> e" using b e'(3) by (meson not_le)
  have l: "rs_strip cs s = drop b (take (Suc e) s)" using e'(1) by (simp add: rs_strip_def Some e std_erase_def)
  have "drop b s = drop b (take e s) @ s ! e # drop (Suc e) s"
    using be e'(1) by (metis append.assoc append_Cons append_Nil append_take_drop_id drop_append diff_is_0_eq drop0 length_take min.absorb4 id_take_nth_drop)
  moreover have "\<forall>c\<in>set (drop (Suc e) s). c \<in> set cs" using e'(3) by (auto simp: in_set_conv_nth)
  ultimately have "rev (dropWhile (\<lambda>c. c \<in> set cs) (rev (drop b s))) = drop b (take e s) @ [s ! e]"
    using e'(2) by (metis (no_types, lifting) rev_dropWhile_rev)
  moreover have "drop b (take (Suc e) s) = drop b (take e s) @ [s ! e]" using be e'(1) by (simp add: take_Suc_conv_app_nth)
  ultimately show ?thesis by (simp add: l dropWhile_from_first[OF Some])
qed

section \<open>Numbers\<close>

lemma digit_char:
  assumes "d < 10"
  shows "(of_char (char_of (48 + d :: nat)) :: int) = 48 + int d" "is_digit (char_of (48 + d))" "\<not> is_space (char_of (48 + d))"
    "char_of (48 + d) \<noteq> CHR ''-''" "char_of (48 + d) \<noteq> CHR ''+''" "char_of (48 + d) \<noteq> CHR ''{''"
proof -
  have "(48 + d) mod 256 = 48 + d" using assms by simp
  then have n: "(of_char (char_of (48 + d :: nat)) :: nat) = 48 + d" by (simp add: of_char_of)
  show "(of_char (char_of (48 + d :: nat)) :: int) = 48 + int d" using n by (metis of_nat_add of_nat_numeral of_nat_of_char)
  show "is_digit (char_of (48 + d))" using n assms by (simp add: is_digit_def)
  have ne: "char_of (48 + d) \<noteq> c" if "(of_char c :: nat) < 48 \<or> 57 < (of_char c :: nat)" for c
  proof
    assume "char_of (48 + d) = c"
    then have "(of_char c :: nat) = 48 + d" using n by blast
    then show False using that assms by linarith
  qed
  show "char_of (48 + d) \<noteq> CHR ''-''" "char_of (48 + d) \<noteq> CHR ''+''" "char_of (48 + d) \<noteq> CHR ''{''" by (rule ne; simp)+
  show "\<not> is_space (char_of (48 + d))" using ne by (auto simp: is_space_def)
qed

lemma digits_val_snoc: "digits_val (ds @ [c]) = digits_val ds * 10 + (of_char c - 48)"
  by (simp add: digits_val_def)

lemma to_string_digits:
  "to_string n \<noteq> [] \<and> digits_val (to_string n) = int n \<and>
   (\<forall>c\<in>set (to_string n). is_digit c \<and> \<not> is_space c \<and> c \<noteq> CHR ''-'' \<and> c \<noteq> CHR ''+'' \<and> c \<noteq> CHR ''{'')"
proof (induction n rule: to_string.induct)
  case (1 n)
  show ?case
  proof (cases "n < 10")
    case True
    then show ?thesis using digit_char[OF True] by (simp add: to_string.simps[of n] digits_val_def)
  next
    case False
    have d: "n mod 10 < 10" by simp
    have "int (n div 10) * 10 + int (n mod 10) = int n" by (metis div_mult_mod_eq of_nat_add of_nat_mult of_nat_numeral)
    then show ?thesis using 1[OF False] digit_char[OF d] False
      by (simp add: to_string.simps[of n] digits_val_snoc)
  qed
qed

text \<open>The conversions of numbers read back what \<open>to_string\<close> prints.\<close>

lemma std_scan_to_string: "std_scan (to_string n) = Some (False, int n)" "std_scan (CHR ''-'' # to_string n) = Some (True, int n)"
proof -
  note t = to_string_digits[of n]
  obtain c cs where c: "to_string n = c # cs" using t by (cases "to_string n") auto
  then have a: "dropWhile is_space (to_string n) = to_string n" "std_sign (to_string n) = (False, to_string n)"
    using t by (simp_all add: std_sign_def)
  have b: "takeWhile is_digit (to_string n) = to_string n" using t by (simp add: takeWhile_eq_all_conv)
  have m: "dropWhile is_space (CHR ''-'' # to_string n) = CHR ''-'' # to_string n"
    "std_sign (CHR ''-'' # to_string n) = (True, to_string n)" by (simp_all add: is_space_def std_sign_def)
  have v: "to_string n \<noteq> []" "digits_val (to_string n) = int n" using t by simp_all
  show "std_scan (to_string n) = Some (False, int n)" by (simp only: std_scan_def a b v Let_def prod.case if_False)
  show "std_scan (CHR ''-'' # to_string n) = Some (True, int n)" by (simp only: std_scan_def m b v Let_def prod.case if_False)
qed

section \<open>Properties\<close>

text \<open>
  C33: \<open>split\<close> ends for every divider that is not empty, and \<open>join\<close> undoes it: the pieces, none of
  which contains the divider, put together with the divider are the string again. With an empty
  divider the loop does not end.
\<close>

theorem split_join_round_trip:
  "if divider = [] then split_string divider s = None
   else \<exists>ps. split_string divider s = Some ps \<and> rs_join divider ps = s \<and>
     (\<nexists>p. p \<in> set ps \<and> std_find divider p 0 \<noteq> None)"
proof (cases "divider = []")
  case True
  then show ?thesis using split_loop_empty[of s 0 0 "[]"] by (cases "split_loop [] s 0 0 []") (auto simp: split_string_def)
next
  case False
  then show ?thesis
    using split_loop_ref[OF False, of 0 s "[]"] join_split_ref[OF False, of s] split_ref_pieces[OF False, of _ s]
    by (auto simp: split_string_def)
qed

text \<open>
  \<open>replace\<close> ends on every input, also when the new text contains the old one, and gives
  the pieces between the occurrences of the old text joined by the new one, counting the occurrences.
\<close>

theorem replace_is_split_and_join:
  "from \<noteq> [] \<Longrightarrow>
   \<exists>ps. split_string from s = Some ps \<and> rs_replace from to s = Some (rs_join to ps, Some (length ps - 1))"
  using split_loop_ref[of "from" 0 s "[]"] replace_loop_ref[of "from" 0 s to 0]
  by (auto simp: rs_replace_def split_string_def)

theorem replace_is_split_and_join_witness:
  "rs_replace ''x'' ''yx'' ''axbx'' = Some (''ayxbyx'', Some 2)"
proof -
  have "split_string ''x'' ''axbx'' = Some [''a'', ''b'', []]"
    by (simp add: split_string_def split_loop.simps std_find_def)
  then show ?thesis using replace_is_split_and_join[of "''x''" "''axbx''" "''yx''"] by auto
qed

text \<open>
  C34: a format text without the escape \<open>\{}\<close> is cut at its placeholders and the arguments are put
  between the pieces in order; one argument too few or too many is an \<open>out_of_range\<close>.
\<close>

theorem format_string_interleaves:
  assumes "std_find escaped_placeholder fmt 0 = None"
  shows "\<exists>ps. split_string placeholder fmt = Some ps \<and> format_string fmt args = Some (format_ref fmt ps args)"
proof -
  have "placeholder \<noteq> []" by (simp add: placeholder_def)
  then show ?thesis using split_loop_ref[of placeholder 0 fmt "[]"] format_loop_ref[OF assms, of 0 0 args]
    by (simp add: split_string_def format_string_def format_ref_def)
qed

theorem format_string_interleaves_witness:
  "format_string ''{}:{}'' [''host'', ''80''] = Some (Inr ''host:80'')"
proof -
  have "split_string placeholder ''{}:{}'' = Some [[], '':'', []]"
    by (simp add: split_string_def split_loop.simps std_find_def placeholder_def)
  moreover have "std_find escaped_placeholder ''{}:{}'' 0 = None"
    by (simp add: std_find_def escaped_placeholder_def)
  ultimately show ?thesis using format_string_interleaves[of "''{}:{}''" "[''host'', ''80'']"] by (simp add: format_ref_def)
qed

text \<open>
  An escaped placeholder behind the last placeholder keeps its backslash: the escape is undone only in
  text that a placeholder follows.
\<close>

theorem format_keeps_escape_in_tail:
  assumes "std_find placeholder t 0 = None"
  shows "format_string (t @ escaped_placeholder) [] = Some (Inr (t @ escaped_placeholder)) \<and>
    format_string (escaped_placeholder @ placeholder) [x] = Some (Inr (placeholder @ x))"
proof -
  let ?s = "t @ escaped_placeholder" and ?i = "length t + 1"
  have none: "take 2 (drop j t) \<noteq> placeholder" if "j \<le> length t" for j
    using assms that by (auto simp: std_find_None_iff placeholder_def numeral_2_eq_2)
  have f: "std_find placeholder ?s 0 = Some ?i"
    unfolding std_find_Some_iff
  proof (intro conjI allI impI)
    show "take (length placeholder) (drop ?i ?s) = placeholder" by (simp add: placeholder_def escaped_placeholder_def)
    fix j assume j: "0 \<le> j \<and> j < ?i"
    show "take (length placeholder) (drop j ?s) \<noteq> placeholder"
    proof
      assume m: "take (length placeholder) (drop j ?s) = placeholder"
      consider "j = length t" | "Suc j = length t" | "j + 2 \<le> length t" using j by linarith
      then show False
      proof cases
        case 3
        then have "take 2 (drop j t) = placeholder" using m by (simp add: placeholder_def numeral_2_eq_2)
        then show False using none 3 by simp
      qed (use m in \<open>auto simp: placeholder_def escaped_placeholder_def take_Cons' neq_Nil_conv split: if_splits
             dest!: arg_cong[where f = "\<lambda>x. x ! 1"] simp: nth_append\<close>)
    qed
  qed (simp_all add: escaped_placeholder_def)
  have g: "std_find placeholder ?s (?i + 2) = None" by (simp add: std_find_def escaped_placeholder_def placeholder_def)
  have "?s ! length t = CHR 0x5C" by (simp add: escaped_placeholder_def)
  then have "format_string ?s [] = Some (Inr ?s)"
    using f g by (simp add: format_string_def format_loop.simps)
  moreover have "format_string (escaped_placeholder @ placeholder) [x] = Some (Inr (placeholder @ x))"
    by (simp add: format_string_def format_loop.simps unescape_loop.simps std_find_def std_erase_def
      escaped_placeholder_def placeholder_def numeral_2_eq_2)
  ultimately show ?thesis by simp
qed

theorem format_keeps_escape_in_tail_witness:
  "format_string (''a'' @ escaped_placeholder) [] = Some (Inr (''a'' @ escaped_placeholder))"
  using format_keeps_escape_in_tail[of "''a''" "''b''"] by (simp add: std_find_def placeholder_def)

end
