(* ===== verification/Opt_Parser.thy ===== *)
theory Opt_Parser
  imports Rlib_String
begin

text \<open>
  The command line parser of \<open>src/src/native/src/lib/rlib/opt.hpp\<close>. Every query removes the words it has
  used, so that what is left at the end was not understood. Erasing the past-the-end
  position of a vector is \<open>Undefined\<close>.
\<close>

section \<open>Definitions\<close>

record opt_parser =
  args :: "string list"
  arg0 :: string

type_synonym 'a opt_query = "opt_parser \<Rightarrow> 'a outcome \<times> opt_parser"

definition opt_bind :: "'a opt_query \<Rightarrow> ('a \<Rightarrow> 'b opt_query) \<Rightarrow> 'b opt_query" where
  "opt_bind m f p =
     (case m p of
        (Ok x, p) \<Rightarrow> f x p
      | (Throw e, p) \<Rightarrow> (Throw e, p)
      | (Undefined, p) \<Rightarrow> (Undefined, p)
      | (Blocked, p) \<Rightarrow> (Blocked, p)
      | (Exited c, p) \<Rightarrow> (Exited c, p))"

text \<open>\<open>argv\<close> holds the \<open>arglen\<close> words; a null pointer follows them.\<close>

definition new_opt_parser :: "string list \<Rightarrow> opt_parser outcome" where
  "new_opt_parser argv =
     (case argv of
        [] \<Rightarrow> Throw (Runtime_error ''Invalid argv passed to rlib::opt_parser. argv[0] is nullptr.'')
      | a # as \<Rightarrow> Ok \<lparr>args = as, arg0 = a\<rparr>)"

definition erase_arg :: "nat \<Rightarrow> opt_parser \<Rightarrow> opt_parser outcome" where
  "erase_arg pos p = (if pos < length (args p) then Ok (p\<lparr>args := take pos (args p) @ drop (Suc pos) (args p)\<rparr>) else Undefined)"

definition getSubCommand :: "string opt_query" where
  "getSubCommand p =
     (case args p of
        [] \<Rightarrow> (Throw (Runtime_error ''No sub-command available.''), p)
      | a # as \<Rightarrow> (Ok a, p\<lparr>args := as\<rparr>))"

definition getSubCommand_or :: "string \<Rightarrow> string opt_query" where
  "getSubCommand_or d p =
     (case args p of
        [] \<Rightarrow> (Ok d, p)
      | a # as \<Rightarrow> (Ok a, p\<lparr>args := as\<rparr>))"

definition uses_equal_sym :: "string \<Rightarrow> string \<Rightarrow> bool" where
  "uses_equal_sym argName ele \<longleftrightarrow> length argName < length ele \<and> take (length argName + 1) ele = argName @ ''=''"

definition find_arg :: "string \<Rightarrow> string list \<Rightarrow> nat option" where
  "find_arg argName as = find (\<lambda>i. as ! i = argName \<or> uses_equal_sym argName (as ! i)) [0..<length as]"

text \<open>
  The scope guard erases the word of the value and the word of the name, also when
  the exception for a missing value is thrown.
\<close>

definition value_guard :: "bool \<Rightarrow> nat \<Rightarrow> 'a outcome \<Rightarrow> 'a opt_query" where
  "value_guard useEqualSym pos r p =
     (case (if useEqualSym then Ok p else erase_arg (pos + 1) p) of
        Ok p \<Rightarrow> (case erase_arg pos p of Ok p \<Rightarrow> (r, p) | _ \<Rightarrow> (Undefined, p))
      | _ \<Rightarrow> (Undefined, p))"

definition getValueArg :: "string \<Rightarrow> bool \<Rightarrow> string \<Rightarrow> string opt_query" where
  "getValueArg argName required d p =
     (case find_arg argName (args p) of
        None \<Rightarrow>
          if required then (Throw (Invalid_argument ''Required argument '{}' not provided.''), p)
          else (Ok d, p)
      | Some pos \<Rightarrow>
          let useEqualSym = (args p ! pos \<noteq> argName) in
          value_guard useEqualSym pos
            (if useEqualSym then Ok (drop (length argName + 1) (args p ! pos))
             else if pos + 1 = length (args p)
                  then Throw (Invalid_argument ''Argument '{}' must provide value.'')
                  else Ok (args p ! (pos + 1))) p)"

definition getBoolArg :: "string \<Rightarrow> bool opt_query" where
  "getBoolArg argName p =
     (case find (\<lambda>i. args p ! i = argName) [0..<length (args p)] of
        None \<Rightarrow> (Ok False, p)
      | Some pos \<Rightarrow> (case erase_arg pos p of Ok p \<Rightarrow> (Ok True, p) | _ \<Rightarrow> (Undefined, p)))"

definition getValueArg2 :: "string \<Rightarrow> string \<Rightarrow> bool \<Rightarrow> string \<Rightarrow> string opt_query" where
  "getValueArg2 longName shortName required d =
     opt_bind (getValueArg longName False []) (\<lambda>valueL.
     opt_bind (getValueArg shortName False []) (\<lambda>valueS p.
     let value = (if valueL = [] then valueS else valueL) in
     if value = []
     then (if required then (Throw (Invalid_argument ''Required argument '{}/{}' not provided.''), p) else (Ok d, p))
     else (Ok value, p)))"

definition getValueArg2_required :: "string \<Rightarrow> string \<Rightarrow> string opt_query" where
  "getValueArg2_required longName shortName = getValueArg2 longName shortName True []"

definition getBoolArg2 :: "string \<Rightarrow> string \<Rightarrow> bool opt_query" where
  "getBoolArg2 longName shortName =
     opt_bind (getBoolArg longName) (\<lambda>b p. if b then (Ok True, p) else getBoolArg shortName p)"

definition allArgDone :: "opt_parser \<Rightarrow> bool" where
  "allArgDone p \<longleftrightarrow> args p = []"

section \<open>Laws\<close>

lemma find_upt_first:
  assumes "\<forall>x\<in>set xs. \<not> P x" "P y"
  shows "find (\<lambda>i. P ((xs @ y # ys) ! i)) [0..<length (xs @ y # ys)] = Some (length xs)"
  unfolding find_upt_Some using assms by (auto simp: nth_append)

lemma find_upt_absent: "\<forall>x\<in>set xs. \<not> P x \<Longrightarrow> find (\<lambda>i. P (xs ! i)) [0..<length xs] = None"
  by (simp add: find_upt_None)

lemma uses_equal_sym_iff: "uses_equal_sym n x \<longleftrightarrow> (\<exists>v. x = n @ ''='' @ v)"
proof
  assume u: "uses_equal_sym n x"
  have "x = take (length n + 1) x @ drop (length n + 1) x" by simp
  also have "take (length n + 1) x = n @ ''=''" using u by (simp add: uses_equal_sym_def)
  finally show "\<exists>v. x = n @ ''='' @ v" by auto
qed (auto simp: uses_equal_sym_def)

lemma erase_args: "erase_arg (length xs) (p\<lparr>args := xs @ y # ys\<rparr>) = Ok (p\<lparr>args := xs @ ys\<rparr>)"
  by (simp add: erase_arg_def)

section \<open>Properties\<close>

text \<open>
  C32: reading the value of an option. When the first word that is the option's name,
  or its name with \<open>=\<close> and a value, is preceded by \<open>xs\<close> and followed by \<open>ys\<close>, \<open>getValueArg\<close> returns the value and removes
  exactly the words it used, in both spellings; without such a word it returns
  the default, or throws when the option is required, and removes nothing.
\<close>

theorem getValueArg_finds:
  assumes "\<forall>x\<in>set xs. x \<noteq> n \<and> \<not> uses_equal_sym n x"
  shows "getValueArg n r d (p\<lparr>args := xs @ [n, v] @ ys\<rparr>) = (Ok v, p\<lparr>args := xs @ ys\<rparr>) \<and>
    getValueArg n r d (p\<lparr>args := xs @ [n @ ''='' @ v] @ ys\<rparr>) = (Ok v, p\<lparr>args := xs @ ys\<rparr>) \<and>
    getValueArg n r d (p\<lparr>args := xs\<rparr>) =
      (if r then Throw (Invalid_argument ''Required argument '{}' not provided.'') else Ok d, p\<lparr>args := xs\<rparr>)"
proof (intro conjI)
  let ?P = "\<lambda>x. x = n \<or> uses_equal_sym n x"
  have a: "\<forall>x\<in>set xs. \<not> ?P x" using assms by blast
  have "find_arg n (xs @ n # v # ys) = Some (length xs)"
    unfolding find_arg_def using find_upt_first[OF a, of n "v # ys"] by blast
  moreover have "xs @ n # v # ys = (xs @ [n]) @ v # ys" by simp
  then have "erase_arg (Suc (length xs)) (p\<lparr>args := xs @ n # v # ys\<rparr>) = Ok (p\<lparr>args := xs @ n # ys\<rparr>)"
    by (simp add: erase_arg_def)
  ultimately show "getValueArg n r d (p\<lparr>args := xs @ [n, v] @ ys\<rparr>) = (Ok v, p\<lparr>args := xs @ ys\<rparr>)"
    by (simp add: getValueArg_def value_guard_def erase_args nth_append)
  have "uses_equal_sym n (n @ ''='' @ v)" by (simp add: uses_equal_sym_def)
  then have "find_arg n (xs @ (n @ ''='' @ v) # ys) = Some (length xs)"
    unfolding find_arg_def using find_upt_first[OF a, of "n @ ''='' @ v" ys] by blast
  then show "getValueArg n r d (p\<lparr>args := xs @ [n @ ''='' @ v] @ ys\<rparr>) = (Ok v, p\<lparr>args := xs @ ys\<rparr>)"
    by (simp add: getValueArg_def value_guard_def erase_args)
  show "getValueArg n r d (p\<lparr>args := xs\<rparr>) =
      (if r then Throw (Invalid_argument ''Required argument '{}' not provided.'') else Ok d, p\<lparr>args := xs\<rparr>)"
    using find_upt_absent[OF a] by (simp add: getValueArg_def find_arg_def)
qed

theorem getValueArg_finds_witness:
  "getValueArg ''-p'' True [] \<lparr>args = [''-d'', ''-p'', ''80'', ''x''], arg0 = []\<rparr> = (Ok ''80'', \<lparr>args = [''-d'', ''x''], arg0 = []\<rparr>)"
  using getValueArg_finds[where xs = "[''-d'']" and n = "''-p''" and r = True and d = "[]" and p = "\<lparr>args = [], arg0 = []\<rparr>" and v = "''80''" and ys = "[''x'']"]
  by (simp add: uses_equal_sym_def)

text \<open>
  An option without its value at the end of the command line is not reported by the
  exception the code throws: the scope guard erases the word behind the last one, which is
  undefined behaviour.
\<close>

theorem getValueArg_missing_value_is_undefined:
  assumes "\<forall>x\<in>set xs. x \<noteq> n \<and> \<not> uses_equal_sym n x"
  shows "fst (getValueArg n r d (p\<lparr>args := xs @ [n]\<rparr>)) = Undefined"
proof -
  have "find_arg n (xs @ [n]) = Some (length xs)"
    unfolding find_arg_def using find_upt_first[of xs "\<lambda>x. x = n \<or> uses_equal_sym n x" n "[]"] assms by blast
  then show ?thesis by (simp add: getValueArg_def value_guard_def erase_arg_def)
qed

theorem getValueArg_missing_value_is_undefined_witness:
  "fst (getValueArg ''-k'' False [] \<lparr>args = [''-k''], arg0 = []\<rparr>) = Undefined"
  using getValueArg_missing_value_is_undefined[where xs = "[]" and n = "''-k''" and r = False and d = "[]" and p = "\<lparr>args = [], arg0 = []\<rparr>"] by simp

end
