(* ===== verification/Config.thy ===== *)
theory Config
  imports Opt_Parser
begin

text \<open>
  The configuration objects of \<open>src/src/native/src/config.hpp\<close>. The property tree and the INI files are
  Boost's: a tree is the text stored under each path, reading a file gives a tree or an exception
  (\<open>read_ini\<close>, an argument), and the conversion of numbers from and to text is the record
  \<open>translators\<close>, whose functions are arbitrary. \<open>get\<close> throws when the path is missing or the text does not
  convert; with a default it returns the default instead.
\<close>

section \<open>Definitions\<close>

type_synonym ptree = "string \<rightharpoonup> string"

record translators =
  get_u16 :: "string \<Rightarrow> u16 option"
  put_u16 :: "u16 \<Rightarrow> string"
  get_int :: "string \<Rightarrow> int option"
  put_int :: "int \<Rightarrow> string"

definition ptree_get :: "(string \<Rightarrow> 'a option) \<Rightarrow> ptree \<Rightarrow> string \<Rightarrow> 'a outcome" where
  "ptree_get conv tree path =
     (case tree path of
        None \<Rightarrow> Throw (Runtime_error ''No such node'')
      | Some t \<Rightarrow> (case conv t of None \<Rightarrow> Throw (Runtime_error ''conversion of data to type failed'') | Some x \<Rightarrow> Ok x))"

definition ptree_get_or :: "(string \<Rightarrow> 'a option) \<Rightarrow> ptree \<Rightarrow> string \<Rightarrow> 'a \<Rightarrow> 'a" where
  "ptree_get_or conv tree path d = (case Option.bind (tree path) conv of None \<Rightarrow> d | Some x \<Rightarrow> x)"

definition res_bind :: "'a outcome \<Rightarrow> ('a \<Rightarrow> 'b outcome) \<Rightarrow> 'b outcome" where
  "res_bind m f = (case m of Ok x \<Rightarrow> f x | Throw e \<Rightarrow> Throw e | Undefined \<Rightarrow> Undefined | Blocked \<Rightarrow> Blocked | Exited c \<Rightarrow> Exited c)"

record client_config =
  cc_serverIp :: string
  cc_serverPort :: u16
  cc_passphrase :: string
  cc_bindIp :: string
  cc_bindPort :: u16
  cc_modulePath :: string
  cc_retryResolve :: bool
  cc_debugLevel :: int
  cc_logFile :: string

definition client_load :: "translators \<Rightarrow> (string \<Rightarrow> ptree outcome) \<Rightarrow> string \<Rightarrow> client_config outcome" where
  "client_load tr read_ini confPath =
     res_bind (read_ini confPath) (\<lambda>tree.
     res_bind (ptree_get Some tree ''server.ip'') (\<lambda>serverIp.
     res_bind (ptree_get (get_u16 tr) tree ''server.port'') (\<lambda>serverPort.
     res_bind (ptree_get Some tree ''server.passphrase'') (\<lambda>passphrase.
     res_bind (ptree_get Some tree ''socks5.ip'') (\<lambda>bindIp.
     res_bind (ptree_get (get_u16 tr) tree ''socks5.port'') (\<lambda>bindPort.
     res_bind (ptree_get Some tree ''core.module'') (\<lambda>modulePath.
     res_bind (ptree_get Some tree ''core.nx_retry'') (\<lambda>nx_retry.
     Ok \<lparr>cc_serverIp = serverIp, cc_serverPort = serverPort, cc_passphrase = passphrase,
         cc_bindIp = bindIp, cc_bindPort = bindPort, cc_modulePath = modulePath,
         cc_retryResolve = (nx_retry = ''true''),
         cc_debugLevel = ptree_get_or (get_int tr) tree ''core.debugLevel'' 1,
         cc_logFile = ptree_get_or Some tree ''core.logFile'' []\<rparr>))))))))"

text \<open>The tree that \<open>save\<close> writes.\<close>

definition client_save :: "translators \<Rightarrow> client_config \<Rightarrow> ptree" where
  "client_save tr c =
     [''server.ip'' \<mapsto> cc_serverIp c,
      ''server.port'' \<mapsto> put_u16 tr (cc_serverPort c),
      ''server.passphrase'' \<mapsto> cc_passphrase c,
      ''socks5.ip'' \<mapsto> cc_bindIp c,
      ''socks5.port'' \<mapsto> put_u16 tr (cc_bindPort c),
      ''core.module'' \<mapsto> cc_modulePath c,
      ''core.nx_retry'' \<mapsto> (if cc_retryResolve c then ''true'' else ''false''),
      ''core.debugLevel'' \<mapsto> put_int tr (cc_debugLevel c),
      ''core.logFile'' \<mapsto> cc_logFile c]"

record server_config =
  sv_bindIp :: string
  sv_bindPort :: u16
  sv_passphrase :: string
  sv_modulePath :: string
  sv_debugLevel :: int
  sv_logFile :: string

definition server_load :: "translators \<Rightarrow> (string \<Rightarrow> ptree outcome) \<Rightarrow> string \<Rightarrow> server_config outcome" where
  "server_load tr read_ini confPath =
     res_bind (read_ini confPath) (\<lambda>tree.
     res_bind (ptree_get (get_u16 tr) tree ''core.port'') (\<lambda>bindPort.
     res_bind (ptree_get Some tree ''core.passphrase'') (\<lambda>passphrase.
     res_bind (ptree_get Some tree ''core.module'') (\<lambda>modulePath.
     Ok \<lparr>sv_bindIp = ptree_get_or Some tree ''core.ip'' ''::0'', sv_bindPort = bindPort, sv_passphrase = passphrase,
         sv_modulePath = modulePath,
         sv_debugLevel = ptree_get_or (get_int tr) tree ''extra.debugLevel'' 1,
         sv_logFile = ptree_get_or Some tree ''extra.logFile'' []\<rparr>))))"

definition server_save :: "translators \<Rightarrow> server_config \<Rightarrow> ptree" where
  "server_save tr c =
     [''core.ip'' \<mapsto> sv_bindIp c,
      ''core.port'' \<mapsto> put_u16 tr (sv_bindPort c),
      ''core.passphrase'' \<mapsto> sv_passphrase c,
      ''core.module'' \<mapsto> sv_modulePath c,
      ''extra.debugLevel'' \<mapsto> put_int tr (sv_debugLevel c),
      ''extra.logFile'' \<mapsto> sv_logFile c]"

section \<open>Properties\<close>

text \<open>
  C31: a configuration that was saved is loaded back unchanged, on both sides, provided the
  file holds what was written to it and numbers convert back from the text they were converted to.
\<close>

theorem config_round_trip:
  assumes client: "read_ini path = Ok (client_save tr c)"
      "get_u16 tr (put_u16 tr (cc_serverPort c)) = Some (cc_serverPort c)"
      "get_u16 tr (put_u16 tr (cc_bindPort c)) = Some (cc_bindPort c)"
      "get_int tr (put_int tr (cc_debugLevel c)) = Some (cc_debugLevel c)"
    and server: "read_ini path' = Ok (server_save tr v)"
      "get_u16 tr (put_u16 tr (sv_bindPort v)) = Some (sv_bindPort v)"
      "get_int tr (put_int tr (sv_debugLevel v)) = Some (sv_debugLevel v)"
  shows "client_load tr read_ini path = Ok c \<and> server_load tr read_ini path' = Ok v"
  using assms by (simp add: client_load_def client_save_def server_load_def server_save_def res_bind_def ptree_get_def ptree_get_or_def)

definition decimal :: translators where
  "decimal = \<lparr>get_u16 = (\<lambda>t. map_option (\<lambda>(neg, n). of_int n) (std_scan t)), put_u16 = (\<lambda>p. to_string (unat p)),
     get_int = (\<lambda>t. map_option (\<lambda>(neg, n). if neg then - n else n) (std_scan t)), put_int = int_to_string\<rparr>"

definition demo_client_config :: client_config where
  "demo_client_config = \<lparr>cc_serverIp = ''h'', cc_serverPort = 9000, cc_passphrase = ''p'', cc_bindIp = ''::1'', cc_bindPort = 1080,
     cc_modulePath = ''m.so'', cc_retryResolve = True, cc_debugLevel = 2, cc_logFile = []\<rparr>"

definition demo_server_config :: server_config where
  "demo_server_config = \<lparr>sv_bindIp = ''::0'', sv_bindPort = 9000, sv_passphrase = ''p'', sv_modulePath = ''m.so'', sv_debugLevel = 2, sv_logFile = []\<rparr>"

theorem config_round_trip_witness:
  "client_load decimal (\<lambda>f. Ok (if f = ''c'' then client_save decimal demo_client_config else server_save decimal demo_server_config)) ''c''
     = Ok demo_client_config"
proof -
  have n: "get_u16 decimal (put_u16 decimal 9000) = Some 9000" "get_u16 decimal (put_u16 decimal 1080) = Some 1080"
    "get_int decimal (put_int decimal 2) = Some 2" by (simp_all add: decimal_def std_scan_to_string int_to_string_def)
  show ?thesis
    by (rule conjunct1[OF config_round_trip[where v = demo_server_config and path' = "''s''"]])
      (simp_all add: n demo_client_config_def demo_server_config_def)
qed

end
