(* ===== verification/Rlib_Log.thy ===== *)
theory Rlib_Log
  imports Rlib_String
begin

text \<open>
  The logger of \<open>src/src/native/src/lib/rlib/log.hpp\<close>. An output stream is a number; the environment holds
  what has been written to each stream that exists and the process-wide counter of log levels. Log levels are the integers
  of \<open>enum class log_level_t : int\<close>. The time stamp of a line is an argument. Whether a file can be
  opened is an argument of the constructor.
\<close>

section \<open>Definitions\<close>

abbreviation FATAL :: int where "FATAL \<equiv> 1"
abbreviation ERROR :: int where "ERROR \<equiv> 2"
abbreviation WARNING :: int where "WARNING \<equiv> 3"
abbreviation INFO :: int where "INFO \<equiv> 4"
abbreviation VERBOSE :: int where "VERBOSE \<equiv> 5"
abbreviation DEBUG :: int where "DEBUG \<equiv> 6"

record log_env =
  out :: "nat \<rightharpoonup> string"
  next_stream :: nat
  max_predefined_log_level :: int

record logger =
  pstream :: nat
  custom_log_level_names :: "(int \<times> string) list"
  log_level :: int
  must_delete_stream_as_ofstream :: bool
  enable_flush :: bool

definition new_logger_stream :: "nat \<Rightarrow> logger" where
  "new_logger_stream s = \<lparr>pstream = s, custom_log_level_names = [], log_level = INFO,
     must_delete_stream_as_ofstream = False, enable_flush = True\<rparr>"

definition new_logger_file :: "bool \<Rightarrow> log_env \<Rightarrow> logger outcome \<times> log_env" where
  "new_logger_file opens env =
     (let s = next_stream env; env = env\<lparr>out := (out env)(s \<mapsto> []), next_stream := Suc s\<rparr> in
      if opens
      then (Ok \<lparr>pstream = s, custom_log_level_names = [], log_level = INFO,
              must_delete_stream_as_ofstream = True, enable_flush = True\<rparr>, env)
      else (Throw (Runtime_error ''Failed to open file {}.''), env))"

text \<open>The new logger, and the one moved from.\<close>

definition move_logger :: "logger \<Rightarrow> logger \<times> logger" where
  "move_logger another =
     (\<lparr>pstream = pstream another, custom_log_level_names = custom_log_level_names another, log_level = log_level another,
       must_delete_stream_as_ofstream = must_delete_stream_as_ofstream another, enable_flush = enable_flush another\<rparr>,
      another\<lparr>custom_log_level_names := [], must_delete_stream_as_ofstream := False\<rparr>)"

definition delete_logger :: "logger \<Rightarrow> log_env \<Rightarrow> log_env" where
  "delete_logger l env =
     (if must_delete_stream_as_ofstream l then env\<lparr>out := (out env)(pstream l := None)\<rparr> else env)"

definition assign_logger :: "logger \<Rightarrow> logger \<Rightarrow> logger \<times> logger" where
  "assign_logger this another =
     (this\<lparr>pstream := pstream another, enable_flush := enable_flush another,
           must_delete_stream_as_ofstream := must_delete_stream_as_ofstream another,
           log_level := log_level another, custom_log_level_names := custom_log_level_names another\<rparr>,
      another\<lparr>custom_log_level_names := [], must_delete_stream_as_ofstream := False\<rparr>)"

definition set_log_level :: "int \<Rightarrow> logger \<Rightarrow> logger" where
  "set_log_level max_level l = l\<lparr>log_level := max_level\<rparr>"

definition set_flush :: "bool \<Rightarrow> logger \<Rightarrow> logger" where
  "set_flush b l = l\<lparr>enable_flush := b\<rparr>"

definition predefined_log_level_name :: "int \<Rightarrow> string" where
  "predefined_log_level_name level =
     (if level = FATAL then ''FATAL'' else if level = ERROR then ''ERROR'' else if level = WARNING then ''WARNING''
      else if level = INFO then ''INFO'' else if level = VERBOSE then ''VERBOSE'' else if level = DEBUG then ''DEBUG''
      else [])"

definition is_predefined_log_level :: "int \<Rightarrow> bool" where
  "is_predefined_log_level level \<longleftrightarrow> predefined_log_level_name level \<noteq> []"

definition log_level_name :: "logger \<Rightarrow> int \<Rightarrow> string" where
  "log_level_name l level =
     (let name = predefined_log_level_name level in
      if name \<noteq> [] then name
      else let name = (case find (\<lambda>ln. fst ln = level) (custom_log_level_names l) of None \<Rightarrow> [] | Some ln \<Rightarrow> snd ln) in
           if name \<noteq> [] then name else ''LEVEL-'' @ int_to_string level)"

definition formatted :: "string \<Rightarrow> string list \<Rightarrow> string outcome" where
  "formatted fmt args = (case format_string fmt args of None \<Rightarrow> Blocked | Some (Inl e) \<Rightarrow> Throw e | Some (Inr t) \<Rightarrow> Ok t)"

definition write_stream :: "nat \<Rightarrow> string \<Rightarrow> log_env \<Rightarrow> unit outcome \<times> log_env" where
  "write_stream s t env =
     (case out env s of None \<Rightarrow> (Undefined, env) | Some old \<Rightarrow> (Ok (), env\<lparr>out := (out env)(s \<mapsto> old @ t)\<rparr>))"

definition log :: "logger \<Rightarrow> string \<Rightarrow> int \<Rightarrow> string \<Rightarrow> string list \<Rightarrow> log_env \<Rightarrow> unit outcome \<times> log_env" where
  "log l time level info extra_args env =
     (if is_predefined_log_level level \<and> log_level l < level then (Ok (), env)
      else case formatted info extra_args of
        Ok text \<Rightarrow>
          (case formatted ''[{}|{}] {}'' [time, log_level_name l level, text] of
             Ok line \<Rightarrow> write_stream (pstream l) (line @ [CHR 0x0A]) env
           | Throw e \<Rightarrow> (Throw e, env) | _ \<Rightarrow> (Blocked, env))
      | Throw e \<Rightarrow> (Throw e, env)
      | _ \<Rightarrow> (Blocked, env))"

definition register_log_level :: "string \<Rightarrow> logger \<Rightarrow> log_env \<Rightarrow> (int \<times> logger) outcome \<times> log_env" where
  "register_log_level name l env =
     (if max_predefined_log_level env = 2 ^ 31 - 1
      then (Throw (Overflow_error ''At most {}(INT_MAX) log_level is allowed.''), env)
      else let new_level = max_predefined_log_level env + 1 in
           (Ok (new_level, l\<lparr>custom_log_level_names := custom_log_level_names l @ [(new_level, name)]\<rparr>),
            env\<lparr>max_predefined_log_level := new_level\<rparr>))"

definition log_fatal :: "logger \<Rightarrow> string \<Rightarrow> string \<Rightarrow> string list \<Rightarrow> log_env \<Rightarrow> unit outcome \<times> log_env" where
  "log_fatal l time info extra = log l time FATAL info extra"

definition log_error :: "logger \<Rightarrow> string \<Rightarrow> string \<Rightarrow> string list \<Rightarrow> log_env \<Rightarrow> unit outcome \<times> log_env" where
  "log_error l time info extra = log l time ERROR info extra"

definition log_warning :: "logger \<Rightarrow> string \<Rightarrow> string \<Rightarrow> string list \<Rightarrow> log_env \<Rightarrow> unit outcome \<times> log_env" where
  "log_warning l time info extra = log l time WARNING info extra"

definition log_info :: "logger \<Rightarrow> string \<Rightarrow> string \<Rightarrow> string list \<Rightarrow> log_env \<Rightarrow> unit outcome \<times> log_env" where
  "log_info l time info extra = log l time INFO info extra"

definition log_verbose :: "logger \<Rightarrow> string \<Rightarrow> string \<Rightarrow> string list \<Rightarrow> log_env \<Rightarrow> unit outcome \<times> log_env" where
  "log_verbose l time info extra = log l time VERBOSE info extra"

definition log_debug :: "logger \<Rightarrow> string \<Rightarrow> string \<Rightarrow> string list \<Rightarrow> log_env \<Rightarrow> unit outcome \<times> log_env" where
  "log_debug l time info extra = log l time DEBUG info extra"

definition exn_what :: "exn \<Rightarrow> string" where
  "exn_what e = (case e of Runtime_error m \<Rightarrow> m | Invalid_argument m \<Rightarrow> m | Logic_error m \<Rightarrow> m | Out_of_range m \<Rightarrow> m
     | Overflow_error m \<Rightarrow> m
     | System_error \<Rightarrow> ''system error'')"

section \<open>Laws\<close>

text \<open>The layout of a line has three placeholders, none of them in the text put in.\<close>

lemma line_layout: "formatted ''[{}|{}] {}'' [a, b, c] = Ok (''['' @ a @ ''|'' @ b @ ''] '' @ c)"
proof -
  have "split_loop placeholder ''[{}|{}] {}'' 0 0 [] = Some [''['', ''|'', ''] '', []]"
    by (simp add: split_loop.simps std_find_def placeholder_def)
  moreover have "std_find escaped_placeholder ''[{}|{}] {}'' 0 = None" by (simp add: std_find_def escaped_placeholder_def)
  moreover have "split_loop placeholder s 0 0 [] = Some (split_ref placeholder s)" for s
    using split_loop_ref[of placeholder 0 s "[]"] by (simp add: placeholder_def)
  ultimately show ?thesis
    using format_loop_ref[of "''[{}|{}] {}''" 0 0 "[a, b, c]" "[''['', ''|'', ''] '', []]" "[]"]
    by (simp add: formatted_def format_string_def)
qed

lemma handler_layout:
  "formatted ''Exception caught from child thread: At connection {}:{}.'' [a, b] =
   Ok (''Exception caught from child thread: At connection '' @ a @ '':'' @ b @ ''.'')"
proof -
  let ?f = "''Exception caught from child thread: At connection {}:{}.''"
  let ?ps = "[''Exception caught from child thread: At connection '', '':'', ''.'']"
  have sp: "split_string placeholder ?f = Some ?ps" "std_find escaped_placeholder ?f 0 = None"
    by (simp_all add: split_string_def split_loop.simps std_find_def placeholder_def escaped_placeholder_def)
  have "split_string placeholder ?f = Some (split_ref placeholder ?f)"
    using split_loop_ref[of placeholder 0 ?f "[]"] by (simp add: split_string_def placeholder_def)
  then have "split_ref placeholder ?f = ?ps" using sp(1) by (metis option.inject)
  then show ?thesis
    using format_loop_ref[OF sp(2), of 0 0 "[a, b]" ?ps "[]"] by (simp add: formatted_def format_string_def)
qed

text \<open>A text whose first placeholder is not escaped cannot be logged without arguments.\<close>

lemma formatted_too_few:
  assumes "std_find placeholder fmt 0 = Some i" "i = 0 \<or> fmt ! (i - 1) \<noteq> CHR 0x5C"
  shows "formatted fmt [] = Throw (not_enough_args fmt 1 0)"
  using assms by (auto simp: formatted_def format_string_def format_loop.simps[of fmt "[]" 0])

lemma formatted_plain: "std_find placeholder fmt 0 = None \<Longrightarrow> formatted fmt [] = Ok fmt"
  by (simp add: formatted_def format_string_def format_loop.simps)

lemma std_find_append:
  assumes "CHR ''{'' \<notin> set a" "std_find placeholder t 0 = Some i"
  shows "std_find placeholder (a @ t @ b) 0 = Some (length a + i)"
proof -
  have i: "i + 2 \<le> length t" "take 2 (drop i t) = placeholder" "\<forall>j<i. take 2 (drop j t) \<noteq> placeholder"
    using std_find_SomeD(2,3)[OF assms(2)] assms(2) by (auto simp: placeholder_def std_find_Some_iff numeral_2_eq_2)
  have "take 2 (drop (length a + i) (a @ t @ b)) = placeholder" using i(1,2) by simp
  moreover have "take 2 (drop j (a @ t @ b)) \<noteq> placeholder" if j: "j < length a + i" for j
  proof (cases "j < length a")
    case True
    then have "drop j (a @ t @ b) = a ! j # drop (Suc j) a @ t @ b" by (simp add: Cons_nth_drop_Suc flip: append_Cons)
    moreover have "a ! j \<noteq> CHR ''{''" using True assms(1) nth_mem by fastforce
    ultimately show ?thesis by (simp add: placeholder_def numeral_2_eq_2)
  next
    case False
    then have "drop j (a @ t @ b) = drop (j - length a) t @ b" using i(1) j by simp
    moreover have "2 \<le> length (drop (j - length a) t)" using False i(1) j by simp
    ultimately have "take 2 (drop j (a @ t @ b)) = take 2 (drop (j - length a) t)" by (simp only: take_append) simp
    moreover have "j - length a < i" using j False by simp
    ultimately show ?thesis using i(3) by metis
  qed
  ultimately show ?thesis using i(1) by (auto simp: std_find_Some_iff placeholder_def numeral_2_eq_2)
qed

section \<open>Properties\<close>

text \<open>
  A message at a level above the logger's is dropped without looking at its text; any
  other text without placeholders becomes exactly one line on the logger's stream, after
  what was written before, and no other stream changes.
\<close>

theorem log_writes_one_line:
  assumes "std_find placeholder info 0 = None" "out env (pstream l) = Some old" "is_predefined_log_level level"
  shows "log l time level info [] env =
    (Ok (), if log_level l < level then env
            else env\<lparr>out := (out env)(pstream l \<mapsto>
              old @ ''['' @ time @ ''|'' @ predefined_log_level_name level @ ''] '' @ info @ [CHR 0x0A])\<rparr>)"
  using assms by (auto simp: log_def formatted_plain line_layout write_stream_def log_level_name_def is_predefined_log_level_def)

theorem log_writes_one_line_witness:
  "log (new_logger_stream 0) ''t'' WARNING ''hi'' [] \<lparr>out = [0 \<mapsto> ''x''], next_stream = 1, max_predefined_log_level = 6\<rparr> =
    (Ok (), \<lparr>out = [0 \<mapsto> ''x[t|WARNING] hi'' @ [CHR 0x0A]], next_stream = 1, max_predefined_log_level = 6\<rparr>)"
  using log_writes_one_line[of "''hi''" "\<lparr>out = [0 \<mapsto> ''x''], next_stream = 1, max_predefined_log_level = 6\<rparr>"
      "new_logger_stream 0" "''x''" WARNING "''t''"]
  by (simp add: std_find_def placeholder_def new_logger_stream_def is_predefined_log_level_def predefined_log_level_name_def)

end
