(* ===== verification/Mains.thy ===== *)
theory Mains
  imports Config Rlib_Log Socks5
begin

text \<open>
  The two programs: \<open>src/src/native/src/client.cc\<close>, \<open>server.cc\<close>, and the loading of a module in
  \<open>module.cc\<close>. What the process gets from outside is an argument: the configuration files, whether \<open>daemon\<close> succeeds
  and a log file opens, the shared objects \<open>dlopen\<close> finds (the symbols they define, and the
  functions behind them), the answers of the resolver and the results of \<open>accept\<close>. A configuration object
  starts with whatever memory held (\<open>conf0\<close>). Printing the usage and the log lines are left out.
\<close>

section \<open>Definitions\<close>

subsection \<open>Modules\<close>

type_synonym shared_object = "(string \<Rightarrow> bool) \<times> snake_module"

definition module_symbols :: "string list" where
  "module_symbols = [''client_make_auth_query'', ''client_deal_auth_reply'', ''client_encode'', ''client_decode'',
     ''client_connection_close'', ''server_make_auth_reply'', ''server_encode'', ''server_decode'', ''server_connection_close'']"

definition loadSo :: "(string \<Rightarrow> shared_object option) \<Rightarrow> string \<Rightarrow> snake_module prog" where
  "loadSo dlopen filePath =
     (case dlopen filePath of
        None \<Rightarrow> sysdie ''dlopen failed to open shared object {}, dlerror={}''
      | Some (dlsym, m) \<Rightarrow>
          bnd (for_each module_symbols
                 (\<lambda>funcname. if dlsym funcname then ret () else sysdie ''Unable to locate symbol {} in dylib {}. dlerror={}'')) (\<lambda>_.
          ret m))"

subsection \<open>Running\<close>

definition debug_log_level :: "int \<Rightarrow> int option" where
  "debug_log_level n =
     (if n = 0 then Some FATAL else if n = 1 then Some ERROR else if n = 2 then Some INFO
      else if n = 3 \<or> n = 4 then Some DEBUG else None)"

definition check_log_level :: "int \<Rightarrow> unit prog" where
  "check_log_level n = (case debug_log_level n of None \<Rightarrow> die ''Unknown log_level {}.'' | Some _ \<Rightarrow> ret ())"

record surroundings =
  su_endian :: endian
  su_dlopen :: "string \<Rightarrow> shared_object option"
  su_resolved :: "(exn + ip_address list) list"
  su_resolved_again :: "(exn + ip_address list) list"
  su_garbage :: bool
  su_accepts :: "fd option list"
  su_daemon :: bool
  su_opens :: "string \<Rightarrow> bool"
  su_tr :: translators
  su_read_ini :: "string \<Rightarrow> ptree outcome"

text \<open>
  The server object takes the tunnel over with its move constructor, which resolves the
  server's address again; the temporary tunnel is destroyed at the end of the declaration.
\<close>

definition skcli_main :: "surroundings \<Rightarrow> client_config \<Rightarrow> int prog" where
  "skcli_main su conf =
     bnd (check_log_level (cc_debugLevel conf)) (\<lambda>_.
     bnd (loadSo (su_dlopen su) (cc_modulePath conf)) (\<lambda>m.
     bnd (new_outbound_tunnel (su_resolved su) (bytes_of_string (cc_serverIp conf)) (cc_serverPort conf)
            (bytes_of_string (cc_passphrase conf)) m (cc_retryResolve conf)) (\<lambda>tmp.
     bnd (deferring (destroyCString tmp) (move_outbound_tunnel (su_garbage su) (su_resolved_again su) tmp)) (\<lambda>ot.
     deferring (destroyCString ot)
       (bnd (socks5_listen (cc_bindIp conf) (cc_bindPort conf) (su_accepts su)) (\<lambda>_. ret 0))))))"

definition sksrv_main :: "surroundings \<Rightarrow> server_config \<Rightarrow> int prog" where
  "sksrv_main su conf =
     bnd (check_log_level (sv_debugLevel conf)) (\<lambda>_.
     bnd (loadSo (su_dlopen su) (sv_modulePath conf)) (\<lambda>m.
     bnd (inbound_listen \<lparr>it_mod = m, bindAddr = bytes_of_string (sv_bindIp conf), bindPort = sv_bindPort conf,
            it_passphrase = bytes_of_string (sv_passphrase conf)\<rparr> (su_accepts su)) (\<lambda>_. ret 0)))"

subsection \<open>The command line\<close>

definition stoi_res :: "string \<Rightarrow> int outcome" where
  "stoi_res s = (case stoi s of Inl e \<Rightarrow> Throw e | Inr n \<Rightarrow> Ok n)"

definition port_of :: "string \<Rightarrow> u16 outcome" where
  "port_of s = res_bind (stoi_res s) (\<lambda>n. Ok (of_int n))"

definition must :: "string \<Rightarrow> string \<Rightarrow> unit outcome" where
  "must s msg = (if s = [] then Throw (Runtime_error msg) else Ok ())"

text \<open>An option that was given replaces the value of the file, converted where it is a number.\<close>

definition override :: "string \<Rightarrow> (string \<Rightarrow> 'a outcome) \<Rightarrow> 'a \<Rightarrow> 'a outcome" where
  "override s conv old = (if s = [] then Ok old else conv s)"

record client_args =
  ca_asDaemon :: bool
  ca_retryResolve :: bool
  ca_confPath :: string
  ca_logFilePath :: string
  ca_serverAddr :: string
  ca_serverPort :: string
  ca_passP :: string
  ca_listenAddr :: string
  ca_listenPort :: string
  ca_debugLev :: string
  ca_modPath :: string

text \<open>\<open>None\<close>: the usage is displayed and the program ends.\<close>

definition client_parse :: "client_args option opt_query" where
  "client_parse =
     opt_bind (getBoolArg2 ''--help'' ''-h'') (\<lambda>help.
     if help then Pair (Ok None) else
     opt_bind (getBoolArg2 ''--daemon'' ''-d'') (\<lambda>asDaemon.
     opt_bind (getBoolArg ''--retry'') (\<lambda>retryResolve.
     opt_bind (getValueArg2 ''--conf'' ''-c'' False []) (\<lambda>confPath.
     opt_bind (getValueArg2 ''--log'' ''-l'' False []) (\<lambda>logFilePath.
     opt_bind (getValueArg2 ''--server'' ''-s'' False []) (\<lambda>serverAddr.
     opt_bind (getValueArg2 ''--server-port'' ''-p'' False []) (\<lambda>serverPort.
     opt_bind (getValueArg2 ''--passphrase'' ''-k'' False []) (\<lambda>passP.
     opt_bind (getValueArg2 ''--listen'' ''-L'' False []) (\<lambda>listenAddr.
     opt_bind (getValueArg2 ''--listen-port'' ''-P'' False []) (\<lambda>listenPort.
     opt_bind (getValueArg2 ''--debug'' ''-D'' False []) (\<lambda>debugLev.
     opt_bind (getValueArg2 ''--mod'' ''-m'' False []) (\<lambda>modPath.
     Pair (Ok (Some \<lparr>ca_asDaemon = asDaemon, ca_retryResolve = retryResolve, ca_confPath = confPath,
       ca_logFilePath = logFilePath, ca_serverAddr = serverAddr, ca_serverPort = serverPort, ca_passP = passP,
       ca_listenAddr = listenAddr, ca_listenPort = listenPort, ca_debugLev = debugLev, ca_modPath = modPath\<rparr>))))))))))))))"

definition client_no_config :: "client_config \<Rightarrow> client_args \<Rightarrow> client_config outcome" where
  "client_no_config conf0 a =
     res_bind (must (ca_serverAddr a) ''servAddr not set.'') (\<lambda>_.
     res_bind (must (ca_serverPort a) ''servPort not set.'') (\<lambda>_.
     res_bind (port_of (ca_serverPort a)) (\<lambda>serverPort.
     res_bind (must (ca_passP a) ''passphrase not set.'') (\<lambda>_.
     res_bind (must (ca_listenAddr a) ''bindAddr not set.'') (\<lambda>_.
     res_bind (must (ca_listenPort a) ''bindPort not set.'') (\<lambda>_.
     res_bind (port_of (ca_listenPort a)) (\<lambda>bindPort.
     res_bind (must (ca_debugLev a) ''debugLevel not set.'') (\<lambda>_.
     res_bind (stoi_res (ca_debugLev a)) (\<lambda>debugLevel.
     res_bind (must (ca_modPath a) ''modulePath not set.'') (\<lambda>_.
     Ok (conf0\<lparr>cc_logFile := ca_logFilePath a, cc_serverIp := ca_serverAddr a, cc_serverPort := serverPort,
           cc_passphrase := ca_passP a, cc_bindIp := ca_listenAddr a, cc_bindPort := bindPort,
           cc_debugLevel := debugLevel, cc_modulePath := ca_modPath a\<rparr>)))))))))))"

definition client_with_config :: "surroundings \<Rightarrow> client_args \<Rightarrow> client_config outcome" where
  "client_with_config su a =
     res_bind (client_load (su_tr su) (su_read_ini su)
       (if ca_confPath a = [] then ''/etc/snakesocks/conf/client.conf'' else ca_confPath a)) (\<lambda>conf.
     res_bind (override (ca_serverPort a) port_of (cc_serverPort conf)) (\<lambda>serverPort.
     res_bind (override (ca_listenPort a) port_of (cc_bindPort conf)) (\<lambda>bindPort.
     res_bind (override (ca_debugLev a) stoi_res (cc_debugLevel conf)) (\<lambda>debugLevel.
     Ok (conf\<lparr>cc_logFile := if ca_logFilePath a = [] then cc_logFile conf else ca_logFilePath a,
              cc_serverIp := if ca_serverAddr a = [] then cc_serverIp conf else ca_serverAddr a,
              cc_serverPort := serverPort,
              cc_passphrase := if ca_passP a = [] then cc_passphrase conf else ca_passP a,
              cc_bindIp := if ca_listenAddr a = [] then cc_bindIp conf else ca_listenAddr a,
              cc_bindPort := bindPort, cc_debugLevel := debugLevel,
              cc_modulePath := if ca_modPath a = [] then cc_modulePath conf else ca_modPath a\<rparr>)))))"

definition client_configure :: "surroundings \<Rightarrow> client_config \<Rightarrow> client_args \<Rightarrow> client_config outcome" where
  "client_configure su conf0 a =
     res_bind (if ca_confPath a = ''NULL'' then client_no_config conf0 a else client_with_config su a) (\<lambda>conf.
     Ok (if ca_retryResolve a then conf\<lparr>cc_retryResolve := True\<rparr> else conf))"

definition run_outcome :: "'a outcome \<Rightarrow> 'a prog" where
  "run_outcome r w = (r, w)"

definition go_background :: "surroundings \<Rightarrow> bool \<Rightarrow> string \<Rightarrow> unit prog" where
  "go_background su asDaemon logFile =
     bnd (if asDaemon \<and> \<not> su_daemon su then sysdie ''Failed to launch daemon.'' else ret ()) (\<lambda>_.
     if logFile \<noteq> [] \<and> \<not> su_opens su logFile then throw (Runtime_error ''Failed to open file {}.'') else ret ())"

definition client_wrapped_main :: "surroundings \<Rightarrow> client_config \<Rightarrow> string list \<Rightarrow> int prog" where
  "client_wrapped_main su conf0 argv =
     bnd (run_outcome (new_opt_parser argv)) (\<lambda>p.
     bnd (run_outcome (fst (client_parse p))) (\<lambda>r.
     case r of
       None \<Rightarrow> ret 0
     | Some a \<Rightarrow>
         bnd (run_outcome (client_configure su conf0 a)) (\<lambda>conf.
         bnd (go_background su (ca_asDaemon a) (cc_logFile conf)) (\<lambda>_.
         skcli_main su conf))))"

definition client_main :: "surroundings \<Rightarrow> client_config \<Rightarrow> string list \<Rightarrow> int prog" where
  "client_main su conf0 argv = catch (bnd (client_wrapped_main su conf0 argv) (\<lambda>_. ret 0)) (\<lambda>_. ret 2)"

subsection \<open>The server's command line\<close>

record server_args =
  sa_asDaemon :: bool
  sa_confPath :: string
  sa_logFilePath :: string
  sa_listenAddr :: string
  sa_listenPort :: string
  sa_passP :: string
  sa_debugLev :: string
  sa_modPath :: string

definition server_parse :: "server_args option opt_query" where
  "server_parse =
     opt_bind (getBoolArg2 ''--help'' ''-h'') (\<lambda>help.
     if help then Pair (Ok None) else
     opt_bind (getBoolArg2 ''--daemon'' ''-d'') (\<lambda>asDaemon.
     opt_bind (getValueArg2 ''--conf'' ''-c'' False []) (\<lambda>confPath.
     opt_bind (getValueArg2 ''--log'' ''-l'' False []) (\<lambda>logFilePath.
     opt_bind (getValueArg2 ''--listen'' ''-L'' False []) (\<lambda>listenAddr.
     opt_bind (getValueArg2 ''--listen-port'' ''-P'' False []) (\<lambda>listenPort.
     opt_bind (getValueArg2 ''--passphrase'' ''-k'' False []) (\<lambda>passP.
     opt_bind (getValueArg2 ''--debug'' ''-D'' False []) (\<lambda>debugLev.
     opt_bind (getValueArg2 ''--mod'' ''-m'' False []) (\<lambda>modPath.
     Pair (Ok (Some \<lparr>sa_asDaemon = asDaemon, sa_confPath = confPath, sa_logFilePath = logFilePath,
       sa_listenAddr = listenAddr, sa_listenPort = listenPort, sa_passP = passP, sa_debugLev = debugLev,
       sa_modPath = modPath\<rparr>)))))))))))"

definition server_no_config :: "server_config \<Rightarrow> server_args \<Rightarrow> server_config outcome" where
  "server_no_config conf0 a =
     res_bind (must (sa_listenAddr a) ''bindAddr not set.'') (\<lambda>_.
     res_bind (must (sa_listenPort a) ''bindPort not set.'') (\<lambda>_.
     res_bind (port_of (sa_listenPort a)) (\<lambda>bindPort.
     res_bind (must (sa_passP a) ''passphrase not set.'') (\<lambda>_.
     res_bind (must (sa_debugLev a) ''debugLevel not set.'') (\<lambda>_.
     res_bind (stoi_res (sa_debugLev a)) (\<lambda>debugLevel.
     res_bind (must (sa_modPath a) ''modulePath not set.'') (\<lambda>_.
     Ok (conf0\<lparr>sv_logFile := sa_logFilePath a, sv_bindIp := sa_listenAddr a, sv_bindPort := bindPort,
           sv_passphrase := sa_passP a, sv_debugLevel := debugLevel, sv_modulePath := sa_modPath a\<rparr>))))))))"

definition server_with_config :: "surroundings \<Rightarrow> server_args \<Rightarrow> server_config outcome" where
  "server_with_config su a =
     res_bind (server_load (su_tr su) (su_read_ini su)
       (if sa_confPath a = [] then ''/etc/snakesocks/conf/server.conf'' else sa_confPath a)) (\<lambda>conf.
     res_bind (override (sa_listenPort a) port_of (sv_bindPort conf)) (\<lambda>bindPort.
     res_bind (override (sa_debugLev a) stoi_res (sv_debugLevel conf)) (\<lambda>debugLevel.
     Ok (conf\<lparr>sv_logFile := if sa_logFilePath a = [] then sv_logFile conf else sa_logFilePath a,
              sv_bindIp := if sa_listenAddr a = [] then sv_bindIp conf else sa_listenAddr a,
              sv_bindPort := bindPort,
              sv_passphrase := if sa_passP a = [] then sv_passphrase conf else sa_passP a,
              sv_debugLevel := debugLevel,
              sv_modulePath := if sa_modPath a = [] then sv_modulePath conf else sa_modPath a\<rparr>))))"

definition server_wrapped_main :: "surroundings \<Rightarrow> server_config \<Rightarrow> string list \<Rightarrow> int prog" where
  "server_wrapped_main su conf0 argv =
     bnd (run_outcome (new_opt_parser argv)) (\<lambda>p.
     bnd (run_outcome (fst (server_parse p))) (\<lambda>r.
     case r of
       None \<Rightarrow> ret 0
     | Some a \<Rightarrow>
         bnd (run_outcome (if sa_confPath a = ''NULL'' then server_no_config conf0 a else server_with_config su a)) (\<lambda>conf.
         bnd (go_background su (sa_asDaemon a) (sv_logFile conf)) (\<lambda>_.
         sksrv_main su conf))))"

definition server_main :: "surroundings \<Rightarrow> server_config \<Rightarrow> string list \<Rightarrow> int prog" where
  "server_main su conf0 argv = catch (bnd (server_wrapped_main su conf0 argv) (\<lambda>_. ret 0)) (\<lambda>_. ret 2)"

section \<open>Properties\<close>

text \<open>
  A port on the command line is not checked: every number that fits into an \<open>int\<close>, a negative one included,
  is accepted and reduced modulo 65536; only a larger one is refused.
\<close>

theorem port_of_wraps:
  "port_of (int_to_string n) =
     (if - (2 ^ 31) \<le> n \<and> n < 2 ^ 31 then Ok (of_int (n mod 65536)) else Throw (Out_of_range ''stoi''))"
proof -
  have "std_scan (int_to_string n) = Some (n < 0, \<bar>n\<bar>)"
    by (auto simp: int_to_string_def std_scan_to_string)
  moreover have "(of_int (n mod 65536) :: u16) = of_int n"
    by transfer (simp add: take_bit_eq_mod)
  ultimately show ?thesis by (auto simp: port_of_def stoi_res_def stoi_def res_bind_def Let_def)
qed

text \<open>
  With \<open>-c NULL\<close> and without \<open>--retry\<close> the flag that makes the client retry to resolve the server's name is never
  assigned: the client runs with whatever the memory of the configuration object held.
\<close>

theorem no_config_retry_is_uninitialised:
  assumes "client_configure su conf0 a = Ok conf" "ca_confPath a = ''NULL''" "\<not> ca_retryResolve a"
  shows "cc_retryResolve conf = cc_retryResolve conf0"
  using assms by (auto simp: client_configure_def client_no_config_def res_bind_def split: outcome.splits)

text \<open>Two runs on the same command line that differ in what the memory held before.\<close>

definition no_config_args :: client_args where
  "no_config_args = \<lparr>ca_asDaemon = False, ca_retryResolve = False, ca_confPath = ''NULL'', ca_logFilePath = [],
     ca_serverAddr = ''a.example'', ca_serverPort = ''1080'', ca_passP = ''pw'', ca_listenAddr = ''::1'',
     ca_listenPort = ''1081'', ca_debugLev = ''1'', ca_modPath = ''m.so''\<rparr>"

definition left_over_config :: "bool \<Rightarrow> client_config" where
  "left_over_config r = \<lparr>cc_serverIp = [], cc_serverPort = 0, cc_passphrase = [], cc_bindIp = [],
     cc_bindPort = 0, cc_modulePath = [], cc_retryResolve = r, cc_debugLevel = 0, cc_logFile = []\<rparr>"

theorem no_config_retry_is_uninitialised_witness:
  "\<forall>su. \<exists>conf1 conf2.
     client_configure su (left_over_config True) no_config_args = Ok conf1 \<and> cc_retryResolve conf1 \<and>
     client_configure su (left_over_config False) no_config_args = Ok conf2 \<and> \<not> cc_retryResolve conf2"
proof (intro allI)
  fix su
  have scan: "std_scan ''1080'' = Some (False, 1080)" "std_scan ''1081'' = Some (False, 1081)" "std_scan ''1'' = Some (False, 1)"
    by code_simp+
  have "client_configure su (left_over_config r) no_config_args = Ok (left_over_config r
    \<lparr>cc_serverIp := ''a.example'', cc_serverPort := 1080, cc_passphrase := ''pw'', cc_bindIp := ''::1'',
     cc_bindPort := 1081, cc_debugLevel := 1, cc_modulePath := ''m.so''\<rparr>)" for r
    by (simp add: client_configure_def client_no_config_def no_config_args_def must_def port_of_def stoi_res_def
        stoi_def scan res_bind_def left_over_config_def)
  from no_config_retry_is_uninitialised[OF this] this
  show "\<exists>conf1 conf2.
     client_configure su (left_over_config True) no_config_args = Ok conf1 \<and> cc_retryResolve conf1 \<and>
     client_configure su (left_over_config False) no_config_args = Ok conf2 \<and> \<not> cc_retryResolve conf2"
    by (auto simp: no_config_args_def left_over_config_def)
qed

end
