(* ===== verification/Windows.thy ===== *)
theory Windows
  imports Mains Simple_Proxy
begin

text \<open>
  The Windows branches: \<open>quick_listen\<close>, \<open>quick_connect\<close> and the loops of \<open>sockIO\<close> in
  \<open>lib/rlib/sys/sio.hpp\<close>, \<open>outbound_tunnel::newConnection\<close> of \<open>tunnel.cc\<close>, \<open>Socks5Server::listen\<close> of
  \<open>socks5.cc\<close> and \<open>loadSo\<close> of \<open>module.cc\<close>.

  Winsock needs to be started: \<open>wsa\<close> counts the calls of \<open>WSAStartup\<close> less those of \<open>WSACleanup\<close>. With
  the count at zero the library refuses every call, and the call of \<open>WSACleanup\<close> that brings it to zero
  closes every socket of the process. \<open>ai_live\<close> holds the address lists that have not been freed; to free
  one twice is undefined. The return value of \<open>WSAStartup\<close> is an argument.
\<close>

section \<open>Definitions\<close>

subsection \<open>Winsock\<close>

record win =
  win_world :: world
  wsa :: nat
  ai_live :: "nat list"
  next_ai :: nat

type_synonym 'a win_prog = "win \<Rightarrow> 'a outcome \<times> win"

definition w_ret :: "'a \<Rightarrow> 'a win_prog" where
  "w_ret x s = (Ok x, s)"

definition w_throw :: "string \<Rightarrow> 'a win_prog" where
  "w_throw msg s = (Throw (Runtime_error msg), s)"

definition w_bnd :: "'a win_prog \<Rightarrow> ('a \<Rightarrow> 'b win_prog) \<Rightarrow> 'b win_prog" where
  "w_bnd m f s =
     (case m s of
        (Ok x, s) \<Rightarrow> f x s
      | (Throw e, s) \<Rightarrow> (Throw e, s)
      | (Undefined, s) \<Rightarrow> (Undefined, s)
      | (Blocked, s) \<Rightarrow> (Blocked, s)
      | (Exited c, s) \<Rightarrow> (Exited c, s))"

definition w_deferring :: "unit win_prog \<Rightarrow> 'a win_prog \<Rightarrow> 'a win_prog" where
  "w_deferring d m s =
     (case m s of
        (Ok x, s) \<Rightarrow> w_bnd d (\<lambda>_. w_ret x) s
      | (Throw e, s) \<Rightarrow> w_bnd d (\<lambda>_ s. (Throw e, s)) s
      | r \<Rightarrow> r)"

definition w_lift :: "'a prog \<Rightarrow> 'a win_prog" where
  "w_lift m s = (let (r, w) = m (win_world s) in (r, s\<lparr>win_world := w\<rparr>))"

definition WSAStartup :: "int \<Rightarrow> string \<Rightarrow> unit win_prog" where
  "WSAStartup iResult err s =
     (if iResult \<noteq> 0 then (Throw (Runtime_error err), s) else (Ok (), s\<lparr>wsa := Suc (wsa s)\<rparr>))"

definition WSACleanup :: "unit win_prog" where
  "WSACleanup s =
     (Ok (), if wsa s = 1 then s\<lparr>wsa := 0, win_world := (win_world s)\<lparr>socks := Map.empty\<rparr>\<rparr>
             else s\<lparr>wsa := wsa s - 1\<rparr>)"

definition getaddrinfo_win :: "string \<Rightarrow> u16 \<Rightarrow> bool \<Rightarrow> (nat \<times> addrinfo list) option win_prog" where
  "getaddrinfo_win addr port passive s =
     (if wsa s = 0 then (Ok None, s)
      else case net_getaddrinfo (net (win_world s)) addr port passive of
        Inl _ \<Rightarrow> (Ok None, s)
      | Inr as \<Rightarrow> (Ok (Some (next_ai s, as)), s\<lparr>ai_live := next_ai s # ai_live s, next_ai := Suc (next_ai s)\<rparr>))"

definition freeaddrinfo_win :: "nat \<Rightarrow> unit win_prog" where
  "freeaddrinfo_win p s =
     (if p \<in> set (ai_live s) then (Ok (), s\<lparr>ai_live := removeAll p (ai_live s)\<rparr>) else (Undefined, s))"

subsection \<open>Connecting and listening\<close>

definition win_socket :: "addrinfo \<Rightarrow> fd option win_prog" where
  "win_socket rp s =
     (if wsa s = 0 \<or> \<not> net_socket (net (win_world s)) rp then (Ok None, s) else w_bnd (w_lift new_fd) (\<lambda>fd. w_ret (Some fd)) s)"

definition win_reuse :: "addrinfo \<Rightarrow> unit win_prog" where
  "win_reuse rp s =
     (if net_setsockopt (net (win_world s)) ''SO_REUSEADDR'' rp then (Ok (), s)
      else w_throw ''setsockopt(SO_REUSEADDR) failed'' s)"

definition win_connect :: "fd \<Rightarrow> addrinfo \<Rightarrow> bool win_prog" where
  "win_connect fd rp s =
     (case net_connect (net (win_world s)) rp of
        None \<Rightarrow> (Ok False, s)
      | Some sk \<Rightarrow> w_bnd (w_lift (attach fd sk)) (\<lambda>_. w_ret True) s)"

fun connect_any_win :: "addrinfo list \<Rightarrow> fd option win_prog" where
  "connect_any_win [] s = (Ok None, s)"
| "connect_any_win (rp # rps) s =
     w_bnd (win_socket rp) (\<lambda>sockfd.
     case sockfd of
       None \<Rightarrow> connect_any_win rps
     | Some sockfd \<Rightarrow>
         w_bnd (win_reuse rp) (\<lambda>_.
         w_bnd (win_connect sockfd rp) (\<lambda>ok.
         if ok then w_ret (Some sockfd)
         else w_bnd (w_lift (close_ex sockfd)) (\<lambda>_. connect_any_win rps)))) s"

fun bind_any_win :: "addrinfo list \<Rightarrow> (fd \<times> addrinfo) option win_prog" where
  "bind_any_win [] s = (Ok None, s)"
| "bind_any_win (rp # rps) s =
     w_bnd (win_socket rp) (\<lambda>listenfd.
     case listenfd of
       None \<Rightarrow> bind_any_win rps
     | Some listenfd \<Rightarrow>
         w_bnd (win_reuse rp) (\<lambda>_ s.
         if net_bind (net (win_world s)) rp then (Ok (Some (listenfd, rp)), s)
         else w_bnd (w_lift (close_ex listenfd)) (\<lambda>_. bind_any_win rps) s)) s"

text \<open>\<open>doNotWSAStartup\<close> is the template parameter, \<open>iResult\<close> what \<open>WSAStartup\<close> returns.\<close>

definition quick_listen_win :: "bool \<Rightarrow> int \<Rightarrow> string \<Rightarrow> u16 \<Rightarrow> bool \<Rightarrow> fd win_prog" where
  "quick_listen_win doNotWSAStartup iResult addr port use_udp =
     w_bnd (if doNotWSAStartup then w_ret () else WSAStartup iResult ''WSAStartup failed with error: {}'') (\<lambda>_.
     w_bnd (getaddrinfo_win addr port True) (\<lambda>res.
     case res of
       None \<Rightarrow> w_bnd WSACleanup (\<lambda>_. w_throw ''Failed to getaddrinfo. returnval={}'')
     | Some (psaddr, as) \<Rightarrow>
         w_bnd (bind_any_win as) (\<lambda>r.
         case r of
           None \<Rightarrow> w_throw ''Failed to bind to any of these addr.''
         | Some (listenfd, rp) \<Rightarrow>
             w_bnd (\<lambda>s. if \<not> use_udp \<and> \<not> net_listen (net (win_world s)) rp then w_throw ''listen failed. {}'' s else (Ok (), s)) (\<lambda>_.
             w_bnd (freeaddrinfo_win psaddr) (\<lambda>_.
             w_ret listenfd)))))"

definition quick_connect_win :: "bool \<Rightarrow> int \<Rightarrow> string \<Rightarrow> u16 \<Rightarrow> fd win_prog" where
  "quick_connect_win doNotWSAStartup iResult addr port =
     w_bnd (if doNotWSAStartup then w_ret () else WSAStartup iResult ''WSAStartup failed with error: {}'') (\<lambda>_.
     w_bnd (getaddrinfo_win addr port False) (\<lambda>res.
     case res of
       None \<Rightarrow> w_bnd WSACleanup (\<lambda>_. w_throw ''getaddrinfo failed. Check network connection to {}:{}'')
     | Some (paddr, as) \<Rightarrow>
         w_deferring (w_bnd WSACleanup (\<lambda>_. freeaddrinfo_win paddr))
          (w_bnd (connect_any_win as) (\<lambda>r.
           case r of
             None \<Rightarrow> w_throw ''Failed to connect to any of these addr.''
           | Some sockfd \<Rightarrow>
               w_bnd (freeaddrinfo_win paddr) (\<lambda>_.
               w_ret sockfd)))))"

definition newConnection_win :: "int \<Rightarrow> outbound_tunnel \<Rightarrow> fd win_prog" where
  "newConnection_win iResult ot =
     w_bnd (WSAStartup iResult ''WSAStartup failed with error: {}'') (\<lambda>_.
     w_bnd (getaddrinfo_win (string_of_bytes (serverAddr ot)) (serverPort ot) False) (\<lambda>res.
     case res of
       None \<Rightarrow> w_bnd WSACleanup (\<lambda>_. w_throw ''getaddrinfo failed. Check network connection to {}:{}'')
     | Some (paddr, as) \<Rightarrow>
         w_deferring (w_bnd WSACleanup (\<lambda>_. freeaddrinfo_win paddr))
          (w_bnd (connect_any_win as) (\<lambda>r.
           case r of
             None \<Rightarrow> w_throw ''Failed to connect to any of these addr.''
           | Some sockfd \<Rightarrow> w_ret sockfd))))"

definition socks5_listen_win :: "int \<Rightarrow> string \<Rightarrow> u16 \<Rightarrow> fd option list \<Rightarrow> unit win_prog" where
  "socks5_listen_win iResult bindIp port accepts =
     w_bnd (WSAStartup iResult ''WSAStartup failed with error: {}'') (\<lambda>_.
     w_bnd (getaddrinfo_win bindIp port True) (\<lambda>res.
     case res of
       None \<Rightarrow> w_bnd WSACleanup (\<lambda>_. w_throw ''Failed to getaddrinfo. returnval={}'')
     | Some (psaddr, as) \<Rightarrow>
         w_bnd (bind_any_win as) (\<lambda>r.
         case r of
           None \<Rightarrow> w_throw ''Failed to bind to any of these addr.''
         | Some (listenfd, rp) \<Rightarrow>
             w_bnd (\<lambda>s. if net_listen (net (win_world s)) rp then (Ok (), s) else w_throw ''listen failed.'' s) (\<lambda>_.
             w_lift (socks5_accept_loop accepts)))))"

subsection \<open>\<open>sockIO\<close>\<close>

definition recvn_win :: "fd \<Rightarrow> nat \<Rightarrow> nat \<Rightarrow> bytes option prog" where
  "recvn_win fd cap n = with_sock fd (if n = 0 then Some [] else None)
     (\<lambda>s. let (r, es) = recvn_loop cap n [] (rx s) in (r, s\<lparr>rx := es\<rparr>))"

text \<open>There are no signals: a peer that has gone makes \<open>send\<close> fail.\<close>

definition sendn_win :: "fd \<Rightarrow> bytes \<Rightarrow> bool prog" where
  "sendn_win fd bs = with_sock fd (bs = [])
     (\<lambda>s. let (r, out, es) = sendn_loop True bs [] (tx s) in (r, s\<lparr>tx := es, sent := sent s @ out\<rparr>))"

text \<open>The two reads of \<open>recvall\<close> are repeated while they are interrupted.\<close>

fun recv_retry :: "nat \<Rightarrow> rx_event list \<Rightarrow> io_result \<times> rx_event list" where
  "recv_retry n (Rx_Intr # es) = recv_retry n es"
| "recv_retry n es = os_recv n es"

lemma recv_retry_bytes: "recv_retry n es = (Io_Bytes bs, es') \<Longrightarrow> length bs \<le> n"
  by (induction n es rule: recv_retry.induct) (auto dest: os_recv_bytes(1) simp del: os_recv.simps)

function recvall_loop_win :: "nat \<Rightarrow> bytes \<Rightarrow> rx_event list \<Rightarrow> (bytes \<times> nat) option outcome \<times> rx_event list" where
  "recvall_loop_win current acc es =
     (case recv_retry (current div 2) es of
        (Io_Bytes bs, es) \<Rightarrow>
          (if length bs < current \<or> current = 0 then (Ok (Some (acc @ bs, current)), es)
           else recvall_loop_win (2 * current) (acc @ bs) es)
      | (Io_Block, es) \<Rightarrow> (Blocked, es)
      | (r, es) \<Rightarrow> (Ok None, es))"
  by pat_completeness auto

termination
  by (relation "measure (\<lambda>(current, acc, es). 0)")
     (auto dest!: sym[of "(Io_Bytes _, _)"] dest: recv_retry_bytes)

definition recv_some_win :: "fd \<Rightarrow> nat \<Rightarrow> (bytes \<times> nat) option prog" where
  "recv_some_win fd current = with_sock fd None
     (\<lambda>s. let (r, es) =
                (case recv_retry (current div 2) (rx s) of
                   (Io_Bytes bs, es) \<Rightarrow>
                     (if length bs < current div 2 then (Ok (Some (bs, current)), es)
                      else recvall_loop_win current bs es)
                 | (Io_Block, es) \<Rightarrow> (Blocked, es)
                 | (r, es) \<Rightarrow> (Ok None, es))
          in (r, s\<lparr>rx := es\<rparr>))"

definition recvall_win :: "fd \<Rightarrow> ptr \<Rightarrow> nat \<Rightarrow> (nat option \<times> ptr) prog" where
  "recvall_win fd pvptr initSize =
     (let current = (if initSize \<noteq> 0 then initSize else 1024) in
      bnd (if pvptr = NULL then malloc_ex current else ret pvptr) (\<lambda>vptr.
      bnd (recv_some_win fd current) (\<lambda>r.
      case r of
        None \<Rightarrow> ret (None, pvptr)
      | Some (bs, sz) \<Rightarrow>
          bnd (if sz = current then ret vptr else bnd (free_ex vptr) (\<lambda>_. malloc_ex sz)) (\<lambda>vptr.
          bnd (if bs = [] then ret () else store_ex vptr 0 bs) (\<lambda>_.
          ret (Some (length bs), vptr))))))"

subsection \<open>Modules\<close>

definition loadSo_win :: "(string \<Rightarrow> shared_object option) \<Rightarrow> string \<Rightarrow> snake_module prog" where
  "loadSo_win LoadLibrary filePath =
     (case LoadLibrary filePath of
        None \<Rightarrow> sysdie ''Failed to open dll dylib {}, LastError={}. Confirm if it exists and you have access to it.''
      | Some (GetProcAddress, m) \<Rightarrow>
          bnd (for_each module_symbols
                 (\<lambda>funcname. if GetProcAddress funcname then ret () else sysdie ''Unable to locate symbol {} in dylib {}. LastError={}'')) (\<lambda>_.
          ret m))"

section \<open>Laws\<close>

declare recvall_loop_win.simps [simp del]

lemma w_bnd_simps:
  "m s = (Ok x, s') \<Longrightarrow> w_bnd m f s = f x s'"
  "m s = (Throw e, s') \<Longrightarrow> w_bnd m f s = (Throw e, s')"
  by (simp_all add: w_bnd_def)

text \<open>What the loops over the addresses leave alone.\<close>

definition framed :: "win \<Rightarrow> win \<Rightarrow> bool" where
  "framed s s' \<longleftrightarrow> wsa s' = wsa s \<and> ai_live s' = ai_live s \<and> next_ai s' = next_ai s"

lemma framed_refl [simp]: "framed s s" "framed s (s\<lparr>win_world := w\<rparr>)"
  by (simp_all add: framed_def)

lemma framed_trans: "framed s s' \<Longrightarrow> framed s' s'' \<Longrightarrow> framed s s''"
  by (simp add: framed_def)

lemma win_socket_cases:
  obtains "win_socket rp s = (Ok None, s)"
  | w where "win_socket rp s = (Ok (Some (next_fd (win_world s))), s\<lparr>win_world := w\<rparr>)"
  by (cases "wsa s = 0 \<or> \<not> net_socket (net (win_world s)) rp") (auto simp: win_socket_def w_bnd_def w_lift_def new_fd_def w_ret_def)

lemma win_connect_cases:
  obtains "win_connect fd rp s = (Ok False, s)"
  | w where "win_connect fd rp s = (Ok True, s\<lparr>win_world := w\<rparr>)" "socks w fd \<noteq> None"
  by (cases "net_connect (net (win_world s)) rp") (auto simp: win_connect_def w_bnd_def w_lift_def attach_def w_ret_def)

lemma connect_any_win_cases:
  "\<exists>s'. framed s s' \<and> (connect_any_win as s = (Ok None, s') \<or>
     (\<exists>fd. connect_any_win as s = (Ok (Some fd), s') \<and> socks (win_world s') fd \<noteq> None) \<or>
     (\<exists>m. connect_any_win as s = (Throw (Runtime_error m), s')))"
proof (induction as arbitrary: s)
  case (Cons rp rps)
  have step: "\<exists>s'. framed s s' \<and> (connect_any_win rps s1 = (Ok None, s') \<or>
     (\<exists>fd. connect_any_win rps s1 = (Ok (Some fd), s') \<and> socks (win_world s') fd \<noteq> None) \<or>
     (\<exists>m. connect_any_win rps s1 = (Throw (Runtime_error m), s')))" if "framed s s1" for s1
    using Cons.IH[of s1] that by (blast intro: framed_trans)
  show ?case
  proof (rule win_socket_cases[of rp s])
    assume "win_socket rp s = (Ok None, s)"
    then show ?thesis using step[of s] by (simp add: w_bnd_simps)
  next
    fix w
    let ?fd = "next_fd (win_world s)" and ?s = "s\<lparr>win_world := w\<rparr>"
    assume w: "win_socket rp s = (Ok (Some ?fd), ?s)"
    show ?thesis
    proof (cases "net_setsockopt (net w) ''SO_REUSEADDR'' rp")
      case True
      then have r: "win_reuse rp ?s = (Ok (), ?s)" by (simp add: win_reuse_def)
      show ?thesis
      proof (rule win_connect_cases[of ?fd rp ?s])
        assume c: "win_connect ?fd rp ?s = (Ok False, ?s)"
        obtain w1 where cl: "w_lift (close_ex ?fd) ?s = (Ok (), s\<lparr>win_world := w1\<rparr>)"
          by (simp add: w_lift_def close_ex_def)
        have "connect_any_win (rp # rps) s = connect_any_win rps (s\<lparr>win_world := w1\<rparr>)"
          by (simp add: w_bnd_def w r c cl)
        then show ?thesis using step[of "s\<lparr>win_world := w1\<rparr>"] by (simp del: connect_any_win.simps)
      next
        fix w1
        assume "win_connect ?fd rp ?s = (Ok True, ?s\<lparr>win_world := w1\<rparr>)" "socks w1 ?fd \<noteq> None"
        then show ?thesis by (intro exI[of _ "s\<lparr>win_world := w1\<rparr>"]) (auto simp: w w_bnd_simps r w_ret_def)
      qed
    next
      case False
      then have "win_reuse rp ?s = (Throw (Runtime_error ''setsockopt(SO_REUSEADDR) failed''), ?s)"
        by (simp add: win_reuse_def w_throw_def)
      then show ?thesis by (intro exI[of _ ?s]) (simp add: w w_bnd_simps)
    qed
  qed
qed simp

lemma removeAll_new: "p \<notin> set ps \<Longrightarrow> removeAll p (p # ps) = ps"
  by (simp add: removeAll_id)

definition cleaned :: "win \<Rightarrow> win" where
  "cleaned s = snd (WSACleanup s)"

lemma cleaned_simps [simp]:
  "ai_live (cleaned s) = ai_live s" "wsa (cleaned s) = wsa s - 1"
  "socks (win_world (cleaned s)) = (if wsa s = 1 then Map.empty else socks (win_world s))"
  by (simp_all add: cleaned_def WSACleanup_def)

lemma WSACleanup_cleaned: "WSACleanup s = (Ok (), cleaned s)"
  by (simp add: cleaned_def WSACleanup_def)

lemma free_list:
  "p \<in> set (ai_live s) \<Longrightarrow> freeaddrinfo_win p s = (Ok (), s\<lparr>ai_live := removeAll p (ai_live s)\<rparr>)"
  "p \<notin> set (ai_live s) \<Longrightarrow> freeaddrinfo_win p s = (Undefined, s)"
  by (simp_all add: freeaddrinfo_win_def)

lemma startup_cases:
  obtains "WSAStartup i err s = (Throw (Runtime_error err), s)" | "WSAStartup i err s = (Ok (), s\<lparr>wsa := Suc (wsa s)\<rparr>)"
  by (cases "i = 0") (auto simp: WSAStartup_def)

lemma getaddrinfo_win_cases:
  obtains "getaddrinfo_win addr port b s = (Ok None, s)"
  | as where "getaddrinfo_win addr port b s = (Ok (Some (next_ai s, as)), s\<lparr>ai_live := next_ai s # ai_live s, next_ai := Suc (next_ai s)\<rparr>)"
  by (cases "wsa s = 0"; cases "net_getaddrinfo (net (win_world s)) addr port b") (auto simp: getaddrinfo_win_def)

lemma recv_retry_no_intr:
  "recv_retry n es = (r, es') \<Longrightarrow>
   os_recv n (filter (\<lambda>e. e \<noteq> Rx_Intr) es) = (r, filter (\<lambda>e. e \<noteq> Rx_Intr) es')"
  by (induction n es rule: recv_retry.induct) (auto split: if_splits)

lemma recvall_loop_win_once:
  "recvall_loop_win current acc es =
     (case recv_retry (current div 2) es of
        (Io_Bytes bs, es) \<Rightarrow> (Ok (Some (acc @ bs, current)), es)
      | (Io_Block, es) \<Rightarrow> (Blocked, es)
      | (r, es) \<Rightarrow> (Ok None, es))"
  by (subst recvall_loop_win.simps) (auto split: prod.splits io_result.splits dest!: recv_retry_bytes)

text \<open>After the list of addresses \<open>p\<close> has been obtained, \<open>quick_connect\<close> and \<open>newConnection\<close> connect under the guard.\<close>

lemma connect_twice_freed:
  "(\<exists>m. fst (w_deferring (w_bnd WSACleanup (\<lambda>_. freeaddrinfo_win p)) (w_bnd (connect_any_win as) (\<lambda>r. case r of
      None \<Rightarrow> w_throw err | Some fd \<Rightarrow> w_bnd (freeaddrinfo_win p) (\<lambda>_. w_ret fd))) s) = Throw (Runtime_error m)) \<or>
    fst (w_deferring (w_bnd WSACleanup (\<lambda>_. freeaddrinfo_win p)) (w_bnd (connect_any_win as) (\<lambda>r. case r of
      None \<Rightarrow> w_throw err | Some fd \<Rightarrow> w_bnd (freeaddrinfo_win p) (\<lambda>_. w_ret fd))) s) = Undefined"
proof -
  obtain s' where "framed s s'" and "connect_any_win as s = (Ok None, s') \<or> (\<exists>fd. connect_any_win as s = (Ok (Some fd), s')) \<or>
      (\<exists>m. connect_any_win as s = (Throw (Runtime_error m), s'))" using connect_any_win_cases[of s as] by blast
  then show ?thesis
    by (cases "p \<in> set (ai_live s')") (auto simp: w_deferring_def w_bnd_def WSACleanup_cleaned free_list w_ret_def w_throw_def)
qed

lemma connect_once_freed:
  assumes "p \<in> set (ai_live s)"
    "w_deferring (w_bnd WSACleanup (\<lambda>_. freeaddrinfo_win p)) (w_bnd (connect_any_win as) (\<lambda>r. case r of
      None \<Rightarrow> w_throw err | Some fd \<Rightarrow> w_ret fd)) s = (r, s')"
  shows "wsa s' = wsa s - 1 \<and> ai_live s' = removeAll p (ai_live s) \<and>
    ((\<exists>m. r = Throw (Runtime_error m)) \<or> (\<exists>fd. r = Ok fd \<and> (socks (win_world s') fd \<noteq> None \<longleftrightarrow> wsa s \<noteq> 1)))"
proof -
  obtain s1 where s1: "framed s s1" and "connect_any_win as s = (Ok None, s1) \<or>
      (\<exists>fd. connect_any_win as s = (Ok (Some fd), s1) \<and> socks (win_world s1) fd \<noteq> None) \<or>
      (\<exists>m. connect_any_win as s = (Throw (Runtime_error m), s1))" using connect_any_win_cases[of s as] by blast
  moreover have "p \<in> set (ai_live s1)" "ai_live s1 = ai_live s" "wsa s1 = wsa s" using s1 assms(1) by (simp_all add: framed_def)
  ultimately show ?thesis
    using assms(2)
    by (auto simp: w_deferring_def w_bnd_def WSACleanup_cleaned free_list w_ret_def w_throw_def)
qed

section \<open>Properties\<close>

text \<open>
  C25: on Windows \<open>quick_connect\<close> never returns a connection, whatever the network does: it throws, or,
  as soon as one of the addresses accepts, it frees the list of addresses and leaves the scope of a
  guard that frees the list again. The second case does occur.
\<close>

theorem quick_connect_win_never_returns:
  "((\<exists>m. fst (quick_connect_win doNotWSAStartup iResult addr port s) = Throw (Runtime_error m)) \<or>
    fst (quick_connect_win doNotWSAStartup iResult addr port s) = Undefined) \<and>
   (\<exists>t. fst (quick_connect_win False 0 addr port t) = Undefined)"
proof
  have g: "(\<exists>m. fst (quick_connect_win True iResult addr port s) = Throw (Runtime_error m)) \<or>
    fst (quick_connect_win True iResult addr port s) = Undefined" for s
  proof (rule getaddrinfo_win_cases[of addr port False s])
    fix as
    let ?s = "s\<lparr>ai_live := next_ai s # ai_live s, next_ai := Suc (next_ai s)\<rparr>"
    assume "getaddrinfo_win addr port False s = (Ok (Some (next_ai s, as)), ?s)"
    then show ?thesis
      using connect_twice_freed[of "next_ai s" as "''Failed to connect to any of these addr.''" ?s]
      by (simp add: quick_connect_win_def w_bnd_simps w_ret_def)
  qed (simp add: quick_connect_win_def w_bnd_def w_ret_def WSACleanup_cleaned w_throw_def)
  have "quick_connect_win False iResult addr port s = quick_connect_win True iResult addr port (s\<lparr>wsa := Suc (wsa s)\<rparr>)"
    if "iResult = 0" using that by (simp add: quick_connect_win_def WSAStartup_def w_bnd_def w_ret_def)
  moreover have "fst (quick_connect_win False iResult addr port s) = Throw (Runtime_error ''WSAStartup failed with error: {}'')"
    if "iResult \<noteq> 0" using that by (simp add: quick_connect_win_def WSAStartup_def w_bnd_def)
  ultimately show "(\<exists>m. fst (quick_connect_win doNotWSAStartup iResult addr port s) = Throw (Runtime_error m)) \<or>
    fst (quick_connect_win doNotWSAStartup iResult addr port s) = Undefined"
    using g by (cases doNotWSAStartup; cases "iResult = 0") auto
  let ?rp = "\<lparr>ai_family = AF_INET, ai_addr = []\<rparr>"
  let ?net = "\<lparr>net_getaddrinfo = \<lambda>_ _ _. Inr [?rp], net_socket = \<lambda>_. True, net_setsockopt = \<lambda>_ _. True, net_bind = \<lambda>_. True,
    net_listen = \<lambda>_. True, net_connect = \<lambda>_. Some fresh_sock, handler_log_throws = \<lambda>_. None\<rparr>"
  show "\<exists>t. fst (quick_connect_win False 0 addr port t) = Undefined"
    by (rule exI[of _ "\<lparr>win_world = undefined\<lparr>net := ?net\<rparr>, wsa = 0, ai_live = [], next_ai = 0\<rparr>"])
       (simp add: quick_connect_win_def WSAStartup_def w_bnd_def getaddrinfo_win_def w_deferring_def win_socket_def w_lift_def new_fd_def
         w_ret_def win_reuse_def win_connect_def attach_def free_list WSACleanup_cleaned)
qed

text \<open>
  C24: on Windows the client's connections to its server keep the accounts: \<open>newConnection\<close> leaves the
  number of \<open>WSAStartup\<close> calls and the live address lists as they were, whether it
  returns or throws, and does nothing undefined. The descriptor it returns is open exactly if Winsock had been started
  before, as it has in the client, where \<open>listen\<close> started it; otherwise the guard's \<open>WSACleanup\<close> has closed it again.
\<close>

theorem newConnection_win_balanced:
  assumes "next_ai s \<notin> set (ai_live s)" "newConnection_win iResult ot s = (r, s')"
  shows "wsa s' = wsa s \<and> ai_live s' = ai_live s \<and>
    ((\<exists>m. r = Throw (Runtime_error m)) \<or> (\<exists>fd. r = Ok fd \<and> (socks (win_world s') fd \<noteq> None \<longleftrightarrow> 0 < wsa s)))"
proof (rule startup_cases[of iResult "''WSAStartup failed with error: {}''" s])
  assume "WSAStartup iResult ''WSAStartup failed with error: {}'' s = (Throw (Runtime_error ''WSAStartup failed with error: {}''), s)"
  then show ?thesis using assms(2) by (auto simp: newConnection_win_def w_bnd_simps)
next
  let ?s = "s\<lparr>wsa := Suc (wsa s)\<rparr>" and ?a = "string_of_bytes (serverAddr ot)" and ?p = "serverPort ot"
  assume st: "WSAStartup iResult ''WSAStartup failed with error: {}'' s = (Ok (), ?s)"
  show ?thesis
  proof (rule getaddrinfo_win_cases[of ?a ?p False ?s])
    assume "getaddrinfo_win ?a ?p False ?s = (Ok None, ?s)"
    then have "(r, s') = (Throw (Runtime_error ''getaddrinfo failed. Check network connection to {}:{}''), cleaned ?s)"
      using assms(2) st by (simp add: newConnection_win_def w_bnd_def WSACleanup_cleaned w_throw_def)
    then show ?thesis by simp
  next
    fix as
    let ?s1 = "?s\<lparr>ai_live := next_ai ?s # ai_live ?s, next_ai := Suc (next_ai ?s)\<rparr>"
    assume g: "getaddrinfo_win ?a ?p False ?s = (Ok (Some (next_ai ?s, as)), ?s1)"
    have "w_deferring (w_bnd WSACleanup (\<lambda>_. freeaddrinfo_win (next_ai s))) (w_bnd (connect_any_win as) (\<lambda>r. case r of
      None \<Rightarrow> w_throw ''Failed to connect to any of these addr.'' | Some fd \<Rightarrow> w_ret fd)) ?s1 = (r, s')"
      using assms(2) st g by (simp add: newConnection_win_def w_bnd_simps)
    from connect_once_freed[OF _ this] show ?thesis using assms(1) by (simp add: removeAll_new)
  qed
qed

definition demo_win :: "nat \<Rightarrow> win" where
  "demo_win n =
     \<lparr>win_world = \<lparr>mem = \<lparr>blocks = Map.empty, brk = 1, fresh_bytes = \<lambda>_ _. 0, stack_bytes = \<lambda>_. 0\<rparr>, socks = Map.empty, next_fd = 3, addrinfos = 0,
        net = \<lparr>net_getaddrinfo = \<lambda>_ _ _. Inr [\<lparr>ai_family = AF_INET, ai_addr = []\<rparr>], net_socket = \<lambda>_. True, net_setsockopt = \<lambda>_ _. True,
          net_bind = \<lambda>_. True, net_listen = \<lambda>_. True, net_connect = \<lambda>_. Some fresh_sock, handler_log_throws = \<lambda>_. None\<rparr>,
        conns = Map.empty, next_conn = 0, tasks = []\<rparr>,
      wsa = n, ai_live = [], next_ai = 0\<rparr>"

theorem newConnection_win_balanced_witness:
  "(\<exists>s'. newConnection_win 0 \<lparr>ot_mod = simple_proxy Little_Endian, serverAddr = [49], serverPort = 80, ot_passphrase = [], nx_retry = False,
        conv_serverAddr = [], conv_passphrase = \<lparr>null_terminated = False, bss_length = 0, bss_str = NULL\<rparr>\<rparr> (demo_win 1) = (Ok 3, s') \<and>
      wsa s' = 1 \<and> socks (win_world s') 3 \<noteq> None) \<and>
   (\<exists>s'. newConnection_win 0 \<lparr>ot_mod = simple_proxy Little_Endian, serverAddr = [49], serverPort = 80, ot_passphrase = [], nx_retry = False,
        conv_serverAddr = [], conv_passphrase = \<lparr>null_terminated = False, bss_length = 0, bss_str = NULL\<rparr>\<rparr> (demo_win 0) = (Ok 3, s') \<and>
      wsa s' = 0 \<and> socks (win_world s') 3 = None)"
proof -
  let ?ot = "\<lparr>ot_mod = simple_proxy Little_Endian, serverAddr = [49], serverPort = 80, ot_passphrase = [], nx_retry = False,
        conv_serverAddr = [], conv_passphrase = \<lparr>null_terminated = False, bss_length = 0, bss_str = NULL\<rparr>\<rparr>"
  have run: "fst (newConnection_win 0 ?ot (demo_win n)) = Ok 3" for n
    by (simp add: demo_win_def newConnection_win_def WSAStartup_def w_bnd_def getaddrinfo_win_def w_deferring_def win_socket_def w_lift_def new_fd_def
        w_ret_def win_reuse_def win_connect_def attach_def free_list WSACleanup_cleaned)
  obtain s1 where s1: "newConnection_win 0 ?ot (demo_win 1) = (Ok 3, s1)" using run[of 1] by (metis prod.collapse)
  obtain s0 where s0: "newConnection_win 0 ?ot (demo_win 0) = (Ok 3, s0)" using run[of 0] by (metis prod.collapse)
  have n: "next_ai (demo_win n) \<notin> set (ai_live (demo_win n))" "wsa (demo_win n) = n" for n by (simp_all add: demo_win_def)
  show ?thesis using newConnection_win_balanced[OF n(1) s1] newConnection_win_balanced[OF n(1) s0] s1 s0 by (simp add: n)
qed

text \<open>The events of a socket without the interruptions.\<close>

definition uninterrupted :: "fd \<Rightarrow> world \<Rightarrow> world" where
  "uninterrupted fd w =
     (case socks w fd of None \<Rightarrow> w
      | Some s \<Rightarrow> w\<lparr>socks := (socks w)(fd \<mapsto> s\<lparr>rx := filter (\<lambda>e. e \<noteq> Rx_Intr) (rx s)\<rparr>)\<rparr>)"

lemma uninterrupted_simps [simp]:
  "mem (uninterrupted fd w) = mem w" "uninterrupted fd (w\<lparr>mem := h\<rparr>) = (uninterrupted fd w)\<lparr>mem := h\<rparr>"
  by (auto simp: uninterrupted_def split: option.splits)

text \<open>A program that does on the uninterrupted socket what another does on the socket as it is.\<close>

definition mirrors :: "fd \<Rightarrow> 'a prog \<Rightarrow> 'a prog \<Rightarrow> bool" where
  "mirrors fd m' m \<longleftrightarrow> (\<forall>w. m' (uninterrupted fd w) = map_prod id (uninterrupted fd) (m w))"

lemma mirrors_ret: "mirrors fd (ret x) (ret x)"
  by (simp add: mirrors_def ret_def)

lemma mirrors_bnd: "mirrors fd m' m \<Longrightarrow> (\<And>x. mirrors fd (f' x) (f x)) \<Longrightarrow> mirrors fd (bnd m' f') (bnd m f)"
  by (auto simp: mirrors_def bnd_def split: prod.splits outcome.splits)

lemma mirrors_heap: "mirrors fd (on_heap f) (on_heap f)"
  by (simp add: mirrors_def on_heap_def split: option.splits)

lemma mirrors_case: "mirrors fd m' m \<Longrightarrow> (\<And>x y. mirrors fd (f' x y) (f x y)) \<Longrightarrow>
   mirrors fd (case r of None \<Rightarrow> m' | Some (x, y) \<Rightarrow> f' x y) (case r of None \<Rightarrow> m | Some (x, y) \<Rightarrow> f x y)"
  by (simp split: option.splits prod.splits)

lemma mirrors_if: "mirrors fd m' m \<Longrightarrow> mirrors fd n' n \<Longrightarrow> mirrors fd (if b then m' else n') (if b then m else n)"
  by simp

lemma mirrors_recv_some:
  assumes "0 < k"
  shows "mirrors fd (recv_some fd k) (recv_some_win fd k)"
  unfolding mirrors_def
proof
  fix w
  show "recv_some fd k (uninterrupted fd w) = map_prod id (uninterrupted fd) (recv_some_win fd k w)"
  proof (cases "socks w fd")
    case (Some s)
    obtain r1 es1 where a: "recv_retry (k div 2) (rx s) = (r1, es1)" by fastforce
    obtain r2 es2 where b: "recv_retry (k div 2) es1 = (r2, es2)" by fastforce
    show ?thesis
      using assms
      by (cases r1; cases r2)
         (simp_all add: recv_some_win_def recv_some_def with_sock_def uninterrupted_def recvall_loop_once recvall_loop_win_once
           Some a b recv_retry_no_intr[OF a] recv_retry_no_intr[OF b])
  qed (simp add: recv_some_win_def recv_some_def with_sock_def uninterrupted_def)
qed

text \<open>
  Interruptions. \<open>recvall\<close> on Windows repeats an interrupted read, the POSIX version reports it as an
  error; for the rest the two agree: what the Windows version does on a socket is what the POSIX version does on the
  same socket with the interruptions left out, in result, heap and what is left to read.
\<close>

theorem recvall_win_is_uninterrupted_recvall:
  "recvall fd p n (uninterrupted fd w) = map_prod id (uninterrupted fd) (recvall_win fd p n w)"
proof -
  have "mirrors fd (recvall fd p n) (recvall_win fd p n)"
    unfolding recvall_def recvall_win_def malloc_ex_def free_ex_def store_ex_def Let_def
    by (intro mirrors_bnd mirrors_if mirrors_ret mirrors_heap mirrors_case mirrors_recv_some) simp
  then show ?thesis by (simp add: mirrors_def)
qed

end
