(* ===== verification/Rlib_Stdio.thy ===== *)
theory Rlib_Stdio
  imports Rlib_Log
begin

text \<open>
  Output and input of \<open>src/src/native/src/lib/rlib/stdio.hpp\<close>. A stream is a number, 0 is \<open>std::cout\<close>; of an output stream the
  environment holds the text written to it and how much of the text has been flushed. An argument of
  \<open>print\<close> is the text \<open>operator<<\<close> makes of it. \<open>print\<close> takes at least one argument; without any
  the call does not compile.
\<close>

section \<open>Definitions\<close>

datatype os_id = OS_LINUX | OS_WINDOWS | OS_MACOS

definition RLIB_IMPL_ENDLINE :: "os_id \<Rightarrow> string" where
  "RLIB_IMPL_ENDLINE os = (case os of OS_WINDOWS \<Rightarrow> [CHR 0x0D, CHR 0x0A] | OS_MACOS \<Rightarrow> [CHR 0x0D] | OS_LINUX \<Rightarrow> [CHR 0x0A])"

record ostream =
  written :: string
  flushed :: nat

record stdio =
  platform :: os_id
  streams :: "nat \<Rightarrow> ostream"
  endl_flush :: bool

abbreviation (input) std_cout :: nat where "std_cout \<equiv> 0"

definition os_put :: "nat \<Rightarrow> string \<Rightarrow> stdio \<Rightarrow> stdio" where
  "os_put os t io = io\<lparr>streams := (streams io)(os := (streams io os)\<lparr>written := written (streams io os) @ t\<rparr>)\<rparr>"

definition os_flush :: "nat \<Rightarrow> stdio \<Rightarrow> stdio" where
  "os_flush os io = io\<lparr>streams := (streams io)(os := (streams io os)\<lparr>flushed := length (written (streams io os))\<rparr>)\<rparr>"

definition enable_endl_flush :: "bool \<Rightarrow> stdio \<Rightarrow> bool \<times> stdio" where
  "enable_endl_flush enable io = (enable, io\<lparr>endl_flush := enable\<rparr>)"

definition rlib_endl :: "nat \<Rightarrow> stdio \<Rightarrow> stdio" where
  "rlib_endl os io =
     (let io = os_put os (RLIB_IMPL_ENDLINE (platform io)) io in
      if endl_flush io then os_flush os io else io)"

subsection \<open>With a stream\<close>

fun print_to :: "nat \<Rightarrow> string \<Rightarrow> string list \<Rightarrow> stdio \<Rightarrow> stdio" where
  "print_to os reqArg [] io = os_put os reqArg io"
| "print_to os reqArgs (a # optiArgs) io = print_to os a optiArgs (os_put os '' '' (os_put os reqArgs io))"

definition println_to_empty :: "nat \<Rightarrow> stdio \<Rightarrow> stdio" where
  "println_to_empty os io = rlib_endl os io"

fun println_to :: "nat \<Rightarrow> string list \<Rightarrow> stdio \<Rightarrow> stdio" where
  "println_to os [] io = println_to_empty os io"
| "println_to os (a # args) io = println_to_empty os (print_to os a args io)"

fun print_iter_to :: "nat \<Rightarrow> string list \<Rightarrow> string \<Rightarrow> stdio \<Rightarrow> stdio" where
  "print_iter_to os [] spliter io = io"
| "print_iter_to os (i # arg) spliter io = print_iter_to os arg spliter (os_put os spliter (os_put os i io))"

definition println_iter_to :: "nat \<Rightarrow> string list \<Rightarrow> string \<Rightarrow> stdio \<Rightarrow> stdio" where
  "println_iter_to os arg spliter io = println_to_empty os (print_iter_to os arg spliter io)"

definition print_iter_spaced_to :: "nat \<Rightarrow> string list \<Rightarrow> stdio \<Rightarrow> stdio" where
  "print_iter_spaced_to os arg = print_iter_to os arg '' ''"

definition println_iter_spaced_to :: "nat \<Rightarrow> string list \<Rightarrow> stdio \<Rightarrow> stdio" where
  "println_iter_spaced_to os arg = println_iter_to os arg '' ''"

definition printf_to :: "nat \<Rightarrow> string \<Rightarrow> string list \<Rightarrow> stdio \<Rightarrow> nat outcome \<times> stdio" where
  "printf_to os fmt args io =
     (case formatted fmt args of
        Ok to_print \<Rightarrow> (Ok (length to_print), print_to os to_print [] io)
      | Throw e \<Rightarrow> (Throw e, io)
      | _ \<Rightarrow> (Blocked, io))"

definition printfln_to :: "nat \<Rightarrow> string \<Rightarrow> string list \<Rightarrow> stdio \<Rightarrow> nat outcome \<times> stdio" where
  "printfln_to os fmt args io =
     (case printf_to os fmt args io of
        (Ok len, io) \<Rightarrow> (Ok (len + 1), println_to_empty os io)
      | r \<Rightarrow> r)"

subsection \<open>With \<open>std::cout\<close>\<close>

definition println_args :: "string list \<Rightarrow> stdio \<Rightarrow> stdio" where
  "println_args args = println_to std_cout args"

definition println_empty :: "stdio \<Rightarrow> stdio" where
  "println_empty = println_to_empty std_cout"

definition print_args :: "string \<Rightarrow> string list \<Rightarrow> stdio \<Rightarrow> stdio" where
  "print_args reqArg args = print_to std_cout reqArg args"

definition print_iter :: "string list \<Rightarrow> string \<Rightarrow> stdio \<Rightarrow> stdio" where
  "print_iter arg spliter = print_iter_to std_cout arg spliter"

definition println_iter :: "string list \<Rightarrow> string \<Rightarrow> stdio \<Rightarrow> stdio" where
  "println_iter arg spliter = println_iter_to std_cout arg spliter"

definition print_iter_spaced :: "string list \<Rightarrow> stdio \<Rightarrow> stdio" where
  "print_iter_spaced arg = print_iter_spaced_to std_cout arg"

definition println_iter_spaced :: "string list \<Rightarrow> stdio \<Rightarrow> stdio" where
  "println_iter_spaced arg = println_iter_spaced_to std_cout arg"

definition printf :: "string \<Rightarrow> string list \<Rightarrow> stdio \<Rightarrow> nat outcome \<times> stdio" where
  "printf fmt args = printf_to std_cout fmt args"

definition printfln :: "string \<Rightarrow> string list \<Rightarrow> stdio \<Rightarrow> nat outcome \<times> stdio" where
  "printfln fmt args = printfln_to std_cout fmt args"

text \<open>
  A first argument that is an lvalue of another type than \<open>std::ostream\<close>: a stream when its type derives
  from \<open>std::ostream\<close>, otherwise a value that is wrapped and printed to \<open>std::cout\<close> with the rest.
\<close>

datatype lvalue_arg = Derived_stream nat | Wrapped string

definition println_lvalue :: "lvalue_arg \<Rightarrow> string list \<Rightarrow> stdio \<Rightarrow> stdio" where
  "println_lvalue os args =
     (case os of Derived_stream s \<Rightarrow> println_to s args | Wrapped t \<Rightarrow> println_args (t # args))"

definition print_lvalue :: "lvalue_arg \<Rightarrow> string \<Rightarrow> string list \<Rightarrow> stdio \<Rightarrow> stdio" where
  "print_lvalue os reqArg args =
     (case os of Derived_stream s \<Rightarrow> print_to s reqArg args | Wrapped t \<Rightarrow> print_args t (reqArg # args))"

subsection \<open>Input\<close>

text \<open>\<open>std::getline\<close> into an empty string: up to the delimiter, which is taken off the stream, or to the end.\<close>

definition scanln :: "char \<Rightarrow> string \<Rightarrow> string \<times> string" where
  "scanln delimiter is = (takeWhile (\<lambda>c. c \<noteq> delimiter) is, drop 1 (dropWhile (\<lambda>c. c \<noteq> delimiter) is))"

section \<open>Laws\<close>

lemma os_put_put: "os_put os b (os_put os a io) = os_put os (a @ b) io"
  by (simp add: os_put_def)

lemma os_put_Nil: "os_put os [] io = io"
  by (simp add: os_put_def)

lemma os_put_simps [simp]:
  "platform (os_put os t io) = platform io" "endl_flush (os_put os t io) = endl_flush io"
  "written (streams (os_put os t io) os) = written (streams io os) @ t"
  "os' \<noteq> os \<Longrightarrow> streams (os_put os t io) os' = streams io os'"
  by (simp_all add: os_put_def)

lemma print_to_join: "print_to os a as io = os_put os (rs_join '' '' (a # as)) io"
  by (induction os a as io rule: print_to.induct) (simp_all add: os_put_put rs_join_simps)

lemma print_iter_concat: "print_iter_to os arg spliter io = os_put os (concat (map (\<lambda>i. i @ spliter) arg)) io"
  by (induction os arg spliter io rule: print_iter_to.induct) (simp_all add: os_put_put os_put_Nil)

lemma println_to_line:
  "println_to os args io = rlib_endl os (os_put os (rs_join '' '' args) io)"
  by (cases args) (simp_all add: println_to_empty_def print_to_join os_put_Nil)

lemma rlib_endl_simps [simp]:
  "platform (rlib_endl os io) = platform io" "endl_flush (rlib_endl os io) = endl_flush io"
  "written (streams (rlib_endl os io) os) = written (streams io os) @ RLIB_IMPL_ENDLINE (platform io)"
  by (simp_all add: rlib_endl_def os_flush_def Let_def)

lemma println_to_written:
  "platform (println_to os args io) = platform io"
  "written (streams (println_to os args io) os) = written (streams io os) @ rs_join '' '' args @ RLIB_IMPL_ENDLINE (platform io)"
  by (simp_all add: println_to_line)

lemma rs_join_chars: "c \<noteq> CHR '' '' \<Longrightarrow> \<forall>a \<in> set args. c \<notin> set a \<Longrightarrow> c \<notin> set (rs_join '' '' args)"
  by (induction args rule: induct_list012) auto

text \<open>Reading \<open>n\<close> lines.\<close>

fun scan_lines :: "nat \<Rightarrow> string \<Rightarrow> string list \<times> string" where
  "scan_lines 0 is = ([], is)"
| "scan_lines (Suc n) is = (let (line, is) = scanln (CHR 0x0A) is; (lines, is) = scan_lines n is in (line # lines, is))"

lemma scanln_line: "CHR 0x0A \<notin> set t \<Longrightarrow> scanln (CHR 0x0A) (t @ CHR 0x0A # rest) = (t, rest)"
  by (auto simp: scanln_def takeWhile_append dropWhile_append)

section \<open>Properties\<close>

text \<open>
  What \<open>println\<close> puts out is its arguments with one space between them and an end of line, whatever their number, in one
  piece behind what the stream held; everything is flushed exactly if \<open>enable_endl_flush\<close> is on, and no other stream is touched.
\<close>

theorem println_writes_line:
  "written (streams (println_to os args io) os) = written (streams io os) @ rs_join '' '' args @ RLIB_IMPL_ENDLINE (platform io) \<and>
   flushed (streams (println_to os args io) os) =
     (if endl_flush io then length (written (streams (println_to os args io) os)) else flushed (streams io os)) \<and>
   (streams (println_to os args io))(os := x) = (streams io)(os := x)"
  by (simp add: println_to_written) (simp add: println_to_line rlib_endl_def os_flush_def os_put_def)

text \<open>
  \<open>scanln\<close> reads back what \<open>println\<close> wrote, line by line, if no argument contains a line feed; on Windows every line comes
  back with the carriage return of the end of line.
\<close>

theorem println_scanln_round_trip:
  assumes "platform io \<noteq> OS_MACOS" "\<forall>args \<in> set lines. \<forall>a \<in> set args. CHR 0x0A \<notin> set a" "written (streams io os) = []"
  shows "scan_lines (length lines) (written (streams (fold (println_to os) lines io) os)) =
    (map (\<lambda>args. rs_join '' '' args @ (if platform io = OS_WINDOWS then [CHR 0x0D] else [])) lines, [])"
proof -
  let ?cr = "if platform io = OS_WINDOWS then [CHR 0x0D] else []"
  have e: "RLIB_IMPL_ENDLINE (platform io) = ?cr @ [CHR 0x0A]"
    using assms(1) by (cases "platform io") (simp_all add: RLIB_IMPL_ENDLINE_def)
  have w: "written (streams (fold (println_to os) ls i) os) = written (streams i os) @ concat (map (\<lambda>args. rs_join '' '' args @ ?cr @ [CHR 0x0A]) ls)"
    if "platform i = platform io" for ls i
    using that by (induction ls arbitrary: i) (simp_all add: println_to_written e)
  have "scan_lines (length ls) (concat (map (\<lambda>args. rs_join '' '' args @ ?cr @ [CHR 0x0A]) ls)) = (map (\<lambda>args. rs_join '' '' args @ ?cr) ls, [])"
    if "\<forall>args \<in> set ls. \<forall>a \<in> set args. CHR 0x0A \<notin> set a" for ls
    using that
  proof (induction ls)
    case (Cons args ls)
    have "CHR 0x0A \<notin> set (rs_join '' '' args)" using Cons.prems by (intro rs_join_chars) auto
    then have n: "CHR 0x0A \<notin> set (rs_join '' '' args @ ?cr)" by simp
    show ?case using Cons scanln_line[OF n] by simp
  qed simp
  then show ?thesis using assms(2,3) w[OF refl, of lines] by simp
qed

theorem println_scanln_round_trip_witness:
  "scan_lines 2 (written (streams (fold (println_to 1) [[''ab'', ''c''], []]
     \<lparr>platform = OS_WINDOWS, streams = \<lambda>_. \<lparr>written = [], flushed = 0\<rparr>, endl_flush = True\<rparr>) 1)) = ([''ab c'' @ [CHR 0x0D], [CHR 0x0D]], [])"
  using println_scanln_round_trip[of "\<lparr>platform = OS_WINDOWS, streams = \<lambda>_. \<lparr>written = [], flushed = 0\<rparr>, endl_flush = True\<rparr>"
      "[[''ab'', ''c''], []]" 1] by (simp add: numeral_2_eq_2)

text \<open>
  \<open>printfln\<close> writes the formatted text and an end of line and returns the length of the text plus one, which is the number
  of characters written only where the end of line is one character: on Windows it is one short.
\<close>

theorem printfln_count:
  assumes "formatted fmt args = Ok t" "printfln_to os fmt args io = (r, io')"
  shows "\<exists>line. r = Ok (length t + 1) \<and> written (streams io' os) = written (streams io os) @ line \<and>
    (r = Ok (length line) \<longleftrightarrow> platform io \<noteq> OS_WINDOWS)"
proof -
  have "r = Ok (length t + 1)" "io' = rlib_endl os (os_put os t io)"
    using assms by (auto simp: printfln_to_def printf_to_def println_to_empty_def)
  then show ?thesis
    by (cases "platform io") (auto simp: RLIB_IMPL_ENDLINE_def intro!: exI[of _ "t @ RLIB_IMPL_ENDLINE (platform io)"])
qed

theorem printfln_count_witness:
  "\<exists>io' line. printfln_to 0 ''hi'' [] \<lparr>platform = OS_WINDOWS, streams = \<lambda>_. \<lparr>written = [], flushed = 0\<rparr>, endl_flush = False\<rparr> = (Ok 3, io') \<and>
     written (streams io' 0) = line \<and> length line \<noteq> 3"
proof -
  let ?io = "\<lparr>platform = OS_WINDOWS, streams = \<lambda>_. \<lparr>written = [], flushed = 0\<rparr>, endl_flush = False\<rparr>"
  have f: "formatted ''hi'' [] = Ok ''hi''" by (rule formatted_plain) code_simp
  obtain r io' where r: "printfln_to 0 ''hi'' [] ?io = (r, io')" by fastforce
  from printfln_count[OF f r] r show ?thesis by auto
qed

end
