(* ===== verification/Text_Output.thy ===== *)
theory Text_Output
  imports Mains Rlib_Stdio
begin

text \<open>
  Text put out by the programs and the modules: the fonts of \<open>lib/rlib/terminal.hpp\<close>, the usage texts of \<open>client.cc\<close> and
  \<open>server.cc\<close>, and the string printer of \<open>modules/module_util/fmt.c\<close>.
\<close>

section \<open>Definitions\<close>

subsection \<open>Fonts\<close>

datatype color_t = color_unset | black | red | green | brown | blue | magenta | cyan | lightgray

datatype font_t = font_unset | bold | underline | dark | background | striked

record fontInfo =
  textColor :: color_t
  fontType :: font_t
  font_clear :: bool

definition new_fontInfo :: fontInfo where
  "new_fontInfo = \<lparr>textColor = color_unset, fontType = font_unset, font_clear = False\<rparr>"

definition fontInfo_color :: "color_t \<Rightarrow> fontInfo" where
  "fontInfo_color text_color = new_fontInfo\<lparr>textColor := text_color\<rparr>"

definition fontInfo_font :: "font_t \<Rightarrow> fontInfo" where
  "fontInfo_font font_type = new_fontInfo\<lparr>fontType := font_type\<rparr>"

definition fontInfo_both :: "color_t \<Rightarrow> font_t \<Rightarrow> fontInfo" where
  "fontInfo_both text_color font_type = new_fontInfo\<lparr>textColor := text_color, fontType := font_type\<rparr>"

definition fontInfo_clear :: fontInfo where
  "fontInfo_clear = new_fontInfo\<lparr>font_clear := True\<rparr>"

fun color_to_int :: "color_t \<Rightarrow> nat" where
  "color_to_int color_unset = 10"
| "color_to_int black = 0"
| "color_to_int red = 1"
| "color_to_int green = 2"
| "color_to_int brown = 3"
| "color_to_int blue = 4"
| "color_to_int magenta = 5"
| "color_to_int cyan = 6"
| "color_to_int lightgray = 7"

fun font_to_int :: "font_t \<Rightarrow> nat" where
  "font_to_int font_unset = 0"
| "font_to_int bold = 1"
| "font_to_int underline = 4"
| "font_to_int dark = 2"
| "font_to_int background = 7"
| "font_to_int striked = 9"

definition color_to_char :: "color_t \<Rightarrow> char" where
  "color_to_char ct = (if ct = color_unset then CHR 0x00 else char_of (48 + color_to_int ct))"

definition font_to_char :: "font_t \<Rightarrow> char" where
  "font_to_char ft = (if ft = font_unset then CHR 0x00 else char_of (48 + font_to_int ft))"

definition color_to_string :: "fontInfo \<Rightarrow> string" where
  "color_to_string f = (if textColor f = color_unset then [] else [CHR 0x1B, CHR ''['', CHR ''3'', color_to_char (textColor f), CHR ''m''])"

definition font_to_string :: "fontInfo \<Rightarrow> string" where
  "font_to_string f = (if fontType f = font_unset then [] else [CHR 0x1B, CHR ''['', font_to_char (fontType f), CHR ''m''])"

definition font_toString :: "os_id \<Rightarrow> fontInfo \<Rightarrow> string" where
  "font_toString os f =
     (if os = OS_WINDOWS then []
      else if font_clear f then [CHR 0x1B, CHR ''['', CHR ''0'', CHR ''m'']
      else color_to_string f @ font_to_string f)"

definition put_font :: "nat \<Rightarrow> fontInfo \<Rightarrow> stdio \<Rightarrow> stdio" where
  "put_font os f io = os_put os (font_toString (platform io) f) io"

subsection \<open>Usage texts\<close>

text \<open>The build may define a version and a time of compilation. Every line of the text ends with a line feed.\<close>

definition client_usage_lines :: "string option \<Rightarrow> string option \<Rightarrow> os_id \<Rightarrow> string list" where
  "client_usage_lines sk_version compile_time os =
     [''SnakeSocks client'' @ (case sk_version of None \<Rightarrow> [] | Some v \<Rightarrow> '' '' @ v) @ (if os = OS_WINDOWS then '' Windows Edition'' else [])] @
     (case compile_time of None \<Rightarrow> [] | Some t \<Rightarrow> [''Compiled at UTC '' @ t]) @
     [[],
      ''Usage: skcli [OPTION...]'',
      ''A extensible proxy which supports module-defined protocol behavior.'',
      ''You can install and run module easily from configuration file,'',
      ''to determine how packets are encrypted, transmitted, etc.'',
      [],
      ''Options:'',
      ''-s --server <server address>    Server ip or domain'',
      ''-p --server-port <server port>  Server listening port'',
      ''-k --passphrase <passphrase>    Passphrase'',
      ''-L --listen <listen address>    Local address that socks5 server listens on'',
      ''-P --listen-port <listen port>  Local port that socks5 server listens on'',
      ''-D --debug <debug level>        Debug level to set (0/1/2/3/4)'',
      ''-m --mod <path to module>       Module path'',
      ''   --retry                      Retry infinitely if a domain cannot be resolved''] @
     (if os = OS_WINDOWS then
       [''-c --conf <config file path>    Path to config file(default: conf'' @ [CHR 0x5C] @ ''client.conf)'',
        ''                                    Use '' @ [CHR 0x27] @ ''-c NULL'' @ [CHR 0x27] @ '' to prevent me looking for client.conf'']
      else
       [''-c --conf <config file path>    Path to config file (default: /etc/snakesocks/conf/client.conf)'',
        ''                                    Use '' @ [CHR 0x27] @ ''-c NULL'' @ [CHR 0x27] @ '' to prevent me looking for client.conf'',
        ''-d --daemon                     Run client as daemon'',
        ''-l --log <log file name>        Log file for daemon mode, use stdout if not set'']) @
     [''-h --help                       Show this message'', [], ''Published on GNU license V2.'']"

definition client_display_usage :: "string option \<Rightarrow> string option \<Rightarrow> stdio \<Rightarrow> stdio" where
  "client_display_usage sk_version compile_time io =
     print_args (concat (map (\<lambda>l. l @ [CHR 0x0A]) (client_usage_lines sk_version compile_time (platform io)))) [] io"

definition server_usage_lines :: "string option \<Rightarrow> string option \<Rightarrow> os_id \<Rightarrow> string list" where
  "server_usage_lines sk_version compile_time os =
     [''SnakeSocks server'' @ (case sk_version of None \<Rightarrow> [] | Some v \<Rightarrow> '' '' @ v) @ (if os = OS_WINDOWS then '' Windows Edition'' else [])] @
     (case compile_time of None \<Rightarrow> [] | Some t \<Rightarrow> [''Compiled at UTC '' @ t]) @
     [[],
      ''Usage: sksrv [OPTION...]'',
      ''A extensible proxy which supports module-defined protocol behavior.'',
      ''You can install and run module easily from configuration file,'',
      ''to determine how packets are encrypted, transmitted, etc.'',
      [],
      ''Options:'',
      ''-L --listen <listen address>    Local address that socks5 server listens on (default ::0)'',
      ''-P --listen-port <listen port>  Local port that socks5 server listens on'',
      ''-k --passphrase <passphrase>    Passphrase'',
      ''-D --debug <debug level>        Debug level to set (0/1/2/3/4)'',
      ''-m --mod <path to module>       Module path'',
      []] @
     (if os = OS_WINDOWS then
       [''-c --conf <config file path>    Path to config file(default: conf'' @ [CHR 0x5C] @ ''server.conf)'',
        ''                                    Use '' @ [CHR 0x27] @ ''-c NULL'' @ [CHR 0x27] @ '' to prevent me looking for server.conf'']
      else
       [''-c --conf <config file path>    Path to config file(default: /etc/snakesocks/conf/server.conf)'',
        ''                                    Use '' @ [CHR 0x27] @ ''-c NULL'' @ [CHR 0x27] @ '' to prevent me looking for server.conf'',
        ''-d --daemon                     Run server as daemon'',
        ''-l --log <log file name>        Log file for daemon mode, use stdout if not set'']) @
     [''-h --help                       Show this message'', [], ''Published on GNU license V2.'']"

definition server_display_usage :: "string option \<Rightarrow> string option \<Rightarrow> stdio \<Rightarrow> stdio" where
  "server_display_usage sk_version compile_time io =
     print_args (concat (map (\<lambda>l. l @ [CHR 0x0A]) (server_usage_lines sk_version compile_time (platform io)))) [] io"

subsection \<open>\<open>printbss\<close>\<close>

definition asnumber :: "byte \<Rightarrow> string" where
  "asnumber i = to_string (unat i)"

definition aschar :: "byte \<Rightarrow> string" where
  "aschar i = [char_of (unat i)]"

fun printbss_loop :: "(byte \<Rightarrow> string) \<Rightarrow> char \<Rightarrow> bytes \<Rightarrow> nat \<Rightarrow> nat \<Rightarrow> string" where
  "printbss_loop aswhat div' str i 0 = []"
| "printbss_loop aswhat div' str i (Suc left) =
     aswhat (str ! i) @ (if left \<noteq> 0 then (if div' \<noteq> CHR 0x00 then [div'] else []) else []) @ printbss_loop aswhat div' str (Suc i) left"

text \<open>What is printed of a string whose bytes are \<open>str\<close>; a null function pointer is \<open>None\<close>.\<close>

definition printbss :: "bytes \<Rightarrow> string option \<Rightarrow> (byte \<Rightarrow> string) \<Rightarrow> char \<Rightarrow> string option \<Rightarrow> string" where
  "printbss str pre aswhat div' suf =
     (case pre of None \<Rightarrow> [] | Some p \<Rightarrow> p) @ printbss_loop aswhat div' str 0 (length str) @ (case suf of None \<Rightarrow> [] | Some s \<Rightarrow> s)"

section \<open>Laws\<close>

lemma color_to_char_inj: "c \<noteq> color_unset \<Longrightarrow> d \<noteq> color_unset \<Longrightarrow> color_to_char c = color_to_char d \<Longrightarrow> c = d"
  by (cases c; cases d) (simp_all add: color_to_char_def)

lemma font_to_char_inj: "c \<noteq> font_unset \<Longrightarrow> d \<noteq> font_unset \<Longrightarrow> font_to_char c = font_to_char d \<Longrightarrow> c = d"
  by (cases c; cases d) (simp_all add: font_to_char_def)

lemma printbss_loop_join:
  "i + left = length str \<Longrightarrow> printbss_loop aswhat d str i left = rs_join (if d = CHR 0x00 then [] else [d]) (map aswhat (drop i str))"
proof (induction aswhat d str i left rule: printbss_loop.induct)
  case (2 aswhat d str i left)
  then have "drop i str = str ! i # drop (Suc i) str" by (intro Cons_nth_drop_Suc[symmetric]) simp
  with 2 show ?case by (cases left) auto
qed simp

lemma color_to_string_length: "length (color_to_string f) = (if textColor f = color_unset then 0 else 5)"
  by (simp add: color_to_string_def)

lemma font_to_string_length: "length (font_to_string f) = (if fontType f = font_unset then 0 else 4)"
  by (simp add: font_to_string_def)

text \<open>Outside Windows, two fonts that are not the clearing one have the same escape sequences only if they are equal.\<close>

lemma font_toString_inj:
  assumes "os \<noteq> OS_WINDOWS" "\<not> font_clear f" "\<not> font_clear g" "font_toString os f = font_toString os g"
  shows "(f :: fontInfo) = g"
proof -
  have s: "color_to_string f @ font_to_string f = color_to_string g @ font_to_string g"
    using assms by (simp add: font_toString_def)
  then have "length (color_to_string f) + length (font_to_string f) = length (color_to_string g) + length (font_to_string g)"
    by (metis length_append)
  then have "length (color_to_string f) = length (color_to_string g)"
    unfolding color_to_string_length font_to_string_length by (auto split: if_splits)
  with s have c: "color_to_string f = color_to_string g" and t: "font_to_string f = font_to_string g" by simp_all
  have "textColor f = textColor g" using c by (auto simp: color_to_string_def color_to_char_inj split: if_splits)
  moreover have "fontType f = fontType g" using t by (auto simp: font_to_string_def font_to_char_inj split: if_splits)
  ultimately show ?thesis using assms(2,3) by simp
qed

text \<open>The options the programs read, and that the usage text of a POSIX build explains every one of them.\<close>

definition explained :: "string list \<Rightarrow> string \<times> string \<Rightarrow> bool" where
  "explained lines opt = list_ex (\<lambda>l. take (length (snd opt @ '' '' @ fst opt @ '' '')) l = snd opt @ '' '' @ fst opt @ '' '') lines"

lemma client_usage_complete:
  "list_all (explained (client_usage_lines v t OS_LINUX))
     [(''--help'', ''-h''), (''--daemon'', ''-d''), (''--retry'', ''  ''), (''--conf'', ''-c''), (''--log'', ''-l''), (''--server'', ''-s''),
      (''--server-port'', ''-p''), (''--passphrase'', ''-k''), (''--listen'', ''-L''), (''--listen-port'', ''-P''), (''--debug'', ''-D''), (''--mod'', ''-m'')]"
  by (simp add: explained_def client_usage_lines_def)

lemma server_usage_complete:
  "list_all (explained (server_usage_lines v t OS_LINUX))
     [(''--help'', ''-h''), (''--daemon'', ''-d''), (''--conf'', ''-c''), (''--log'', ''-l''),
      (''--passphrase'', ''-k''), (''--listen'', ''-L''), (''--listen-port'', ''-P''), (''--debug'', ''-D''), (''--mod'', ''-m'')]"
  by (simp add: explained_def server_usage_lines_def)

lemma printbss_join:
  "printbss str pre aswhat d suf =
     (case pre of None \<Rightarrow> [] | Some p \<Rightarrow> p) @ rs_join (if d = CHR 0x00 then [] else [d]) (map aswhat str) @ (case suf of None \<Rightarrow> [] | Some s \<Rightarrow> s)"
  by (simp add: printbss_def printbss_loop_join)

end
