(* ===== verification/Rlib_Guard.thy ===== *)
theory Rlib_Guard
  imports Cxx_Exec
begin

text \<open>
  The scope guards of \<open>src/src/native/src/lib/rlib/scope_guard.hpp\<close> and the repetition of \<open>functional.hpp\<close>. A callable is a
  program; \<open>None\<close> is an empty \<open>std::function\<close>. Destructors and functions declared \<open>noexcept\<close> call \<open>std::terminate\<close>
  when an exception reaches their end, which aborts the process with signal 6.

  The body of a scope is a function of the guard that gives back its outcome and the guard as the
  body leaves it, since a body may dismiss or move it.
\<close>

section \<open>Definitions\<close>

subsection \<open>\<open>scope_guard\<close>\<close>

record scope_guard =
  sg_f :: "unit prog option"

definition terminated :: int where "terminated = -6"

definition noexcept :: "'a prog \<Rightarrow> 'a prog" where
  "noexcept m w = (case m w of (Throw e, w) \<Rightarrow> (Exited terminated, w) | r \<Rightarrow> r)"

definition new_scope_guard :: "unit prog \<Rightarrow> scope_guard" where
  "new_scope_guard undo_func = \<lparr>sg_f = Some undo_func\<rparr>"

text \<open>The guard made, and the one moved from.\<close>

definition move_scope_guard :: "scope_guard \<Rightarrow> scope_guard \<times> scope_guard" where
  "move_scope_guard other = (\<lparr>sg_f = sg_f other\<rparr>, other\<lparr>sg_f := None\<rparr>)"

definition call_guard :: "scope_guard \<Rightarrow> unit prog" where
  "call_guard g = (case sg_f g of None \<Rightarrow> ret () | Some f \<Rightarrow> f)"

definition delete_scope_guard :: "scope_guard \<Rightarrow> unit prog" where
  "delete_scope_guard g = noexcept (call_guard g)"

definition dismiss :: "scope_guard \<Rightarrow> scope_guard" where
  "dismiss g = g\<lparr>sg_f := None\<rparr>"

definition force_call :: "scope_guard \<Rightarrow> scope_guard prog" where
  "force_call g = noexcept (bnd (call_guard g) (\<lambda>_. ret (dismiss g)))"

type_synonym 'a scope_body = "scope_guard \<Rightarrow> world \<Rightarrow> ('a outcome \<times> scope_guard) \<times> world"

text \<open>\<open>rlib_defer(callable)\<close> at the start of a scope: the destructor runs when the scope is left by \<open>return\<close> or by an exception.\<close>

definition rlib_defer :: "unit prog \<Rightarrow> 'a scope_body \<Rightarrow> 'a prog" where
  "rlib_defer callable body w =
     (case body (new_scope_guard callable) w of
        ((Ok x, g), w) \<Rightarrow> bnd (delete_scope_guard g) (\<lambda>_. ret x) w
      | ((Throw e, g), w) \<Rightarrow> bnd (delete_scope_guard g) (\<lambda>_. throw e) w
      | ((r, g), w) \<Rightarrow> (r, w))"

text \<open>The body of a scope between \<open>RLIB_reinforce_scope_begin\<close> and \<open>RLIB_reinforce_scope_end\<close>.\<close>

definition reinforced :: "'a scope_body \<Rightarrow> 'a scope_body" where
  "reinforced body g w =
     (case body g w of
        ((Throw e, g), w) \<Rightarrow>
          (case force_call g w of
             (Ok g, w) \<Rightarrow> ((Throw e, g), w)
           | (Throw e', w) \<Rightarrow> ((Throw e', g), w)
           | (Undefined, w) \<Rightarrow> ((Undefined, g), w)
           | (Blocked, w) \<Rightarrow> ((Blocked, g), w)
           | (Exited c, w) \<Rightarrow> ((Exited c, g), w))
      | r \<Rightarrow> r)"

subsection \<open>\<open>scope_guards\<close>\<close>

record scope_guards =
  fbuf :: "unit prog list"

definition add_guard :: "scope_guards \<Rightarrow> unit prog \<Rightarrow> scope_guards" where
  "add_guard gs undo_func = gs\<lparr>fbuf := undo_func # fbuf gs\<rparr>"

definition dismiss_all :: "scope_guards \<Rightarrow> scope_guards" where
  "dismiss_all gs = gs\<lparr>fbuf := []\<rparr>"

definition force_call_all :: "scope_guards \<Rightarrow> scope_guards prog" where
  "force_call_all gs = noexcept (bnd (for_each (fbuf gs) (\<lambda>f. f)) (\<lambda>_. ret (dismiss_all gs)))"

definition delete_scope_guards :: "scope_guards \<Rightarrow> unit prog" where
  "delete_scope_guards gs = bnd (force_call_all gs) (\<lambda>_. ret ())"

subsection \<open>Repetition\<close>

text \<open>The loop of \<open>repeated_func\<close> counts up to \<open>count - 1\<close> in a \<open>size_t\<close>.\<close>

fun repeat_loop :: "nat \<Rightarrow> 'a prog \<Rightarrow> unit prog" where
  "repeat_loop 0 f = ret ()"
| "repeat_loop (Suc n) f = bnd f (\<lambda>_. repeat_loop n f)"

definition repeated_func :: "u64 \<Rightarrow> 'a prog \<Rightarrow> 'a prog" where
  "repeated_func count f = bnd (repeat_loop (unat (count - 1)) f) (\<lambda>_. f)"

fun repeat_list_loop :: "nat \<Rightarrow> 'a prog \<Rightarrow> 'a list \<Rightarrow> 'a list prog" where
  "repeat_list_loop 0 f res = ret res"
| "repeat_list_loop (Suc n) f res = bnd f (\<lambda>x. repeat_list_loop n f (res @ [x]))"

definition repeated_func_return_list :: "u64 \<Rightarrow> 'a prog \<Rightarrow> 'a list prog" where
  "repeated_func_return_list count f = (if count = 0 then ret [] else repeat_list_loop (unat count) f [])"

text \<open>The bound function, or the exception.\<close>

definition repeat :: "u64 \<Rightarrow> 'a prog \<Rightarrow> exn + 'a prog" where
  "repeat count f =
     (if count = 0 then Inl (Invalid_argument ''Can not repeat for zero times.'') else Inr (repeated_func count f))"

definition repeat_and_return_list :: "u64 \<Rightarrow> 'a prog \<Rightarrow> 'a list prog" where
  "repeat_and_return_list count f = repeated_func_return_list count f"

section \<open>Laws\<close>

definition never_throws :: "'a prog \<Rightarrow> bool" where
  "never_throws m \<longleftrightarrow> (\<forall>w e w'. m w \<noteq> (Throw e, w'))"

lemma noexcept_id: "never_throws m \<Longrightarrow> noexcept m = m"
  by (auto simp: fun_eq_iff noexcept_def never_throws_def split: prod.splits outcome.splits)

lemma noexcept_never_throws: "never_throws (noexcept m)"
  by (auto simp: never_throws_def noexcept_def split: prod.splits outcome.splits)

lemma never_throws_bnd: "never_throws m \<Longrightarrow> (\<And>x. never_throws (f x)) \<Longrightarrow> never_throws (bnd m f)"
  by (auto simp: never_throws_def bnd_def split: prod.splits outcome.splits)

lemma never_throws_ret: "never_throws (ret x)"
  by (simp add: never_throws_def ret_def)

lemma never_throws_for_each: "\<forall>f \<in> set fs. never_throws f \<Longrightarrow> never_throws (for_each fs (\<lambda>f. f))"
  by (induction fs) (simp_all add: never_throws_ret never_throws_bnd)

text \<open>A body that does not touch its guard.\<close>

definition leaving :: "'a prog \<Rightarrow> 'a scope_body" where
  "leaving m g w = (let (r, w) = m w in ((r, g), w))"

lemma repeat_loop_prog: "repeat_loop n f = bnd (repeat_prog n f) (\<lambda>_. ret ())"
  by (induction n) (simp_all add: bnd_assoc)

lemma repeat_list_loop_prog: "repeat_list_loop n f res = bnd (repeat_prog n f) (\<lambda>xs. ret (res @ xs))"
  by (induction n arbitrary: res) (simp_all add: bnd_assoc)

lemma repeat_prog_Suc: "repeat_prog (Suc n) f = bnd (repeat_prog n f) (\<lambda>xs. bnd f (\<lambda>x. ret (xs @ [x])))"
proof (induction n)
  case (Suc n)
  have "repeat_prog (Suc (Suc n)) f = bnd f (\<lambda>x. bnd (repeat_prog (Suc n) f) (\<lambda>xs. ret (x # xs)))" by simp
  also have "\<dots> = bnd f (\<lambda>x. bnd (repeat_prog n f) (\<lambda>xs. bnd f (\<lambda>y. ret (x # xs @ [y]))))"
    by (simp add: Suc.IH bnd_assoc del: repeat_prog.simps)
  also have "\<dots> = bnd (repeat_prog (Suc n) f) (\<lambda>xs. bnd f (\<lambda>x. ret (xs @ [x])))" by (simp add: bnd_assoc)
  finally show ?case .
qed simp

section \<open>Properties\<close>

text \<open>
  C23: the guards of the program. For an action that does not throw, a scope that begins with \<open>rlib_defer\<close> and does not touch the guard
  runs its body and then the action, on return and on an exception alike: it is the combinator \<open>deferring\<close> the models of the
  tunnel and the SOCKS5 server are written with. In a reinforced scope too the action runs exactly once, and a guard that is dismissed
  does nothing. An action that throws ends the process when the scope is left.
\<close>

theorem rlib_defer_is_deferring:
  assumes "never_throws d" "m w = (r, w')" "(\<exists>x. r = Ok x) \<or> (\<exists>e. r = Throw e)"
  shows "rlib_defer d (leaving m) = deferring d m \<and> rlib_defer d (reinforced (leaving m)) = deferring d m \<and>
    rlib_defer d (\<lambda>g. leaving m (dismiss g)) = m \<and> rlib_defer (throw err) (leaving m) w = (Exited terminated, w')"
proof (intro conjI)
  have d: "delete_scope_guard (new_scope_guard d) = d"
    by (simp add: delete_scope_guard_def new_scope_guard_def call_guard_def noexcept_id assms(1))
  have e: "delete_scope_guard (dismiss g) = ret ()" for g
    by (simp add: delete_scope_guard_def dismiss_def call_guard_def noexcept_id never_throws_ret)
  have f: "force_call (new_scope_guard d) = bnd d (\<lambda>_. ret (dismiss (new_scope_guard d)))"
    by (simp add: force_call_def new_scope_guard_def call_guard_def noexcept_id never_throws_bnd never_throws_ret assms(1))
  show "rlib_defer d (leaving m) = deferring d m"
    by (auto simp: fun_eq_iff rlib_defer_def leaving_def deferring_def d split: prod.splits outcome.splits)
  show "rlib_defer d (\<lambda>g. leaving m (dismiss g)) = m"
    by (auto simp: fun_eq_iff rlib_defer_def leaving_def e ret_def throw_def split: prod.splits outcome.splits)
  show "rlib_defer d (reinforced (leaving m)) = deferring d m"
  proof
    fix w
    obtain r1 w1 where m: "m w = (r1, w1)" by fastforce
    obtain r2 w2 where dw: "d w1 = (r2, w2)" by fastforce
    have "\<forall>ex. r2 \<noteq> Throw ex" using assms(1) dw by (auto simp: never_throws_def)
    then show "rlib_defer d (reinforced (leaving m)) w = deferring d m w"
      by (cases r1; cases r2) (auto simp: rlib_defer_def reinforced_def leaving_def deferring_def m dw d e f bnd_def ret_def throw_def)
  qed
  have "delete_scope_guard (new_scope_guard (throw err)) = (\<lambda>w. (Exited terminated, w))"
    by (simp add: delete_scope_guard_def new_scope_guard_def call_guard_def noexcept_def throw_def fun_eq_iff)
  then show "rlib_defer (throw err) (leaving m) w = (Exited terminated, w')"
    using assms(2,3) by (auto simp: rlib_defer_def leaving_def bnd_def)
qed

theorem rlib_defer_is_deferring_witness:
  "\<exists>w. rlib_defer (close_ex 3) (leaving (throw System_error)) w = deferring (close_ex 3) (throw System_error :: unit prog) w \<and>
     rlib_defer (throw System_error) (leaving (ret ())) w = (Exited terminated, w)"
proof -
  have n: "never_throws (close_ex 3)" by (simp add: never_throws_def close_ex_def)
  show ?thesis
    using rlib_defer_is_deferring[OF n, of "throw System_error :: unit prog", OF throw_apply]
      rlib_defer_is_deferring[OF n, of "ret ()", OF ret_apply]
    by (auto simp: throw_def ret_def)
qed

text \<open>
  \<open>scope_guards\<close> runs its actions in the opposite order of their registration, and nothing after it was dismissed.
\<close>

theorem scope_guards_run_in_reverse:
  assumes "\<forall>f \<in> set fs. never_throws f"
  shows "delete_scope_guards (foldl add_guard \<lparr>fbuf = []\<rparr> fs) = for_each (rev fs) (\<lambda>f. f) \<and>
    delete_scope_guards (dismiss_all gs) = ret ()"
proof -
  have "foldl add_guard gs fs = gs\<lparr>fbuf := rev fs @ fbuf gs\<rparr>" for gs
    by (induction fs arbitrary: gs) (simp_all add: add_guard_def)
  then have r: "fbuf (foldl add_guard \<lparr>fbuf = []\<rparr> fs) = rev fs" by simp
  have n: "never_throws (bnd (for_each (rev fs) (\<lambda>f. f)) (\<lambda>_. ret x))" for x :: scope_guards
    using assms by (intro never_throws_bnd never_throws_for_each never_throws_ret) simp
  have u: "bnd m (\<lambda>_ :: unit. ret ()) = m" for m
    by (auto simp: fun_eq_iff bnd_def ret_def split: prod.splits outcome.splits)
  show ?thesis
    by (simp add: delete_scope_guards_def force_call_all_def r noexcept_id[OF n] bnd_assoc u dismiss_all_def noexcept_id never_throws_ret)
qed

text \<open>
  \<open>repeat(count, f)\<close> gives a function that calls \<open>f\<close> exactly \<open>count\<close> times and returns the last result, and
  \<open>repeat_and_return_list\<close> one that returns the results in order. Only \<open>repeat\<close> refuses the count 0; without
  the check the loop of \<open>repeated_func\<close> would wrap around to \<open>2 ^ 64\<close> calls.
\<close>

theorem repeat_calls_count_times:
  "repeat count f = (if count = 0 then Inl (Invalid_argument ''Can not repeat for zero times.'')
     else Inr (bnd (repeat_prog (unat count) f) (\<lambda>xs. ret (last xs)))) \<and>
   repeat_and_return_list count f = repeat_prog (unat count) f \<and>
   repeated_func 0 f = bnd (repeat_prog (2 ^ 64) f) (\<lambda>xs. ret (last xs))"
proof -
  have r: "repeated_func c f = bnd (repeat_prog (Suc (unat (c - 1))) f) (\<lambda>xs. ret (last xs))" for c
    by (simp add: repeated_func_def repeat_loop_prog repeat_prog_Suc bnd_assoc del: repeat_prog.simps)
  have "Suc (unat (count - 1)) = unat count" if "count \<noteq> 0"
    using that by (simp add: unat_minus_one unat_gt_0)
  moreover have "Suc (unat ((0 :: u64) - 1)) = 2 ^ 64" by (simp add: unsigned_minus_1_eq_mask mask_eq_exp_minus_1)
  ultimately show ?thesis
    using r[of count] r[of 0]
    by (simp add: repeat_def repeat_and_return_list_def repeated_func_return_list_def repeat_list_loop_prog del: repeat_prog.simps(2))
qed

end
