(* ===== verification/Sys_Util.thy ===== *)
theory Sys_Util
  imports Mains Simple_Proxy Rlib_Guard "HOL-Library.Multiset"
begin

text \<open>
  Helpers around system calls: \<open>get_peer_name\<close> and \<open>MakeNonBlocking\<close> of \<open>lib/rlib/sys/sio.hpp\<close>, the time stamp of
  \<open>lib/rlib/sys/time.hpp\<close>, and the life of a loaded module (\<open>module_interface\<close> in \<open>module.hpp\<close>). What \<open>getpeername\<close>, \<open>inet_ntop\<close>,
  \<open>fcntl\<close> and \<open>strftime\<close> give are arguments.
\<close>

section \<open>Definitions\<close>

subsection \<open>Addresses\<close>

text \<open>The bytes of a \<open>sockaddr_storage\<close>: the family in the order of the host, then the port in network order, then the address.\<close>

definition AF_INET_value :: u16 where "AF_INET_value = 2"

definition get_peer_name ::
  "endian \<Rightarrow> (fd \<Rightarrow> bytes option) \<Rightarrow> (ai_family \<Rightarrow> bytes \<Rightarrow> string option) \<Rightarrow> fd \<Rightarrow> (string \<times> u16) prog" where
  "get_peer_name e getpeername inet_ntop sock =
     (case getpeername sock of
        None \<Rightarrow> throw (Runtime_error ''getpeername failed. errno = {}'')
      | Some addr \<Rightarrow>
          (if word_of_mem e (take 2 addr) = AF_INET_value
           then (case inet_ntop AF_INET (take 4 (drop 4 addr)) of
                   None \<Rightarrow> throw (Runtime_error ''inet_ntop failed. errno = {}'')
                 | Some str \<Rightarrow> ret (str, hton e 2 (word_of_mem e (take 2 (drop 2 addr)))))
           else (case inet_ntop AF_INET6 (take 16 (drop 8 addr)) of
                   None \<Rightarrow> throw (Runtime_error ''inet_ntop failed. errno = {}'')
                 | Some str \<Rightarrow> ret (''['' @ str @ '']'', hton e 2 (word_of_mem e (take 2 (drop 2 addr)))))))"

subsection \<open>Flags of a descriptor\<close>

definition O_NONBLOCK :: u32 where "O_NONBLOCK = 0x800"

text \<open>\<open>getfl\<close> and \<open>setfl\<close> are the results of the two calls of \<open>fcntl\<close>; the result is the flags set. \<open>exit(-1)\<close> gives the status 255.\<close>

definition MakeNonBlocking :: "(fd \<Rightarrow> u32 option) \<Rightarrow> (fd \<Rightarrow> u32 \<Rightarrow> bool) \<Rightarrow> fd \<Rightarrow> u32 prog" where
  "MakeNonBlocking getfl setfl fd w =
     (case getfl fd of
        None \<Rightarrow> (Exited 255, w)
      | Some flags \<Rightarrow>
          (let flags = or flags O_NONBLOCK in
           if setfl fd flags then (Ok flags, w) else (Exited 255, w)))"

subsection \<open>Time\<close>

text \<open>\<open>now\<close> is in seconds; \<open>strftime\<close> gives the text of a local time, or nothing when it does not fit. The function is \<open>noexcept\<close>.\<close>

definition get_current_time_str :: "int \<Rightarrow> (int \<Rightarrow> string option) \<Rightarrow> string prog" where
  "get_current_time_str now strftime =
     noexcept
      (let now_c = now - 24 * 60 * 60 in
       case strftime now_c of
         Some mbstr \<Rightarrow> ret mbstr
       | None \<Rightarrow> throw (Overflow_error ''on get_current_time: mbstr buffer is too small.''))"

subsection \<open>Loaded modules\<close>

record module_interface =
  mi_funcs :: snake_module
  so_handle :: "nat option"

text \<open>The handle \<open>dlopen\<close> returns is an argument; \<open>handles\<close> are the libraries that are open.\<close>

definition new_module_interface ::
  "(string \<Rightarrow> shared_object option) \<Rightarrow> nat \<Rightarrow> string \<Rightarrow> (module_interface \<times> nat list) prog" where
  "new_module_interface dlopen handle soPath =
     bnd (loadSo dlopen soPath) (\<lambda>m. ret (\<lparr>mi_funcs = m, so_handle = Some handle\<rparr>, [handle]))"

text \<open>The object made and the one moved from.\<close>

definition move_module_interface :: "module_interface \<Rightarrow> module_interface \<times> module_interface" where
  "move_module_interface ano = (\<lparr>mi_funcs = mi_funcs ano, so_handle = so_handle ano\<rparr>, ano\<lparr>so_handle := None\<rparr>)"

definition delete_module_interface :: "module_interface \<Rightarrow> nat list \<Rightarrow> nat list option" where
  "delete_module_interface mi handles =
     (case so_handle mi of
        None \<Rightarrow> Some handles
      | Some h \<Rightarrow> if h \<in> set handles then Some (removeAll h handles) else None)"

section \<open>Laws\<close>

text \<open>The objects after a chain of moves, and their destruction in some order.\<close>

fun moved :: "nat \<Rightarrow> module_interface \<Rightarrow> module_interface list" where
  "moved 0 mi = [mi]"
| "moved (Suc n) mi = (let (new, old) = move_module_interface mi in old # moved n new)"

fun destroy_modules :: "module_interface list \<Rightarrow> nat list \<Rightarrow> nat list option" where
  "destroy_modules [] handles = Some handles"
| "destroy_modules (mi # mis) handles = Option.bind (delete_module_interface mi handles) (destroy_modules mis)"

lemma moved_handles: "map so_handle (moved n mi) = replicate n None @ [so_handle mi]"
  by (induction n arbitrary: mi) (simp_all add: move_module_interface_def)

lemma moved_holder:
  assumes "so_handle mi = Some h"
  obtains x where "filter (\<lambda>mi. so_handle mi \<noteq> None) (moved n mi) = [x]" "so_handle x = Some h"
proof -
  have "map so_handle (filter (\<lambda>mi. so_handle mi \<noteq> None) (moved n mi)) = filter (\<lambda>x. x \<noteq> None) (map so_handle (moved n mi))"
    by (simp add: filter_map comp_def)
  also have "\<dots> = [Some h]" by (simp add: moved_handles assms)
  finally show ?thesis using that by (auto simp: map_eq_Cons_conv)
qed

lemma destroy_without_handle: "\<forall>mi \<in> set mis. so_handle mi = None \<Longrightarrow> destroy_modules mis handles = Some handles"
  by (induction mis) (simp_all add: delete_module_interface_def)

lemma destroy_one_handle:
  "filter (\<lambda>mi. so_handle mi \<noteq> None) mis = [mi] \<Longrightarrow> so_handle mi = Some h \<Longrightarrow> h \<in> set handles \<Longrightarrow>
   destroy_modules mis handles = Some (removeAll h handles)"
proof (induction mis)
  case (Cons a mis)
  show ?case
  proof (cases "so_handle a")
    case None
    with Cons show ?thesis by (simp add: delete_module_interface_def)
  next
    case (Some h')
    with Cons.prems have "a = mi" "filter (\<lambda>mi. so_handle mi \<noteq> None) mis = []" by auto
    with Some Cons.prems show ?thesis
      by (simp add: delete_module_interface_def destroy_without_handle filter_empty_conv)
  qed
qed simp

section \<open>Properties\<close>

text \<open>The port of the peer comes out of the address whatever the byte order of the host, and the address is the four or sixteen bytes behind it.\<close>

lemma get_peer_name_v4:
  assumes "getpeername fd = Some (mem_of_word e 2 AF_INET_value @ mem_of_word e 2 (hton e 2 port) @ ip @ rest)" "length ip = 4"
    "inet_ntop AF_INET ip = Some str"
  shows "get_peer_name e getpeername inet_ntop fd w = (Ok (str, port), w)"
  using assms by (simp add: get_peer_name_def ret_def hton_hton)

text \<open>
  C26: a module's library is closed exactly once. However often the object that holds the library is moved (twice on the way from
  \<open>skcli_main\<close> into the SOCKS5 server) and in whatever order the objects are destroyed, the handle is
  closed once: no handle is closed twice, and none is left open.
\<close>

theorem module_closed_once:
  assumes "mset mis = mset (moved n \<lparr>mi_funcs = m, so_handle = Some h\<rparr>)" "h \<in> set handles"
  shows "destroy_modules mis handles = Some (removeAll h handles)"
proof -
  obtain x where x: "filter (\<lambda>mi. so_handle mi \<noteq> None) (moved n \<lparr>mi_funcs = m, so_handle = Some h\<rparr>) = [x]" "so_handle x = Some h"
    by (rule moved_holder[of "\<lparr>mi_funcs = m, so_handle = Some h\<rparr>" h]) simp
  have "mset (filter (\<lambda>mi. so_handle mi \<noteq> None) mis) = mset [x]"
    using assms(1) x(1) by (metis mset_filter)
  then have "filter (\<lambda>mi. so_handle mi \<noteq> None) mis = [x]" by (metis mset_single_iff_right mset.simps)
  then show ?thesis by (rule destroy_one_handle[OF _ x(2) assms(2)])
qed

theorem module_closed_once_witness:
  "destroy_modules (rev (moved 2 \<lparr>mi_funcs = simple_proxy Little_Endian, so_handle = Some 5\<rparr>)) [5] = Some []"
  using module_closed_once[of "rev (moved 2 \<lparr>mi_funcs = simple_proxy Little_Endian, so_handle = Some 5\<rparr>)" 2 "simple_proxy Little_Endian" 5 "[5]"]
  by simp

text \<open>The time in the log lags a day behind.\<close>

lemma time_stamp_is_a_day_old:
  "strftime (now - 86400) = Some t \<Longrightarrow> get_current_time_str now strftime w = (Ok t, w)"
  by (simp add: get_current_time_str_def noexcept_def ret_def)

text \<open>\<open>MakeNonBlocking\<close> adds the one flag and keeps the others.\<close>

lemma MakeNonBlocking_bits:
  assumes "MakeNonBlocking getfl setfl fd w = (Ok flags', w')" "getfl fd = Some flags"
  shows "bit flags' i \<longleftrightarrow> bit flags i \<or> i = 11"
proof -
  have "flags' = or flags O_NONBLOCK" using assms by (auto simp: MakeNonBlocking_def Let_def split: if_splits)
  moreover have "bit O_NONBLOCK i \<longleftrightarrow> i = 11"
    using bit_push_bit_iff[of 11 "1 :: u32" i] by (auto simp: O_NONBLOCK_def bit_1_iff)
  ultimately show ?thesis by (auto simp: bit_or_iff)
qed

end
