(* ===== verification/Win_Mutex.thy ===== *)
theory Win_Mutex
  imports Snake_Prelude
begin

text \<open>
  The mutexes of \<open>src/src/native/mingw-thread-fix/mingw.mutex.h\<close>, the header that stands in for \<open>std::mutex\<close> and its relatives
  in the MinGW build, over the two locks of Windows it uses.

  A call takes the identifier of the calling thread and the lock and gives a result and the lock it leaves
  behind: it returns, throws a \<open>std::system_error\<close>, waits (the lock is then as before and the call is tried again when
  the scheduler comes back to the thread), or is undefined. \<open>CRITICAL_SECTION\<close> and the mutex object behind a
  \<open>HANDLE\<close> behave as documented: both are reentrant; leaving a critical section one does not
  own is undefined, releasing a mutex object one does not own fails; a mutex object whose owner has ended is abandoned, and
  the next wait acquires it and says so.

  The template \<open>_NonRecursive\<close> is a set of functions over the operations of its base class. Its
  contract is the locale \<open>reentrant\<close>, which both base classes satisfy.
\<close>

section \<open>Definitions\<close>

subsection \<open>Calls\<close>

datatype errno = EDEADLK | EOWNERDEAD | EPROTO | ESRCH | EINVAL | Errno int

datatype 'a call = Returns 'a | System_Error errno | Waits | Undefined_Call

type_synonym thread_id = u32
type_synonym ('m, 'a) mcall = "thread_id \<Rightarrow> 'm \<Rightarrow> 'a call \<times> 'm"

text \<open>Run one call after another on the same object.\<close>

definition call_then :: "'a call \<times> 'm \<Rightarrow> ('a \<Rightarrow> 'm \<Rightarrow> 'b call \<times> 'm) \<Rightarrow> 'b call \<times> 'm" where
  "call_then r f =
     (case r of
        (Returns x, m) \<Rightarrow> f x m
      | (System_Error e, m) \<Rightarrow> (System_Error e, m)
      | (Waits, m) \<Rightarrow> (Waits, m)
      | (Undefined_Call, m) \<Rightarrow> (Undefined_Call, m))"

subsection \<open>Critical sections and \<open>recursive_mutex\<close>\<close>

record critical_section =
  OwningThread :: thread_id
  RecursionCount :: nat

definition InitializeCriticalSection :: critical_section where
  "InitializeCriticalSection = \<lparr>OwningThread = 0, RecursionCount = 0\<rparr>"

definition TryEnterCriticalSection :: "(critical_section, bool) mcall" where
  "TryEnterCriticalSection self cs =
     (if RecursionCount cs = 0 \<or> OwningThread cs = self
      then (Returns True, \<lparr>OwningThread = self, RecursionCount = Suc (RecursionCount cs)\<rparr>)
      else (Returns False, cs))"

definition EnterCriticalSection :: "(critical_section, unit) mcall" where
  "EnterCriticalSection self cs =
     (case TryEnterCriticalSection self cs of (Returns True, cs) \<Rightarrow> (Returns (), cs) | (_, cs) \<Rightarrow> (Waits, cs))"

definition LeaveCriticalSection :: "(critical_section, unit) mcall" where
  "LeaveCriticalSection self cs =
     (if RecursionCount cs \<noteq> 0 \<and> OwningThread cs = self
      then (Returns (), cs\<lparr>RecursionCount := RecursionCount cs - 1\<rparr>)
      else (Undefined_Call, cs))"

definition recursive_mutex :: critical_section where
  "recursive_mutex = InitializeCriticalSection"

definition rm_lock :: "(critical_section, unit) mcall" where
  "rm_lock = EnterCriticalSection"

definition rm_unlock :: "(critical_section, unit) mcall" where
  "rm_unlock = LeaveCriticalSection"

definition rm_try_lock :: "(critical_section, bool) mcall" where
  "rm_try_lock = TryEnterCriticalSection"

subsection \<open>\<open>_NonRecursive\<close>\<close>

record 'b non_recursive =
  nr_base :: 'b
  mOwnerThread :: thread_id

definition new_NonRecursive :: "'b \<Rightarrow> 'b non_recursive" where
  "new_NonRecursive b = \<lparr>nr_base = b, mOwnerThread = 0\<rparr>"

text \<open>A call of a member function of the base class.\<close>

definition on_base :: "('b, 'a) mcall \<Rightarrow> ('b non_recursive, 'a) mcall" where
  "on_base f self m = (case f self (nr_base m) of (r, b) \<Rightarrow> (r, m\<lparr>nr_base := b\<rparr>))"

definition checkSetOwnerAfterLock :: "('b non_recursive, unit) mcall" where
  "checkSetOwnerAfterLock self m =
     (if mOwnerThread m = self then (System_Error EDEADLK, m) else (Returns (), m\<lparr>mOwnerThread := self\<rparr>))"

definition checkSetOwnerBeforeUnlock :: "('b non_recursive, unit) mcall" where
  "checkSetOwnerBeforeUnlock self m =
     (if mOwnerThread m \<noteq> self then (System_Error EDEADLK, m) else (Returns (), m\<lparr>mOwnerThread := 0\<rparr>))"

definition nr_lock :: "('b, unit) mcall \<Rightarrow> ('b non_recursive, unit) mcall" where
  "nr_lock lk self m = call_then (on_base lk self m) (\<lambda>_. checkSetOwnerAfterLock self)"

definition nr_unlock :: "('b, unit) mcall \<Rightarrow> ('b non_recursive, unit) mcall" where
  "nr_unlock ul self m = call_then (checkSetOwnerBeforeUnlock self m) (\<lambda>_. on_base ul self)"

definition nr_try_lock :: "('b, bool) mcall \<Rightarrow> ('b non_recursive, bool) mcall" where
  "nr_try_lock trl self m =
     call_then (on_base trl self m) (\<lambda>r m.
       if r then call_then (checkSetOwnerAfterLock self m) (\<lambda>_ m. (Returns True, m)) else (Returns False, m))"

text \<open>\<open>std::mutex\<close>.\<close>

type_synonym mutex = "critical_section non_recursive"

definition new_mutex :: mutex where
  "new_mutex = new_NonRecursive recursive_mutex"

definition mutex_lock :: "(mutex, unit) mcall" where
  "mutex_lock = nr_lock rm_lock"

definition mutex_unlock :: "(mutex, unit) mcall" where
  "mutex_unlock = nr_unlock rm_unlock"

definition mutex_try_lock :: "(mutex, bool) mcall" where
  "mutex_try_lock = nr_try_lock rm_try_lock"

subsection \<open>Waiting, and \<open>recursive_timed_mutex\<close>\<close>

text \<open>
  The mutex object behind a handle; a handle of which the creation failed has no object. A wait
  that cannot be satisfied ends with \<open>WAIT_TIMEOUT\<close> when its time is over (\<open>expired\<close>, said by the clock):
  at once when the time is 0, never when it is \<open>INFINITE\<close>.
\<close>

record mutex_object =
  mo_owner :: thread_id
  mo_count :: nat
  mo_abandoned :: bool

datatype wait_result = WAIT_OBJECT_0 | WAIT_TIMEOUT | WAIT_ABANDONED | WAIT_FAILED

definition INFINITE :: u32 where
  "INFINITE = - 1"

definition wait_over :: "bool \<Rightarrow> u32 \<Rightarrow> wait_result call" where
  "wait_over expired timeout = (if timeout = 0 \<or> timeout \<noteq> INFINITE \<and> expired then Returns WAIT_TIMEOUT else Waits)"

type_synonym timed_mutex_handle = "mutex_object option"

definition CreateMutex :: "bool \<Rightarrow> timed_mutex_handle" where
  "CreateMutex created = (if created then Some \<lparr>mo_owner = 0, mo_count = 0, mo_abandoned = False\<rparr> else None)"

definition WaitForMutex :: "bool \<Rightarrow> u32 \<Rightarrow> (timed_mutex_handle, wait_result) mcall" where
  "WaitForMutex expired timeout self h =
     (case h of
        None \<Rightarrow> (Returns WAIT_FAILED, None)
      | Some m \<Rightarrow>
          if mo_count m = 0 \<or> mo_owner m = self
          then (Returns (if mo_abandoned m then WAIT_ABANDONED else WAIT_OBJECT_0),
                Some \<lparr>mo_owner = self, mo_count = Suc (mo_count m), mo_abandoned = False\<rparr>)
          else (wait_over expired timeout, Some m))"

definition ReleaseMutex :: "(timed_mutex_handle, bool) mcall" where
  "ReleaseMutex self h =
     (case h of
        None \<Rightarrow> (Returns False, None)
      | Some m \<Rightarrow>
          if mo_count m \<noteq> 0 \<and> mo_owner m = self then (Returns True, Some (m\<lparr>mo_count := mo_count m - 1\<rparr>))
          else (Returns False, Some m))"

text \<open>The thread that owns the object ends.\<close>

definition owner_ends :: "timed_mutex_handle \<Rightarrow> timed_mutex_handle" where
  "owner_ends = map_option (\<lambda>m. if mo_count m = 0 then m else \<lparr>mo_owner = 0, mo_count = 0, mo_abandoned = True\<rparr>)"

definition rtm_lock :: "(timed_mutex_handle, unit) mcall" where
  "rtm_lock self h =
     call_then (WaitForMutex False INFINITE self h) (\<lambda>ret h.
       if ret \<noteq> WAIT_OBJECT_0
       then if ret = WAIT_ABANDONED then (System_Error EOWNERDEAD, h) else (System_Error EPROTO, h)
       else (Returns (), h))"

definition rtm_unlock :: "(timed_mutex_handle, unit) mcall" where
  "rtm_unlock self h =
     call_then (ReleaseMutex self h) (\<lambda>released h. if \<not> released then (System_Error EDEADLK, h) else (Returns (), h))"

definition rtm_wait :: "bool \<Rightarrow> u32 \<Rightarrow> (timed_mutex_handle, bool) mcall" where
  "rtm_wait expired timeout self h =
     call_then (WaitForMutex expired timeout self h) (\<lambda>ret h.
       if ret = WAIT_TIMEOUT then (Returns False, h)
       else if ret = WAIT_OBJECT_0 then (Returns True, h)
       else if ret = WAIT_ABANDONED then (System_Error EOWNERDEAD, h)
       else (System_Error EPROTO, h))"

definition rtm_try_lock :: "(timed_mutex_handle, bool) mcall" where
  "rtm_try_lock = rtm_wait False 0"

text \<open>A duration in milliseconds, cast to \<open>DWORD\<close>.\<close>

definition rtm_try_lock_for :: "bool \<Rightarrow> int \<Rightarrow> (timed_mutex_handle, bool) mcall" where
  "rtm_try_lock_for expired dur = rtm_wait expired (of_int dur)"

definition rtm_try_lock_until :: "bool \<Rightarrow> int \<Rightarrow> int \<Rightarrow> (timed_mutex_handle, bool) mcall" where
  "rtm_try_lock_until expired timeout_time now = rtm_try_lock_for expired (timeout_time - now)"

text \<open>\<open>timed_mutex\<close>: the checks of \<open>_NonRecursive\<close> after the timed operations of the base.\<close>

definition tm_try_lock_for :: "bool \<Rightarrow> int \<Rightarrow> (timed_mutex_handle non_recursive, bool) mcall" where
  "tm_try_lock_for expired dur self m =
     call_then (on_base (rtm_try_lock_for expired dur) self m) (\<lambda>r m.
       if r then call_then (checkSetOwnerAfterLock self m) (\<lambda>_ m. (Returns True, m)) else (Returns False, m))"

definition tm_try_lock_until :: "bool \<Rightarrow> int \<Rightarrow> int \<Rightarrow> (timed_mutex_handle non_recursive, bool) mcall" where
  "tm_try_lock_until expired timeout_time now self m =
     call_then (on_base (rtm_try_lock_until expired timeout_time now) self m) (\<lambda>r m.
       if r then call_then (checkSetOwnerAfterLock self m) (\<lambda>_ m. (Returns True, m)) else (Returns False, m))"

subsection \<open>\<open>lock_guard\<close>\<close>

text \<open>
  The constructor locks, or adopts a lock that is held; the destructor unlocks. A destructor that
  throws ends the process.
\<close>

datatype 'a scope = Left_Scope "'a call" | Terminated

definition lock_guard :: "('m, unit) mcall \<Rightarrow> ('m, unit) mcall \<Rightarrow> bool \<Rightarrow> ('m, 'a) mcall \<Rightarrow> thread_id \<Rightarrow> 'm \<Rightarrow> 'a scope \<times> 'm" where
  "lock_guard lk ul adopt body self m =
     (case if adopt then (Returns (), m) else lk self m of
        (Returns _, m) \<Rightarrow>
          (case body self m of
             (Waits, m) \<Rightarrow> (Left_Scope Waits, m)
           | (Undefined_Call, m) \<Rightarrow> (Left_Scope Undefined_Call, m)
           | (r, m) \<Rightarrow>
               (case ul self m of
                  (Returns _, m) \<Rightarrow> (Left_Scope r, m)
                | (System_Error _, m) \<Rightarrow> (Terminated, m)
                | (Waits, m) \<Rightarrow> (Left_Scope Waits, m)
                | (Undefined_Call, m) \<Rightarrow> (Left_Scope Undefined_Call, m)))
      | (System_Error e, m) \<Rightarrow> (Left_Scope (System_Error e), m)
      | (Waits, m) \<Rightarrow> (Left_Scope Waits, m)
      | (Undefined_Call, m) \<Rightarrow> (Left_Scope Undefined_Call, m))"

subsection \<open>Threads that use a mutex\<close>

text \<open>
  A sequence of calls by any threads on one mutex; a call that waits leaves it as it is, and one that throws is
  caught.
\<close>

datatype mutex_op = Op_Lock | Op_Unlock | Op_Try_Lock

fun nr_op :: "('b, unit) mcall \<Rightarrow> ('b, unit) mcall \<Rightarrow> ('b, bool) mcall \<Rightarrow> thread_id \<times> mutex_op \<Rightarrow> 'b non_recursive \<Rightarrow> 'b non_recursive" where
  "nr_op lk ul trl (self, Op_Lock) m = snd (nr_lock lk self m)"
| "nr_op lk ul trl (self, Op_Unlock) m = snd (nr_unlock ul self m)"
| "nr_op lk ul trl (self, Op_Try_Lock) m = snd (nr_try_lock trl self m)"

definition mutex_ops :: "(thread_id \<times> mutex_op) list \<Rightarrow> mutex \<Rightarrow> mutex" where
  "mutex_ops = fold (nr_op rm_lock rm_unlock rm_try_lock)"


subsection \<open>What a mutex promises\<close>

text \<open>The abstract mutex is the thread that holds it, if any. Locking it again, and unlocking it without holding it, is refused.\<close>

fun lock_spec :: "thread_id \<Rightarrow> thread_id option \<Rightarrow> unit call \<times> thread_id option" where
  "lock_spec t None = (Returns (), Some t)"
| "lock_spec t (Some u) = (if u = t then System_Error EDEADLK else Waits, Some u)"

fun try_lock_spec :: "thread_id \<Rightarrow> thread_id option \<Rightarrow> bool call \<times> thread_id option" where
  "try_lock_spec t None = (Returns True, Some t)"
| "try_lock_spec t (Some u) = (if u = t then System_Error EDEADLK else Returns False, Some u)"

definition unlock_spec :: "thread_id \<Rightarrow> thread_id option \<Rightarrow> unit call \<times> thread_id option" where
  "unlock_spec t h = (if h = Some t then (Returns (), None) else (System_Error EDEADLK, h))"

definition holder :: "'b non_recursive \<Rightarrow> thread_id option" where
  "holder m = (if mOwnerThread m = 0 then None else Some (mOwnerThread m))"

definition mutex_clean :: "mutex \<Rightarrow> bool" where
  "mutex_clean m \<longleftrightarrow> RecursionCount (nr_base m) = of_bool (mOwnerThread m \<noteq> 0) \<and>
     (mOwnerThread m \<noteq> 0 \<longrightarrow> OwningThread (nr_base m) = mOwnerThread m)"

section \<open>Laws\<close>

lemma call_then_simps [simp]:
  "call_then (Returns x, m) f = f x m" "call_then (System_Error e, m) f = (System_Error e, m)"
  "call_then (Waits, m) f = (Waits, m)" "call_then (Undefined_Call, m) f = (Undefined_Call, m)"
  by (simp_all add: call_then_def)

lemma waits_simps [simp]:
  "wait_over e 0 = Returns WAIT_TIMEOUT" "wait_over e INFINITE = Waits" "INFINITE \<noteq> 0"
  by (simp_all add: wait_over_def INFINITE_def)

lemma check_simps [simp]:
  "mOwnerThread m = t \<Longrightarrow> checkSetOwnerAfterLock t m = (System_Error EDEADLK, m)"
  "mOwnerThread m \<noteq> t \<Longrightarrow> checkSetOwnerAfterLock t m = (Returns (), m\<lparr>mOwnerThread := t\<rparr>)"
  "mOwnerThread m = t \<Longrightarrow> checkSetOwnerBeforeUnlock t m = (Returns (), m\<lparr>mOwnerThread := 0\<rparr>)"
  "mOwnerThread m \<noteq> t \<Longrightarrow> checkSetOwnerBeforeUnlock t m = (System_Error EDEADLK, m)"
  by (simp_all add: checkSetOwnerAfterLock_def checkSetOwnerBeforeUnlock_def)

subsection \<open>What \<open>_NonRecursive\<close> needs of its base\<close>

text \<open>
  \<open>depth b t\<close> is the number of times thread \<open>t\<close> holds \<open>b\<close>. The lock is reentrant, excludes other threads and is given back one level at a
  time.
\<close>

locale reentrant =
  fixes lk ul :: "('b, unit) mcall" and trl :: "('b, bool) mcall" and depth :: "'b \<Rightarrow> thread_id \<Rightarrow> nat" and ok :: "'b \<Rightarrow> bool"
  assumes one_holder: "ok b \<Longrightarrow> depth b t \<noteq> 0 \<Longrightarrow> depth b u \<noteq> 0 \<Longrightarrow> t = u"
    and lk_free: "ok b \<Longrightarrow> \<forall>u. u \<noteq> t \<longrightarrow> depth b u = 0 \<Longrightarrow>
      \<exists>b'. lk t b = (Returns (), b') \<and> ok b' \<and> depth b' = (depth b)(t := Suc (depth b t))"
    and trl_free: "ok b \<Longrightarrow> \<forall>u. u \<noteq> t \<longrightarrow> depth b u = 0 \<Longrightarrow>
      \<exists>b'. trl t b = (Returns True, b') \<and> ok b' \<and> depth b' = (depth b)(t := Suc (depth b t))"
    and lk_busy: "ok b \<Longrightarrow> u \<noteq> t \<Longrightarrow> depth b u \<noteq> 0 \<Longrightarrow> lk t b = (Waits, b)"
    and trl_busy: "ok b \<Longrightarrow> u \<noteq> t \<Longrightarrow> depth b u \<noteq> 0 \<Longrightarrow> trl t b = (Returns False, b)"
    and ul_held: "ok b \<Longrightarrow> depth b t \<noteq> 0 \<Longrightarrow>
      \<exists>b'. ul t b = (Returns (), b') \<and> ok b' \<and> depth b' = (depth b)(t := depth b t - 1)"
begin

text \<open>The recorded owner holds the base.\<close>

definition owned :: "'b non_recursive \<Rightarrow> bool" where
  "owned m \<longleftrightarrow> ok (nr_base m) \<and> (mOwnerThread m \<noteq> 0 \<longrightarrow> depth (nr_base m) (mOwnerThread m) \<noteq> 0)"

text \<open>What the template means to keep: the owner holds the base once and nobody else does.\<close>

definition clean :: "'b non_recursive \<Rightarrow> bool" where
  "clean m \<longleftrightarrow> ok (nr_base m) \<and> (\<forall>t. depth (nr_base m) t = of_bool (t \<noteq> 0 \<and> mOwnerThread m = t))"

text \<open>Thread \<open>t\<close> holds more of the base than it will give back.\<close>

definition leaked :: "thread_id \<Rightarrow> 'b non_recursive \<Rightarrow> bool" where
  "leaked t m \<longleftrightarrow> owned m \<and> t \<noteq> 0 \<and> mOwnerThread m \<in> {0, t} \<and> of_bool (mOwnerThread m = t) < depth (nr_base m) t"

lemma clean_owned: "clean m \<Longrightarrow> owned m"
  by (simp add: clean_def owned_def)

lemma other_free:
  assumes "owned m" "\<not> (\<exists>u. u \<noteq> t \<and> depth (nr_base m) u \<noteq> 0)" "mOwnerThread m \<noteq> t" shows "mOwnerThread m = 0"
  using assms by (auto simp: owned_def)

lemma nr_lock_free:
  assumes "owned m" "\<And>u. u \<noteq> t \<Longrightarrow> depth (nr_base m) u = 0"
  obtains b where "ok b" "depth b = (depth (nr_base m))(t := Suc (depth (nr_base m) t))"
    "nr_lock lk t m = (if mOwnerThread m = t then (System_Error EDEADLK, m\<lparr>nr_base := b\<rparr>) else (Returns (), m\<lparr>nr_base := b, mOwnerThread := t\<rparr>))"
proof -
  from lk_free[of "nr_base m" t] assms obtain b where "lk t (nr_base m) = (Returns (), b)" "ok b"
    "depth b = (depth (nr_base m))(t := Suc (depth (nr_base m) t))" by (auto simp: owned_def)
  then show ?thesis by (intro that[of b]) (simp_all add: nr_lock_def on_base_def)
qed

lemma nr_try_lock_free:
  assumes "owned m" "\<And>u. u \<noteq> t \<Longrightarrow> depth (nr_base m) u = 0"
  obtains b where "ok b" "depth b = (depth (nr_base m))(t := Suc (depth (nr_base m) t))"
    "nr_try_lock trl t m = (if mOwnerThread m = t then (System_Error EDEADLK, m\<lparr>nr_base := b\<rparr>) else (Returns True, m\<lparr>nr_base := b, mOwnerThread := t\<rparr>))"
proof -
  from trl_free[of "nr_base m" t] assms obtain b where "trl t (nr_base m) = (Returns True, b)" "ok b"
    "depth b = (depth (nr_base m))(t := Suc (depth (nr_base m) t))" by (auto simp: owned_def)
  then show ?thesis by (intro that[of b]) (simp_all add: nr_try_lock_def on_base_def)
qed

lemma nr_lock_busy: "owned m \<Longrightarrow> u \<noteq> t \<Longrightarrow> depth (nr_base m) u \<noteq> 0 \<Longrightarrow> nr_lock lk t m = (Waits, m)"
  by (simp add: nr_lock_def on_base_def owned_def lk_busy)

lemma nr_try_lock_busy: "owned m \<Longrightarrow> u \<noteq> t \<Longrightarrow> depth (nr_base m) u \<noteq> 0 \<Longrightarrow> nr_try_lock trl t m = (Returns False, m)"
  by (simp add: nr_try_lock_def on_base_def owned_def trl_busy)

lemma nr_unlock_owner:
  assumes "owned m" "mOwnerThread m = t" "t \<noteq> 0"
  obtains b where "ok b" "depth b = (depth (nr_base m))(t := depth (nr_base m) t - 1)" "nr_unlock ul t m = (Returns (), m\<lparr>nr_base := b, mOwnerThread := 0\<rparr>)"
proof -
  from ul_held[of "nr_base m" t] assms obtain b where "ul t (nr_base m) = (Returns (), b)" "ok b"
    "depth b = (depth (nr_base m))(t := depth (nr_base m) t - 1)" by (auto simp: owned_def)
  with assms show ?thesis by (intro that[of b]) (simp_all add: nr_unlock_def on_base_def)
qed

lemma nr_unlock_other: "mOwnerThread m \<noteq> t \<Longrightarrow> nr_unlock ul t m = (System_Error EDEADLK, m)"
  by (simp add: nr_unlock_def)

text \<open>Every operation is one of three changes of the lock.\<close>

lemma nr_op_cases:
  assumes "owned m" "t \<noteq> 0"
  obtains "nr_op lk ul trl (t, x) m = m"
  | b where "\<And>u. 0 < depth (nr_base m) u \<Longrightarrow> u = t" "ok b" "depth b = (depth (nr_base m))(t := Suc (depth (nr_base m) t))"
      "nr_op lk ul trl (t, x) m = m\<lparr>nr_base := b, mOwnerThread := t\<rparr>"
  | b where "mOwnerThread m = t" "ok b" "depth b = (depth (nr_base m))(t := depth (nr_base m) t - 1)"
      "nr_op lk ul trl (t, x) m = m\<lparr>nr_base := b, mOwnerThread := 0\<rparr>"
proof (cases "x = Op_Unlock")
  case True
  show ?thesis
  proof (cases "mOwnerThread m = t")
    case True
    from nr_unlock_owner[OF assms(1) True assms(2)] obtain b where "ok b" "depth b = (depth (nr_base m))(t := depth (nr_base m) t - 1)"
      "nr_unlock ul t m = (Returns (), m\<lparr>nr_base := b, mOwnerThread := 0\<rparr>)" .
    with \<open>x = Op_Unlock\<close> True show ?thesis by (intro that(3)[of b]) simp_all
  qed (use that(1) True nr_unlock_other in simp)
next
  case lock: False
  show ?thesis
  proof (cases "\<exists>u. u \<noteq> t \<and> depth (nr_base m) u \<noteq> 0")
    case True
    then show ?thesis using that(1) lock nr_lock_busy[OF assms(1)] nr_try_lock_busy[OF assms(1)] by (cases x) auto
  next
    case False
    then have f: "\<And>u. u \<noteq> t \<Longrightarrow> depth (nr_base m) u = 0" by blast
    have "\<exists>b. ok b \<and> depth b = (depth (nr_base m))(t := Suc (depth (nr_base m) t)) \<and>
        nr_op lk ul trl (t, x) m = m\<lparr>nr_base := b, mOwnerThread := t\<rparr>"
    proof (cases x)
      case Op_Lock
      then show ?thesis by (rule_tac nr_lock_free[OF assms(1) f]) (force, force split: if_splits)
    next
      case Op_Try_Lock
      then show ?thesis by (rule_tac nr_try_lock_free[OF assms(1) f]) (force, force split: if_splits)
    qed (use lock in simp)
    then obtain b where "ok b" "depth b = (depth (nr_base m))(t := Suc (depth (nr_base m) t))"
      "nr_op lk ul trl (t, x) m = m\<lparr>nr_base := b, mOwnerThread := t\<rparr>" by blast
    with f show ?thesis by (intro that(2)[of b]) fastforce+
  qed
qed

lemma owned_nr_op: "owned m \<Longrightarrow> t \<noteq> 0 \<Longrightarrow> owned (nr_op lk ul trl (t, x) m)"
  by (rule nr_op_cases[of m t x]) (auto simp: owned_def)

lemma leaked_nr_op: "leaked t m \<Longrightarrow> u \<noteq> 0 \<Longrightarrow> leaked t (nr_op lk ul trl (u, x) m)"
  using owned_nr_op[of m u x]
  by (rule_tac nr_op_cases[of m u x]) (auto simp: leaked_def split: if_splits dest: gr_implies_not0)

lemma leaked_ops: "leaked t m \<Longrightarrow> \<forall>(u, x) \<in> set ops. u \<noteq> 0 \<Longrightarrow> leaked t (fold (nr_op lk ul trl) ops m)"
  by (induction ops arbitrary: m) (auto simp del: nr_op.simps intro: leaked_nr_op)

lemma owned_ops: "owned m \<Longrightarrow> \<forall>(u, x) \<in> set ops. u \<noteq> 0 \<Longrightarrow> owned (fold (nr_op lk ul trl) ops m)"
  by (induction ops arbitrary: m) (auto simp del: nr_op.simps intro: owned_nr_op)

lemma recursive_lock_leaks:
  assumes "owned m" "mOwnerThread m = t" "t \<noteq> 0"
  shows "\<exists>m'. nr_lock lk t m = (System_Error EDEADLK, m') \<and> leaked t m'"
proof -
  have "\<And>u. u \<noteq> t \<Longrightarrow> depth (nr_base m) u = 0" using assms one_holder[of "nr_base m"] unfolding owned_def by metis
  from nr_lock_free[OF assms(1) this] obtain b where "ok b" "depth b = (depth (nr_base m))(t := Suc (depth (nr_base m) t))"
    "nr_lock lk t m = (System_Error EDEADLK, m\<lparr>nr_base := b\<rparr>)" using assms(2) by metis
  then show ?thesis using assms by (auto simp: leaked_def owned_def)
qed

lemma leaked_excludes: "leaked t m \<Longrightarrow> u \<noteq> t \<Longrightarrow> nr_lock lk u m = (Waits, m) \<and> nr_try_lock trl u m = (Returns False, m)"
  using nr_lock_busy[of m t u] nr_try_lock_busy[of m t u] by (auto simp: leaked_def)

lemma clean_depths:
  assumes "clean m" "t \<noteq> 0" "mOwnerThread m = 0 \<or> mOwnerThread m = t" "u \<noteq> t" shows "depth (nr_base m) u = 0"
  using assms by (auto simp: clean_def)

lemma lock_refines:
  assumes "clean m" "t \<noteq> 0"
  shows "map_prod id holder (nr_lock lk t m) = lock_spec t (holder m) \<and> (holder m \<noteq> Some t \<longrightarrow> clean (snd (nr_lock lk t m)))"
proof (cases "mOwnerThread m = 0 \<or> mOwnerThread m = t")
  case True
  show ?thesis
    by (rule nr_lock_free[OF clean_owned[OF assms(1)] clean_depths[OF assms True]]) (use assms True in \<open>auto simp: holder_def clean_def\<close>)
next
  case False
  then have "nr_lock lk t m = (Waits, m)" using assms nr_lock_busy[OF clean_owned, of m "mOwnerThread m" t] by (simp add: clean_def)
  with False assms show ?thesis by (simp add: holder_def)
qed

lemma try_lock_refines:
  assumes "clean m" "t \<noteq> 0"
  shows "map_prod id holder (nr_try_lock trl t m) = try_lock_spec t (holder m) \<and> (holder m \<noteq> Some t \<longrightarrow> clean (snd (nr_try_lock trl t m)))"
proof (cases "mOwnerThread m = 0 \<or> mOwnerThread m = t")
  case True
  show ?thesis
    by (rule nr_try_lock_free[OF clean_owned[OF assms(1)] clean_depths[OF assms True]]) (use assms True in \<open>auto simp: holder_def clean_def\<close>)
next
  case False
  then have "nr_try_lock trl t m = (Returns False, m)" using assms nr_try_lock_busy[OF clean_owned, of m "mOwnerThread m" t] by (simp add: clean_def)
  with False assms show ?thesis by (simp add: holder_def)
qed

lemma unlock_refines:
  assumes "clean m" "t \<noteq> 0"
  shows "map_prod id holder (nr_unlock ul t m) = unlock_spec t (holder m) \<and> clean (snd (nr_unlock ul t m))"
proof (cases "mOwnerThread m = t")
  case True
  show ?thesis
    by (rule nr_unlock_owner[OF clean_owned[OF assms(1)] True assms(2)]) (use assms True in \<open>auto simp: holder_def clean_def unlock_spec_def\<close>)
qed (use assms in \<open>auto simp: nr_unlock_other holder_def unlock_spec_def\<close>)

end

subsection \<open>The two base classes\<close>

definition cs_depth :: "critical_section \<Rightarrow> thread_id \<Rightarrow> nat" where
  "cs_depth cs t = (if OwningThread cs = t then RecursionCount cs else 0)"

definition object_depth :: "timed_mutex_handle \<Rightarrow> thread_id \<Rightarrow> nat" where
  "object_depth h t = (case h of None \<Rightarrow> 0 | Some m \<Rightarrow> if mo_owner m = t then mo_count m else 0)"

definition object_live :: "timed_mutex_handle \<Rightarrow> bool" where
  "object_live h = (case h of None \<Rightarrow> False | Some m \<Rightarrow> \<not> mo_abandoned m)"

lemma cs_free: "(\<forall>u. u \<noteq> t \<longrightarrow> cs_depth cs u = 0) \<longleftrightarrow> RecursionCount cs = 0 \<or> OwningThread cs = t"
  by (auto simp: cs_depth_def)

interpretation rm: reentrant rm_lock rm_unlock rm_try_lock cs_depth "\<lambda>_. True"
  by unfold_locales
    (auto simp: cs_free, auto simp: cs_depth_def rm_lock_def rm_unlock_def rm_try_lock_def EnterCriticalSection_def TryEnterCriticalSection_def
      LeaveCriticalSection_def split: if_splits)

lemma WaitForMutex_live:
  assumes "object_live h" "\<forall>u. u \<noteq> t \<longrightarrow> object_depth h u = 0"
  shows "\<exists>h'. WaitForMutex e d t h = (Returns WAIT_OBJECT_0, h') \<and> object_live h' \<and> object_depth h' = (object_depth h)(t := Suc (object_depth h t))"
  using assms(1) assms(2)[rule_format, of "mo_owner (the h)"]
  by (cases h) (auto simp: object_live_def object_depth_def WaitForMutex_def)

lemma WaitForMutex_busy:
  "object_live h \<Longrightarrow> u \<noteq> t \<Longrightarrow> object_depth h u \<noteq> 0 \<Longrightarrow> WaitForMutex e d t h = (wait_over e d, h)"
  by (auto simp: object_depth_def WaitForMutex_def split: option.splits if_splits)

interpretation rtm: reentrant rtm_lock rtm_unlock rtm_try_lock object_depth object_live
proof
  fix b t assume "object_live b" "\<forall>u. u \<noteq> t \<longrightarrow> object_depth b u = 0"
  from WaitForMutex_live[OF this, of False INFINITE] WaitForMutex_live[OF this, of False 0]
  show "\<exists>b'. rtm_lock t b = (Returns (), b') \<and> object_live b' \<and> object_depth b' = (object_depth b)(t := Suc (object_depth b t))"
    "\<exists>b'. rtm_try_lock t b = (Returns True, b') \<and> object_live b' \<and> object_depth b' = (object_depth b)(t := Suc (object_depth b t))"
    by (auto simp: rtm_lock_def rtm_try_lock_def rtm_wait_def)
qed (auto simp: rtm_lock_def rtm_try_lock_def rtm_wait_def rtm_unlock_def ReleaseMutex_def WaitForMutex_busy object_depth_def object_live_def
    split: option.splits if_splits)

lemma clean_mutex: "rm.clean m = mutex_clean m"
  by (auto simp: rm.clean_def mutex_clean_def cs_depth_def split: if_splits)

section \<open>Properties\<close>

text \<open>
  C15: The MinGW \<open>std::mutex\<close> refines a lock with a holder. While no thread locks it twice, \<open>lock\<close>, \<open>try_lock\<close> and \<open>unlock\<close>
  answer as the abstract mutex does, the recorded owner is the holder, and the critical section underneath is held once by that thread and by nobody else.
  Unlocking by another thread is refused and changes nothing.
\<close>

theorem mutex_refines_lock:
  assumes "mutex_clean m" "t \<noteq> 0"
  shows "map_prod id holder (mutex_lock t m) = lock_spec t (holder m) \<and>
    map_prod id holder (mutex_try_lock t m) = try_lock_spec t (holder m) \<and>
    map_prod id holder (mutex_unlock t m) = unlock_spec t (holder m) \<and>
    mutex_clean (snd (mutex_unlock t m)) \<and>
    (holder m \<noteq> Some t \<longrightarrow> mutex_clean (snd (mutex_lock t m)) \<and> mutex_clean (snd (mutex_try_lock t m)))"
  using rm.lock_refines[of m t] rm.try_lock_refines[of m t] rm.unlock_refines[of m t] assms
  by (simp add: clean_mutex mutex_lock_def mutex_try_lock_def mutex_unlock_def)

theorem mutex_refines_lock_witness:
  "mutex_clean new_mutex \<and> map_prod id holder (mutex_lock 7 new_mutex) = (Returns (), Some 7) \<and>
   mutex_clean (snd (mutex_lock 7 new_mutex))"
proof -
  have "mutex_clean new_mutex" "holder new_mutex = None"
    by (simp_all add: mutex_clean_def holder_def new_mutex_def new_NonRecursive_def recursive_mutex_def InitializeCriticalSection_def)
  with mutex_refines_lock[of new_mutex 7] show ?thesis by simp
qed

text \<open>
  C16: A mutex that its holder locks again is never released. The second \<open>lock\<close> throws, but it has entered the critical section once more;
  whatever any threads then do with the mutex, every other thread waits in \<open>lock\<close> for ever and gets false from \<open>try_lock\<close>.
\<close>

theorem mutex_relock_never_released:
  assumes "\<forall>(v, x) \<in> set before. v \<noteq> 0" "mOwnerThread (mutex_ops before new_mutex) = t" "t \<noteq> 0" "\<forall>(v, x) \<in> set ops. v \<noteq> 0" "u \<noteq> t"
  shows "\<exists>m. mutex_lock t (mutex_ops before new_mutex) = (System_Error EDEADLK, m) \<and>
    mutex_lock u (mutex_ops ops m) = (Waits, mutex_ops ops m) \<and> mutex_try_lock u (mutex_ops ops m) = (Returns False, mutex_ops ops m)"
proof -
  have "rm.owned new_mutex" by (simp add: rm.owned_def new_mutex_def new_NonRecursive_def)
  then have "rm.owned (mutex_ops before new_mutex)" using rm.owned_ops assms(1) by (simp add: mutex_ops_def)
  from rm.recursive_lock_leaks[OF this assms(2,3)] obtain m where m: "mutex_lock t (mutex_ops before new_mutex) = (System_Error EDEADLK, m)" "rm.leaked t m"
    by (auto simp: mutex_lock_def)
  from rm.leaked_ops[OF m(2) assms(4)] have "rm.leaked t (mutex_ops ops m)" by (simp add: mutex_ops_def)
  from rm.leaked_excludes[OF this assms(5)] m(1) show ?thesis by (auto simp: mutex_lock_def mutex_try_lock_def)
qed

lemmas mutex_eval = mutex_ops_def mutex_lock_def mutex_unlock_def mutex_try_lock_def nr_lock_def nr_unlock_def nr_try_lock_def on_base_def
  rm_lock_def rm_unlock_def rm_try_lock_def EnterCriticalSection_def TryEnterCriticalSection_def LeaveCriticalSection_def
  checkSetOwnerAfterLock_def checkSetOwnerBeforeUnlock_def new_mutex_def new_NonRecursive_def recursive_mutex_def InitializeCriticalSection_def

theorem mutex_relock_never_released_witness:
  "\<exists>m. mutex_lock 7 (mutex_ops [(7, Op_Lock)] new_mutex) = (System_Error EDEADLK, m) \<and>
    mutex_lock 8 (mutex_ops [(7, Op_Unlock)] m) = (Waits, mutex_ops [(7, Op_Unlock)] m)"
  using mutex_relock_never_released[of "[(7, Op_Lock)]" 7 "[(7, Op_Unlock)]" 8] by (auto simp: mutex_eval)

text \<open>A scope with a \<open>lock_guard\<close> gives the mutex back whether its body returns or throws.\<close>

lemma guarded_scope_unlocks:
  assumes "t \<noteq> 0" "u \<noteq> 0" "\<And>m. body t m = (r, m)" "(\<exists>a. r = Returns a) \<or> (\<exists>err. r = System_Error err)"
  obtains m m' where "lock_guard mutex_lock mutex_unlock False body t new_mutex = (Left_Scope r, m)" "mutex_lock u m = (Returns (), m')"
  using assms by (auto simp: mutex_eval lock_guard_def)

text \<open>A negative number of milliseconds as a \<open>DWORD\<close>.\<close>

lemma late_dword:
  assumes "0 < late" "late \<le> 2 ^ 31"
  shows "uint (of_int (- late) :: u32) = 2 ^ 32 - late" "(of_int (- late) :: u32) \<noteq> 0" "(of_int (- late) :: u32) = INFINITE \<longleftrightarrow> late = 1"
proof -
  have "uint (of_int (- late) :: u32) = (- late) mod 2 ^ 32" by (simp only: unsigned_of_int take_bit_eq_mod) simp
  also have "\<dots> = 2 ^ 32 - late" using assms by (simp add: zmod_zminus1_eq_if)
  finally show u: "uint (of_int (- late) :: u32) = 2 ^ 32 - late" .
  have m: "uint (- 1 :: u32) = 2 ^ 32 - 1" by (simp add: unsigned_minus_1_eq_mask mask_eq_exp_minus_1)
  show "(of_int (- late) :: u32) \<noteq> 0" using u assms by (auto simp: word_uint_eq_iff simp del: of_int_minus)
  show "(of_int (- late) :: u32) = INFINITE \<longleftrightarrow> late = 1" using u m by (auto simp: INFINITE_def word_uint_eq_iff simp del: of_int_minus)
qed

text \<open>
  A deadline that has passed does not end a timed lock at once. The remaining time is negative and is cast to an unsigned 32-bit number: by exactly
  one millisecond it is \<open>INFINITE\<close>, and the call waits for ever; by more, it waits as long as the clock needs to count the wrapped
  number of milliseconds, at least \<open>2 ^ 31\<close> of them when the deadline is less than 25 days old.
\<close>

theorem try_lock_until_past_deadline:
  assumes "0 < late" "late \<le> 2 ^ 31" "mo_count m \<noteq> 0" "mo_owner m \<noteq> t"
  shows "rtm_try_lock_until expired (now - late) now t (Some m) =
      (if late = 1 \<or> \<not> expired then Waits else Returns False, Some m) \<and>
    2 ^ 31 \<le> uint (of_int (now - late - now) :: u32)"
  using assms late_dword[OF assms(1,2)]
  by (simp add: rtm_try_lock_until_def rtm_try_lock_for_def rtm_wait_def WaitForMutex_def wait_over_def del: of_int_minus)

theorem try_lock_until_past_deadline_witness:
  "rtm_try_lock_until True 999 1000 7 (Some \<lparr>mo_owner = 8, mo_count = 1, mo_abandoned = False\<rparr>) =
     (Waits, Some \<lparr>mo_owner = 8, mo_count = 1, mo_abandoned = False\<rparr>)"
  using try_lock_until_past_deadline[of 1 "\<lparr>mo_owner = 8, mo_count = 1, mo_abandoned = False\<rparr>" 7 True 1000] by simp

text \<open>A mutex whose owner has ended is acquired by the call that throws.\<close>

lemma abandoned_lock_is_held:
  assumes "h = Some m" "mo_count m \<noteq> 0"
  obtains h' where "rtm_lock t (owner_ends h) = (System_Error EOWNERDEAD, h')" "object_depth h' t = 1"
  using assms that by (simp add: owner_ends_def rtm_lock_def WaitForMutex_def object_depth_def)

end
