(* ===== verification/Win_Condvar.thy ===== *)
theory Win_Condvar
  imports Win_Mutex
begin

text \<open>
  The condition variable of \<open>src/src/native/mingw-thread-fix/mingw.condition_variable.h\<close>, made of a mutex, a counter of
  waiting threads, a semaphore and an event that resets itself. Each thread is a machine with a position in the function it runs
  and takes one step per access to the shared objects; the steps of different threads interleave in any order.
  A thread that is in none of the functions runs the application (\<open>App\<close>, with the result of its last call) and may lock
  and unlock the mutex it waits with, change what the predicate reads while it holds it, and call the condition variable; calls that the
  mutex refuses or that wait without holding it are errors of the application and are left out.

  Semaphore and event behave as documented. A handle of which the creation failed has no object and every wait on it
  fails. \<open>notify_all\<close> and \<open>notify_one\<close> are \<open>noexcept\<close>: an exception in them, and an assertion that fails, ends the process (\<open>terminated\<close>).
  The counter is an \<open>int\<close>; it never exceeds the number of threads.
\<close>

section \<open>Definitions\<close>

subsection \<open>The state\<close>

datatype cv_status = no_timeout | timeout

datatype cv_ret = Ret_Void | Ret_Bool bool | Ret_Status cv_status | Ret_Throw errno

text \<open>The four functions that wait; the last two with the time as a \<open>DWORD\<close>.\<close>

datatype waiter = Wait_Plain | Wait_Pred | Wait_For u32 | Wait_For_Pred u32

datatype pc = App cv_ret | Pred_Test | Pred_Once
  | Wait_Guard waiter | Wait_Incr waiter | Wait_Leave waiter | Wait_Unlock waiter | Wait_Sem waiter
  | Wait_Dec waiter wait_result | Wait_Set waiter wait_result | Wait_Lock waiter wait_result
  | All_Guard | All_Test | All_Return | All_Release | All_Loop | All_Wait | All_Assert | All_Drain | All_Leave
  | One_Guard | One_Test | One_Load | One_Release int | One_Loop int | One_Wait int | One_Assert int | One_Leave

record condvar =
  mMutex :: critical_section
  mNumWaiters :: int
  mSemaphore :: "nat option"
  mWakeEvent :: "bool option"
  user_lock :: mutex
  cond :: bool
  pc :: "thread_id \<Rightarrow> pc"
  terminated :: bool

definition new_condition_variable :: "bool \<Rightarrow> bool \<Rightarrow> bool \<Rightarrow> condvar" where
  "new_condition_variable semaphore_created event_created c =
     \<lparr>mMutex = recursive_mutex, mNumWaiters = 0,
      mSemaphore = (if semaphore_created then Some 0 else None),
      mWakeEvent = (if event_created then Some False else None),
      user_lock = new_mutex, cond = c, pc = \<lambda>_. App Ret_Void, terminated = False\<rparr>"

subsection \<open>Semaphore and event\<close>

definition WaitForSemaphore :: "bool \<Rightarrow> u32 \<Rightarrow> nat option \<Rightarrow> wait_result call \<times> nat option" where
  "WaitForSemaphore expired time h =
     (case h of
        None \<Rightarrow> (Returns WAIT_FAILED, None)
      | Some n \<Rightarrow> if n \<noteq> 0 then (Returns WAIT_OBJECT_0, Some (n - 1)) else (wait_over expired time, Some n))"

definition ReleaseSemaphore :: "int \<Rightarrow> nat option \<Rightarrow> nat option" where
  "ReleaseSemaphore n = map_option (\<lambda>k. if 0 < n \<and> int k + n \<le> 0xFFFF then k + nat n else k)"

definition WaitForEvent :: "bool \<Rightarrow> u32 \<Rightarrow> bool option \<Rightarrow> wait_result call \<times> bool option" where
  "WaitForEvent expired time h =
     (case h of
        None \<Rightarrow> (Returns WAIT_FAILED, None)
      | Some b \<Rightarrow> if b then (Returns WAIT_OBJECT_0, Some False) else (wait_over expired time, Some b))"

definition SetEvent :: "bool option \<Rightarrow> bool option" where
  "SetEvent = map_option (\<lambda>_. True)"

subsection \<open>Steps\<close>

text \<open>Thread \<open>t\<close> goes to a position.\<close>

definition at_pc :: "thread_id \<Rightarrow> pc \<Rightarrow> condvar \<Rightarrow> condvar" where
  "at_pc t p s = s\<lparr>pc := (pc s)(t := p)\<rparr>"

definition enter_guard :: "thread_id \<Rightarrow> pc \<Rightarrow> condvar \<Rightarrow> condvar option" where
  "enter_guard t p s = (case rm_lock t (mMutex s) of (Returns _, cs) \<Rightarrow> Some (at_pc t p (s\<lparr>mMutex := cs\<rparr>)) | _ \<Rightarrow> None)"

definition leave_guard :: "thread_id \<Rightarrow> pc \<Rightarrow> condvar \<Rightarrow> condvar option" where
  "leave_guard t p s = (case rm_unlock t (mMutex s) of (Returns _, cs) \<Rightarrow> Some (at_pc t p (s\<lparr>mMutex := cs\<rparr>)) | _ \<Rightarrow> None)"

definition terminate :: "condvar \<Rightarrow> condvar" where
  "terminate s = s\<lparr>terminated := True\<rparr>"

fun wait_time :: "waiter \<Rightarrow> u32" where
  "wait_time Wait_Plain = INFINITE"
| "wait_time Wait_Pred = INFINITE"
| "wait_time (Wait_For d) = d"
| "wait_time (Wait_For_Pred d) = d"

text \<open>The end of \<open>wait_impl\<close>, and what its callers make of it.\<close>

fun wait_result_of :: "wait_result \<Rightarrow> bool call" where
  "wait_result_of WAIT_OBJECT_0 = Returns True"
| "wait_result_of WAIT_TIMEOUT = Returns False"
| "wait_result_of _ = System_Error EPROTO"

fun after_wait :: "waiter \<Rightarrow> bool call \<Rightarrow> pc" where
  "after_wait Wait_Plain (Returns b) = App Ret_Void"
| "after_wait Wait_Pred (Returns b) = Pred_Test"
| "after_wait (Wait_For d) (Returns b) = App (Ret_Status (if b then no_timeout else timeout))"
| "after_wait (Wait_For_Pred d) (Returns b) = Pred_Once"
| "after_wait w (System_Error e) = App (Ret_Throw e)"
| "after_wait w _ = App Ret_Void"

fun wait_impl :: "bool \<Rightarrow> thread_id \<Rightarrow> pc \<Rightarrow> condvar \<Rightarrow> condvar option" where
  "wait_impl expired t (Wait_Guard w) s = enter_guard t (Wait_Incr w) s"
| "wait_impl expired t (Wait_Incr w) s = Some (at_pc t (Wait_Leave w) (s\<lparr>mNumWaiters := mNumWaiters s + 1\<rparr>))"
| "wait_impl expired t (Wait_Leave w) s = leave_guard t (Wait_Unlock w) s"
| "wait_impl expired t (Wait_Unlock w) s =
     (case mutex_unlock t (user_lock s) of
        (Returns _, m) \<Rightarrow> Some (at_pc t (Wait_Sem w) (s\<lparr>user_lock := m\<rparr>))
      | (System_Error e, m) \<Rightarrow> Some (at_pc t (App (Ret_Throw e)) (s\<lparr>user_lock := m\<rparr>))
      | _ \<Rightarrow> None)"
| "wait_impl expired t (Wait_Sem w) s =
     (case WaitForSemaphore expired (wait_time w) (mSemaphore s) of
        (Returns r, h) \<Rightarrow> Some (at_pc t (Wait_Dec w r) (s\<lparr>mSemaphore := h\<rparr>))
      | _ \<Rightarrow> None)"
| "wait_impl expired t (Wait_Dec w r) s = Some (at_pc t (Wait_Set w r) (s\<lparr>mNumWaiters := mNumWaiters s - 1\<rparr>))"
| "wait_impl expired t (Wait_Set w r) s = Some (at_pc t (Wait_Lock w r) (s\<lparr>mWakeEvent := SetEvent (mWakeEvent s)\<rparr>))"
| "wait_impl expired t (Wait_Lock w r) s =
     (case mutex_lock t (user_lock s) of
        (Returns _, m) \<Rightarrow> Some (at_pc t (after_wait w (wait_result_of r)) (s\<lparr>user_lock := m\<rparr>))
      | (System_Error e, m) \<Rightarrow> Some (at_pc t (App (Ret_Throw e)) (s\<lparr>user_lock := m\<rparr>))
      | _ \<Rightarrow> None)"
| "wait_impl expired t _ s = None"

text \<open>The loop \<open>while(!pred()) wait(lock)\<close>, and \<open>return pred()\<close> after a timed wait.\<close>

fun wait_pred :: "thread_id \<Rightarrow> pc \<Rightarrow> condvar \<Rightarrow> condvar option" where
  "wait_pred t Pred_Test s = Some (at_pc t (if \<not> cond s then Wait_Guard Wait_Pred else App Ret_Void) s)"
| "wait_pred t Pred_Once s = Some (at_pc t (App (Ret_Bool (cond s))) s)"
| "wait_pred t _ s = None"

text \<open>The wait for the event lasts a second at most; the loops go round after it.\<close>

definition wake_wait :: "bool \<Rightarrow> thread_id \<Rightarrow> pc \<Rightarrow> condvar \<Rightarrow> condvar option" where
  "wake_wait expired t p s =
     (case WaitForEvent expired 1000 (mWakeEvent s) of
        (Returns r, h) \<Rightarrow> Some ((if r = WAIT_FAILED \<or> r = WAIT_ABANDONED then terminate else at_pc t p) (s\<lparr>mWakeEvent := h\<rparr>))
      | _ \<Rightarrow> None)"

fun notify_all :: "bool \<Rightarrow> thread_id \<Rightarrow> pc \<Rightarrow> condvar \<Rightarrow> condvar option" where
  "notify_all expired t All_Guard s = enter_guard t All_Test s"
| "notify_all expired t All_Test s = Some (at_pc t (if mNumWaiters s \<le> 0 then All_Return else All_Release) s)"
| "notify_all expired t All_Return s = leave_guard t (App Ret_Void) s"
| "notify_all expired t All_Release s = Some (at_pc t All_Loop (s\<lparr>mSemaphore := ReleaseSemaphore (mNumWaiters s) (mSemaphore s)\<rparr>))"
| "notify_all expired t All_Loop s = Some (at_pc t (if 0 < mNumWaiters s then All_Wait else All_Assert) s)"
| "notify_all expired t All_Wait s = wake_wait expired t All_Loop s"
| "notify_all expired t All_Assert s = Some (if mNumWaiters s = 0 then at_pc t All_Drain s else terminate s)"
| "notify_all expired t All_Drain s =
     (case WaitForSemaphore expired 0 (mSemaphore s) of
        (Returns r, h) \<Rightarrow> Some (at_pc t (if r = WAIT_OBJECT_0 then All_Drain else All_Leave) (s\<lparr>mSemaphore := h\<rparr>))
      | _ \<Rightarrow> None)"
| "notify_all expired t All_Leave s = leave_guard t (App Ret_Void) s"
| "notify_all expired t _ s = None"

fun notify_one :: "bool \<Rightarrow> thread_id \<Rightarrow> pc \<Rightarrow> condvar \<Rightarrow> condvar option" where
  "notify_one expired t One_Guard s = enter_guard t One_Test s"
| "notify_one expired t One_Test s = Some (at_pc t (if mNumWaiters s = 0 then One_Leave else One_Load) s)"
| "notify_one expired t One_Load s = Some (at_pc t (One_Release (mNumWaiters s - 1)) s)"
| "notify_one expired t (One_Release k) s = Some (at_pc t (One_Loop k) (s\<lparr>mSemaphore := ReleaseSemaphore 1 (mSemaphore s)\<rparr>))"
| "notify_one expired t (One_Loop k) s = Some (at_pc t (if k < mNumWaiters s then One_Wait k else One_Assert k) s)"
| "notify_one expired t (One_Wait k) s = wake_wait expired t (One_Loop k) s"
| "notify_one expired t (One_Assert k) s = Some (if mNumWaiters s = k then at_pc t One_Leave s else terminate s)"
| "notify_one expired t One_Leave s = leave_guard t (App Ret_Void) s"
| "notify_one expired t _ s = None"

fun in_wait_impl :: "pc \<Rightarrow> bool" where
  "in_wait_impl (Wait_Guard w) = True"
| "in_wait_impl (Wait_Incr w) = True"
| "in_wait_impl (Wait_Leave w) = True"
| "in_wait_impl (Wait_Unlock w) = True"
| "in_wait_impl (Wait_Sem w) = True"
| "in_wait_impl (Wait_Dec w r) = True"
| "in_wait_impl (Wait_Set w r) = True"
| "in_wait_impl (Wait_Lock w r) = True"
| "in_wait_impl _ = False"

definition in_notify_all :: "pc \<Rightarrow> bool" where
  "in_notify_all p \<longleftrightarrow> p \<in> {All_Guard, All_Test, All_Return, All_Release, All_Loop, All_Wait, All_Assert, All_Drain, All_Leave}"

definition cv_step :: "bool \<Rightarrow> thread_id \<Rightarrow> condvar \<Rightarrow> condvar option" where
  "cv_step expired t s =
     (let p = pc s t in
      if terminated s then None
      else if in_wait_impl p then wait_impl expired t p s
      else if p = Pred_Test \<or> p = Pred_Once then wait_pred t p s
      else if in_notify_all p then notify_all expired t p s
      else notify_one expired t p s)"

subsection \<open>What the application does\<close>

text \<open>
  The functions of \<open>condition_variable\<close> take a lock that is held. A time in milliseconds
  becomes a \<open>DWORD\<close>; one that is negative becomes 0.
\<close>

definition wait_for_time :: "int \<Rightarrow> u32" where
  "wait_for_time rel_time = (let time = (if rel_time < 0 then 0 else rel_time) in of_int time)"

datatype cv_call = Call_wait | Call_wait_pred | Call_wait_for int | Call_wait_for_pred int | Call_wait_until int int
  | Call_notify_all | Call_notify_one | Lock_User | Unlock_User | Set_Cond bool

text \<open>\<open>Call_wait_until abs_time now\<close>, with the reading of the clock.\<close>

definition entry :: "cv_call \<Rightarrow> pc" where
  "entry c =
     (case c of
        Call_wait \<Rightarrow> Wait_Guard Wait_Plain
      | Call_wait_pred \<Rightarrow> Pred_Test
      | Call_wait_for d \<Rightarrow> Wait_Guard (Wait_For (wait_for_time d))
      | Call_wait_for_pred d \<Rightarrow> Wait_Guard (Wait_For_Pred (wait_for_time d))
      | Call_wait_until abs_time now \<Rightarrow> Wait_Guard (Wait_For (wait_for_time (abs_time - now)))
      | Call_notify_all \<Rightarrow> All_Guard
      | Call_notify_one \<Rightarrow> One_Guard
      | _ \<Rightarrow> App Ret_Void)"

fun is_App :: "pc \<Rightarrow> bool" where
  "is_App (App r) = True"
| "is_App _ = False"

definition app_step :: "cv_call \<Rightarrow> thread_id \<Rightarrow> condvar \<Rightarrow> condvar option" where
  "app_step c t s =
     (if terminated s \<or> \<not> is_App (pc s t) then None
      else case c of
        Lock_User \<Rightarrow> (case mutex_lock t (user_lock s) of (Returns _, m) \<Rightarrow> Some (s\<lparr>user_lock := m\<rparr>) | _ \<Rightarrow> None)
      | Unlock_User \<Rightarrow> (case mutex_unlock t (user_lock s) of (Returns _, m) \<Rightarrow> Some (s\<lparr>user_lock := m\<rparr>) | _ \<Rightarrow> None)
      | Set_Cond b \<Rightarrow> if holder (user_lock s) = Some t then Some (s\<lparr>cond := b\<rparr>) else None
      | Call_notify_all \<Rightarrow> Some (at_pc t (entry c) s)
      | Call_notify_one \<Rightarrow> Some (at_pc t (entry c) s)
      | _ \<Rightarrow> if holder (user_lock s) = Some t then Some (at_pc t (entry c) s) else None)"

text \<open>The schedules: a thread takes a step of the function it is in, or makes a move of its own.\<close>

datatype event = Run thread_id bool | Move thread_id cv_call

fun cv_event :: "event \<Rightarrow> condvar \<Rightarrow> condvar option" where
  "cv_event (Run t expired) s = cv_step expired t s"
| "cv_event (Move t c) s = app_step c t s"

fun cv_run :: "event list \<Rightarrow> condvar \<Rightarrow> condvar option" where
  "cv_run [] s = Some s"
| "cv_run (e # es) s = (case cv_event e s of None \<Rightarrow> None | Some s' \<Rightarrow> cv_run es s')"

fun timed_call :: "cv_call \<Rightarrow> bool" where
  "timed_call (Call_wait_for d) = True"
| "timed_call (Call_wait_for_pred d) = True"
| "timed_call (Call_wait_until a n) = True"
| "timed_call _ = False"

inductive cv_reach :: "thread_id set \<Rightarrow> bool \<Rightarrow> condvar \<Rightarrow> condvar \<Rightarrow> bool" for T timed s0 where
  start: "cv_reach T timed s0 s0"
| run: "cv_reach T timed s0 s \<Longrightarrow> t \<in> T \<Longrightarrow> cv_step expired t s = Some s' \<Longrightarrow> cv_reach T timed s0 s'"
| move: "cv_reach T timed s0 s \<Longrightarrow> t \<in> T \<Longrightarrow> timed_call c \<longrightarrow> timed \<Longrightarrow> app_step c t s = Some s' \<Longrightarrow> cv_reach T timed s0 s'"


section \<open>Laws\<close>

subsection \<open>Counting threads\<close>

definition tally :: "(pc \<Rightarrow> bool) \<Rightarrow> condvar \<Rightarrow> nat" where
  "tally P s = card {t. P (pc s t)}"

lemma tally_at_pc:
  "int (tally P (at_pc t p s)) = int (tally P s) - of_bool (P (pc s t)) + of_bool (P p)"
proof -
  let ?R = "{u. u \<noteq> t \<and> P (pc s u)}"
  have "{u. P (pc s u)} = (if P (pc s t) then insert t ?R else ?R)" "{u. P (((pc s)(t := p)) u)} = (if P p then insert t ?R else ?R)"
    by auto
  then show ?thesis by (auto simp: tally_def at_pc_def card_insert_if)
qed

lemma tally_cong [simp]:
  "tally P (s\<lparr>mMutex := a\<rparr>) = tally P s" "tally P (s\<lparr>mNumWaiters := b\<rparr>) = tally P s" "tally P (s\<lparr>mSemaphore := c\<rparr>) = tally P s"
  "tally P (s\<lparr>mWakeEvent := d\<rparr>) = tally P s" "tally P (s\<lparr>user_lock := e\<rparr>) = tally P s" "tally P (s\<lparr>cond := f\<rparr>) = tally P s"
  "tally P (terminate s) = tally P s"
  by (simp_all add: tally_def terminate_def)

lemma tally_pos: "0 < tally P s \<longleftrightarrow> (\<exists>t. P (pc s t))"
  by (auto simp: tally_def card_gt_0_iff)

lemma tally_le: "(\<And>p. P p \<Longrightarrow> Q p) \<Longrightarrow> tally P s \<le> tally Q s"
  by (auto simp: tally_def intro: card_mono)

lemma at_pc_simps [simp]:
  "pc (at_pc t p s) = (pc s)(t := p)" "mMutex (at_pc t p s) = mMutex s" "mNumWaiters (at_pc t p s) = mNumWaiters s"
  "mSemaphore (at_pc t p s) = mSemaphore s" "mWakeEvent (at_pc t p s) = mWakeEvent s" "user_lock (at_pc t p s) = user_lock s"
  "terminated (at_pc t p s) = terminated s" "pc (terminate s) = pc s" "mMutex (terminate s) = mMutex s" "mNumWaiters (terminate s) = mNumWaiters s"
  "mSemaphore (terminate s) = mSemaphore s" "mWakeEvent (terminate s) = mWakeEvent s" "user_lock (terminate s) = user_lock s"
  by (simp_all add: at_pc_def terminate_def)

subsection \<open>Where the threads are\<close>

text \<open>Inside \<open>mMutex\<close>; counted in \<open>mNumWaiters\<close>; holding the lock of the caller, and having given it up.\<close>

fun inside :: "pc \<Rightarrow> bool" where
  "inside (Wait_Incr w) = True" | "inside (Wait_Leave w) = True"
| "inside All_Test = True" | "inside All_Return = True" | "inside All_Release = True" | "inside All_Loop = True" | "inside All_Wait = True"
| "inside All_Assert = True" | "inside All_Drain = True" | "inside All_Leave = True"
| "inside One_Test = True" | "inside One_Load = True" | "inside (One_Release k) = True" | "inside (One_Loop k) = True"
| "inside (One_Wait k) = True" | "inside (One_Assert k) = True" | "inside One_Leave = True"
| "inside _ = False"

fun waiting :: "pc \<Rightarrow> bool" where
  "waiting (Wait_Leave w) = True" | "waiting (Wait_Unlock w) = True" | "waiting (Wait_Sem w) = True" | "waiting (Wait_Dec w r) = True"
| "waiting _ = False"

fun holds_lock :: "pc \<Rightarrow> bool" where
  "holds_lock Pred_Test = True" | "holds_lock Pred_Once = True" | "holds_lock (Wait_Guard w) = True" | "holds_lock (Wait_Incr w) = True"
| "holds_lock (Wait_Leave w) = True" | "holds_lock (Wait_Unlock w) = True"
| "holds_lock _ = False"

fun gave_lock :: "pc \<Rightarrow> bool" where
  "gave_lock (Wait_Sem w) = True" | "gave_lock (Wait_Dec w r) = True" | "gave_lock (Wait_Set w r) = True" | "gave_lock (Wait_Lock w r) = True"
| "gave_lock _ = False"

text \<open>The positions of \<open>notify_all\<close> at which nobody waits any more.\<close>

fun all_woken :: "pc \<Rightarrow> bool" where
  "all_woken All_Return = True" | "all_woken All_Assert = True" | "all_woken All_Drain = True" | "all_woken All_Leave = True"
| "all_woken _ = False"

subsection \<open>The invariant for every use\<close>

definition guarded :: "condvar \<Rightarrow> bool" where
  "guarded s \<longleftrightarrow> RecursionCount (mMutex s) \<le> 1 \<and>
     (\<forall>t. inside (pc s t) \<longleftrightarrow> RecursionCount (mMutex s) = 1 \<and> OwningThread (mMutex s) = t)"

definition locked_by :: "condvar \<Rightarrow> bool" where
  "locked_by s \<longleftrightarrow> mutex_clean (user_lock s) \<and> (\<forall>t. holds_lock (pc s t) \<longrightarrow> holder (user_lock s) = Some t) \<and>
     (\<forall>t. gave_lock (pc s t) \<longrightarrow> holder (user_lock s) \<noteq> Some t)"

definition woken :: "condvar \<Rightarrow> bool" where
  "woken s \<longleftrightarrow> (\<forall>t. all_woken (pc s t) \<longrightarrow> mNumWaiters s = 0) \<and> (\<forall>t. pc s t = All_Leave \<longrightarrow> mSemaphore s = None \<or> mSemaphore s = Some 0)"

definition cv_inv :: "condvar \<Rightarrow> bool" where
  "cv_inv s \<longleftrightarrow> guarded s \<and> locked_by s \<and> mNumWaiters s = int (tally waiting s) \<and> woken s \<and> pc s 0 = App Ret_Void"


text \<open>What a step can do, with the mutexes worked out.\<close>

fun enters :: "pc \<Rightarrow> pc option" where
  "enters (Wait_Guard w) = Some (Wait_Incr w)" | "enters All_Guard = Some All_Test" | "enters One_Guard = Some One_Test" | "enters _ = None"

fun leaves :: "pc \<Rightarrow> pc option" where
  "leaves (Wait_Leave w) = Some (Wait_Unlock w)" | "leaves All_Return = Some (App Ret_Void)" | "leaves All_Leave = Some (App Ret_Void)"
| "leaves One_Leave = Some (App Ret_Void)" | "leaves _ = None"

fun looks :: "int \<Rightarrow> bool \<Rightarrow> pc \<Rightarrow> pc option" where
  "looks n c Pred_Test = Some (if \<not> c then Wait_Guard Wait_Pred else App Ret_Void)"
| "looks n c Pred_Once = Some (App (Ret_Bool c))"
| "looks n c All_Test = Some (if n \<le> 0 then All_Return else All_Release)"
| "looks n c All_Loop = Some (if 0 < n then All_Wait else All_Assert)"
| "looks n c All_Assert = (if n = 0 then Some All_Drain else None)"
| "looks n c One_Test = Some (if n = 0 then One_Leave else One_Load)"
| "looks n c One_Load = Some (One_Release (n - 1))"
| "looks n c (One_Loop k) = Some (if k < n then One_Wait k else One_Assert k)"
| "looks n c (One_Assert k) = (if n = k then Some One_Leave else None)"
| "looks n c _ = None"

inductive cv_eff :: "thread_id \<Rightarrow> condvar \<Rightarrow> condvar \<Rightarrow> bool" for t s where
  enter: "enters (pc s t) = Some p \<Longrightarrow> RecursionCount (mMutex s) = 0 \<Longrightarrow> cv_eff t s (at_pc t p (s\<lparr>mMutex := \<lparr>OwningThread = t, RecursionCount = 1\<rparr>\<rparr>))"
| leave: "leaves (pc s t) = Some p \<Longrightarrow> cv_eff t s (at_pc t p (s\<lparr>mMutex := (mMutex s)\<lparr>RecursionCount := 0\<rparr>\<rparr>))"
| look: "looks (mNumWaiters s) (cond s) (pc s t) = Some p \<Longrightarrow> cv_eff t s (at_pc t p s)"
| incr: "pc s t = Wait_Incr w \<Longrightarrow> cv_eff t s (at_pc t (Wait_Leave w) (s\<lparr>mNumWaiters := mNumWaiters s + 1\<rparr>))"
| unlock: "pc s t = Wait_Unlock w \<Longrightarrow> mutex_clean m \<Longrightarrow> holder m = None \<Longrightarrow> cv_eff t s (at_pc t (Wait_Sem w) (s\<lparr>user_lock := m\<rparr>))"
| take: "pc s t = Wait_Sem w \<Longrightarrow> mSemaphore s = Some (Suc n) \<Longrightarrow> cv_eff t s (at_pc t (Wait_Dec w WAIT_OBJECT_0) (s\<lparr>mSemaphore := Some n\<rparr>))"
| over: "pc s t = Wait_Sem w \<Longrightarrow> mSemaphore s = Some 0 \<Longrightarrow> wait_time w \<noteq> INFINITE \<Longrightarrow> cv_eff t s (at_pc t (Wait_Dec w WAIT_TIMEOUT) s)"
| fail: "pc s t = Wait_Sem w \<Longrightarrow> mSemaphore s = None \<Longrightarrow> cv_eff t s (at_pc t (Wait_Dec w WAIT_FAILED) s)"
| dec: "pc s t = Wait_Dec w r \<Longrightarrow> cv_eff t s (at_pc t (Wait_Set w r) (s\<lparr>mNumWaiters := mNumWaiters s - 1\<rparr>))"
| set: "pc s t = Wait_Set w r \<Longrightarrow> cv_eff t s (at_pc t (Wait_Lock w r) (s\<lparr>mWakeEvent := SetEvent (mWakeEvent s)\<rparr>))"
| lock: "pc s t = Wait_Lock w r \<Longrightarrow> holder (user_lock s) = None \<Longrightarrow> mutex_clean m \<Longrightarrow> holder m = Some t \<Longrightarrow>
    cv_eff t s (at_pc t (after_wait w (wait_result_of r)) (s\<lparr>user_lock := m\<rparr>))"
| release_all: "pc s t = All_Release \<Longrightarrow> cv_eff t s (at_pc t All_Loop (s\<lparr>mSemaphore := ReleaseSemaphore (mNumWaiters s) (mSemaphore s)\<rparr>))"
| release_one: "pc s t = One_Release k \<Longrightarrow> cv_eff t s (at_pc t (One_Loop k) (s\<lparr>mSemaphore := ReleaseSemaphore 1 (mSemaphore s)\<rparr>))"
| wake_all: "pc s t = All_Wait \<Longrightarrow> mWakeEvent s \<noteq> None \<Longrightarrow> cv_eff t s (at_pc t All_Loop (s\<lparr>mWakeEvent := Some False\<rparr>))"
| wake_one: "pc s t = One_Wait k \<Longrightarrow> mWakeEvent s \<noteq> None \<Longrightarrow> cv_eff t s (at_pc t (One_Loop k) (s\<lparr>mWakeEvent := Some False\<rparr>))"
| drain: "pc s t = All_Drain \<Longrightarrow> mSemaphore s = Some (Suc n) \<Longrightarrow> cv_eff t s (at_pc t All_Drain (s\<lparr>mSemaphore := Some n\<rparr>))"
| drained: "pc s t = All_Drain \<Longrightarrow> mSemaphore s = None \<or> mSemaphore s = Some 0 \<Longrightarrow> cv_eff t s (at_pc t All_Leave s)"
| abort: "mWakeEvent s = None \<and> (pc s t = All_Wait \<or> (\<exists>k. pc s t = One_Wait k)) \<or>
    pc s t = All_Assert \<and> mNumWaiters s \<noteq> 0 \<or> (\<exists>k. pc s t = One_Assert k \<and> mNumWaiters s \<noteq> k) \<Longrightarrow> cv_eff t s (terminate s)"

lemma after_wait_outside: "\<not> inside (after_wait w r)" "\<not> waiting (after_wait w r)" "\<not> gave_lock (after_wait w r)" "\<not> all_woken (after_wait w r)"
  by (cases w; cases r; simp)+

lemma enter_guard_eff: "guarded s \<Longrightarrow> \<not> inside (pc s t) \<Longrightarrow> enter_guard t p s = Some s' \<Longrightarrow>
    RecursionCount (mMutex s) = 0 \<and> s' = at_pc t p (s\<lparr>mMutex := \<lparr>OwningThread = t, RecursionCount = 1\<rparr>\<rparr>)"
  by (cases "RecursionCount (mMutex s)")
    (auto simp: guarded_def enter_guard_def rm_lock_def EnterCriticalSection_def TryEnterCriticalSection_def split: if_splits)

lemma leave_guard_eff: "guarded s \<Longrightarrow> inside (pc s t) \<Longrightarrow> leave_guard t p s = Some (at_pc t p (s\<lparr>mMutex := (mMutex s)\<lparr>RecursionCount := 0\<rparr>\<rparr>))"
  by (auto simp: guarded_def leave_guard_def rm_unlock_def LeaveCriticalSection_def)

lemma user_unlock:
  assumes "mutex_clean m" "holder m = Some t" obtains m' where "mutex_unlock t m = (Returns (), m')" "mutex_clean m'" "holder m' = None"
proof -
  have t: "t \<noteq> 0" using assms(2) by (auto simp: holder_def split: if_splits)
  from rm.unlock_refines[of m t] t assms show ?thesis
    by (cases "mutex_unlock t m") (auto simp: clean_mutex unlock_spec_def mutex_unlock_def intro: that)
qed

lemma user_lock_free:
  assumes "mutex_clean m" "holder m = None" "t \<noteq> 0" obtains m' where "mutex_lock t m = (Returns (), m')" "mutex_clean m'" "holder m' = Some t"
  using rm.lock_refines[of m t] assms by (cases "mutex_lock t m") (auto simp: clean_mutex mutex_lock_def intro: that)

lemma user_lock_busy: "mutex_clean m \<Longrightarrow> holder m = Some u \<Longrightarrow> u \<noteq> t \<Longrightarrow> t \<noteq> 0 \<Longrightarrow> fst (mutex_lock t m) = Waits"
  using rm.lock_refines[of m t] by (cases "mutex_lock t m") (auto simp: clean_mutex mutex_lock_def)

lemma semaphore_cases: obtains "h = None" | "h = Some (0 :: nat)" | n where "h = Some (Suc n)"
  by (metis nat.exhaust option.exhaust)

lemma WaitForSemaphore_simps [simp]:
  "WaitForSemaphore e d None = (Returns WAIT_FAILED, None)" "WaitForSemaphore e d (Some 0) = (wait_over e d, Some 0)"
  "WaitForSemaphore e d (Some (Suc n)) = (Returns WAIT_OBJECT_0, Some n)"
  by (simp_all add: WaitForSemaphore_def)

lemma same_fields [simp]: "mSemaphore s = h \<Longrightarrow> s\<lparr>mSemaphore := h\<rparr> = s" "mWakeEvent s = v \<Longrightarrow> s\<lparr>mWakeEvent := v\<rparr> = s"
  by simp_all

lemma wake_wait_eff: "wake_wait e t p s = Some s' \<Longrightarrow>
    mWakeEvent s = None \<and> s' = terminate s \<or> mWakeEvent s \<noteq> None \<and> s' = at_pc t p (s\<lparr>mWakeEvent := Some False\<rparr>)"
  by (auto simp: wake_wait_def WaitForEvent_def wait_over_def split: option.splits if_splits)

lemma step_eff:
  assumes "guarded s" "locked_by s" "t \<noteq> 0" "cv_step e t s = Some s'"
  shows "cv_eff t s s'"
proof (cases "pc s t")
  case (Wait_Unlock w)
  then have "holder (user_lock s) = Some t" "mutex_clean (user_lock s)" using assms(2) by (auto simp: locked_by_def)
  then obtain m where "mutex_unlock t (user_lock s) = (Returns (), m)" "mutex_clean m" "holder m = None" using user_unlock by blast
  then show ?thesis using assms(4) Wait_Unlock by (auto simp: cv_step_def Let_def split: if_splits intro: cv_eff.unlock)
next
  case (Wait_Lock w r)
  then have h: "holder (user_lock s) \<noteq> Some t" "mutex_clean (user_lock s)" using assms(2) by (auto simp: locked_by_def)
  show ?thesis
  proof (cases "holder (user_lock s)")
    case None
    then obtain m where "mutex_lock t (user_lock s) = (Returns (), m)" "mutex_clean m" "holder m = Some t" using user_lock_free h assms(3) by blast
    then show ?thesis using assms(4) Wait_Lock None by (auto simp: cv_step_def Let_def split: if_splits intro: cv_eff.lock)
  next
    case (Some u)
    then have "fst (mutex_lock t (user_lock s)) = Waits" using user_lock_busy[of "user_lock s" u t] h assms(3) by auto
    then show ?thesis using assms(4) Wait_Lock by (auto simp: cv_step_def Let_def split: prod.splits call.splits if_splits)
  qed
next
  case (Wait_Sem w)
  show ?thesis
  proof (rule semaphore_cases[of "mSemaphore s"])
    assume "mSemaphore s = Some 0"
    then show ?thesis using assms(4) Wait_Sem cv_eff.over[of s t w]
      by (auto simp: cv_step_def Let_def wait_over_def split: if_splits)
  qed (use assms(4) Wait_Sem cv_eff.take[of s t w] cv_eff.fail[of s t w] in \<open>auto simp: cv_step_def Let_def split: if_splits\<close>)
next
  case All_Drain
  show ?thesis
    by (rule semaphore_cases[of "mSemaphore s"])
      (use assms(4) All_Drain cv_eff.drain[of s t] cv_eff.drained[of s t] in \<open>auto simp: cv_step_def Let_def in_notify_all_def split: if_splits\<close>)
qed (use assms in \<open>auto simp: cv_step_def Let_def in_notify_all_def leave_guard_eff dest!: enter_guard_eff wake_wait_eff
    split: if_splits intro: cv_eff.intros\<close>)


lemma guarded_kept: "guarded s \<Longrightarrow> inside p = inside (pc s t) \<Longrightarrow> mMutex s' = mMutex s \<Longrightarrow> pc s' = pc s \<Longrightarrow> guarded (at_pc t p s')"
  by (auto simp: guarded_def)

lemma eff_guarded: "cv_eff t s s' \<Longrightarrow> guarded s \<Longrightarrow> guarded s'"
proof (induction rule: cv_eff.induct)
  case (enter p)
  then have "inside p" "\<forall>u. \<not> inside (pc s u)" by (auto simp: guarded_def elim: enters.elims)
  then show ?case by (auto simp: guarded_def)
next
  case (leave p)
  then have "\<not> inside p" "inside (pc s t)" by (auto elim: leaves.elims)
  with leave(2) show ?case by (auto simp: guarded_def)
next
  case (look p)
  then have "inside p \<longleftrightarrow> inside (pc s t)" by (auto elim!: looks.elims split: if_splits)
  with look(2) show ?case by (auto simp: guarded_def)
next
  case (lock w r m)
  show ?case by (rule guarded_kept[OF lock(5)]) (use lock after_wait_outside(1) in auto)
next
  case abort
  then show ?case by (simp add: guarded_def)
qed (auto intro!: guarded_kept[of s])

lemma eff_count: "cv_eff t s s' \<Longrightarrow> mNumWaiters s = int (tally waiting s) \<Longrightarrow> mNumWaiters s' = int (tally waiting s')"
proof (induction rule: cv_eff.induct)
  case (enter p)
  then have "\<not> waiting p" "\<not> waiting (pc s t)" by (auto elim: enters.elims)
  with enter(3) show ?case by (simp add: tally_at_pc)
next
  case (leave p)
  then have "waiting p \<longleftrightarrow> waiting (pc s t)" by (auto elim: leaves.elims)
  with leave(2) show ?case by (simp add: tally_at_pc)
next
  case (look p)
  then have "waiting p \<longleftrightarrow> waiting (pc s t)" by (auto elim!: looks.elims split: if_splits)
  with look(2) show ?case by (simp add: tally_at_pc)
next
  case (lock w r m)
  then show ?case using after_wait_outside(2) by (simp add: tally_at_pc)
qed (simp_all add: tally_at_pc)

lemma eff_locked_by: "cv_eff t s s' \<Longrightarrow> locked_by s \<Longrightarrow> locked_by s'"
proof (induction rule: cv_eff.induct)
  case (enter p)
  then have "holds_lock p \<longleftrightarrow> holds_lock (pc s t)" "gave_lock p \<longleftrightarrow> gave_lock (pc s t)" by (auto elim: enters.elims)
  with enter(3) show ?case by (auto simp: locked_by_def)
next
  case (leave p)
  then have "holds_lock p \<longleftrightarrow> holds_lock (pc s t)" "gave_lock p \<longleftrightarrow> gave_lock (pc s t)" by (auto elim: leaves.elims)
  with leave(2) show ?case by (auto simp: locked_by_def)
next
  case (look p)
  then have "holds_lock p \<Longrightarrow> holds_lock (pc s t)" "\<not> gave_lock p" by (auto elim!: looks.elims split: if_splits)
  with look(2) show ?case by (auto simp: locked_by_def)
next
  case (unlock w m)
  then have "holder (user_lock s) = Some t" by (simp add: locked_by_def)
  then have "\<not> holds_lock (pc s u)" if "u \<noteq> t" for u using unlock(4) that by (auto simp: locked_by_def)
  with unlock show ?case by (auto simp: locked_by_def)
next
  case (lock w r m)
  then show ?case using after_wait_outside(3) by (auto simp: locked_by_def)
qed (auto simp: locked_by_def)

lemma all_woken_inside: "all_woken p \<Longrightarrow> inside p"
  by (cases p) simp_all

lemma alone: "guarded s \<Longrightarrow> inside (pc s t) \<Longrightarrow> inside (pc s u) \<Longrightarrow> u = t"
  by (auto simp: guarded_def)

text \<open>A thread inside the mutex is the only one to which \<open>woken\<close> can apply.\<close>

lemma woken_inside:
  assumes "guarded s" "inside (pc s t)" "all_woken p \<Longrightarrow> mNumWaiters s' = 0" "p \<noteq> All_Leave" "pc s' = pc s"
  shows "woken (at_pc t p s')"
proof -
  have "\<not> all_woken (pc s u) \<and> pc s u \<noteq> All_Leave" if "u \<noteq> t" for u
    using alone[OF assms(1,2), of u] all_woken_inside[of "pc s u"] that by auto
  with assms(3-) show ?thesis by (simp add: woken_def)
qed

lemma woken_outside:
  assumes "woken s" "\<not> all_woken p" "pc s' = pc s" "mNumWaiters s' = mNumWaiters s" "mSemaphore s' = mSemaphore s"
  shows "woken (at_pc t p s')"
  using assms by (auto simp: woken_def split: if_splits)

lemma nobody_waits: "cv_inv s \<Longrightarrow> all_woken (pc s t) \<Longrightarrow> mNumWaiters s = 0"
  unfolding cv_inv_def woken_def by blast

lemma eff_woken:
  assumes "cv_eff t s s'" "cv_inv s" shows "woken s'"
  using assms
proof (induction rule: cv_eff.induct)
  case (enter p)
  then have "\<not> all_woken p" by (auto elim: enters.elims)
  with enter show ?case by (auto simp: cv_inv_def intro: woken_outside[of s])
next
  case (leave p)
  then have "\<not> all_woken p" by (auto elim: leaves.elims)
  with leave show ?case by (auto simp: cv_inv_def intro: woken_outside[of s])
next
  case (look p)
  then have "all_woken p \<Longrightarrow> mNumWaiters s = 0" "p \<noteq> All_Leave" by (auto elim!: looks.elims split: if_splits simp: cv_inv_def woken_def)
  with look show ?case by (auto simp: cv_inv_def woken_def)
next
  case (take w n)
  then show ?case by (auto simp: cv_inv_def woken_def)
next
  case (dec w r)
  then have "0 < tally waiting s" by (auto simp: tally_pos intro!: exI[of _ t])
  then have "\<not> all_woken (pc s u)" for u using dec by (auto simp: cv_inv_def woken_def)
  moreover from this have "pc s u \<noteq> All_Leave" for u by (metis all_woken.simps(4))
  ultimately show ?case by (simp add: woken_def)
next
  case (lock w r m)
  show ?case
    by (rule woken_outside[of s]) (use lock after_wait_outside(4) in \<open>auto simp: cv_inv_def\<close>)
next
  case (drain n)
  then have n: "mNumWaiters s = 0" using nobody_waits[of s t] by simp
  show ?case by (rule woken_inside[of s]) (use n drain in \<open>auto simp: cv_inv_def\<close>)
next
  case drained
  then have "mNumWaiters s = 0" using nobody_waits[of s t] by simp
  with drained show ?case by (auto simp: woken_def)
next
  case abort
  then have "woken s" by (simp add: cv_inv_def)
  then show ?case by (simp add: woken_def)
qed (auto simp: cv_inv_def intro: woken_inside[of s] woken_outside[of s])

lemma eff_cv_inv: "cv_eff t s s' \<Longrightarrow> t \<noteq> 0 \<Longrightarrow> cv_inv s \<Longrightarrow> cv_inv s'"
  using eff_guarded[of t s s'] eff_locked_by[of t s s'] eff_count[of t s s'] eff_woken[of t s s']
  by (auto simp: cv_inv_def elim!: cv_eff.cases)

lemma step_cv_inv:
  assumes "cv_inv s" "cv_step e t s = Some s'" shows "cv_inv s' \<and> cv_eff t s s'"
proof -
  have "t \<noteq> 0" using assms by (auto simp: cv_inv_def cv_step_def Let_def in_notify_all_def split: if_splits)
  with assms step_eff[of s t e s'] eff_cv_inv[of t s s'] show ?thesis by (auto simp: cv_inv_def)
qed


lemma move_cv_inv:
  assumes "cv_inv s" "pc s t = App r" "t \<noteq> 0" "\<not> inside p" "\<not> waiting p" "\<not> gave_lock p" "\<not> all_woken p" "holds_lock p \<Longrightarrow> holder (user_lock s) = Some t"
  shows "cv_inv (at_pc t p s)"
  using assms guarded_kept[of s p t s] woken_outside[of s p s t] by (auto simp: cv_inv_def tally_at_pc locked_by_def)

lemma user_cv_inv:
  assumes "cv_inv s" "pc s t = App r" "mutex_clean m"
    "holder m = Some t \<and> holder (user_lock s) = None \<or> holder m = None \<and> holder (user_lock s) = Some t"
  shows "cv_inv (s\<lparr>user_lock := m\<rparr>)"
proof -
  have "\<not> holds_lock (pc s u)" for u using assms by (cases "u = t") (auto simp: cv_inv_def locked_by_def)
  moreover have "gave_lock (pc s u) \<Longrightarrow> u \<noteq> t" for u using assms(2) by auto
  ultimately show ?thesis using assms by (auto simp: cv_inv_def guarded_def woken_def locked_by_def)
qed

lemma app_cv_inv:
  assumes "cv_inv s" "app_step c t s = Some s'" "t \<noteq> 0" shows "cv_inv s'"
proof -
  obtain r where r: "pc s t = App r" using assms(2) by (cases "pc s t") (auto simp: app_step_def)
  have cl: "mutex_clean (user_lock s)" using assms(1) by (simp add: cv_inv_def locked_by_def)
  show ?thesis
  proof (cases c)
    case Lock_User
    show ?thesis
    proof (cases "holder (user_lock s)")
      case None
      with cl assms(3) obtain m where "mutex_lock t (user_lock s) = (Returns (), m)" "mutex_clean m" "holder m = Some t" using user_lock_free by blast
      then show ?thesis using Lock_User assms None user_cv_inv[OF assms(1) r, of m] by (auto simp: app_step_def split: if_splits)
    next
      case (Some u)
      then have "fst (mutex_lock t (user_lock s)) = Waits \<or> fst (mutex_lock t (user_lock s)) = System_Error EDEADLK"
        using cl assms(3) rm.lock_refines[of "user_lock s" t] by (cases "mutex_lock t (user_lock s)") (auto simp: clean_mutex mutex_lock_def)
      then show ?thesis using Lock_User assms(2) by (auto simp: app_step_def split: if_splits prod.splits call.splits)
    qed
  next
    case Unlock_User
    show ?thesis
    proof (cases "holder (user_lock s) = Some t")
      case True
      with cl obtain m where "mutex_unlock t (user_lock s) = (Returns (), m)" "mutex_clean m" "holder m = None" using user_unlock by blast
      then show ?thesis using Unlock_User assms True user_cv_inv[OF assms(1) r, of m] by (auto simp: app_step_def split: if_splits)
    next
      case False
      then have "fst (mutex_unlock t (user_lock s)) = System_Error EDEADLK"
        using cl assms(3) rm.unlock_refines[of "user_lock s" t] by (cases "mutex_unlock t (user_lock s)") (auto simp: clean_mutex mutex_unlock_def unlock_spec_def)
      then show ?thesis using Unlock_User assms(2) by (auto simp: app_step_def split: if_splits prod.splits call.splits)
    qed
  next
    case (Set_Cond b)
    then show ?thesis using assms by (auto simp: app_step_def cv_inv_def guarded_def woken_def locked_by_def split: if_splits)
  qed (use assms(2) in \<open>auto simp: app_step_def entry_def split: if_splits intro!: move_cv_inv[OF assms(1) r assms(3)]\<close>)
qed

lemma start_cv_inv: "cv_inv (new_condition_variable a b c)"
  by (auto simp: cv_inv_def guarded_def woken_def locked_by_def new_condition_variable_def tally_def recursive_mutex_def
      InitializeCriticalSection_def new_mutex_def new_NonRecursive_def mutex_clean_def)

lemma reach_cv_inv:
  assumes "cv_reach T timed (new_condition_variable a b c) s" "0 \<notin> T" shows "cv_inv s"
  using assms
proof (induction rule: cv_reach.induct)
  case (move s t c s')
  then have "t \<noteq> 0" by blast
  with move show ?case by (blast intro: app_cv_inv)
qed (auto intro: start_cv_inv dest: step_cv_inv)


subsection \<open>The invariant when no wait is timed\<close>

text \<open>
  The notification in progress lets threads through until \<open>target\<close> of them are left. What it has released and what
  was taken but not yet subtracted from the counter is \<open>outstanding\<close>.
\<close>

fun target :: "pc \<Rightarrow> int option" where
  "target All_Loop = Some 0" | "target All_Wait = Some 0" | "target All_Assert = Some 0" | "target All_Drain = Some 0" | "target All_Leave = Some 0"
| "target (One_Loop k) = Some k" | "target (One_Wait k) = Some k" | "target (One_Assert k) = Some k"
| "target _ = None"

fun taken :: "pc \<Rightarrow> bool" where
  "taken (Wait_Dec w r) = True"
| "taken _ = False"

fun untimed_pc :: "pc \<Rightarrow> bool" where
  "untimed_pc (Wait_Guard w) = (wait_time w = INFINITE)" | "untimed_pc (Wait_Incr w) = (wait_time w = INFINITE)"
| "untimed_pc (Wait_Leave w) = (wait_time w = INFINITE)" | "untimed_pc (Wait_Unlock w) = (wait_time w = INFINITE)"
| "untimed_pc (Wait_Sem w) = (wait_time w = INFINITE)"
| "untimed_pc _ = True"

definition outstanding :: "condvar \<Rightarrow> int" where
  "outstanding s = int (the (mSemaphore s)) + int (tally taken s)"

fun pending :: "int \<Rightarrow> pc \<Rightarrow> bool" where
  "pending n (One_Release k) = (k = n - 1 \<and> 0 < n)" | "pending n (One_Assert k) = (n = k)" | "pending n One_Load = (0 < n)"
| "pending n All_Release = (0 < n)" | "pending n (One_Loop k) = (0 \<le> k)" | "pending n (One_Wait k) = (0 \<le> k)"
| "pending n _ = True"

definition in_step :: "int \<Rightarrow> int \<Rightarrow> pc \<Rightarrow> bool" where
  "in_step n x p \<longleftrightarrow> x = (case target p of Some k \<Rightarrow> n - k | None \<Rightarrow> 0) \<and> pending n p"

definition balanced :: "thread_id set \<Rightarrow> condvar \<Rightarrow> bool" where
  "balanced T s \<longleftrightarrow> mSemaphore s \<noteq> None \<and> mWakeEvent s \<noteq> None \<and> \<not> terminated s \<and>
     (\<forall>t. untimed_pc (pc s t)) \<and> (\<forall>t. t \<notin> T \<longrightarrow> pc s t = App Ret_Void) \<and>
     (\<forall>t. inside (pc s t) \<longrightarrow> in_step (mNumWaiters s) (outstanding s) (pc s t)) \<and>
     ((\<forall>t. \<not> inside (pc s t)) \<longrightarrow> outstanding s = 0)"

lemma outstanding_nonneg: "0 \<le> outstanding s"
  by (simp add: outstanding_def)

lemma outstanding_at_pc:
  "outstanding (at_pc t p s) = outstanding s - of_bool (taken (pc s t)) + of_bool (taken p)"
  by (simp add: outstanding_def tally_at_pc)

lemma outstanding_cong [simp]:
  "outstanding (s\<lparr>mMutex := a\<rparr>) = outstanding s" "outstanding (s\<lparr>mNumWaiters := b\<rparr>) = outstanding s"
  "outstanding (s\<lparr>mWakeEvent := d\<rparr>) = outstanding s" "outstanding (s\<lparr>user_lock := e\<rparr>) = outstanding s" "outstanding (s\<lparr>cond := f\<rparr>) = outstanding s"
  "outstanding (s\<lparr>mSemaphore := Some n\<rparr>) = outstanding s - int (the (mSemaphore s)) + int n"
  by (simp_all add: outstanding_def)

lemma inside_not_taken: "inside p \<Longrightarrow> \<not> taken p"
  by (cases p) simp_all

text \<open>Four ways of moving: in and out of the mutex, inside it and outside it.\<close>

lemma balanced_enter:
  assumes "balanced T s" "\<forall>u. \<not> inside (pc s u)" "t \<in> T" "target p = None" "pending (mNumWaiters s) p" "inside p" "untimed_pc p" "\<not> taken (pc s t)"
    "s' = s\<lparr>mMutex := a\<rparr>"
  shows "balanced T (at_pc t p s')"
  using assms inside_not_taken[of p] by (auto simp: balanced_def in_step_def outstanding_at_pc)

lemma balanced_inside:
  assumes "balanced T s" "cv_inv s" "inside (pc s t)" "pc s' = pc s" "inside p" "untimed_pc p" "t \<in> T"
    "mSemaphore s' \<noteq> None" "mWakeEvent s' \<noteq> None" "\<not> terminated s'" "in_step (mNumWaiters s') (outstanding s') p"
  shows "balanced T (at_pc t p s')"
proof -
  have "\<not> inside (pc s u)" if "u \<noteq> t" for u using alone[of s t u] assms(2,3) that by (auto simp: cv_inv_def)
  then show ?thesis using assms inside_not_taken[of p] inside_not_taken[of "pc s t"] by (simp add: balanced_def outstanding_at_pc)
qed

lemma balanced_leave:
  assumes "balanced T s" "cv_inv s" "inside (pc s t)" "\<not> inside p" "untimed_pc p" "t \<in> T" "outstanding s = 0" "\<not> taken p" "s' = s\<lparr>mMutex := a\<rparr>"
  shows "balanced T (at_pc t p s')"
proof -
  have "\<not> inside (pc s u)" if "u \<noteq> t" for u using alone[of s t u] assms(2,3) that by (auto simp: cv_inv_def)
  then show ?thesis using assms inside_not_taken[of "pc s t"] by (simp add: balanced_def outstanding_at_pc)
qed

lemma balanced_outside:
  assumes "balanced T s" "\<not> inside (pc s t)" "pc s' = pc s" "\<not> inside p" "untimed_pc p" "t \<in> T"
    "mSemaphore s' \<noteq> None" "mWakeEvent s' \<noteq> None" "\<not> terminated s'" "mNumWaiters s' = mNumWaiters s"
    "outstanding s' - of_bool (taken (pc s t)) + of_bool (taken p) = outstanding s"
  shows "balanced T (at_pc t p s')"
  using assms by (auto simp: balanced_def outstanding_at_pc)


lemma after_wait_untimed: "\<not> taken (after_wait w r)" "untimed_pc (after_wait w r)"
  by (cases w; cases r; simp)+

lemma balancedD:
  assumes "balanced T s"
  shows "inside (pc s t) \<Longrightarrow> in_step (mNumWaiters s) (outstanding s) (pc s t)" "untimed_pc (pc s t)"
    "(\<forall>u. \<not> inside (pc s u)) \<Longrightarrow> outstanding s = 0" "\<exists>n. mSemaphore s = Some n" "\<exists>v. mWakeEvent s = Some v" "\<not> terminated s"
  using assms by (auto simp: balanced_def)

lemma numWaiters_nonneg: "cv_inv s \<Longrightarrow> 0 \<le> mNumWaiters s"
  by (simp add: cv_inv_def)

text \<open>Never more waiters than threads.\<close>

lemma numWaiters_bound:
  assumes "cv_inv s" "balanced T s" shows "mNumWaiters s \<le> int (card T)"
proof -
  have "t \<in> T" if "waiting (pc s t)" for t using that assms(2) by (cases "t \<in> T") (auto simp: balanced_def)
  then have "{t. waiting (pc s t)} \<subseteq> T" by blast
  then have "tally waiting s \<le> card T" by (simp add: tally_def card_mono)
  then show ?thesis using assms(1) by (simp add: cv_inv_def)
qed

text \<open>Subtracting from the counter what was taken.\<close>

lemma balanced_dec:
  assumes "balanced T s" "pc s t = Wait_Dec w r" "t \<in> T"
  shows "balanced T (at_pc t (Wait_Set w r) (s\<lparr>mNumWaiters := mNumWaiters s - 1\<rparr>))"
proof -
  have "0 < tally taken s" unfolding tally_pos using assms(2) by (intro exI[of _ t]) simp
  then have x: "0 < outstanding s" by (simp add: outstanding_def)
  have "in_step (mNumWaiters s - 1) (outstanding s - 1) (pc s u)" if "inside (pc s u)" for u
  proof -
    have "in_step (mNumWaiters s) (outstanding s) (pc s u)" using assms(1) that by (simp add: balanced_def)
    with x show ?thesis by (cases "pc s u") (auto simp: in_step_def)
  qed
  moreover obtain u where "inside (pc s u)" using balancedD(3)[OF assms(1)] x by auto
  moreover from this have "u \<noteq> t" using assms(2) by auto
  ultimately show ?thesis using assms by (auto simp: balanced_def outstanding_at_pc)
qed

lemma eff_balanced:
  assumes "cv_eff t s s'" "cv_inv s" "balanced T s" "t \<in> T" "card T \<le> 0xFFFF"
  shows "balanced T s'"
  using assms(1)
proof cases
  case (enter p)
  then have "\<forall>u. \<not> inside (pc s u)" using assms(2) by (auto simp: cv_inv_def guarded_def)
  moreover have "target p = None \<and> pending (mNumWaiters s) p \<and> inside p \<and> \<not> taken (pc s t) \<and> untimed_pc p"
    using enter(2) balancedD(2)[OF assms(3), of t] by (auto elim: enters.elims)
  ultimately show ?thesis using enter(1) assms(3,4) by (auto intro: balanced_enter)
next
  case (leave p)
  then have "inside (pc s t)" by (auto elim: leaves.elims)
  moreover have "\<not> inside p \<and> \<not> taken p \<and> untimed_pc p" using leave(2) balancedD(2)[OF assms(3), of t] by (auto elim: leaves.elims)
  moreover have "outstanding s = 0" using balancedD(1)[OF assms(3) calculation(1)] leave(2) nobody_waits[OF assms(2), of t]
    by (auto elim!: leaves.elims simp: in_step_def)
  ultimately show ?thesis using leave(1) assms(2-4) by (auto intro: balanced_leave)
next
  case (look p)
  show ?thesis
  proof (cases "inside (pc s t)")
    case True
    have "in_step (mNumWaiters s) (outstanding s) p \<and> inside p \<and> untimed_pc p"
      using look(2) True balancedD(1)[OF assms(3) True] outstanding_nonneg[of s] numWaiters_nonneg[OF assms(2)]
      by (auto elim!: looks.elims simp: in_step_def split: if_splits)
    then show ?thesis using look(1) True assms(2-4) balancedD(4-6)[OF assms(3)] by (auto intro!: balanced_inside[of T s])
  next
    case False
    have "\<not> inside p \<and> \<not> taken p \<and> \<not> taken (pc s t) \<and> untimed_pc p" using look(2) False by (auto elim!: looks.elims split: if_splits)
    then show ?thesis using look(1) False assms(2-4) balancedD(4-6)[OF assms(3)] by (auto intro!: balanced_outside[of T s])
  qed
next
  case (incr w)
  then show ?thesis using assms(2-4) balancedD(1,2)[OF assms(3), of t] balancedD(4-6)[OF assms(3)]
    by (auto intro!: balanced_inside[of T s] simp: in_step_def)
next
  case (over w)
  then show ?thesis using balancedD(2)[OF assms(3), of t] by simp
next
  case (fail w)
  then show ?thesis using balancedD(4)[OF assms(3)] by simp
next
  case (dec w r)
  then show ?thesis using balanced_dec assms(3,4) by simp
next
  case release_all
  obtain n where n: "mSemaphore s = Some n" using balancedD(4)[OF assms(3)] by blast
  have "outstanding s = 0" "0 < mNumWaiters s" using balancedD(1)[OF assms(3), of t] release_all by (auto simp: in_step_def)
  moreover from this(1) n have "n = 0" by (simp add: outstanding_def)
  ultimately show ?thesis using release_all n assms(2-5) numWaiters_bound[OF assms(2,3)] balancedD(4-6)[OF assms(3)]
    by (auto intro!: balanced_inside[of T s] simp: in_step_def ReleaseSemaphore_def)
next
  case (release_one k)
  obtain n where n: "mSemaphore s = Some n" using balancedD(4)[OF assms(3)] by blast
  have "outstanding s = 0" "k = mNumWaiters s - 1" "0 < mNumWaiters s" using balancedD(1)[OF assms(3), of t] release_one by (auto simp: in_step_def)
  moreover from this(1) n have "n = 0" by (simp add: outstanding_def)
  ultimately show ?thesis using release_one n assms(2-4) balancedD(4-6)[OF assms(3)]
    by (auto intro!: balanced_inside[of T s] simp: in_step_def ReleaseSemaphore_def)
next
  case (drain n)
  then have "outstanding s = 0" using balancedD(1)[OF assms(3), of t] nobody_waits[OF assms(2), of t] by (simp add: in_step_def)
  with drain show ?thesis by (simp add: outstanding_def)
next
  case abort
  have "mNumWaiters s = 0" if "pc s t = All_Assert" using nobody_waits[OF assms(2), of t] that by simp
  with abort show ?thesis using balancedD(1)[OF assms(3), of t] balancedD(5)[OF assms(3)] by (auto simp: in_step_def)
next
  case (unlock w m)
  then show ?thesis using assms(2-4) balancedD(2)[OF assms(3), of t] balancedD(4-6)[OF assms(3)] by (auto intro!: balanced_outside[of T s])
next
  case (take w n)
  then show ?thesis using assms(2-4) balancedD(4-6)[OF assms(3)] by (auto intro!: balanced_outside[of T s])
next
  case (set w r)
  then show ?thesis using assms(2-4) balancedD(4-6)[OF assms(3)] by (auto intro!: balanced_outside[of T s] simp: SetEvent_def)
next
  case (lock w r m)
  then show ?thesis using assms(2-4) after_wait_outside(1) after_wait_untimed balancedD(4-6)[OF assms(3)] by (auto intro!: balanced_outside[of T s])
qed (use assms(2-4) balancedD(1)[OF assms(3), of t] balancedD(4-6)[OF assms(3)] in \<open>auto intro!: balanced_inside[of T s] simp: in_step_def\<close>)

lemma app_balanced:
  assumes "app_step c t s = Some s'" "cv_inv s" "balanced T s" "t \<in> T" "\<not> timed_call c" shows "balanced T s'"
proof -
  obtain r where r: "pc s t = App r" using assms(1) by (cases "pc s t") (auto simp: app_step_def)
  have move: "balanced T (at_pc t p s)" if "\<not> inside p" "\<not> taken p" "untimed_pc p" for p
    using that r assms(3,4) balancedD(4-6)[OF assms(3)] by (auto intro!: balanced_outside[of T s])
  show ?thesis using assms(1,3,5) move
    by (cases c) (auto simp: app_step_def entry_def balanced_def split: if_splits prod.splits call.splits)
qed

lemma start_balanced: "balanced T (new_condition_variable True True c)"
  by (simp add: balanced_def new_condition_variable_def outstanding_def tally_def)

lemma reach_balanced:
  assumes "cv_reach T False (new_condition_variable True True c) s" "0 \<notin> T" "card T \<le> 0xFFFF" shows "balanced T s"
  using assms(1)
proof (induction rule: cv_reach.induct)
  case (run s t e s')
  then show ?case using step_cv_inv[OF reach_cv_inv[OF run(1) assms(2)] run(3)] reach_cv_inv[OF run(1) assms(2)] assms(3) by (blast intro: eff_balanced)
next
  case (move s t c s')
  then show ?case using reach_cv_inv[OF move(1) assms(2)] by (blast intro: app_balanced)
qed (rule start_balanced)


subsection \<open>Notifications come to an end\<close>

text \<open>Steps of threads that do not stand before the mutex.\<close>

definition advance :: "thread_id set \<Rightarrow> condvar \<Rightarrow> condvar \<Rightarrow> bool" where
  "advance T s s' \<longleftrightarrow> (\<exists>u \<in> T. \<exists>e. enters (pc s u) = None \<and> cv_step e u s = Some s')"

fun rank :: "pc \<Rightarrow> nat" where
  "rank All_Test = 8" | "rank All_Return = 1" | "rank All_Release = 7" | "rank All_Wait = 6" | "rank All_Loop = 5" | "rank All_Assert = 4"
| "rank All_Drain = 3" | "rank All_Leave = 1" | "rank One_Test = 9" | "rank One_Load = 8" | "rank (One_Release k) = 7" | "rank (One_Wait k) = 6"
| "rank (One_Loop k) = 5" | "rank (One_Assert k) = 4" | "rank One_Leave = 1" | "rank (Wait_Incr w) = 2" | "rank (Wait_Leave w) = 1"
| "rank _ = 0"

fun unlocking :: "pc \<Rightarrow> bool" where
  "unlocking (Wait_Unlock w) = True" | "unlocking _ = False"

fun asleep :: "pc \<Rightarrow> bool" where
  "asleep (Wait_Sem w) = True" | "asleep _ = False"

definition work :: "condvar \<Rightarrow> nat" where
  "work s = 3 * tally unlocking s + 2 * tally asleep s + tally taken s"

definition in_notify :: "pc \<Rightarrow> bool" where
  "in_notify p \<longleftrightarrow> \<not> in_wait_impl p \<and> \<not> is_App p \<and> p \<noteq> Pred_Test \<and> p \<noteq> Pred_Once"

lemma step_other:
  assumes "cv_inv s" "cv_step e u s = Some s'" "v \<noteq> u" shows "pc s' v = pc s v"
  using step_cv_inv[OF assms(1,2)] assms(3) by (auto elim!: cv_eff.cases)

lemma work_at_pc:
  "int (work (at_pc t p s)) = int (work s) - 3 * of_bool (unlocking (pc s t)) + 3 * of_bool (unlocking p)
     - 2 * of_bool (asleep (pc s t)) + 2 * of_bool (asleep p) - of_bool (taken (pc s t)) + of_bool (taken p)"
  by (simp add: work_def tally_at_pc)

lemma work_cong [simp]:
  "work (s\<lparr>mNumWaiters := b\<rparr>) = work s" "work (s\<lparr>mSemaphore := c\<rparr>) = work s" "work (s\<lparr>user_lock := e\<rparr>) = work s"
  by (simp_all add: work_def)

text \<open>While a notification has not let its threads through, one of them can go on.\<close>

lemma waiter_advances:
  assumes "cv_inv s" "balanced T s" "inside (pc s t)" "target (pc s t) = Some k" "k < mNumWaiters s"
  shows "\<exists>s'. advance T s s' \<and> pc s' t = pc s t \<and> work s' < work s"
proof -
  have x: "outstanding s = mNumWaiters s - k" "0 \<le> k"
    using balancedD(1)[OF assms(2,3)] assms(4) numWaiters_nonneg[OF assms(1)] by (cases "pc s t"; simp add: in_step_def)+
  have T: "u \<in> T" if "waiting (pc s u)" for u using that assms(2) by (cases "u \<in> T") (auto simp: balanced_def)
  have nt: "\<not> terminated s" using balancedD(6)[OF assms(2)] .
  have go: ?thesis if "waiting (pc s u)" "enters (pc s u) = None" "cv_step e u s = Some s'" "work s' < work s" "u \<noteq> t" for u e s'
    using that T step_other[OF assms(1) that(3), of t] by (auto simp: advance_def)
  show ?thesis
  proof (cases "\<exists>u. taken (pc s u)")
    case True
    then obtain u w r where u: "pc s u = Wait_Dec w r" by (metis taken.elims(2))
    let ?s = "at_pc u (Wait_Set w r) (s\<lparr>mNumWaiters := mNumWaiters s - 1\<rparr>)"
    have "int (work ?s) < int (work s)" using u by (simp add: work_at_pc)
    moreover have "u \<noteq> t" using u assms(3) by auto
    ultimately show ?thesis using u nt by (intro go[of u True ?s]) (auto simp: cv_step_def)
  next
    case False
    then have "tally taken s = 0" using tally_pos[of taken s] by simp
    then obtain m where sem: "mSemaphore s = Some (Suc m)" using x assms(5) balancedD(4)[OF assms(2)]
      by (auto simp: outstanding_def) (metis gr0_conv_Suc diff_gt_0_iff_gt of_nat_0_less_iff)
    have "0 < tally waiting s" using assms(1,5) x(2) by (simp add: cv_inv_def)
    then obtain u where u: "waiting (pc s u)" using tally_pos by blast
    then have "u \<noteq> t" using assms(4) by (cases "pc s t") auto
    then have "\<not> inside (pc s u)" using alone[of s t u] assms(1,3) by (auto simp: cv_inv_def)
    moreover have "\<not> taken (pc s u)" using False by blast
    ultimately consider w where "pc s u = Wait_Unlock w" | w where "pc s u = Wait_Sem w" using u by (cases "pc s u") auto
    then show ?thesis
    proof cases
      case (1 w)
      have "mutex_clean (user_lock s)" "holder (user_lock s) = Some u" using assms(1) 1 by (auto simp: cv_inv_def locked_by_def)
      then obtain mu where mu: "mutex_unlock u (user_lock s) = (Returns (), mu)" using user_unlock by blast
      let ?s = "at_pc u (Wait_Sem w) (s\<lparr>user_lock := mu\<rparr>)"
      have "int (work ?s) < int (work s)" using 1 by (simp add: work_at_pc)
      then show ?thesis using 1 mu nt u \<open>u \<noteq> t\<close> by (intro go[of u True ?s]) (auto simp: cv_step_def)
    next
      case (2 w)
      let ?s = "at_pc u (Wait_Dec w WAIT_OBJECT_0) (s\<lparr>mSemaphore := Some m\<rparr>)"
      have "int (work ?s) < int (work s)" using 2 by (simp add: work_at_pc)
      then show ?thesis using 2 sem nt u \<open>u \<noteq> t\<close> by (intro go[of u True ?s]) (auto simp: cv_step_def)
    qed
  qed
qed

text \<open>Otherwise the thread inside the mutex goes on itself.\<close>

lemma owner_advances:
  assumes "cv_inv s" "balanced T s" "inside (pc s t)" "\<And>k. target (pc s t) = Some k \<Longrightarrow> mNumWaiters s \<le> k"
  shows "\<exists>s'. cv_step True t s = Some s' \<and> (\<not> inside (pc s' t) \<and> leaves (pc s t) = Some (pc s' t) \<or> inside (pc s' t) \<and> rank (pc s' t) < rank (pc s t))"
proof -
  have nt: "\<not> terminated s" using balancedD(6)[OF assms(2)] .
  have g: "leave_guard t p s = Some (at_pc t p (s\<lparr>mMutex := (mMutex s)\<lparr>RecursionCount := 0\<rparr>\<rparr>))" for p
    using leave_guard_eff assms(1,3) by (simp add: cv_inv_def)
  obtain v where v: "mWakeEvent s = Some v" using balancedD(5)[OF assms(2)] by blast
  obtain n where n: "mSemaphore s = Some n" using balancedD(4)[OF assms(2)] by blast
  have w: "wake_wait True t p s = Some (at_pc t p (s\<lparr>mWakeEvent := Some False\<rparr>))" for p
    using v by (cases v) (auto simp: wake_wait_def WaitForEvent_def wait_over_def INFINITE_def)
  have st: "in_step (mNumWaiters s) (outstanding s) (pc s t)" using balancedD(1)[OF assms(2,3)] .
  show ?thesis
  proof (cases "pc s t")
    case All_Drain
    then have "n = 0" using st n nobody_waits[OF assms(1), of t] by (simp add: in_step_def outstanding_def)
    then show ?thesis using All_Drain n nt by (simp add: cv_step_def in_notify_all_def)
  next
    case All_Assert
    then show ?thesis using nobody_waits[OF assms(1), of t] nt by (simp add: cv_step_def in_notify_all_def)
  qed (use assms(3,4) nt g w st in \<open>simp_all add: cv_step_def in_notify_all_def in_step_def\<close>)
qed

lemma advance_inv:
  assumes "advance T s s'" "cv_inv s" "balanced T s" "card T \<le> 0xFFFF"
  shows "cv_inv s' \<and> balanced T s' \<and> (\<forall>v. enters (pc s v) \<noteq> None \<longrightarrow> pc s' v = pc s v) \<and> (\<forall>v. inside (pc s' v) \<longrightarrow> inside (pc s v))"
proof -
  obtain u e where u: "u \<in> T" "enters (pc s u) = None" "cv_step e u s = Some s'" using assms(1) by (auto simp: advance_def)
  note eff = step_cv_inv[OF assms(2) u(3)]
  have "inside (pc s u)" if "inside (pc s' u)"
    using conjunct2[OF eff] that u(2) by cases (auto elim!: leaves.elims looks.elims simp: after_wait_outside split: if_splits)
  then have "\<forall>v. inside (pc s' v) \<longrightarrow> inside (pc s v)" using step_other[OF assms(2) u(3)] by metis
  moreover have "\<forall>v. enters (pc s v) \<noteq> None \<longrightarrow> pc s' v = pc s v" using step_other[OF assms(2) u(3)] u(2) by metis
  ultimately show ?thesis using eff eff_balanced assms u(1) by blast
qed

lemma advances_inv:
  assumes "(advance T)\<^sup>*\<^sup>* s s'" "cv_inv s" "balanced T s" "card T \<le> 0xFFFF"
  shows "cv_inv s' \<and> balanced T s' \<and> (\<forall>v. enters (pc s v) \<noteq> None \<longrightarrow> pc s' v = pc s v) \<and> (\<forall>v. inside (pc s' v) \<longrightarrow> inside (pc s v))"
  using assms(1)
proof (induction rule: rtranclp_induct)
  case (step y z)
  then show ?case using advance_inv[OF step(2) _ _ assms(4)] by metis
qed (use assms in simp)

lemma in_notify_step:
  assumes "cv_inv s" "cv_step e t s = Some s'" "inside (pc s t)" "in_notify (pc s t)"
  shows "pc s' t = App Ret_Void \<or> in_notify (pc s' t)"
  using conjunct2[OF step_cv_inv[OF assms(1,2)]] assms(3,4)
  by cases (auto elim!: enters.elims leaves.elims looks.elims simp: in_notify_def split: if_splits)

lemma owner_leaves:
  assumes "card T \<le> 0xFFFF" "cv_inv s" "balanced T s" "inside (pc s t)"
  shows "\<exists>s'. (advance T)\<^sup>*\<^sup>* s s' \<and> \<not> inside (pc s' t) \<and> (in_notify (pc s t) \<longrightarrow> pc s' t = App Ret_Void)"
  using assms(2-4)
proof (induction s rule: wf_induct_rule[OF wf_measures[of "[\<lambda>s. rank (pc s t), work]"]])
  case (1 s)
  have more: ?case if "advance T s s1" "(s1, s) \<in> measures [\<lambda>s. rank (pc s t), work]" "inside (pc s1 t)" "in_notify (pc s t) \<longrightarrow> in_notify (pc s1 t)" for s1
    using "1.IH"[OF that(2)] advance_inv[OF that(1) "1.prems"(1,2) assms(1)] that by (meson converse_rtranclp_into_rtranclp)
  have tT: "t \<in> T" using "1.prems"(2,3) by (cases "t \<in> T") (auto simp: balanced_def)
  show ?case
  proof (cases "\<exists>k. target (pc s t) = Some k \<and> k < mNumWaiters s")
    case True
    then obtain s1 where "advance T s s1" "pc s1 t = pc s t" "work s1 < work s" using waiter_advances "1.prems" by blast
    with "1.prems"(3) show ?thesis by (intro more[of s1]) simp_all
  next
    case False
    then obtain s1 where s1: "cv_step True t s = Some s1"
      "\<not> inside (pc s1 t) \<and> leaves (pc s t) = Some (pc s1 t) \<or> inside (pc s1 t) \<and> rank (pc s1 t) < rank (pc s t)"
      using owner_advances[OF "1.prems"] by (meson linorder_not_less)
    have "enters (pc s t) = None" using "1.prems"(3) by (cases "pc s t") simp_all
    with s1(1) tT have a: "advance T s s1" unfolding advance_def by blast
    show ?thesis
    proof (cases "inside (pc s1 t)")
      case True
      then show ?thesis using s1 a in_notify_step[OF "1.prems"(1) s1(1) "1.prems"(3)] by (intro more[of s1]) auto
    next
      case out: False
      then have "in_notify (pc s t) \<longrightarrow> pc s1 t = App Ret_Void" using s1(2) by (auto elim!: leaves.elims simp: in_notify_def)
      then show ?thesis using a out by blast
    qed
  qed
qed

text \<open>A thread before the mutex gets in.\<close>

lemma gets_in:
  assumes "card T \<le> 0xFFFF" "cv_inv s" "balanced T s" "t \<in> T" "enters (pc s t) = Some p"
  shows "\<exists>s1 s2. (advance T)\<^sup>*\<^sup>* s s1 \<and> cv_step True t s1 = Some s2 \<and> pc s2 t = p \<and> cv_inv s2 \<and> balanced T s2"
proof -
  have "\<exists>s1. (advance T)\<^sup>*\<^sup>* s s1 \<and> (\<forall>u. \<not> inside (pc s1 u))"
  proof (cases "\<exists>u. inside (pc s u)")
    case True
    then obtain u where u: "inside (pc s u)" by blast
    from owner_leaves[OF assms(1-3) u] obtain s1 where s1: "(advance T)\<^sup>*\<^sup>* s s1" "\<not> inside (pc s1 u)" by blast
    have "\<not> inside (pc s1 v)" for v
      using advances_inv[OF s1(1) assms(2,3,1)] s1(2) alone[of s u v] u assms(2) unfolding cv_inv_def by metis
    with s1(1) show ?thesis by blast
  qed blast
  then obtain s1 where s1: "(advance T)\<^sup>*\<^sup>* s s1" "\<forall>u. \<not> inside (pc s1 u)" by blast
  from advances_inv[OF s1(1) assms(2,3,1)] assms(5) have i: "cv_inv s1" "balanced T s1" "enters (pc s1 t) = Some p" by auto
  have "RecursionCount (mMutex s1) = 0" using i(1) s1(2) unfolding cv_inv_def guarded_def by (metis One_nat_def le_Suc_eq le_zero_eq)
  then have "\<exists>s2. cv_step True t s1 = Some s2 \<and> pc s2 t = p"
    using i(3) balancedD(6)[OF i(2)]
    by (auto elim!: enters.elims simp: cv_step_def in_notify_all_def enter_guard_def rm_lock_def EnterCriticalSection_def TryEnterCriticalSection_def)
  then obtain s2 where s2: "cv_step True t s1 = Some s2" "pc s2 t = p" by blast
  with step_cv_inv[OF i(1) s2(1)] eff_balanced i(1,2) assms(1,4) s1(1) show ?thesis by blast
qed

text \<open>A schedule made of steps of the functions only.\<close>

definition runs_of :: "thread_id set \<Rightarrow> event list \<Rightarrow> bool" where
  "runs_of T es \<longleftrightarrow> (\<forall>e \<in> set es. case e of Run t x \<Rightarrow> t \<in> T | Move t c \<Rightarrow> False)"

lemma cv_run_append: "cv_run (xs @ ys) s = (case cv_run xs s of None \<Rightarrow> None | Some s' \<Rightarrow> cv_run ys s')"
  by (induction xs arbitrary: s) (auto split: option.splits)

lemma advances_run: "(advance T)\<^sup>*\<^sup>* s s' \<Longrightarrow> \<exists>es. runs_of T es \<and> cv_run es s = Some s'"
proof (induction rule: rtranclp_induct)
  case base
  show ?case by (intro exI[of _ "[]"]) (simp add: runs_of_def)
next
  case (step y z)
  then obtain es u e where "runs_of T es" "cv_run es s = Some y" "u \<in> T" "cv_step e u y = Some z" by (auto simp: advance_def)
  then show ?case by (intro exI[of _ "es @ [Run u e]"]) (auto simp: runs_of_def cv_run_append)
qed

lemma notify_completes:
  assumes "card T \<le> 0xFFFF" "cv_inv s" "balanced T s" "t \<in> T" "in_notify (pc s t)"
  shows "\<exists>es s'. runs_of T es \<and> cv_run es s = Some s' \<and> pc s' t = App Ret_Void"
proof (cases "inside (pc s t)")
  case True
  then show ?thesis using owner_leaves[OF assms(1-3) True] assms(5) advances_run by metis
next
  case False
  then obtain p where p: "enters (pc s t) = Some p" "inside p" "in_notify p" using assms(5) by (cases "pc s t") (auto simp: in_notify_def)
  from gets_in[OF assms(1-4) p(1)] obtain s1 s2 where a: "(advance T)\<^sup>*\<^sup>* s s1" "cv_step True t s1 = Some s2" "pc s2 t = p" "cv_inv s2" "balanced T s2" by blast
  from owner_leaves[OF assms(1) a(4,5)] p a(3) obtain s3 where b: "(advance T)\<^sup>*\<^sup>* s2 s3" "pc s3 t = App Ret_Void" by metis
  from advances_run[OF a(1)] advances_run[OF b(1)] obtain es es' where "runs_of T es" "cv_run es s = Some s1" "runs_of T es'" "cv_run es' s2 = Some s3" by blast
  then show ?thesis using a(2) b(2) assms(4) by (intro exI[of _ "es @ Run t True # es'"] exI[of _ s3]) (auto simp: runs_of_def cv_run_append)
qed


section \<open>Properties\<close>

lemma untimed_return_empty:
  assumes "cv_reach T False (new_condition_variable True True c) s" "0 \<notin> T" "card T \<le> 65535" "pc s t = All_Return"
  shows "mSemaphore s = Some 0"
proof -
  have b: "balanced T s" using reach_balanced assms(1-3) by simp
  have "inside (pc s t)" using assms(4) by simp
  then have "outstanding s = 0" using balancedD(1)[OF b \<open>inside (pc s t)\<close>] assms(4) by (simp add: in_step_def)
  then show ?thesis using balancedD(4)[OF b] by (auto simp: outstanding_def)
qed

text \<open>
  C14: Whatever the threads do and whichever waits time out, \<open>notify_all\<close> leaves nobody waiting: at both of its exits no
  thread is between registering as a waiter and leaving the semaphore, and the counter is 0. Its assertion that nobody waits any more holds
  whenever it is reached. At the exit after the loop that empties the semaphore no permit is left over for a later waiter; the early
  exit, taken when the counter is 0, does not empty it, and leaves no permit there only when no wait was timed (and the two handles could be
  created and there are at most 65535 threads).
\<close>

theorem notify_all_wakes_everyone:
  assumes "cv_reach T timed (new_condition_variable a b c) s" "0 \<notin> T"
  shows "(pc s t = All_Assert \<longrightarrow> mNumWaiters s = 0) \<and>
    (pc s t = All_Return \<or> pc s t = All_Leave \<longrightarrow> (\<forall>u. \<not> waiting (pc s u)) \<and> mNumWaiters s = 0) \<and>
    (pc s t = All_Leave \<longrightarrow> mSemaphore s = None \<or> mSemaphore s = Some 0) \<and>
    (pc s t = All_Return \<and> \<not> timed \<and> a \<and> b \<and> card T \<le> 65535 \<longrightarrow> mSemaphore s = Some 0)"
proof -
  note i = reach_cv_inv[OF assms]
  have "\<forall>u. \<not> waiting (pc s u)" if "mNumWaiters s = 0" using i that tally_pos[of waiting s] by (simp add: cv_inv_def)
  moreover have "mSemaphore s = None \<or> mSemaphore s = Some 0" if "pc s t = All_Leave" using i that unfolding cv_inv_def woken_def by blast
  moreover have "mSemaphore s = Some 0" if "pc s t = All_Return" "\<not> timed" "a" "b" "card T \<le> 65535"
    using untimed_return_empty[of T c s t] assms that by simp
  ultimately show ?thesis using nobody_waits[OF i, of t] by auto
qed

text \<open>One thread waits in \<open>wait\<close>, another calls \<open>notify_all\<close>: the schedule of the example.\<close>

definition wait_once :: "thread_id \<Rightarrow> cv_call \<Rightarrow> event list" where
  "wait_once t c = [Move t Lock_User, Move t c, Run t False, Run t False, Run t False, Run t False]"

definition notify_all_run :: "event list" where
  "notify_all_run = wait_once 1 Call_wait @ [Move 2 Call_notify_all, Run 2 False, Run 2 False, Run 2 False, Run 1 False, Run 1 False,
     Run 2 False, Run 2 False, Run 2 False]"

lemma reach_run: "cv_reach T timed s0 s \<Longrightarrow> cv_run es s = Some s' \<Longrightarrow>
    (\<forall>e \<in> set es. case e of Run t x \<Rightarrow> t \<in> T | Move t c \<Rightarrow> t \<in> T \<and> (timed_call c \<longrightarrow> timed)) \<Longrightarrow> cv_reach T timed s0 s'"
proof (induction es arbitrary: s)
  case (Cons e es)
  then obtain s1 where "cv_event e s = Some s1" "cv_run es s1 = Some s'" by (auto split: option.splits)
  then show ?case using Cons by (cases e) (auto intro: cv_reach.run cv_reach.move)
qed simp

lemmas cv_eval = new_condition_variable_def wait_once_def app_step_def cv_step_def Let_def in_notify_all_def entry_def wait_for_time_def at_pc_def terminate_def
  enter_guard_def leave_guard_def wake_wait_def WaitForEvent_def ReleaseSemaphore_def SetEvent_def wait_over_def INFINITE_def holder_def mutex_eval

lemma notify_all_run_reaches:
  "\<exists>s. cv_run notify_all_run (new_condition_variable True True False) = Some s \<and> pc s 2 = All_Leave \<and> pc s 1 = Wait_Set Wait_Plain WAIT_OBJECT_0"
  by (simp add: notify_all_run_def cv_eval)

theorem notify_all_wakes_everyone_witness:
  "\<exists>s. cv_reach {1, 2} False (new_condition_variable True True False) s \<and> pc s 2 = All_Leave \<and> mNumWaiters s = 0 \<and> (\<forall>u. \<not> waiting (pc s u))"
proof -
  from notify_all_run_reaches obtain s where s: "cv_run notify_all_run (new_condition_variable True True False) = Some s" "pc s 2 = All_Leave" by blast
  have r: "cv_reach {1, 2} False (new_condition_variable True True False) s"
    by (rule reach_run[OF cv_reach.start s(1)]) (simp add: notify_all_run_def wait_once_def)
  from notify_all_wakes_everyone[OF r, of 2] s(2) r show ?thesis by auto
qed

text \<open>
  The permit that the early exit leaves. The only waiter times out after \<open>notify_one\<close> has counted it and before it releases the
  semaphore, so nobody takes the permit; a \<open>notify_all\<close> that finds no waiter returns at once, and the next wait takes the permit
  and returns without a notification.
\<close>

definition stale_permit_run :: "event list" where
  "stale_permit_run = wait_once 1 (Call_wait_for 10) @ [Move 3 Call_notify_one, Run 3 False, Run 3 False, Run 3 False, Run 1 True,
     Run 3 False, Run 1 False, Run 3 False, Run 3 False, Run 3 False, Move 2 Call_notify_all, Run 2 False, Run 2 False]"

lemma notify_all_returns_with_permit:
  "\<exists>s. cv_run stale_permit_run (new_condition_variable True True False) = Some s \<and> pc s 2 = All_Return \<and>
     mNumWaiters s = 0 \<and> mSemaphore s = Some 1"
  by (simp add: stale_permit_run_def cv_eval)

text \<open>
  C12: When every wait is without a time limit, as in the object pool, the condition variable neither loses nor invents a notification: the process never
  ends in one of its assertions, \<open>notify_one\<close> leaves exactly one waiter fewer than it found, and while no notification is in
  progress the semaphore is empty and no thread has passed it, so that no thread wakes up without a notification.
  (For at most 65535 threads, the capacity of the semaphore.)
\<close>

theorem untimed_notifications_exact:
  assumes "cv_reach T False (new_condition_variable True True c) s" "0 \<notin> T" "card T \<le> 65535"
  shows "\<not> terminated s \<and>
    (\<forall>t k. pc s t = One_Release k \<longrightarrow> mNumWaiters s = k + 1) \<and> (\<forall>t k. pc s t = One_Assert k \<longrightarrow> mNumWaiters s = k) \<and>
    ((\<forall>t. target (pc s t) = None) \<longrightarrow> mSemaphore s = Some 0 \<and> (\<forall>t. \<not> taken (pc s t)))"
proof -
  have b: "balanced T s" using reach_balanced assms by simp
  have "outstanding s = 0" if "\<forall>t. target (pc s t) = None"
  proof (cases "\<exists>t. inside (pc s t)")
    case True
    then obtain t where "inside (pc s t)" by blast
    from balancedD(1)[OF b this] that show ?thesis by (simp add: in_step_def)
  qed (use balancedD(3)[OF b] in blast)
  then have "mSemaphore s = Some 0 \<and> (\<forall>t. \<not> taken (pc s t))" if "\<forall>t. target (pc s t) = None"
    using that balancedD(4)[OF b] tally_pos[of taken s] by (auto simp: outstanding_def)
  moreover have "mNumWaiters s = k + 1" if "pc s t = One_Release k" for t k using balancedD(1)[OF b, of t] that by (simp add: in_step_def)
  moreover have "mNumWaiters s = k" if "pc s t = One_Assert k" for t k using balancedD(1)[OF b, of t] that by (simp add: in_step_def)
  ultimately show ?thesis using balancedD(6)[OF b] by blast
qed

definition notify_one_run :: "event list" where
  "notify_one_run = wait_once 1 Call_wait @ wait_once 2 Call_wait_pred @ [Run 2 False, Move 3 Call_notify_one, Run 3 False, Run 3 False, Run 3 False, Run 3 False,
     Run 1 False, Run 1 False, Run 3 False]"

lemma notify_one_run_reaches:
  "\<exists>s. cv_run notify_one_run (new_condition_variable True True False) = Some s \<and> pc s 3 = One_Assert 1"
  by (simp add: notify_one_run_def cv_eval)

theorem untimed_notifications_exact_witness:
  "\<exists>s. cv_reach {1, 2, 3} False (new_condition_variable True True False) s \<and> pc s 3 = One_Assert 1 \<and> mNumWaiters s = 1"
proof -
  from notify_one_run_reaches obtain s where s: "cv_run notify_one_run (new_condition_variable True True False) = Some s" "pc s 3 = One_Assert 1" by blast
  have r: "cv_reach {1, 2, 3} False (new_condition_variable True True False) s"
    by (rule reach_run[OF cv_reach.start s(1)]) (simp add: notify_one_run_def wait_once_def)
  from untimed_notifications_exact[OF r] s(2) r show ?thesis by auto
qed

text \<open>
  A wait with a time limit can make \<open>notify_one\<close> end the process. Two threads wait, one of them with a limit that runs out after the
  notifier has read the counter and before it releases the semaphore: the other thread takes the permit, both subtract themselves, and the
  assertion that exactly one has gone fails.
\<close>

definition timed_race :: "event list" where
  "timed_race = wait_once 1 (Call_wait_for 10) @ wait_once 2 Call_wait @ [Move 3 Call_notify_one, Run 3 False, Run 3 False, Run 3 False, Run 1 True,
     Run 3 False, Run 2 False, Run 1 False, Run 2 False, Run 3 False, Run 3 False]"

theorem timed_wait_breaks_notify_one:
  "\<exists>s. cv_run timed_race (new_condition_variable True True False) = Some s \<and> terminated s \<and> mNumWaiters s = 0 \<and> pc s 3 = One_Assert 1"
  by (simp add: timed_race_def cv_eval)

text \<open>
  C13: No notification gets stuck when no wait is timed. From every state the threads can reach by calls among which no wait has a time limit
  (and with at most 65535 threads, the capacity of the semaphore), a thread that has called \<open>notify_one\<close> or
  \<open>notify_all\<close> returns from it in some schedule that consists of steps of the condition variable's functions only: nothing the application does, and no lock of
  its own, is needed.
\<close>

theorem notifications_complete:
  assumes "cv_reach T False (new_condition_variable True True c) s" "0 \<notin> T" "card T \<le> 65535" "t \<in> T" "in_notify (pc s t)"
  shows "\<exists>es s'. runs_of T es \<and> cv_run es s = Some s' \<and> pc s' t = App Ret_Void"
  using notify_completes[OF _ reach_cv_inv[OF assms(1,2)] reach_balanced[OF assms(1,2)] assms(4,5)] assms(3) by simp

theorem notifications_complete_witness:
  "\<exists>s es s'. cv_reach {1, 2, 3} False (new_condition_variable True True False) s \<and> pc s 3 = One_Guard \<and>
     runs_of {1, 2, 3} es \<and> cv_run es s = Some s' \<and> pc s' 3 = App Ret_Void"
proof -
  have "\<exists>s. cv_run (wait_once 1 Call_wait @ [Move 3 Call_notify_one]) (new_condition_variable True True False) = Some s \<and> pc s 3 = One_Guard"
    by (simp add: cv_eval)
  then obtain s where s: "cv_run (wait_once 1 Call_wait @ [Move 3 Call_notify_one]) (new_condition_variable True True False) = Some s" "pc s 3 = One_Guard" by blast
  have r: "cv_reach {1, 2, 3} False (new_condition_variable True True False) s"
    by (rule reach_run[OF cv_reach.start s(1)]) (simp add: wait_once_def)
  from notifications_complete[OF r, of 3] s(2) r show ?thesis by (auto simp: in_notify_def)
qed

text \<open>The functions that wait give back the caller's lock, and the loop over the predicate ends only when it holds.\<close>

lemma wait_pred_returns:
  assumes "cv_reach T timed (new_condition_variable a b c) s" "0 \<notin> T" "pc s t = Pred_Test" "cv_step e t s = Some s'" "is_App (pc s' t)"
  shows "cond s' \<and> holder (user_lock s') = Some t"
  using reach_cv_inv[OF assms(1,2)] assms(3-5) by (auto simp: cv_step_def cv_inv_def locked_by_def at_pc_def split: if_splits)

end
