(* ===== verification/Win_Thread.thy ===== *)
theory Win_Thread
  imports Win_Mutex
begin

text \<open>
  The threads of \<open>src/src/native/mingw-thread-fix/mingw.thread.h\<close>: the class \<open>std::thread\<close> of the MinGW build and the namespace \<open>this_thread\<close>.

  The state of the system holds the handles that are open, the heap objects that carry the calls for new threads, and the
  threads that run, each with its identifier, its handle and its call. A thread object is a handle and an identifier, 0
  standing for none. \<open>_beginthreadex\<close> is told whether it succeeds, with the identifier of the new thread or an error number. Closing a
  handle that is not open and deleting an object that is not live are undefined.
\<close>

section \<open>Definitions\<close>

record running_thread =
  rt_id :: thread_id
  rt_handle :: nat
  rt_call :: nat

record thread_os =
  open_handles :: "nat list"
  next_handle :: nat
  live_calls :: "nat list"
  next_call :: nat
  running :: "running_thread list"

record win_thread =
  mHandle :: nat
  mThreadId :: thread_id

definition STD_THREAD_INVALID_HANDLE :: nat where
  "STD_THREAD_INVALID_HANDLE = 0"

definition new_thread :: win_thread where
  "new_thread = \<lparr>mHandle = STD_THREAD_INVALID_HANDLE, mThreadId = 0\<rparr>"

definition beginthreadex :: "int + thread_id \<Rightarrow> nat \<Rightarrow> thread_os \<Rightarrow> (int + win_thread) \<times> thread_os" where
  "beginthreadex result call s =
     (case result of
        Inl errnum \<Rightarrow> (Inl errnum, s)
      | Inr i \<Rightarrow>
          (let h = Suc (next_handle s) in
           (Inr \<lparr>mHandle = h, mThreadId = i\<rparr>,
            s\<lparr>open_handles := h # open_handles s, next_handle := h, running := \<lparr>rt_id = i, rt_handle = h, rt_call = call\<rparr> # running s\<rparr>)))"

definition CloseHandle :: "nat \<Rightarrow> thread_os \<Rightarrow> unit call \<times> thread_os" where
  "CloseHandle h s = (if h \<in> set (open_handles s) then (Returns (), s\<lparr>open_handles := remove1 h (open_handles s)\<rparr>) else (Undefined_Call, s))"

definition delete_call :: "nat \<Rightarrow> thread_os \<Rightarrow> unit call \<times> thread_os" where
  "delete_call c s = (if c \<in> set (live_calls s) then (Returns (), s\<lparr>live_calls := remove1 c (live_calls s)\<rparr>) else (Undefined_Call, s))"

text \<open>The constructor: the bound call is put on the heap and handed to the new thread.\<close>

definition thread_ctor :: "int + thread_id \<Rightarrow> thread_os \<Rightarrow> win_thread call \<times> thread_os" where
  "thread_ctor result s =
     (let call = next_call s; s = s\<lparr>live_calls := call # live_calls s, next_call := Suc call\<rparr> in
      case beginthreadex result call s of
        (Inr th, s) \<Rightarrow> (Returns th, s)
      | (Inl errnum, s) \<Rightarrow> call_then (delete_call call s) (\<lambda>_ s. (System_Error (Errno errnum), s)))"

text \<open>
  What the new thread runs: the pointer owns the call, which is deleted when the function returns. A function that throws ends the process: the
  exception leaves the thread (\<open>None\<close>).
\<close>

definition threadfunc :: "running_thread \<Rightarrow> unit call \<Rightarrow> thread_os \<Rightarrow> (unit call \<times> thread_os) option" where
  "threadfunc r result s =
     (case result of
        Returns _ \<Rightarrow> Some (call_then (delete_call (rt_call r) s) (\<lambda>_ s. (Returns (), s\<lparr>running := remove1 r (running s)\<rparr>)))
      | System_Error e \<Rightarrow> None
      | Waits \<Rightarrow> Some (Waits, s)
      | Undefined_Call \<Rightarrow> Some (Undefined_Call, s))"

definition joinable :: "win_thread \<Rightarrow> bool" where
  "joinable th \<longleftrightarrow> mHandle th \<noteq> STD_THREAD_INVALID_HANDLE"

definition ended :: "nat \<Rightarrow> thread_os \<Rightarrow> bool" where
  "ended h s \<longleftrightarrow> (\<forall>r \<in> set (running s). rt_handle r \<noteq> h)"

definition thread_join :: "thread_id \<Rightarrow> win_thread \<Rightarrow> thread_os \<Rightarrow> win_thread call \<times> thread_os" where
  "thread_join self th s =
     (if mThreadId th = self then (System_Error EDEADLK, s)
      else if mHandle th = STD_THREAD_INVALID_HANDLE then (System_Error ESRCH, s)
      else if \<not> joinable th then (System_Error EINVAL, s)
      else if \<not> ended (mHandle th) s then (Waits, s)
      else call_then (CloseHandle (mHandle th) s) (\<lambda>_ s. (Returns \<lparr>mHandle = STD_THREAD_INVALID_HANDLE, mThreadId = 0\<rparr>, s)))"

definition thread_detach :: "win_thread \<Rightarrow> thread_os \<Rightarrow> win_thread call \<times> thread_os" where
  "thread_detach th s =
     (if \<not> joinable th then (System_Error EINVAL, s)
      else if mHandle th \<noteq> STD_THREAD_INVALID_HANDLE
      then call_then (CloseHandle (mHandle th) s) (\<lambda>_ s. (Returns \<lparr>mHandle = STD_THREAD_INVALID_HANDLE, mThreadId = 0\<rparr>, s))
      else (Returns (th\<lparr>mThreadId := 0\<rparr>), s))"

text \<open>The destructor and the moves; \<open>None\<close> is \<open>std::terminate\<close>. Moves give the object that is made and the one that is left.\<close>

definition thread_dtor :: "win_thread \<Rightarrow> unit option" where
  "thread_dtor th = (if joinable th then None else Some ())"

definition thread_move_ctor :: "win_thread \<Rightarrow> win_thread \<times> win_thread" where
  "thread_move_ctor other = (\<lparr>mHandle = mHandle other, mThreadId = mThreadId other\<rparr>, \<lparr>mHandle = STD_THREAD_INVALID_HANDLE, mThreadId = 0\<rparr>)"

definition thread_swap :: "win_thread \<Rightarrow> win_thread \<Rightarrow> win_thread \<times> win_thread" where
  "thread_swap th other = (\<lparr>mHandle = mHandle other, mThreadId = mThreadId other\<rparr>, \<lparr>mHandle = mHandle th, mThreadId = mThreadId th\<rparr>)"

definition thread_move_assign :: "win_thread \<Rightarrow> win_thread \<Rightarrow> (win_thread \<times> win_thread) option" where
  "thread_move_assign th other = (if joinable th then None else Some (thread_swap th other))"

text \<open>The number of processors is asked for once and kept in a static variable, which starts as -1.\<close>

definition hardware_concurrency :: "int \<Rightarrow> int \<Rightarrow> u32 \<times> int" where
  "hardware_concurrency dwNumberOfProcessors ncpus =
     (let ncpus = (if ncpus = -1 then dwNumberOfProcessors else ncpus) in (of_int ncpus, ncpus))"

text \<open>\<open>Sleep\<close> takes milliseconds as a \<open>DWORD\<close>; \<open>INFINITE\<close> does not return (\<open>None\<close>).\<close>

definition Sleep :: "u32 \<Rightarrow> nat option" where
  "Sleep ms = (if ms = INFINITE then None else Some (unat ms))"

definition sleep_for :: "int \<Rightarrow> nat option" where
  "sleep_for sleep_duration = Sleep (of_int sleep_duration)"

definition sleep_until :: "int \<Rightarrow> int \<Rightarrow> nat option" where
  "sleep_until sleep_time now = sleep_for (sleep_time - now)"

text \<open>\<open>std::thread(f, ...).detach()\<close>, as the listeners start the thread of a connection: the temporary object is destroyed after it.\<close>

definition spawn_detached :: "int + thread_id \<Rightarrow> thread_os \<Rightarrow> unit option call \<times> thread_os" where
  "spawn_detached result s =
     call_then (thread_ctor result s) (\<lambda>th s.
     call_then (thread_detach th s) (\<lambda>th s.
     (Returns (thread_dtor th), s)))"

section \<open>Laws\<close>

text \<open>Open handles and live calls are distinct and older than the next ones; a running thread owns its call and no other does.\<close>

definition os_ok :: "thread_os \<Rightarrow> bool" where
  "os_ok s \<longleftrightarrow> distinct (open_handles s) \<and> (\<forall>h \<in> set (open_handles s). 0 < h \<and> h \<le> next_handle s) \<and>
     distinct (live_calls s) \<and> (\<forall>c \<in> set (live_calls s). c < next_call s) \<and>
     distinct (map rt_call (running s)) \<and> set (map rt_call (running s)) = set (live_calls s) \<and>
     distinct (map rt_handle (running s)) \<and> (\<forall>r \<in> set (running s). 0 < rt_handle r \<and> rt_handle r \<le> next_handle s)"

lemma fresh:
  assumes "os_ok s"
  shows "Suc (next_handle s) \<notin> set (open_handles s)" "next_call s \<notin> set (live_calls s)"
    "Suc (next_handle s) \<notin> rt_handle ` set (running s)" "next_call s \<notin> rt_call ` set (running s)"
proof -
  from assms have b: "\<forall>h \<in> set (open_handles s). h \<le> next_handle s" "\<forall>c \<in> set (live_calls s). c < next_call s"
    "\<forall>r \<in> set (running s). rt_handle r \<le> next_handle s" "rt_call ` set (running s) = set (live_calls s)" by (auto simp: os_ok_def)
  show "Suc (next_handle s) \<notin> set (open_handles s)" using b(1) Suc_n_not_le_n by blast
  show "next_call s \<notin> set (live_calls s)" using b(2) by blast
  then show "next_call s \<notin> rt_call ` set (running s)" by (simp add: b(4))
  show "Suc (next_handle s) \<notin> rt_handle ` set (running s)" using b(3) by (metis Suc_n_not_le_n imageE)
qed

lemma thread_ctor_fails:
  assumes "os_ok s" obtains s' where "thread_ctor (Inl e) s = (System_Error (Errno e), s')" "os_ok s'" "open_handles s' = open_handles s" "live_calls s' = live_calls s"
    "running s' = running s"
  using assms that by (simp add: thread_ctor_def Let_def beginthreadex_def delete_call_def os_ok_def less_Suc_eq)

lemma thread_ctor_starts:
  assumes "os_ok s"
  obtains s' where "thread_ctor (Inr i) s = (Returns \<lparr>mHandle = Suc (next_handle s), mThreadId = i\<rparr>, s')" "os_ok s'"
    "open_handles s' = Suc (next_handle s) # open_handles s" "live_calls s' = next_call s # live_calls s"
    "running s' = \<lparr>rt_id = i, rt_handle = Suc (next_handle s), rt_call = next_call s\<rparr> # running s"
proof -
  let ?s = "s\<lparr>live_calls := next_call s # live_calls s, next_call := Suc (next_call s), open_handles := Suc (next_handle s) # open_handles s,
    next_handle := Suc (next_handle s), running := \<lparr>rt_id = i, rt_handle = Suc (next_handle s), rt_call = next_call s\<rparr> # running s\<rparr>"
  have "os_ok ?s" using assms fresh[OF assms] by (auto simp: os_ok_def)
  then show ?thesis by (intro that[of ?s]) (simp_all add: thread_ctor_def Let_def beginthreadex_def)
qed

lemma close_ok:
  assumes "os_ok s" "h \<in> set (open_handles s)"
  shows "CloseHandle h s = (Returns (), s\<lparr>open_handles := remove1 h (open_handles s)\<rparr>)" "os_ok (s\<lparr>open_handles := remove1 h (open_handles s)\<rparr>)"
  using assms by (simp_all add: CloseHandle_def os_ok_def)


lemma detach_ok:
  assumes "os_ok s" "joinable th" "mHandle th \<in> set (open_handles s)"
  shows "thread_detach th s = (Returns \<lparr>mHandle = STD_THREAD_INVALID_HANDLE, mThreadId = 0\<rparr>, s\<lparr>open_handles := remove1 (mHandle th) (open_handles s)\<rparr>)"
  using assms close_ok by (simp add: thread_detach_def joinable_def)

text \<open>A running thread that returns frees its call and is gone.\<close>

lemma map_remove1_inj: "x \<in> set xs \<Longrightarrow> distinct (map f xs) \<Longrightarrow> map f (remove1 x xs) = remove1 (f x) (map f xs)"
  by (induction xs) (auto simp: image_iff)

lemma threadfunc_ok:
  assumes "os_ok s" "r \<in> set (running s)"
  shows "\<exists>s'. threadfunc r (Returns ()) s = Some (Returns (), s') \<and> os_ok s' \<and> open_handles s' = open_handles s \<and>
    live_calls s' = remove1 (rt_call r) (live_calls s) \<and> running s' = remove1 r (running s)"
proof -
  have d: "distinct (map rt_call (running s))" "distinct (map rt_handle (running s))" "distinct (live_calls s)"
    "set (map rt_call (running s)) = set (live_calls s)" using assms(1) by (simp_all add: os_ok_def)
  then have c: "rt_call r \<in> set (live_calls s)" using assms(2) by auto
  let ?s = "s\<lparr>live_calls := remove1 (rt_call r) (live_calls s), running := remove1 r (running s)\<rparr>"
  have "set (map rt_call (remove1 r (running s))) = set (live_calls s) - {rt_call r}"
    using d assms(2) by (simp only: map_remove1_inj set_remove1_eq)
  moreover have "set (remove1 r (running s)) \<subseteq> set (running s)" by (rule set_remove1_subset)
  ultimately have "os_ok ?s" using assms d
    by (auto simp: os_ok_def map_remove1_inj simp del: set_map)
  then show ?thesis using c by (simp add: threadfunc_def delete_call_def)
qed

section \<open>Properties\<close>

text \<open>
  C17: A thread that is started and detached, as the listeners do for each connection, leaves nothing behind. When it can be started, the temporary thread object is
  destroyed without ending the process, its handle is closed once, and when the thread returns the call object is freed once; when it cannot, the
  constructor throws the error number and has freed the call.
\<close>

theorem detached_thread_leaves_nothing:
  assumes "os_ok s"
  shows "case result of
      Inl e \<Rightarrow> \<exists>s'. spawn_detached (Inl e) s = (System_Error (Errno e), s') \<and> os_ok s' \<and>
        open_handles s' = open_handles s \<and> live_calls s' = live_calls s \<and> running s' = running s
    | Inr i \<Rightarrow> \<exists>s' r s''. spawn_detached (Inr i) s = (Returns (Some ()), s') \<and> open_handles s' = open_handles s \<and>
        running s' = r # running s \<and> rt_id r = i \<and> threadfunc r (Returns ()) s' = Some (Returns (), s'') \<and> os_ok s'' \<and>
        open_handles s'' = open_handles s \<and> live_calls s'' = live_calls s \<and> running s'' = running s"
proof (cases result)
  case (Inl e)
  from thread_ctor_fails[OF assms, of e] obtain s' where "thread_ctor (Inl e) s = (System_Error (Errno e), s')" "os_ok s'"
    "open_handles s' = open_handles s" "live_calls s' = live_calls s" "running s' = running s" .
  with Inl show ?thesis by (simp add: spawn_detached_def)
next
  case (Inr i)
  from thread_ctor_starts[OF assms, of i] obtain s1 where s1:
    "thread_ctor (Inr i) s = (Returns \<lparr>mHandle = Suc (next_handle s), mThreadId = i\<rparr>, s1)" "os_ok s1"
    "open_handles s1 = Suc (next_handle s) # open_handles s" "live_calls s1 = next_call s # live_calls s"
    "running s1 = \<lparr>rt_id = i, rt_handle = Suc (next_handle s), rt_call = next_call s\<rparr> # running s" .
  let ?s = "s1\<lparr>open_handles := open_handles s\<rparr>" and ?r = "\<lparr>rt_id = i, rt_handle = Suc (next_handle s), rt_call = next_call s\<rparr>"
  have sp: "spawn_detached (Inr i) s = (Returns (Some ()), ?s)"
    using s1 detach_ok[of s1 "\<lparr>mHandle = Suc (next_handle s), mThreadId = i\<rparr>"]
    by (simp add: spawn_detached_def joinable_def STD_THREAD_INVALID_HANDLE_def thread_dtor_def)
  have "os_ok ?s" using close_ok(2)[OF s1(2), of "Suc (next_handle s)"] s1(3) by simp
  from threadfunc_ok[OF this, of ?r] s1 sp Inr show ?thesis by auto
qed

theorem detached_thread_leaves_nothing_witness:
  "\<exists>s' r s''. spawn_detached (Inr 7) \<lparr>open_handles = [], next_handle = 0, live_calls = [], next_call = 0, running = []\<rparr> = (Returns (Some ()), s') \<and>
     threadfunc r (Returns ()) s' = Some (Returns (), s'') \<and> open_handles s'' = [] \<and> live_calls s'' = []"
  using detached_thread_leaves_nothing[of "\<lparr>open_handles = [], next_handle = 0, live_calls = [], next_call = 0, running = []\<rparr>" "Inr 7"]
  by (auto simp: os_ok_def)

text \<open>
  A joined thread object gives its handle back once: it is not joinable any more, a second \<open>join\<close> and a \<open>detach\<close> throw, and it can be destroyed.
\<close>

lemma join_once:
  assumes "os_ok s" "mHandle th \<in> set (open_handles s)" "self \<noteq> mThreadId th" "self \<noteq> 0" "ended (mHandle th) s"
  obtains th' s' where "thread_join self th s = (Returns th', s')" "os_ok s'" "open_handles s' = remove1 (mHandle th) (open_handles s)"
    "thread_join self th' s' = (System_Error ESRCH, s')" "thread_detach th' s' = (System_Error EINVAL, s')" "thread_dtor th' = Some ()"
proof -
  have "mHandle th \<noteq> 0" using assms(1,2) by (auto simp: os_ok_def)
  with assms close_ok[OF assms(1,2)] show ?thesis
    by (intro that[of "\<lparr>mHandle = STD_THREAD_INVALID_HANDLE, mThreadId = 0\<rparr>" "s\<lparr>open_handles := remove1 (mHandle th) (open_handles s)\<rparr>"])
      (auto simp: thread_join_def joinable_def STD_THREAD_INVALID_HANDLE_def thread_detach_def thread_dtor_def)
qed

text \<open>Moving a thread object moves its handle: exactly one of the two objects is joinable afterwards.\<close>

lemma move_keeps_handle:
  "thread_move_ctor th = (a, b) \<Longrightarrow> mHandle a = mHandle th \<and> thread_dtor b = Some ()"
  "\<not> joinable th \<Longrightarrow> thread_move_assign th other = Some (a, b) \<Longrightarrow> mHandle a = mHandle other \<and> thread_dtor b = Some ()"
  by (auto simp: thread_move_ctor_def thread_move_assign_def thread_swap_def thread_dtor_def joinable_def STD_THREAD_INVALID_HANDLE_def)

text \<open>The number of processors is read once.\<close>

lemma hardware_concurrency_cached: "n \<noteq> -1 \<Longrightarrow> hardware_concurrency m (snd (hardware_concurrency n (- 1))) = (of_int n, n)"
  by (simp add: hardware_concurrency_def)

text \<open>
  The wait of 15 seconds between attempts to connect is what it says. A time that has passed by one millisecond is slept for ever, one that has
  passed by more, for weeks.
\<close>

lemma sleeps:
  "sleep_for 15000 = Some 15000"
  "sleep_until (now - 1) now = None"
  "1 < late \<Longrightarrow> late \<le> 2 ^ 31 \<Longrightarrow> sleep_until (now - late) now = Some (nat (2 ^ 32 - late))"
  using late_dword[of late]
  by (simp_all add: sleep_for_def sleep_until_def Sleep_def INFINITE_def unat_eq_nat_uint del: of_int_minus)

end
