(* ===== verification/Rlib_Misc.thy ===== *)
theory Rlib_Misc
  imports Snake_Prelude
begin

text \<open>
  Small headers that no program of the repository uses but that belong to its library: the compile-time array of
  \<open>src/src/native/src/lib/rlib/meta.hpp\<close>, the atomic operations of \<open>src/src/native/src/lib/atom.h\<close> and the lock of
  \<open>src/src/native/src/lib/rlib/sys/rwlock.hpp\<close>.

  An index for which no template matches, so that the program does not compile, is \<open>None\<close>. An atomic
  operation is one step; the operations of several threads are a sequence of steps. The POSIX lock
  holds a number of readers or one writer; releasing it when nobody holds it is undefined.
\<close>

section \<open>Definitions\<close>

subsection \<open>\<open>meta_array\<close>\<close>

fun at_last_impl :: "nat \<Rightarrow> 'a list \<Rightarrow> 'a option" where
  "at_last_impl index [] = None"
| "at_last_impl index (first_ele # arr) = (if length arr = index then Some first_ele else at_last_impl index arr)"

definition at_last :: "nat \<Rightarrow> 'a list \<Rightarrow> 'a option" where
  "at_last index arr = at_last_impl index arr"

text \<open>The index from the end is computed in \<open>size_t\<close>.\<close>

definition meta_at :: "u64 \<Rightarrow> 'a list \<Rightarrow> 'a option" where
  "meta_at index arr = at_last (unat (of_nat (length arr) - index - 1)) arr"

subsection \<open>Atomic operations\<close>

text \<open>The value returned and the new value of the variable.\<close>

definition InterlockedAdd :: "'a::len word \<Rightarrow> int \<Rightarrow> 'a word \<times> 'a word" where
  "InterlockedAdd addend val = (addend, addend + of_int val)"

definition InterlockedIncrement :: "'a::len word \<Rightarrow> 'a word \<times> 'a word" where
  "InterlockedIncrement addend = InterlockedAdd addend 1"

definition InterlockedDecrement :: "'a::len word \<Rightarrow> 'a word \<times> 'a word" where
  "InterlockedDecrement addend = InterlockedAdd addend (- 1)"

text \<open>Operations of any threads, one after the other: what each returned, and the variable after them.\<close>

fun interlocked :: "('a::len word \<Rightarrow> 'a word \<times> 'a word) list \<Rightarrow> 'a word \<Rightarrow> 'a word list \<times> 'a word" where
  "interlocked [] v = ([], v)"
| "interlocked (f # fs) v = (case f v of (r, v) \<Rightarrow> case interlocked fs v of (rs, v) \<Rightarrow> (r # rs, v))"

subsection \<open>\<open>RWLock\<close>\<close>

record rw_lock =
  rw_readers :: "nat list"
  rw_writer :: "nat option"
  isFree :: bool

definition new_RWLock :: rw_lock where
  "new_RWLock = \<lparr>rw_readers = [], rw_writer = None, isFree = True\<rparr>"

datatype rw_result = Acquired | Must_Wait | Released | Not_Held

definition acquireShared :: "nat \<Rightarrow> rw_lock \<Rightarrow> rw_result \<times> rw_lock" where
  "acquireShared t l =
     (if rw_writer l \<noteq> None then (Must_Wait, l)
      else (Acquired, l\<lparr>rw_readers := t # rw_readers l, isFree := False\<rparr>))"

definition acquireExclusive :: "nat \<Rightarrow> rw_lock \<Rightarrow> rw_result \<times> rw_lock" where
  "acquireExclusive t l =
     (if rw_writer l \<noteq> None \<or> rw_readers l \<noteq> [] then (Must_Wait, l)
      else (Acquired, l\<lparr>rw_writer := Some t, isFree := False\<rparr>))"

definition rw_release :: "nat \<Rightarrow> rw_lock \<Rightarrow> rw_result \<times> rw_lock" where
  "rw_release t l =
     (if rw_writer l = Some t then (Released, l\<lparr>rw_writer := None, isFree := True\<rparr>)
      else if t \<in> set (rw_readers l) then (Released, l\<lparr>rw_readers := remove1 t (rw_readers l), isFree := True\<rparr>)
      else (Not_Held, l))"

section \<open>Laws\<close>

lemma at_last_impl_nth: "at_last_impl i arr = (if i < length arr then Some (arr ! (length arr - i - 1)) else None)"
  by (induction arr) (auto simp: nth_Cons Suc_diff_Suc[symmetric] split: nat.splits)

text \<open>\<open>at\<close> is the indexing of an array, and an index that is too large does not compile, whatever the subtraction wraps to.\<close>

lemma meta_at_nth:
  assumes "length arr < 2 ^ 64"
  shows "meta_at index arr = (if unat index < length arr then Some (arr ! unat index) else None)"
proof (cases "unat index < length arr")
  case True
  have "(of_nat (length arr) - index - 1 :: u64) = of_nat (length arr - unat index - 1)"
    using True by (simp add: of_nat_diff)
  moreover have "length arr - unat index - 1 < 2 ^ 64" using assms by simp
  ultimately have "unat (of_nat (length arr) - index - 1 :: u64) = length arr - unat index - 1" by (simp add: unat_of_nat)
  then show ?thesis using True by (simp add: meta_at_def at_last_def at_last_impl_nth)
next
  case False
  let ?d = "unat index - length arr"
  have i: "index = of_nat (length arr + ?d)" using False by simp
  have d: "Suc ?d \<le> 2 ^ 64" using unsigned_less[of index, where 'a = nat] by simp
  have "(of_nat (length arr) - of_nat (length arr + ?d) - 1 :: u64) = - of_nat (Suc ?d)" by simp
  then have "(of_nat (length arr) - index - 1 :: u64) = - of_nat (Suc ?d)" using i by metis
  also have "\<dots> = of_nat (2 ^ 64 - Suc ?d)" using d by (simp add: of_nat_diff)
  finally have "unat (of_nat (length arr) - index - 1 :: u64) = unat (of_nat (2 ^ 64 - Suc ?d) :: u64)" by (rule arg_cong)
  also have "\<dots> = 2 ^ 64 - Suc ?d" by (subst unat_of_nat) (simp del: of_nat_diff)
  finally have "unat (of_nat (length arr) - index - 1 :: u64) = 2 ^ 64 - Suc ?d" .
  moreover have "length arr + Suc ?d \<le> 2 ^ 64" using False unsigned_less[of index, where 'a = nat] by simp
  ultimately show ?thesis using False by (simp add: meta_at_def at_last_def at_last_impl_nth)
qed

text \<open>Increments return the value before: from any start they hand out consecutive numbers, all different until the word wraps.\<close>

lemma interlocked_increments:
  "interlocked (replicate n InterlockedIncrement) v = (map (\<lambda>i. v + of_nat i) [0..<n], v + of_nat n)"
proof (induction n arbitrary: v)
  case (Suc n)
  have "map (\<lambda>i. v + of_nat i) [0..<Suc n] = v # map (\<lambda>i. v + 1 + of_nat i) [0..<n]"
    by (simp add: upt_conv_Cons map_Suc_upt[symmetric] del: upt_Suc)
  then show ?case using Suc[of "v + 1"] by (simp add: InterlockedIncrement_def InterlockedAdd_def ac_simps del: upt_Suc)
qed simp

lemma interlocked_tickets_distinct:
  assumes "n \<le> 2 ^ LENGTH('a)"
  shows "distinct (fst (interlocked (replicate n InterlockedIncrement) (v :: 'a::len word)))"
proof -
  have "inj_on (\<lambda>i. v + of_nat i) {0..<n}"
    using assms by (auto simp: inj_on_def word_of_nat_eq_iff take_bit_nat_eq_self)
  then show ?thesis by (simp add: interlocked_increments distinct_map)
qed

text \<open>Additions of any threads commute: the final value depends only on what was added in all.\<close>

lemma interlocked_adds: "snd (interlocked (map (\<lambda>d v. InterlockedAdd v d) ds) v) = v + of_int (sum_list ds)"
  by (induction ds arbitrary: v) (simp_all add: InterlockedAdd_def split_def ac_simps)

text \<open>A writer excludes everybody else; but the flag says free as soon as one of several readers has gone.\<close>

definition rw_ok :: "rw_lock \<Rightarrow> bool" where
  "rw_ok l \<longleftrightarrow> (rw_writer l \<noteq> None \<longrightarrow> rw_readers l = [])"

lemma rw_ok_steps:
  "rw_ok new_RWLock" "rw_ok l \<Longrightarrow> rw_ok (snd (acquireShared t l))" "rw_ok l \<Longrightarrow> rw_ok (snd (acquireExclusive t l))" "rw_ok l \<Longrightarrow> rw_ok (snd (rw_release t l))"
  by (auto simp: rw_ok_def new_RWLock_def acquireShared_def acquireExclusive_def rw_release_def)

lemma isFree_with_reader:
  "let l = snd (rw_release 1 (snd (acquireShared 2 (snd (acquireShared 1 new_RWLock)))))
   in isFree l \<and> rw_readers l = [2]"
  by (simp add: new_RWLock_def acquireShared_def rw_release_def Let_def)

end
