(* ===== verification/Spec2Isabelle.thy ===== *)
theory Spec2Isabelle
  imports Octet_Order Aes_Kat Dns_Path Descriptors Relay_Limits Object_Pool Thread_Pool Windows Text_Output Sys_Util Win_Condvar Win_Thread Rlib_Misc
begin

text \<open>
  SnakeSocks is a SOCKS5 proxy whose traffic between client and server is encoded by a loadable module.
  The client program (\<open>client.cc\<close>) accepts SOCKS5 connections (\<open>socks5.cc\<close>), opens a tunnel to the server for each
  of them (\<open>connection.hpp\<close>, \<open>tunnel.cc\<close>), authenticates, resolves host names through the tunnel and relays data in
  packets with a length prefix (\<open>NetLib.hpp\<close>). The server program (\<open>server.cc\<close>) authenticates the client, decodes its
  packets, answers DNS queries, connects to the destination and relays in both directions. Modules are
  shared objects with nine C functions (\<open>stdafx.h\<close>); \<open>simple_proxy\<close> and \<open>se_proxy\<close> are the two in the
  repository. Everything stands on the library \<open>rlib\<close>. All paths below are relative to \<open>src/src\<close>.

  \<^bold>\<open>How programs are modelled.\<close> C code of the modules works on an explicit heap of blocks (\<open>C_Heap\<close>); an access outside
  a block, a double free and the like give \<open>None\<close>, and uninitialised memory is an arbitrary function. An address names an allocation and a
  descriptor an open socket: numbers are not given out twice, as they are by \<open>malloc\<close> and the system, so that a use after the end of a life is seen;
  the theorems use the next number only as a name for what is made next. C++
  code with sockets is a function on a \<open>world\<close> (\<open>Cxx_Exec\<close>): the heap, the sockets, the connection records
  and the tasks handed to the thread pool; its outcome is a value, an exception, undefined behaviour, blocking for ever,
  or the end of the process. What the network does is a script of events per socket (segments, interruptions,
  errors, end of stream) that theorems quantify over, so a loop of the program that waits for the network
  is a recursion over the script, and \<open>Blocked\<close> stands for the end of the script. Loops of the program that
  may run for ever on their own (splitting and replacing strings, destroying a list) are partial functions with
  values in \<open>option\<close>; that they end is part of the theorems about them. Machine integers are words of
  their width.

  \<^bold>\<open>Theories and sources.\<close>
  \<^item> \<open>Snake_Prelude\<close>: bytes, words in memory of either byte order, decimal numbers, shared lemmas.
  \<^item> \<open>Octet_Order\<close>: \<open>modules/module_util/octet_order.c\<close>; conversion and back is the identity.
  \<^item> \<open>Fips_197\<close>: AES-128 as the standard defines it, from the field of bytes: the substitution as an inverse and an affine map, the round constants as
    powers, the key schedule word by word, the cipher. Nothing in it is taken from the code.
  \<^item> \<open>Aes_Core\<close>, \<open>Aes_Kat\<close>: \<open>module_util/kokke_aes.c\<close>. Decryption undoes encryption, the key expansion and the encryption of a block are those of
    \<open>Fips_197\<close> (and give its example vectors), and only the first block of a longer text is encrypted.
  \<^item> \<open>Aes_Util\<close>: \<open>module_util/aes.c\<close> and the CBC functions of \<open>kokke_aes.c\<close>; round trips of both.
  \<^item> \<open>C_Heap\<close>, \<open>Module_Api\<close>: memory, and \<open>bss.h\<close>, \<open>conn.h\<close>, \<open>client_query.h\<close>, \<open>stdafx.h\<close>, \<open>module.hpp\<close>, \<open>module.cc\<close>, \<open>module-port.hpp\<close>.
    The locale \<open>message_codec\<close> is the contract between the core and a module.
  \<^item> \<open>Simple_Proxy\<close>: \<open>modules/simple_proxy/simple_proxy.c\<close>; \<open>Se_Proxy\<close>, \<open>Se_Session\<close>: \<open>modules/se_proxy/se_proxy.c\<close>. Both satisfy
    the contract (interpretations \<open>sp_up\<close>, \<open>sp_down\<close>, \<open>se_up\<close>, \<open>se_down\<close>); the session of \<open>se_proxy\<close> gives both sides the
    same key; what the modules do not check is proved as well.
  \<^item> \<open>Cxx_Exec\<close>, \<open>Socket_IO\<close>: execution, and \<open>native/src/lib/rlib/sys/sio.hpp\<close> (POSIX branch). Reading and writing exactly \<open>n\<close> bytes is
    independent of the segmentation; bounds and resources of the other functions.
  \<^item> \<open>Net_Lib\<close>: \<open>native/src/lib/NetLib.hpp\<close>, \<open>NetLib.cc\<close>; packets and DNS queries.
  \<^item> \<open>Tunnel\<close>: \<open>tunnel.hpp\<close>, \<open>tunnel.cc\<close>, \<open>connection.hpp\<close>, \<open>syserr.hpp\<close>; \<open>Addr_Info\<close>, \<open>Socks5\<close>: \<open>socks5.hpp\<close>, \<open>socks5.cc\<close>. Handshake
    and requests, where exceptions end (the handler of \<open>launch\<close> can throw only from its own log call), the two listeners.
  \<^item> \<open>Data_Path\<close>: the composition. The locale \<open>tunnel_module\<close> joins the two directions of a module; in it the
    relay loops of client and server are shown to carry data in order and unchanged, and it is
    interpreted for both modules. \<open>pieces\<close> says how the reads of \<open>readall\<close> and \<open>recvall\<close> cut a stream: it is \<open>None\<close> when a read would wait after 512 bytes,
    where the relay does stall (\<open>Relay_Limits\<close>).
  \<^item> \<open>Session_Path\<close>: authentication over a connection. The locale \<open>authenticating_module\<close> extends \<open>tunnel_module\<close> by the laws of
    the three authentication functions; interpretations \<open>spa\<close> and \<open>sea\<close>.
  \<^item> \<open>End_To_End\<close>: the two programs together, from the greeting of a SOCKS5 client to the bytes the next hop receives, for
    both modules; \<open>Dns_Path\<close>: names resolved at the server's end of the tunnel.
  \<^item> \<open>Descriptors\<close>: the descriptors a connection opens and closes, with an arbitrary module: the server's task gives all of them back on every path,
    the client's leaves one open when the tunnel was connected and could not be authenticated.
  \<^item> \<open>Rlib_String\<close>: \<open>lib/rlib/string.hpp\<close>; \<open>Opt_Parser\<close>: \<open>opt.hpp\<close>; \<open>Rlib_Log\<close>: \<open>log.hpp\<close>; \<open>Config\<close>: \<open>config.hpp\<close>; \<open>Mains\<close>:
    \<open>client.cc\<close>, \<open>server.cc\<close> and \<open>loadSo\<close> of \<open>module.cc\<close>.
  \<^item> \<open>Traceable_List\<close>: \<open>lib/rlib/impl/traceable_list.hpp\<close>, refining lists; \<open>Object_Pool\<close>: \<open>lib/rlib/pool.hpp\<close>, whose threads
    are a step relation over which exclusive lending is an invariant and a lost wake-up is reachable.
  \<^item> \<open>Thread_Pool\<close>: \<open>lib/threadPool.hpp\<close>, the thread that adds tasks and the workers as interleaving machines; which tasks run, and
    runs in which a task is lost or repeated. (The build files of the repository define \<open>___NO_THREAD_POOL\<close>, with which each connection gets a
    detached thread instead of a place in the pool.)
  \<^item> \<open>Relay_Limits\<close>: a stall of the relay that \<open>recvall\<close> causes.
  \<^item> \<open>Windows\<close>: the Windows branches of \<open>sio.hpp\<close>, \<open>tunnel.cc\<close>, \<open>socks5.cc\<close> and \<open>module.cc\<close>, over a state that counts the uses of Winsock and
    the address lists; what they leave behind, and where they differ from the POSIX branches.
  \<^item> \<open>Win_Mutex\<close>, \<open>Win_Condvar\<close>, \<open>Win_Thread\<close>: \<open>native/mingw-thread-fix/mingw.mutex.h\<close>, \<open>mingw.condition_variable.h\<close>, \<open>mingw.thread.h\<close>, the thread classes of the
    MinGW build. The template \<open>_NonRecursive\<close> is verified once over the locale \<open>reentrant\<close>, interpreted for both of its base classes (\<open>rm\<close>, \<open>rtm\<close>); the mutex
    refines a lock with a holder as long as nobody locks it twice. The condition variable is a system of interleaving threads: an invariant for every use shows that
    \<open>notify_all\<close> leaves nobody waiting at either of its exits, a second one for waits without a limit that notifications are exact and can always be completed, and runs show how a
    timed wait breaks \<open>notify_one\<close> and leaves a permit behind \<open>notify_all\<close>. Thread objects give back each handle and each call once.
  \<^item> \<open>Rlib_Guard\<close>: \<open>lib/rlib/scope_guard.hpp\<close>, \<open>functional.hpp\<close>; that the combinator \<open>deferring\<close>, with which the models express \<open>rlib_defer\<close>, is
    what the guard's code does. \<open>Sys_Util\<close>: \<open>lib/rlib/sys/time.hpp\<close>, peer names and flags of \<open>sio.hpp\<close>, the life of a loaded module.
  \<^item> \<open>Rlib_Stdio\<close>: \<open>lib/rlib/stdio.hpp\<close>; \<open>Text_Output\<close>: \<open>lib/rlib/terminal.hpp\<close>, the usage texts, \<open>module_util/fmt.c\<close>.
  \<^item> \<open>Rlib_Misc\<close>: \<open>lib/rlib/meta.hpp\<close>, \<open>lib/atom.h\<close>, \<open>lib/rlib/sys/rwlock.hpp\<close>.
  \<^item> This theory: a property across the logger, the formatter and the SOCKS5 connection.

  \<^bold>\<open>Parameters.\<close> The boost resolver, \<open>getaddrinfo\<close> and the socket calls, boost's property tree and its conversions,
  \<open>dlopen\<close> with \<open>dlsym\<close>, the results of \<open>WSAStartup\<close>, \<open>getpeername\<close>, \<open>inet_ntop\<close> and \<open>fcntl\<close>, \<open>rand\<close>, the result of \<open>_beginthreadex\<close>, the clock with \<open>strftime\<close>, \<open>daemon\<close>, and whether the log call in the handler
  of a client connection throws are arguments of the definitions that use them. Allocation does not fail.

  \<^bold>\<open>Not modelled.\<close> Log lines inside the network code, apart from that of the handler of \<open>launch\<close> (this theory shows how a host name makes both a debug line and
  that handler throw); conversions of strings to floating
  point and the measurement of time; templates and macros that only the compiler evaluates; \<open>unix_handy.hpp\<close>, which the preprocessor
  switches off; a stream that drops its output, whose header does not compile;
  \<open>wait_until\<close> with a predicate of the MinGW condition variable, which does not compile when it is used; example modules, tests, vendored headers and the server in Go.
\<close>

section \<open>Lemmas across components\<close>

lemma int_to_string_no_brace: "CHR ''{'' \<notin> set (int_to_string i)"
  using to_string_digits by (auto simp: int_to_string_def)

text \<open>A text with an unescaped placeholder inside, after a beginning without one.\<close>

lemma formatted_around:
  assumes i: "std_find placeholder t 0 = Some i" "i = 0 \<or> t ! (i - 1) \<noteq> CHR 0x5C"
    and a: "CHR ''{'' \<notin> set a" "a \<noteq> []" "last a \<noteq> CHR 0x5C"
  shows "formatted (a @ t @ b) [] = Throw (not_enough_args (a @ t @ b) 1 0)"
proof (rule formatted_too_few)
  show "std_find placeholder (a @ t @ b) 0 = Some (length a + i)" by (rule std_find_append[OF a(1) i(1)])
  have "drop i t \<noteq> []" using i(1) by (auto simp: placeholder_def std_find_Some_iff)
  then have l: "i < length t" by simp
  show "length a + i = 0 \<or> (a @ t @ b) ! (length a + i - 1) \<noteq> CHR 0x5C"
  proof (cases "i = 0")
    case True
    then show ?thesis using a(2,3) by (simp add: nth_append last_conv_nth)
  next
    case False
    then obtain j where j: "i = Suc j" by (cases i) auto
    then have "(a @ t @ b) ! (length a + i - 1) = t ! j" using l by (simp add: nth_append)
    then show ?thesis using i(2) False j by simp
  qed
qed

lemma log_throws: "formatted info [] = Throw ex \<Longrightarrow> level \<le> log_level l \<Longrightarrow> log l time level info [] env = (Throw ex, env)"
  by (simp add: log_def)

section \<open>Properties\<close>

text \<open>
  C39: a host name can end the client. With debug logging on, a SOCKS5 request for a name that contains an
  unescaped \<open>{}\<close> makes the call that logs the name throw \<open>out_of_range\<close>, because the name is
  taken for a format string; the handler of the connection's thread builds its message from the exception's
  text, which repeats the name, and logging that message throws again. Nothing catches the second
  exception, so the whole process terminates.
\<close>

theorem braces_in_domain_escape_handler:
  fixes domain :: bytes
  defines "name \<equiv> string_of_bytes domain"
  assumes "std_find placeholder name 0 = Some i" "i = 0 \<or> name ! (i - 1) \<noteq> CHR 0x5C" "DEBUG \<le> log_level l"
  shows "\<exists>ex msg ex'. log_debug l time (print_addr (set_domain domain a)) [] env = (Throw ex, env) \<and>
    formatted ''Exception caught from child thread: At connection {}:{}.'' [int_to_string fd, exn_what ex] = Ok msg \<and>
    log_error l time' msg [] env = (Throw ex', env)"
proof -
  let ?p = "''domain '' @ name"
  let ?ex = "not_enough_args ?p 1 0"
  have p: "print_addr (set_domain domain a) = ?p" by (simp add: print_addr_def set_domain_def name_def)
  have "formatted (''domain '' @ name @ []) [] = Throw (not_enough_args (''domain '' @ name @ []) 1 0)"
    by (rule formatted_around[OF assms(2,3)]) simp_all
  then have d: "log_debug l time (print_addr (set_domain domain a)) [] env = (Throw ?ex, env)"
    using assms(4) by (simp add: p log_debug_def log_throws)
  let ?a = "''Exception caught from child thread: At connection '' @ int_to_string fd @ '':'' @
    ''format_string: not enough arguments for format string `domain ''"
  let ?b = "''`. Expecting at least '' @ to_string 1 @ '', got '' @ to_string 0 @ ''.''"
  have what: "exn_what ?ex = ''format_string: not enough arguments for format string `'' @ ?p @
      ''`. Expecting at least '' @ to_string 1 @ '', got '' @ to_string 0"
    by (simp only: exn_what_def not_enough_args_def exn.case)
  have m: "formatted ''Exception caught from child thread: At connection {}:{}.'' [int_to_string fd, exn_what ?ex] = Ok (?a @ name @ ?b)"
    unfolding what by (simp add: handler_layout)
  have "formatted (?a @ name @ ?b) [] = Throw (not_enough_args (?a @ name @ ?b) 1 0)"
    by (rule formatted_around[OF assms(2,3)]) (simp_all add: int_to_string_no_brace)
  then have "log_error l time' (?a @ name @ ?b) [] env = (Throw (not_enough_args (?a @ name @ ?b) 1 0), env)"
    unfolding log_error_def by (rule log_throws) (use assms(4) in simp)
  with d m show ?thesis by blast
qed

theorem braces_in_domain_escape_handler_witness:
  "\<exists>ex msg ex'. log_debug ((new_logger_stream 0)\<lparr>log_level := DEBUG\<rparr>) ''t'' (print_addr (set_domain [97, 123, 125] (addr_info_null 0))) []
      \<lparr>out = [0 \<mapsto> []], next_stream = 1, max_predefined_log_level = 6\<rparr> = (Throw ex, \<lparr>out = [0 \<mapsto> []], next_stream = 1, max_predefined_log_level = 6\<rparr>) \<and>
    formatted ''Exception caught from child thread: At connection {}:{}.'' [int_to_string 5, exn_what ex] = Ok msg \<and>
    log_error ((new_logger_stream 0)\<lparr>log_level := DEBUG\<rparr>) ''t'' msg [] \<lparr>out = [0 \<mapsto> []], next_stream = 1, max_predefined_log_level = 6\<rparr> =
      (Throw ex', \<lparr>out = [0 \<mapsto> []], next_stream = 1, max_predefined_log_level = 6\<rparr>)"
proof (rule braces_in_domain_escape_handler[of _ 1])
  show "std_find placeholder (string_of_bytes [97, 123, 125]) 0 = Some 1" by code_simp
  show "(1 :: nat) = 0 \<or> string_of_bytes [97, 123, 125] ! (1 - 1) \<noteq> CHR 0x5C" by code_simp
qed simp

end
